(* ===== verification/Anu_Prelude.thy ===== *)
theory Anu_Prelude
  imports Main "HOL-Library.Word" "HOL-Library.Char_ord" "HOL-Library.List_Lexorder" "HOL-Library.Sublist"
begin

text \<open>
  Shared vocabulary of the AnuDB development.

  \<^item> \<open>exn\<close> and \<open>outcome\<close>: the C++ exceptions the program can raise, and the three ways a
    C++ call ends: it returns, it throws, or it runs into undefined behaviour.
  \<^item> \<open>comp\<close>: a computation over a state; the state reached is kept in all three cases, so the
    partial effects of a call that throws are visible.
  \<^item> ordered association lists: the model of \<^verbatim>\<open>std::map\<close> and of a RocksDB column family, with the
    interface \<open>ordered_map\<close> as a locale.
  \<^item> byte strings: \<^verbatim>\<open>std::string\<close>, \<^verbatim>\<open>rocksdb::Slice\<close> and \<^verbatim>\<open>std::vector<uint8_t>\<close> are all \<open>char list\<close>
    (a HOL \<open>char\<close> is one byte); the library order on them is the bytewise one.
\<close>

named_theorems comp_simps \<open>evaluation of computations\<close>
named_theorems codec_simps \<open>lengths and values of byte encodings\<close>

section \<open>Exceptions and outcomes\<close>

text \<open>A \<open>syntax_error\<close> is a \<^verbatim>\<open>parse_error\<close> with the line and the column of a text in its message.\<close>

datatype exn =
    parse_error nat nat string
  | syntax_error nat nat nat string
  | invalid_iterator nat string
  | type_error nat string
  | out_of_range nat string
  | std_invalid_argument string
  | std_out_of_range string
  | runtime_error string

datatype 'a outcome = Ret 'a | Throw exn | Undef

type_synonym ('s, 'a) comp = "'s \<Rightarrow> 'a outcome \<times> 's"

definition returnM :: "'a \<Rightarrow> ('s, 'a) comp" where
  "returnM x = (\<lambda>s. (Ret x, s))"

definition throwM :: "exn \<Rightarrow> ('s, 'a) comp" where
  "throwM e = (\<lambda>s. (Throw e, s))"

definition undefM :: "('s, 'a) comp" where
  "undefM = (\<lambda>s. (Undef, s))"

definition bindM :: "('s, 'a) comp \<Rightarrow> ('a \<Rightarrow> ('s, 'b) comp) \<Rightarrow> ('s, 'b) comp" where
  "bindM m f = (\<lambda>s. case m s of
       (Ret x, s') \<Rightarrow> f x s'
     | (Throw e, s') \<Rightarrow> (Throw e, s')
     | (Undef, s') \<Rightarrow> (Undef, s'))"

definition catchM :: "('s, 'a) comp \<Rightarrow> (exn \<Rightarrow> ('s, 'a) comp) \<Rightarrow> ('s, 'a) comp" where
  "catchM m h = (\<lambda>s. case m s of
       (Ret x, s') \<Rightarrow> (Ret x, s')
     | (Throw e, s') \<Rightarrow> h e s'
     | (Undef, s') \<Rightarrow> (Undef, s'))"

definition liftO :: "'a outcome \<Rightarrow> ('s, 'a) comp" where
  "liftO r = (\<lambda>s. (r, s))"

definition getM :: "('s, 's) comp" where
  "getM = (\<lambda>s. (Ret s, s))"

fun bindO :: "'a outcome \<Rightarrow> ('a \<Rightarrow> 'b outcome) \<Rightarrow> 'b outcome" where
  "bindO (Ret x) f = f x"
| "bindO (Throw e) f = Throw e"
| "bindO Undef f = Undef"

fun mapM_O :: "('a \<Rightarrow> 'b outcome) \<Rightarrow> 'a list \<Rightarrow> 'b list outcome" where
  "mapM_O f [] = Ret []"
| "mapM_O f (x # xs) = bindO (f x) (\<lambda>y. bindO (mapM_O f xs) (\<lambda>ys. Ret (y # ys)))"

text \<open>A C++ loop over a range whose body may throw: the effects of the rounds before stay.\<close>

fun forM :: "('a \<Rightarrow> ('s, unit) comp) \<Rightarrow> 'a list \<Rightarrow> ('s, unit) comp" where
  "forM f [] = returnM ()"
| "forM f (x # xs) = bindM (f x) (\<lambda>_. forM f xs)"

definition putM :: "'s \<Rightarrow> ('s, unit) comp" where
  "putM t = (\<lambda>s. (Ret (), t))"

section \<open>Ordered association lists\<close>

type_synonym ('k, 'v) omap = "('k \<times> 'v) list"

fun om_update :: "'k::linorder \<Rightarrow> 'v \<Rightarrow> ('k, 'v) omap \<Rightarrow> ('k, 'v) omap" where
  "om_update k v [] = [(k, v)]"
| "om_update k v ((k', v') # m) =
     (if k < k' then (k, v) # (k', v') # m
      else if k = k' then (k, v) # m
      else (k', v') # om_update k v m)"

fun om_delete :: "'k \<Rightarrow> ('k, 'v) omap \<Rightarrow> ('k, 'v) omap" where
  "om_delete k [] = []"
| "om_delete k ((k', v') # m) = (if k = k' then m else (k', v') # om_delete k m)"

definition om_ok :: "('k::linorder, 'v) omap \<Rightarrow> bool" where
  "om_ok m = sorted_wrt (<) (map fst m)"

section \<open>Decimal numerals\<close>

fun to_string :: "nat \<Rightarrow> string" where
  "to_string n = (if n < 10 then [char_of (48 + n)] else to_string (n div 10) @ [char_of (48 + n mod 10)])"

declare to_string.simps [simp del]

section \<open>String searching\<close>

fun find_sub :: "string \<Rightarrow> string \<Rightarrow> nat option" where
  "find_sub pat [] = (if pat = [] then Some 0 else None)"
| "find_sub pat (c # cs) = (if prefix pat (c # cs) then Some 0 else map_option Suc (find_sub pat cs))"

text \<open>\<open>getline (ss, token, sep)\<close> called until it fails: the pieces between separators; a last
  piece that is empty is not delivered, because the stream is then at its end.\<close>

fun getline_all :: "char \<Rightarrow> string \<Rightarrow> string \<Rightarrow> string list" where
  "getline_all sep acc [] = (if acc = [] then [] else [acc])"
| "getline_all sep acc (c # cs) = (if c = sep then acc # getline_all sep [] cs else getline_all sep (acc @ [c]) cs)"

section \<open>Big-endian byte strings\<close>

fun be_bytes :: "nat \<Rightarrow> nat \<Rightarrow> string" where
  "be_bytes 0 v = []"
| "be_bytes (Suc n) v = char_of (v div 256 ^ n) # be_bytes n v"

fun be_acc :: "nat \<Rightarrow> string \<Rightarrow> nat" where
  "be_acc a [] = a"
| "be_acc a (c # cs) = be_acc (a * 256 + of_char c) cs"

definition be_val :: "string \<Rightarrow> nat" where
  "be_val s = be_acc 0 s"

section \<open>Lemmas: computations\<close>

lemma returnM_run [comp_simps]: "returnM x s = (Ret x, s)"
  by (simp add: returnM_def)

lemma throwM_run [comp_simps]: "throwM e s = (Throw e, s)"
  by (simp add: throwM_def)

lemma undefM_run [comp_simps]: "undefM s = (Undef, s)"
  by (simp add: undefM_def)

lemma liftO_run [comp_simps]: "liftO r s = (r, s)"
  by (simp add: liftO_def)

lemma getM_run [comp_simps]: "getM s = (Ret s, s)"
  by (simp add: getM_def)

lemma bindM_Ret [comp_simps]: "m s = (Ret x, s') \<Longrightarrow> bindM m f s = f x s'"
  by (simp add: bindM_def)

lemma bindM_Throw [comp_simps]: "m s = (Throw e, s') \<Longrightarrow> bindM m f s = (Throw e, s')"
  by (simp add: bindM_def)

lemma bindM_Undef [comp_simps]: "m s = (Undef, s') \<Longrightarrow> bindM m f s = (Undef, s')"
  by (simp add: bindM_def)

lemma catchM_Ret [comp_simps]: "m s = (Ret x, s') \<Longrightarrow> catchM m h s = (Ret x, s')"
  by (simp add: catchM_def)

lemma catchM_Throw [comp_simps]: "m s = (Throw e, s') \<Longrightarrow> catchM m h s = h e s'"
  by (simp add: catchM_def)

lemma putM_run [comp_simps]: "putM t s = (Ret (), t)"
  by (simp add: putM_def)

text \<open>An invariant every round keeps, whether it returns or throws, is kept by the loop.\<close>

lemma bindM_keeps:
  assumes "I s" and "\<And>s. I s \<Longrightarrow> I (snd (m s))" and "\<And>x s. I s \<Longrightarrow> I (snd (f x s))"
  shows "I (snd (bindM m f s))"
  using assms by (auto simp: bindM_def split: prod.splits outcome.splits) (metis snd_conv)+

lemma forM_keeps:
  assumes "I s" and "\<And>x s. x \<in> set xs \<Longrightarrow> I s \<Longrightarrow> I (snd (f x s))"
  shows "I (snd (forM f xs s))"
  using assms
proof (induction xs arbitrary: s)
  case (Cons x xs)
  then have "I (snd (f x s))" by simp
  with Cons show ?case by (cases "f x s"; cases "fst (f x s)") (auto simp: bindM_def)
qed (simp add: comp_simps)

lemma bindO_Undef: "bindO m f = Undef \<longleftrightarrow> m = Undef \<or> (\<exists>x. m = Ret x \<and> f x = Undef)"
  by (cases m) auto

lemma bindM_return_left: "bindM (returnM x) f = f x"
  by (simp add: fun_eq_iff bindM_def returnM_def)

lemma bindM_assoc: "bindM (bindM m f) g = bindM m (\<lambda>x. bindM (f x) g)"
  by (auto simp: fun_eq_iff bindM_def split: prod.splits outcome.splits)

lemma bindM_cases:
  assumes "bindM m f s = (r, t)"
  obtains (Ret) x s' where "m s = (Ret x, s')" "f x s' = (r, t)"
  | (Throw) e where "m s = (Throw e, t)" "r = Throw e"
  | (Undef) "m s = (Undef, t)" "r = Undef"
  using assms by (auto simp: bindM_def split: prod.splits outcome.splits)

section \<open>Lemmas: byte strings\<close>

lemma be_acc_split: "be_acc a s = a * 256 ^ length s + be_val s"
proof (induction s arbitrary: a)
  case (Cons c s)
  have "be_acc a (c # s) = (a * 256 + of_char c) * 256 ^ length s + be_val s"
    by (simp add: Cons.IH)
  moreover have "be_val (c # s) = of_char c * 256 ^ length s + be_val s"
    unfolding be_val_def [of "c # s"] by (simp add: Cons.IH)
  ultimately show ?case by (simp add: algebra_simps)
qed (simp add: be_val_def)

lemma be_val_Nil [simp]: "be_val [] = 0"
  by (simp add: be_val_def)

lemma be_val_Cons: "be_val (c # s) = of_char c * 256 ^ length s + be_val s"
  using be_acc_split [of "of_char c" s] by (simp add: be_val_def)

lemma length_be_bytes [simp, codec_simps]: "length (be_bytes n v) = n"
  by (induction n) auto

lemma be_val_less: "be_val s < 256 ^ length s"
proof (induction s)
  case (Cons c s)
  have "of_char c < (256::nat)" by (rule nat_of_char_less_256)
  then have "of_char c + 1 \<le> (256::nat)" by linarith
  then have le: "(of_char c + 1) * 256 ^ length s \<le> (256::nat) * 256 ^ length s"
    by (intro mult_right_mono) simp_all
  have "be_val (c # s) < (of_char c + 1) * 256 ^ length s"
    using Cons.IH by (simp add: be_val_Cons algebra_simps)
  also note le
  finally show ?case by simp
qed simp

lemma be_val_be_bytes [simp, codec_simps]: "be_val (be_bytes n v) = v mod 256 ^ n"
proof (induction n)
  case (Suc n)
  have "v mod 256 ^ Suc n = (v div 256 ^ n mod 256) * 256 ^ n + v mod 256 ^ n"
    by (metis add.commute mod_mult2_eq mult.commute power_Suc)
  with Suc show ?case by (simp add: be_val_Cons)
qed simp

lemma be_bytes_mod [simp]: "be_bytes n (v mod 256 ^ n) = be_bytes n v"
proof -
  have "be_bytes n (v mod 256 ^ m) = be_bytes n v" if "n \<le> m" for m
    using that
  proof (induction n)
    case (Suc n)
    then obtain d where m: "m = n + Suc d" by (metis add_Suc_right less_iff_Suc_add Suc_le_eq)
    have "v mod 256 ^ m div 256 ^ n = v div 256 ^ n mod 256 ^ Suc d"
      unfolding m by (simp only: power_add mod_mult2_eq) simp
    then have "(v mod 256 ^ m div 256 ^ n) mod 256 = (v div 256 ^ n) mod 256"
      by (simp add: mod_mod_cancel)
    then have "(char_of (v mod 256 ^ m div 256 ^ n) :: char) = char_of (v div 256 ^ n)"
      by (metis char_of_mod_256)
    with Suc show ?case by simp
  qed simp
  then show ?thesis by blast
qed

lemma be_bytes_be_val [simp]: "be_bytes (length s) (be_val s) = s"
proof (induction s)
  case (Cons c s)
  have b: "be_val s < 256 ^ length s" by (rule be_val_less)
  have "be_val (c # s) div 256 ^ length s = of_char c"
    using b by (simp add: be_val_Cons)
  moreover have "be_bytes (length s) (be_val (c # s)) = be_bytes (length s) (be_val s)"
    using be_bytes_mod [of "length s" "be_val (c # s)"] b by (simp add: be_val_Cons)
  ultimately show ?case using Cons.IH by simp
qed simp

lemma be_val_inject: "length s = length t \<Longrightarrow> be_val s = be_val t \<longleftrightarrow> s = t"
  by (metis be_bytes_be_val)

lemma less_append_same_length:
  fixes s t x y :: "'a::linorder list"
  assumes "length s = length t"
  shows "s @ x < t @ y \<longleftrightarrow> s < t \<or> s = t \<and> x < y"
  using assms by (induction s t rule: list_induct2) auto

lemma be_val_less_iff:
  assumes "length s = length t"
  shows "s < t \<longleftrightarrow> be_val s < be_val t"
  using assms
proof (induction s t rule: list_induct2)
  case (Cons c s d t)
  let ?p = "256 ^ length t :: nat"
  have bs: "be_val s < ?p" and bt: "be_val t < ?p"
    using be_val_less [of s] be_val_less [of t] Cons.hyps by simp_all
  have step: "be_val (c' # s') < be_val (d' # t')"
    if "of_char c' < (of_char d' :: nat)" "length s' = length t'" for c' d' s' t'
  proof -
    have "be_val (c' # s') < (of_char c' + 1) * 256 ^ length t'"
      using be_val_less [of s'] that by (simp add: be_val_Cons)
    also have "\<dots> \<le> of_char d' * 256 ^ length t'"
      using that by (intro mult_right_mono) auto
    also have "\<dots> \<le> be_val (d' # t')" by (simp add: be_val_Cons)
    finally show ?thesis .
  qed
  consider "c < d" | "c = d" | "d < c" by (rule linorder_cases)
  then show ?case
  proof cases
    case 1
    then show ?thesis using step [of c d s t] Cons.hyps by (simp add: less_char_def)
  next
    case 2
    then show ?thesis using Cons by (simp add: be_val_Cons)
  next
    case 3
    then show ?thesis using step [of d c t s] Cons.hyps by (auto simp: less_char_def)
  qed
qed simp

lemma be_bytes_less_iff:
  "v < 256 ^ n \<Longrightarrow> w < 256 ^ n \<Longrightarrow> be_bytes n v < be_bytes n w \<longleftrightarrow> v < w"
  by (simp add: be_val_less_iff)

section \<open>Lemmas: strings\<close>

lemma find_sub_None: "find_sub pat s = None \<longleftrightarrow> \<not> sublist pat s"
  by (induction pat s rule: find_sub.induct) (auto simp: sublist_Cons_right)

lemma find_sub_Some:
  "find_sub pat s = Some n \<Longrightarrow> n \<le> length s \<and> prefix pat (drop n s) \<and> (\<forall>m < n. \<not> prefix pat (drop m s))"
proof (induction pat s arbitrary: n rule: find_sub.induct)
  case (2 pat c cs)
  show ?case
  proof (cases "prefix pat (c # cs)")
    case False
    with 2 obtain k where k: "n = Suc k" "find_sub pat cs = Some k" by auto
    with 2(1) [OF False k(2)] False show ?thesis
      by (auto simp: less_Suc_eq_0_disj)
  qed (use 2 in auto)
qed (auto split: if_splits)

lemma find_sub_first:
  assumes "prefix pat (drop n s)" and "\<forall>m < n. \<not> prefix pat (drop m s)" and "n \<le> length s"
  shows "find_sub pat s = Some n"
  using assms
proof (induction pat s arbitrary: n rule: find_sub.induct)
  case (2 pat c cs)
  show ?case
  proof (cases n)
    case (Suc k)
    have np: "\<not> prefix pat (c # cs)" using 2(3) Suc by force
    have "\<forall>m < k. \<not> prefix pat (drop m cs)"
      using 2(3) Suc by (metis Suc_less_eq drop_Suc_Cons)
    with 2 Suc np show ?thesis by simp
  qed (use 2 in simp)
qed (auto)

section \<open>Lemmas: ordered association lists\<close>

lemma om_ok_Nil [simp]: "om_ok []"
  by (simp add: om_ok_def)

lemma om_ok_Cons: "om_ok ((k, v) # m) \<longleftrightarrow> (\<forall>k' \<in> fst ` set m. k < k') \<and> om_ok m"
  by (auto simp: om_ok_def)

lemma om_update_keys: "fst ` set (om_update k v m) = insert k (fst ` set m)"
  by (induction k v m rule: om_update.induct) (simp_all add: insert_commute)

lemma om_delete_keys: "fst ` set (om_delete k m) \<subseteq> fst ` set m"
  by (induction k m rule: om_delete.induct) (simp_all add: subset_insertI2 subset_insertI)

lemma om_ok_update: "om_ok m \<Longrightarrow> om_ok (om_update k v m)"
proof (induction k v m rule: om_update.induct)
  case (2 k v k' v' m)
  then show ?case by (cases "k < k'"; cases "k = k'") (simp_all add: om_ok_Cons om_update_keys, force)
qed (simp add: om_ok_Cons)

lemma om_ok_delete: "om_ok m \<Longrightarrow> om_ok (om_delete k m)"
proof (induction k m rule: om_delete.induct)
  case (2 k k' v' m)
  then have "\<forall>x \<in> fst ` set (om_delete k m). k' < x"
    using om_delete_keys [of k m] unfolding om_ok_Cons by blast
  with 2 show ?case by (cases "k = k'") (simp_all add: om_ok_Cons)
qed simp

lemma om_lookup_update: "map_of (om_update k v m) = (map_of m)(k \<mapsto> v)"
  by (induction m) (auto simp: fun_eq_iff)

lemma om_ok_distinct: "om_ok m \<Longrightarrow> distinct (map fst m)"
  by (simp add: om_ok_def strict_sorted_iff)

lemma om_lookup_delete: "om_ok m \<Longrightarrow> map_of (om_delete k m) = (map_of m)(k := None)"
proof (induction m)
  case (Cons p m)
  obtain k' v' where p: "p = (k', v')" by force
  from Cons.prems p have "k' \<notin> fst ` set m" and "om_ok m"
    by (auto simp: om_ok_Cons)
  then have "map_of m k' = None" by (simp add: map_of_eq_None_iff)
  with Cons p \<open>om_ok m\<close> show ?case by (auto simp: fun_eq_iff)
qed simp

lemma om_lookup_mem: "om_ok m \<Longrightarrow> map_of m k = Some v \<longleftrightarrow> (k, v) \<in> set m"
  by (simp add: om_ok_distinct)

lemma list_all_om_update: "list_all P m \<Longrightarrow> P (k, v) \<Longrightarrow> list_all P (om_update k v m)"
  by (induction k v m rule: om_update.induct) auto

lemma list_all_om_delete: "list_all P m \<Longrightarrow> list_all P (om_delete k m)"
  by (induction k m rule: om_delete.induct) auto

lemma om_ok_filter: "om_ok m \<Longrightarrow> om_ok (filter P m)"
  by (induction m) (auto simp: om_ok_Cons)

lemma fold_om_update_lookup:
  "distinct (map fst ops) \<Longrightarrow>
     map_of (fold (\<lambda>(k, v). om_update k v) ops m) k = (case map_of ops k of Some v \<Rightarrow> Some v | None \<Rightarrow> map_of m k)"
proof (induction ops arbitrary: m)
  case (Cons p ops)
  obtain k' v' where p: "p = (k', v')" by force
  with Cons.prems have "map_of ops k' = None" by (simp add: map_of_eq_None_iff)
  with Cons p show ?case by (auto simp: om_lookup_update split: option.splits)
qed simp

lemma fold_om_update_ok: "om_ok m \<Longrightarrow> om_ok (fold (\<lambda>(k, v). om_update k v) ops m)"
  by (induction ops arbitrary: m) (auto simp: om_ok_update)

text \<open>The contract of an ordered key-value map, as \<^verbatim>\<open>std::map\<close> and a column family give it.\<close>

locale ordered_map =
  fixes update :: "'k::linorder \<Rightarrow> 'v \<Rightarrow> 'm \<Rightarrow> 'm"
    and delete :: "'k \<Rightarrow> 'm \<Rightarrow> 'm"
    and lookup :: "'m \<Rightarrow> 'k \<Rightarrow> 'v option"
    and entries :: "'m \<Rightarrow> ('k \<times> 'v) list"
    and invar :: "'m \<Rightarrow> bool"
  assumes lookup_update: "invar m \<Longrightarrow> lookup (update k v m) = (lookup m)(k \<mapsto> v)"
    and lookup_delete: "invar m \<Longrightarrow> lookup (delete k m) = (lookup m)(k := None)"
    and invar_update: "invar m \<Longrightarrow> invar (update k v m)"
    and invar_delete: "invar m \<Longrightarrow> invar (delete k m)"
    and entries_sorted: "invar m \<Longrightarrow> sorted_wrt (<) (map fst (entries m))"
    and entries_lookup: "invar m \<Longrightarrow> (k, v) \<in> set (entries m) \<longleftrightarrow> lookup m k = Some v"
begin

lemma delete_then_update: "invar m \<Longrightarrow> lookup (update k v (delete k m)) = (lookup m)(k \<mapsto> v)"
  by (simp add: lookup_update lookup_delete invar_delete)

lemma update_frame: "invar m \<Longrightarrow> k \<noteq> k' \<Longrightarrow> lookup (update k v m) k' = lookup m k'"
  by (simp add: lookup_update)

lemma entries_update:
  "invar m \<Longrightarrow> set (entries (update k v m)) = insert (k, v) {p \<in> set (entries m). fst p \<noteq> k}"
  by (auto simp: entries_lookup lookup_update invar_update split: if_splits)

lemma entries_delete:
  "invar m \<Longrightarrow> set (entries (delete k m)) = {p \<in> set (entries m). fst p \<noteq> k}"
  by (auto simp: entries_lookup lookup_delete invar_delete split: if_splits)

lemma entries_distinct: "invar m \<Longrightarrow> distinct (map fst (entries m))"
  using entries_sorted by (simp add: strict_sorted_iff)

end

interpretation om: ordered_map om_update om_delete map_of "\<lambda>m. m" om_ok
  by unfold_locales
    (simp_all add: om_lookup_update om_lookup_delete om_ok_update om_ok_delete om_lookup_mem, simp add: om_ok_def)

end
