(* ===== verification/Anu_Status.thy ===== *)
theory Anu_Status
  imports Anu_Prelude
begin

text \<open>The class \<^verbatim>\<open>anudb::Status\<close> of \<^verbatim>\<open>src/Status.h\<close>: a code and a message.\<close>

datatype status_code =
    OKAY | NOT_FOUND | CORRUPTION | NOT_SUPPORTED | INVALID_ARGUMENT | IO_ERROR | INTERNAL_ERROR

record status =
  st_code :: status_code
  st_msg :: string

definition ok :: "status \<Rightarrow> bool" where
  "ok s = (st_code s = OKAY)"

definition isNotFound :: "status \<Rightarrow> bool" where
  "isNotFound s = (st_code s = NOT_FOUND)"

definition StatusOK :: status where
  "StatusOK = \<lparr>st_code = OKAY, st_msg = []\<rparr>"

definition NotFound :: "string \<Rightarrow> status" where
  "NotFound m = \<lparr>st_code = NOT_FOUND, st_msg = m\<rparr>"

definition Corruption :: "string \<Rightarrow> status" where
  "Corruption m = \<lparr>st_code = CORRUPTION, st_msg = m\<rparr>"

definition NotSupported :: "string \<Rightarrow> status" where
  "NotSupported m = \<lparr>st_code = NOT_SUPPORTED, st_msg = m\<rparr>"

definition InvalidArgument :: "string \<Rightarrow> status" where
  "InvalidArgument m = \<lparr>st_code = INVALID_ARGUMENT, st_msg = m\<rparr>"

definition IOError :: "string \<Rightarrow> status" where
  "IOError m = \<lparr>st_code = IO_ERROR, st_msg = m\<rparr>"

definition InternalError :: "string \<Rightarrow> status" where
  "InternalError m = \<lparr>st_code = INTERNAL_ERROR, st_msg = m\<rparr>"

lemmas status_defs = StatusOK_def NotFound_def Corruption_def NotSupported_def InvalidArgument_def
  IOError_def InternalError_def

lemma ok_simps [simp]:
  "ok StatusOK" "\<not> ok (NotFound m)" "\<not> ok (Corruption m)" "\<not> ok (NotSupported m)"
  "\<not> ok (InvalidArgument m)" "\<not> ok (IOError m)" "\<not> ok (InternalError m)"
  by (simp_all add: ok_def status_defs)

lemma isNotFound_simps [simp]:
  "\<not> isNotFound StatusOK" "isNotFound (NotFound m)" "\<not> isNotFound (Corruption m)"
  "\<not> isNotFound (NotSupported m)" "\<not> isNotFound (InvalidArgument m)" "\<not> isNotFound (IOError m)"
  "\<not> isNotFound (InternalError m)"
  by (simp_all add: isNotFound_def status_defs)

lemma isNotFound_not_ok: "isNotFound s \<Longrightarrow> \<not> ok s"
  by (simp add: ok_def isNotFound_def)

end
