(* ===== verification/Anu_Rocks.thy ===== *)
theory Anu_Rocks
  imports Anu_Status
begin

text \<open>
  The embedded store RocksDB as its public interface (\<^verbatim>\<open>rocksdb/db.h\<close>, \<^verbatim>\<open>rocksdb/iterator.h\<close>) documents
  it: a database is a set of column families, each an ordered map from byte strings to byte strings
  under bytewise comparison (\<^verbatim>\<open>Slice::compare\<close>, the default comparator). A handle is the number of a
  column family; a dropped family is gone. The list \<open>faults\<close> holds the status the environment
  answers each coming call with; a call answered with a failure has no effect. An exhausted list
  stands for a store that works. An iterator is a snapshot of one family with a position; an
  iterator that could not be created is never valid and keeps the failure.
\<close>

datatype rstatus = ROk | RNotFound | RError string

definition r_to_string :: "rstatus \<Rightarrow> string" where
  "r_to_string s = (case s of ROk \<Rightarrow> ''OK'' | RNotFound \<Rightarrow> ''NotFound: '' | RError m \<Rightarrow> m)"

type_synonym kv = "(string, string) omap"

record rocks =
  families :: "(nat, string \<times> kv) omap"
  next_family :: nat
  faults :: "rstatus list"
  created :: bool
  locked :: bool

definition default_family :: string where
  "default_family = ''default''"

definition answer :: "rocks \<Rightarrow> rstatus \<times> rocks" where
  "answer r = (case faults r of [] \<Rightarrow> (ROk, r) | s # ss \<Rightarrow> (s, r\<lparr>faults := ss\<rparr>))"

definition family :: "nat \<Rightarrow> rocks \<Rightarrow> (string \<times> kv) option" where
  "family h r = map_of (families r) h"

definition family_named :: "string \<Rightarrow> rocks \<Rightarrow> nat option" where
  "family_named n r = map_of (map (\<lambda>(h, nm, kv). (nm, h)) (families r)) n"

section \<open>Reading and writing\<close>

definition rocks_write :: "nat \<Rightarrow> (kv \<Rightarrow> kv) \<Rightarrow> rocks \<Rightarrow> rstatus \<times> rocks" where
  "rocks_write h f r =
     (case answer r of (s, r1) \<Rightarrow>
        if s \<noteq> ROk then (s, r1)
        else (case family h r1 of
            None \<Rightarrow> (RError ''Invalid argument: column family not found'', r1)
          | Some (n, kv) \<Rightarrow> (ROk, r1\<lparr>families := om_update h (n, f kv) (families r1)\<rparr>)))"

definition rocks_put :: "nat \<Rightarrow> string \<Rightarrow> string \<Rightarrow> rocks \<Rightarrow> rstatus \<times> rocks" where
  "rocks_put h k v = rocks_write h (om_update k v)"

definition rocks_delete :: "nat \<Rightarrow> string \<Rightarrow> rocks \<Rightarrow> rstatus \<times> rocks" where
  "rocks_delete h k = rocks_write h (om_delete k)"

definition rocks_get :: "nat \<Rightarrow> string \<Rightarrow> rocks \<Rightarrow> (rstatus \<times> string) \<times> rocks" where
  "rocks_get h k r =
     (case answer r of (s, r1) \<Rightarrow>
        if s \<noteq> ROk then ((s, []), r1)
        else (case family h r1 of
            None \<Rightarrow> ((RError ''Invalid argument: column family not found'', []), r1)
          | Some (n, kv) \<Rightarrow> (case map_of kv k of None \<Rightarrow> ((RNotFound, []), r1) | Some v \<Rightarrow> ((ROk, v), r1))))"

section \<open>Column families\<close>

definition rocks_create :: "string \<Rightarrow> rocks \<Rightarrow> (rstatus \<times> nat) \<times> rocks" where
  "rocks_create n r =
     (case answer r of (s, r1) \<Rightarrow>
        if s \<noteq> ROk then ((s, 0), r1)
        else if family_named n r1 \<noteq> None then ((RError ''Invalid argument: Column family already exists'', 0), r1)
        else ((ROk, next_family r1),
              r1\<lparr>families := om_update (next_family r1) (n, []) (families r1), next_family := Suc (next_family r1)\<rparr>))"

definition rocks_drop :: "nat \<Rightarrow> rocks \<Rightarrow> rstatus \<times> rocks" where
  "rocks_drop h r =
     (case answer r of (s, r1) \<Rightarrow>
        if s \<noteq> ROk then (s, r1)
        else if h = 0 then (RError ''Invalid argument: Can't drop default column family'', r1)
        else (ROk, r1\<lparr>families := om_delete h (families r1)\<rparr>))"

definition family_names :: "rocks \<Rightarrow> string list" where
  "family_names r = map (\<lambda>p. fst (snd p)) (families r)"

text \<open>\<^verbatim>\<open>DB::ListColumnFamilies\<close> leaves the list empty when it fails, as it does on a database that does
  not exist yet; \<^verbatim>\<open>DB::Open\<close> creates a missing database with the default family, and refuses a list
  that leaves out a family of an existing one; it takes the lock on the directory and fails when the
  lock is held already.\<close>

definition rocks_list :: "rocks \<Rightarrow> string list \<times> rocks" where
  "rocks_list r =
     (case answer r of (s, r1) \<Rightarrow> if s \<noteq> ROk \<or> \<not> created r1 then ([], r1) else (family_names r1, r1))"

definition rocks_open :: "string list \<Rightarrow> rocks \<Rightarrow> (rstatus \<times> nat list) \<times> rocks" where
  "rocks_open names r =
     (case answer r of (s, r1) \<Rightarrow>
        if s \<noteq> ROk then ((s, []), r1)
        else if locked r1 then ((RError ''IO error: lock hold by current process'', []), r1)
        else
          (let r2 = (if created r1 then r1
                     else r1\<lparr>families := [(0, default_family, [])], next_family := 1, created := True\<rparr>)
           in if set (family_names r2) \<subseteq> set names \<and> list_all (\<lambda>n. family_named n r2 \<noteq> None) names
              then ((ROk, map (\<lambda>n. the (family_named n r2)) names), r2\<lparr>locked := True\<rparr>)
              else ((RError ''Invalid argument: Column families not opened'', []), r2)))"

text \<open>\<^verbatim>\<open>Flush\<close> and \<^verbatim>\<open>SyncWAL\<close> change nothing that a reader of the database sees; \<^verbatim>\<open>Close\<close> releases the lock.\<close>

definition rocks_flush :: "nat \<Rightarrow> rocks \<Rightarrow> rstatus \<times> rocks" where
  "rocks_flush h r = answer r"

definition rocks_sync :: "rocks \<Rightarrow> rstatus \<times> rocks" where
  "rocks_sync r = answer r"

definition rocks_close :: "rocks \<Rightarrow> rstatus \<times> rocks" where
  "rocks_close r = (case answer r of (s, r1) \<Rightarrow> if s \<noteq> ROk then (s, r1) else (ROk, r1\<lparr>locked := False\<rparr>))"

section \<open>Iterators\<close>

record iter =
  it_items :: kv
  it_pos :: "nat option"
  it_status :: rstatus

definition rocks_iterator :: "nat \<Rightarrow> rocks \<Rightarrow> iter \<times> rocks" where
  "rocks_iterator h r =
     (case answer r of (s, r1) \<Rightarrow>
        if s \<noteq> ROk then (\<lparr>it_items = [], it_pos = None, it_status = s\<rparr>, r1)
        else (\<lparr>it_items = (case family h r1 of None \<Rightarrow> [] | Some (n, kv) \<Rightarrow> kv), it_pos = None, it_status = ROk\<rparr>, r1))"

definition iter_Valid :: "iter \<Rightarrow> bool" where
  "iter_Valid it = (case it_pos it of None \<Rightarrow> False | Some p \<Rightarrow> p < length (it_items it))"

definition iter_entry :: "iter \<Rightarrow> string \<times> string" where
  "iter_entry it = (case it_pos it of None \<Rightarrow> ([], []) | Some p \<Rightarrow> if p < length (it_items it) then it_items it ! p else ([], []))"

definition iter_key :: "iter \<Rightarrow> string" where
  "iter_key it = fst (iter_entry it)"

definition iter_value :: "iter \<Rightarrow> string" where
  "iter_value it = snd (iter_entry it)"

definition SeekToFirst :: "iter \<Rightarrow> iter" where
  "SeekToFirst it = it\<lparr>it_pos := Some 0\<rparr>"

definition SeekToLast :: "iter \<Rightarrow> iter" where
  "SeekToLast it = it\<lparr>it_pos := if it_items it = [] then None else Some (length (it_items it) - 1)\<rparr>"

definition Seek :: "string \<Rightarrow> iter \<Rightarrow> iter" where
  "Seek target it = it\<lparr>it_pos := Some (length (takeWhile (\<lambda>p. fst p < target) (it_items it)))\<rparr>"

definition SeekForPrev :: "string \<Rightarrow> iter \<Rightarrow> iter" where
  "SeekForPrev target it =
     (case length (takeWhile (\<lambda>p. fst p \<le> target) (it_items it)) of
        0 \<Rightarrow> it\<lparr>it_pos := None\<rparr>
      | Suc n \<Rightarrow> it\<lparr>it_pos := Some n\<rparr>)"

definition iter_Next :: "iter \<Rightarrow> iter" where
  "iter_Next it = it\<lparr>it_pos := map_option Suc (it_pos it)\<rparr>"

definition iter_Prev :: "iter \<Rightarrow> iter" where
  "iter_Prev it = it\<lparr>it_pos := (case it_pos it of Some (Suc p) \<Rightarrow> Some p | _ \<Rightarrow> None)\<rparr>"

definition starts_with :: "string \<Rightarrow> string \<Rightarrow> bool" where
  "starts_with s pre = prefix pre s"

section \<open>Lemmas: order and prefixes\<close>

lemma prefix_imp_le: "prefix pre k \<Longrightarrow> pre \<le> (k :: 'a::linorder list)"
  by (induction pre k rule: list_induct2') auto

lemma prefix_between:
  "pre \<le> k \<Longrightarrow> k \<le> k' \<Longrightarrow> prefix pre k' \<Longrightarrow> prefix pre (k :: 'a::linorder list)"
proof (induction pre arbitrary: k k')
  case (Cons a pre)
  then obtain x k0 y k0' where k: "k = x # k0" "k' = y # k0'" by (cases k; cases k') auto
  with Cons.prems have "a = y" "prefix pre k0'" by auto
  moreover from Cons.prems k \<open>a = y\<close> have "x = a" "pre \<le> k0" "k0 \<le> k0'" by auto
  ultimately show ?case using Cons.IH [of k0 k0'] k by simp
qed simp

lemma prefix_above: "prefix pre k \<Longrightarrow> \<not> prefix pre k' \<Longrightarrow> pre \<le> k' \<Longrightarrow> (k :: 'a::linorder list) < k'"
  using prefix_between [of pre k' k] by (meson not_le)

section \<open>Lemmas: moving an iterator\<close>

lemma iter_fields [simp]:
  "it_items (iter_Next it) = it_items it" "it_items (iter_Prev it) = it_items it"
  "it_items (SeekToFirst it) = it_items it" "it_items (SeekToLast it) = it_items it"
  "it_items (Seek t it) = it_items it" "it_items (SeekForPrev t it) = it_items it"
  by (simp_all add: iter_Next_def iter_Prev_def SeekToFirst_def SeekToLast_def Seek_def SeekForPrev_def split: nat.splits)

lemma iter_Valid_pos: "it_pos it = Some p \<Longrightarrow> iter_Valid it = (p < length (it_items it))"
  by (simp add: iter_Valid_def)

lemma iter_Valid_None: "it_pos it = None \<Longrightarrow> \<not> iter_Valid it"
  by (simp add: iter_Valid_def)

lemma iter_ValidE: "iter_Valid it \<Longrightarrow> (\<And>p. it_pos it = Some p \<Longrightarrow> p < length (it_items it) \<Longrightarrow> thesis) \<Longrightarrow> thesis"
  by (auto simp: iter_Valid_def split: option.splits)

lemma iter_entry_pos: "it_pos it = Some p \<Longrightarrow> p < length (it_items it) \<Longrightarrow> iter_entry it = it_items it ! p"
  by (simp add: iter_entry_def)

text \<open>The rounds left for a forward and for a backward loop.\<close>

definition left_fwd :: "iter \<Rightarrow> nat" where
  "left_fwd it = (case it_pos it of None \<Rightarrow> 0 | Some p \<Rightarrow> length (it_items it) - p)"

definition left_bwd :: "iter \<Rightarrow> nat" where
  "left_bwd it = (case it_pos it of None \<Rightarrow> 0 | Some p \<Rightarrow> Suc p)"

lemma left_fwd_Next: "iter_Valid it \<Longrightarrow> left_fwd (iter_Next it) < left_fwd it"
  by (auto simp: left_fwd_def iter_Next_def elim: iter_ValidE)

lemma left_bwd_Prev: "iter_Valid it \<Longrightarrow> left_bwd (iter_Prev it) < left_bwd it"
  by (auto simp: left_bwd_def iter_Prev_def elim!: iter_ValidE split: nat.splits)

text \<open>What lies ahead of an iterator, and behind it (nearest first).\<close>

definition ahead :: "iter \<Rightarrow> kv" where
  "ahead it = (case it_pos it of None \<Rightarrow> [] | Some p \<Rightarrow> drop p (it_items it))"

definition behind :: "iter \<Rightarrow> kv" where
  "behind it = (case it_pos it of None \<Rightarrow> [] | Some p \<Rightarrow> if p < length (it_items it) then rev (take (Suc p) (it_items it)) else [])"

lemma ahead_Valid: "iter_Valid it \<Longrightarrow> ahead it = iter_entry it # ahead (iter_Next it)"
  by (auto simp: ahead_def iter_Next_def iter_entry_def Cons_nth_drop_Suc elim!: iter_ValidE)

lemma ahead_invalid: "\<not> iter_Valid it \<Longrightarrow> ahead it = []"
  by (auto simp: ahead_def iter_Valid_def split: option.splits)

lemma behind_Valid: "iter_Valid it \<Longrightarrow> behind it = iter_entry it # behind (iter_Prev it)"
  by (auto simp: behind_def iter_Prev_def iter_entry_def take_Suc_conv_app_nth elim!: iter_ValidE split: nat.splits)

lemma behind_invalid: "\<not> iter_Valid it \<Longrightarrow> behind it = []"
  by (auto simp: behind_def iter_Valid_def split: option.splits)

lemma Valid_ahead: "iter_Valid it \<longleftrightarrow> ahead it \<noteq> []"
  by (auto simp: ahead_def iter_Valid_def split: option.splits)

lemma ahead_SeekToFirst: "ahead (SeekToFirst it) = it_items it"
  by (simp add: ahead_def SeekToFirst_def)

lemma behind_SeekToLast: "behind (SeekToLast it) = rev (it_items it)"
  by (simp add: behind_def SeekToLast_def)

lemma takeWhile_filter_sorted:
  assumes "om_ok m" and "\<And>k k'. k < k' \<Longrightarrow> P k' \<Longrightarrow> P k"
  shows "takeWhile (\<lambda>p. P (fst p)) m = filter (\<lambda>p. P (fst p)) m \<and>
    dropWhile (\<lambda>p. P (fst p)) m = filter (\<lambda>p. \<not> P (fst p)) m"
  using assms(1)
proof (induction m)
  case (Cons p m)
  obtain k v where p: "p = (k, v)" by force
  with Cons.prems have m: "om_ok m" "\<And>q. q \<in> set m \<Longrightarrow> k < fst q" by (auto simp: om_ok_Cons)
  show ?case
  proof (cases "P k")
    case False
    then have "filter (\<lambda>p. P (fst p)) m = []" "filter (\<lambda>p. \<not> P (fst p)) m = m"
      using m(2) assms(2) by (auto simp: filter_empty_conv filter_id_conv)
    with False p show ?thesis by simp
  qed (use Cons.IH [OF m(1)] p in simp)
qed simp

lemma drop_length_takeWhile: "drop (length (takeWhile P xs)) xs = dropWhile P xs"
  by (induction xs) auto

lemma take_length_takeWhile: "take (length (takeWhile P xs)) xs = takeWhile P xs"
  by (induction xs) auto

lemma ahead_Seek: "om_ok (it_items it) \<Longrightarrow> ahead (Seek t it) = filter (\<lambda>p. t \<le> fst p) (it_items it)"
proof -
  assume "om_ok (it_items it)"
  from takeWhile_filter_sorted [OF this, of "\<lambda>k. k < t"]
  have "dropWhile (\<lambda>p. fst p < t) (it_items it) = filter (\<lambda>p. t \<le> fst p) (it_items it)"
    by (auto simp: not_less)
  then show ?thesis by (simp add: ahead_def Seek_def drop_length_takeWhile)
qed

lemma behind_SeekForPrev: "om_ok (it_items it) \<Longrightarrow> behind (SeekForPrev t it) = rev (filter (\<lambda>p. fst p \<le> t) (it_items it))"
proof -
  assume ok: "om_ok (it_items it)"
  let ?w = "takeWhile (\<lambda>p. fst p \<le> t) (it_items it)"
  have w: "?w = filter (\<lambda>p. fst p \<le> t) (it_items it)"
    using takeWhile_filter_sorted [OF ok, of "\<lambda>k. k \<le> t"] by auto
  have "length ?w \<le> length (it_items it)" by (rule length_takeWhile_le)
  then have "behind (SeekForPrev t it) = rev ?w"
    using take_length_takeWhile [of "\<lambda>p. fst p \<le> t" "it_items it"]
    by (auto simp: behind_def SeekForPrev_def split: nat.splits)
  with w show ?thesis by simp
qed

end
