(* ===== verification/Anu_Engine.thy ===== *)
theory Anu_Engine
  imports Anu_Rocks "HOL-Library.Multiset"
begin

text \<open>
  The class \<^verbatim>\<open>anudb::StorageEngine\<close> of \<^verbatim>\<open>src/storage_engine\<close>: a RocksDB database whose column families
  are the collections and the indexes (an index on \<^verbatim>\<open>f\<close> of collection \<^verbatim>\<open>c\<close> is the family
  \<^verbatim>\<open>c__index__f\<close>). The state holds the pointer \<^verbatim>\<open>db_\<close> (uninitialised before the first successful
  \<^verbatim>\<open>open\<close>, null after \<^verbatim>\<open>close\<close>), the map \<^verbatim>\<open>columnFamilies_\<close> from names to handles, the owned handles and
  the store behind them. A call through a pointer that is not open is undefined behaviour.
  The \<^verbatim>\<open>unordered_map\<close> is kept as an ordered association list; what depends on its iteration order
  (\<^verbatim>\<open>getCollectionNames\<close>) is stated as a set.
\<close>

datatype db_pointer = Uninit | Null | Opened

record engine =
  db_ptr :: db_pointer
  columnFamilies :: "(string, nat) omap"
  ownedHandles :: "nat list"
  store :: rocks

definition index_delimiter :: string where
  "index_delimiter = ''__index__''"

text \<open>A call through \<^verbatim>\<open>db_\<close>.\<close>

definition dbcall :: "(rocks \<Rightarrow> 'a \<times> rocks) \<Rightarrow> (engine, 'a) comp" where
  "dbcall f = (\<lambda>e. if db_ptr e = Opened then (case f (store e) of (x, r) \<Rightarrow> (Ret x, e\<lparr>store := r\<rparr>)) else (Undef, e))"

definition collection_not_found :: "string \<Rightarrow> status" where
  "collection_not_found c = NotFound (''Collection not found: '' @ c)"

text \<open>The lookup every operation starts with; \<open>miss\<close> is what it returns for an unknown collection.\<close>

definition with_handle :: "string \<Rightarrow> 'a \<Rightarrow> (nat \<Rightarrow> (engine, 'a) comp) \<Rightarrow> (engine, 'a) comp" where
  "with_handle c miss f = (\<lambda>e. case map_of (columnFamilies e) c of None \<Rightarrow> (Ret miss, e) | Some h \<Rightarrow> f h e)"

definition status_of :: "rstatus \<Rightarrow> status" where
  "status_of s = (if s = ROk then StatusOK else IOError (r_to_string s))"

section \<open>Opening and closing\<close>

definition engine_open :: "(engine, status) comp" where
  "engine_open = (\<lambda>e.
     case rocks_list (store e) of (listed, r1) \<Rightarrow>
       let names = (if listed = [] then [default_family] else listed) in
       case rocks_open names r1 of ((s, handles), r2) \<Rightarrow>
         if s \<noteq> ROk then (Ret (IOError (r_to_string s)), e\<lparr>store := r2\<rparr>)
         else (Ret StatusOK,
           e\<lparr>db_ptr := Opened,
             columnFamilies := fold (\<lambda>(n, h). om_update n h) (zip names handles) (columnFamilies e),
             ownedHandles := ownedHandles e @ handles,
             store := r2\<rparr>))"

definition engine_close :: "(engine, status) comp" where
  "engine_close = (\<lambda>e.
     case db_ptr e of
       Uninit \<Rightarrow> (Undef, e)
     | Null \<Rightarrow> (Ret StatusOK, e)
     | Opened \<Rightarrow>
         bindM (forM (\<lambda>(n, h). bindM (dbcall (rocks_flush h)) (\<lambda>_. returnM ())) (columnFamilies e)) (\<lambda>_.
         bindM (dbcall rocks_sync) (\<lambda>_.
         (\<lambda>e1. bindM (dbcall rocks_close) (\<lambda>s.
            if s \<noteq> ROk then returnM (IOError (r_to_string s))
            else (\<lambda>e2. (Ret StatusOK, e2\<lparr>db_ptr := Null\<rparr>)))
            (e1\<lparr>columnFamilies := [], ownedHandles := []\<rparr>)))) e)"

section \<open>Collections\<close>

definition engine_createCollection :: "string \<Rightarrow> (engine, status) comp" where
  "engine_createCollection name = (\<lambda>e.
     if map_of (columnFamilies e) name \<noteq> None
     then (Ret (InvalidArgument (''Collection already exists: '' @ name)), e)
     else bindM (dbcall (rocks_create name)) (\<lambda>(s, handle).
       if s \<noteq> ROk then returnM (IOError (r_to_string s))
       else (\<lambda>e1. (Ret StatusOK,
              e1\<lparr>columnFamilies := om_update name handle (columnFamilies e1),
                 ownedHandles := ownedHandles e1 @ [handle]\<rparr>))) e)"

definition engine_dropCollection :: "string \<Rightarrow> (engine, status) comp" where
  "engine_dropCollection name =
     with_handle name (collection_not_found name) (\<lambda>handle.
       bindM (dbcall (rocks_drop handle)) (\<lambda>s.
         if s \<noteq> ROk then returnM (IOError (r_to_string s))
         else (\<lambda>e1. (Ret StatusOK, e1\<lparr>columnFamilies := om_delete name (columnFamilies e1)\<rparr>))))"

definition collectionExists :: "engine \<Rightarrow> string \<Rightarrow> bool" where
  "collectionExists e name = (map_of (columnFamilies e) name \<noteq> None)"

definition getCollectionNames :: "engine \<Rightarrow> string list" where
  "getCollectionNames e =
     filter (\<lambda>n. n \<noteq> default_family \<and> find_sub index_delimiter n = None) (map fst (columnFamilies e))"

text \<open>The local map \<^verbatim>\<open>index\<close> from collection names to sets of index names; a \<^verbatim>\<open>std::set\<close> is a sorted
  list without duplicates.\<close>

definition note_index :: "string \<times> nat \<Rightarrow> (string, string list) omap \<Rightarrow> (string, string list) omap" where
  "note_index = (\<lambda>(n, h) index.
     if n \<noteq> default_family then
       (case find_sub index_delimiter n of
          None \<Rightarrow> index
        | Some pos \<Rightarrow>
            let cn = take pos n; ix = drop (pos + length index_delimiter) n in
            om_update cn (insort_insert ix (case map_of index cn of None \<Rightarrow> [] | Some s \<Rightarrow> s)) index)
     else index)"

definition getIndexNames :: "engine \<Rightarrow> string \<Rightarrow> string list" where
  "getIndexNames e collectionName =
     (case map_of (fold note_index (columnFamilies e) []) collectionName of None \<Rightarrow> [] | Some s \<Rightarrow> s)"

section \<open>Reading and writing\<close>

definition engine_put :: "string \<Rightarrow> string \<Rightarrow> string \<Rightarrow> (engine, status) comp" where
  "engine_put collection key v =
     with_handle collection (collection_not_found collection) (\<lambda>h.
       bindM (dbcall (rocks_put h key v)) (\<lambda>s. returnM (status_of s)))"

definition engine_putIndex :: "string \<Rightarrow> string \<Rightarrow> string \<Rightarrow> (engine, status) comp" where
  "engine_putIndex collection key v =
     with_handle collection (collection_not_found collection) (\<lambda>h.
       bindM (dbcall (rocks_put h key v)) (\<lambda>s. returnM (status_of s)))"

definition engine_get :: "string \<Rightarrow> string \<Rightarrow> (engine, status \<times> string) comp" where
  "engine_get collection key =
     with_handle collection (collection_not_found collection, []) (\<lambda>h.
       bindM (dbcall (rocks_get h key)) (\<lambda>(s, result). returnM (
         if s = RNotFound then (NotFound (''Key not found: '' @ key), [])
         else if s \<noteq> ROk then (IOError (r_to_string s), [])
         else (StatusOK, result))))"

definition engine_remove :: "string \<Rightarrow> string \<Rightarrow> (engine, status) comp" where
  "engine_remove collection key =
     with_handle collection (collection_not_found collection) (\<lambda>h.
       bindM (dbcall (rocks_delete h key)) (\<lambda>s.
         returnM (if s \<noteq> ROk \<and> s \<noteq> RNotFound then IOError (r_to_string s) else StatusOK)))"

section \<open>Scans\<close>

function scan_next :: "iter \<Rightarrow> string list" where
  "scan_next it = (if iter_Valid it then iter_value it # scan_next (iter_Next it) else [])"
  by auto
termination by (relation "measure left_fwd") (auto simp: left_fwd_Next)

function scan_prev :: "iter \<Rightarrow> string list" where
  "scan_prev it = (if iter_Valid it then iter_value it # scan_prev (iter_Prev it) else [])"
  by auto
termination by (relation "measure left_bwd") (auto simp: left_bwd_Prev)

function scan_prefix :: "string \<Rightarrow> iter \<Rightarrow> string list" where
  "scan_prefix pre it =
     (if iter_Valid it \<and> starts_with (iter_key it) pre then iter_value it # scan_prefix pre (iter_Next it) else [])"
  by auto
termination by (relation "measure (\<lambda>(pre, it). left_fwd it)") (auto simp: left_fwd_Next)

function skip_prefix :: "string \<Rightarrow> iter \<Rightarrow> iter" where
  "skip_prefix pre it =
     (if iter_Valid it \<and> starts_with (iter_key it) pre then skip_prefix pre (iter_Next it) else it)"
  by auto
termination by (relation "measure (\<lambda>(pre, it). left_fwd it)") (auto simp: left_fwd_Next)

text \<open>The backward loop of \<^verbatim>\<open>fetchDocIdsForLesser\<close> first reads the key up to its \<^verbatim>\<open>#\<close>; a key without
  one would be read beyond its end.\<close>

function scan_lesser :: "iter \<Rightarrow> string list outcome" where
  "scan_lesser it =
     (if iter_Valid it then
        (if CHR ''#'' \<in> set (iter_key it)
         then bindO (scan_lesser (iter_Prev it)) (\<lambda>ids. Ret (iter_value it # ids))
         else Undef)
      else Ret [])"
  by auto
termination by (relation "measure left_bwd") (auto simp: left_bwd_Prev)

declare scan_next.simps [simp del] scan_prev.simps [simp del] scan_prefix.simps [simp del]
  skip_prefix.simps [simp del] scan_lesser.simps [simp del]

text \<open>The fetch operations append to the vector \<^verbatim>\<open>docIds\<close> of their caller.\<close>

definition fetchDocIdsByOrder :: "string \<Rightarrow> string \<Rightarrow> string list \<Rightarrow> (engine, status \<times> string list) comp" where
  "fetchDocIdsByOrder collection v docIds =
     with_handle collection (collection_not_found collection, docIds) (\<lambda>h.
       bindM (dbcall (rocks_iterator h)) (\<lambda>it. returnM (StatusOK,
         docIds @ (if v = ''asc'' then scan_next (SeekToFirst it) else scan_prev (SeekToLast it)))))"

definition fetchDocIdsForEqual :: "string \<Rightarrow> string \<Rightarrow> string list \<Rightarrow> (engine, status \<times> string list) comp" where
  "fetchDocIdsForEqual collection pre docIds =
     with_handle collection (collection_not_found collection, docIds) (\<lambda>h.
       bindM (dbcall (rocks_iterator h)) (\<lambda>it. returnM (StatusOK, docIds @ scan_prefix pre (Seek pre it))))"

definition fetchDocIdsForGreater :: "string \<Rightarrow> string \<Rightarrow> string list \<Rightarrow> (engine, status \<times> string list) comp" where
  "fetchDocIdsForGreater collection pre docIds =
     with_handle collection (collection_not_found collection, docIds) (\<lambda>h.
       bindM (dbcall (rocks_iterator h)) (\<lambda>it.
         returnM (StatusOK, docIds @ scan_next (skip_prefix pre (Seek pre it)))))"

definition lesser_start :: "string \<Rightarrow> iter \<Rightarrow> iter" where
  "lesser_start pre it =
     (let it1 = SeekForPrev pre it in
      if iter_Valid it1 \<and> starts_with (iter_key it1) pre then iter_Prev it1 else it1)"

definition fetchDocIdsForLesser :: "string \<Rightarrow> string \<Rightarrow> string list \<Rightarrow> (engine, status \<times> string list) comp" where
  "fetchDocIdsForLesser collection pre docIds =
     with_handle collection (collection_not_found collection, docIds) (\<lambda>h.
       bindM (dbcall (rocks_iterator h)) (\<lambda>it.
         bindM (liftO (scan_lesser (lesser_start pre it))) (\<lambda>ids. returnM (StatusOK, docIds @ ids))))"

definition getAll :: "string \<Rightarrow> string list \<Rightarrow> (engine, status \<times> string list) comp" where
  "getAll collection values =
     with_handle collection (collection_not_found collection, values) (\<lambda>h.
       bindM (dbcall (rocks_iterator h)) (\<lambda>it. returnM (StatusOK, scan_next (SeekToFirst it))))"

section \<open>Integer keys\<close>

definition be_word64 :: "string \<Rightarrow> 64 word" where
  "be_word64 s = fold (\<lambda>c r. or (push_bit 8 r) (of_nat (of_char c))) s 0"

definition DecodeIntKey :: "string \<Rightarrow> 64 word" where
  "DecodeIntKey encoded = (if length encoded \<noteq> 8 then 0 else be_word64 encoded - 0x8000000000000000)"

section \<open>Lemmas: what the scans deliver\<close>

lemma scan_next_ahead: "scan_next it = map snd (ahead it)"
proof (induction it rule: scan_next.induct)
  case (1 it)
  then show ?case
    by (subst scan_next.simps) (auto simp: ahead_Valid ahead_invalid iter_value_def)
qed

lemma scan_prev_behind: "scan_prev it = map snd (behind it)"
proof (induction it rule: scan_prev.induct)
  case (1 it)
  then show ?case
    by (subst scan_prev.simps) (auto simp: behind_Valid behind_invalid iter_value_def)
qed

lemma scan_prefix_ahead: "scan_prefix pre it = map snd (takeWhile (\<lambda>p. prefix pre (fst p)) (ahead it))"
proof (induction pre it rule: scan_prefix.induct)
  case (1 pre it)
  then show ?case
    by (subst scan_prefix.simps) (cases "iter_Valid it"; auto simp: ahead_Valid ahead_invalid iter_value_def iter_key_def starts_with_def)
qed

lemma skip_prefix_ahead: "ahead (skip_prefix pre it) = dropWhile (\<lambda>p. prefix pre (fst p)) (ahead it)"
proof (induction pre it rule: skip_prefix.induct)
  case (1 pre it)
  then show ?case
    by (subst skip_prefix.simps) (cases "iter_Valid it"; auto simp: ahead_Valid ahead_invalid iter_key_def starts_with_def)
qed

lemma scan_lesser_behind:
  "list_all (\<lambda>p. CHR ''#'' \<in> set (fst p)) (behind it) \<Longrightarrow> scan_lesser it = Ret (map snd (behind it))"
proof (induction it rule: scan_lesser.induct)
  case (1 it)
  then show ?case
    by (subst scan_lesser.simps) (auto simp: behind_Valid behind_invalid iter_value_def iter_key_def)
qed

lemma filter_prefix_block:
  fixes m :: kv
  assumes "om_ok m" "\<And>p. p \<in> set m \<Longrightarrow> pre \<le> fst p"
  shows "takeWhile (\<lambda>p. prefix pre (fst p)) m = filter (\<lambda>p. prefix pre (fst p)) m \<and>
    dropWhile (\<lambda>p. prefix pre (fst p)) m = filter (\<lambda>p. \<not> prefix pre (fst p)) m"
  using assms
proof (induction m)
  case (Cons p m)
  have m: "om_ok m" "\<And>q. q \<in> set m \<Longrightarrow> fst p < fst q" using Cons.prems(1) by (cases p; auto simp: om_ok_Cons)+
  show ?case
  proof (cases "prefix pre (fst p)")
    case False
    then have "\<not> prefix pre (fst q)" if "q \<in> set m" for q
      using prefix_between [of pre "fst p" "fst q"] Cons.prems(2) [of p] m(2) [OF that] by (auto dest: less_imp_le)
    then have "filter (\<lambda>p. prefix pre (fst p)) m = []" "filter (\<lambda>p. \<not> prefix pre (fst p)) m = m"
      by (auto simp: filter_empty_conv filter_id_conv)
    with False show ?thesis by simp
  qed (use Cons.IH [OF m(1)] Cons.prems(2) in simp)
qed simp

lemma scan_equal:
  assumes "om_ok (it_items it)"
  shows "scan_prefix pre (Seek pre it) = map snd (filter (\<lambda>p. prefix pre (fst p)) (it_items it))"
proof -
  have "takeWhile (\<lambda>p. prefix pre (fst p)) (filter (\<lambda>p. pre \<le> fst p) (it_items it)) =
      filter (\<lambda>p. prefix pre (fst p)) (filter (\<lambda>p. pre \<le> fst p) (it_items it))"
    using filter_prefix_block [OF om_ok_filter [OF assms]] by simp
  also have "\<dots> = filter (\<lambda>p. prefix pre (fst p)) (it_items it)"
    using prefix_imp_le by (auto simp: filter_filter intro!: filter_cong)
  finally show ?thesis by (simp add: scan_prefix_ahead ahead_Seek [OF assms])
qed

lemma scan_greater:
  assumes "om_ok (it_items it)"
  shows "scan_next (skip_prefix pre (Seek pre it)) = map snd (filter (\<lambda>p. pre \<le> fst p \<and> \<not> prefix pre (fst p)) (it_items it))"
  using filter_prefix_block [OF om_ok_filter [OF assms], of "\<lambda>p. pre \<le> fst p" pre]
  by (simp add: scan_next_ahead skip_prefix_ahead ahead_Seek [OF assms] filter_filter conj_commute)

lemma filter_strictly_below:
  "om_ok m \<Longrightarrow> list_all (\<lambda>p. fst p \<le> pre) m \<Longrightarrow>
     filter (\<lambda>p. fst p < pre) m = (if m \<noteq> [] \<and> fst (last m) = pre then butlast m else m)"
proof (induction m rule: rev_induct)
  case (snoc p m)
  then have "list_all (\<lambda>q. fst q < fst p) m" "fst p \<le> pre"
    by (auto simp: om_ok_def sorted_wrt_append list_all_iff)
  then have "list_all (\<lambda>q. fst q < pre) m" by (auto simp: list_all_iff)
  with \<open>fst p \<le> pre\<close> show ?case by (auto simp: list_all_iff filter_id_conv less_le)
qed simp

lemma behind_lesser_start:
  assumes "om_ok (it_items it)"
  shows "behind (lesser_start pre it) = rev (filter (\<lambda>p. fst p < pre) (it_items it))"
proof -
  let ?it = "SeekForPrev pre it" and ?f = "filter (\<lambda>p. fst p \<le> pre) (it_items it)"
  have b: "behind ?it = rev ?f" by (rule behind_SeekForPrev [OF assms])
  have "filter (\<lambda>p. fst p < pre) (it_items it) = filter (\<lambda>p. fst p < pre) ?f"
    by (auto simp: filter_filter intro!: filter_cong)
  also have "\<dots> = (if ?f \<noteq> [] \<and> fst (last ?f) = pre then butlast ?f else ?f)"
    by (rule filter_strictly_below [OF om_ok_filter [OF assms]]) (simp add: list_all_iff)
  finally have lt: "filter (\<lambda>p. fst p < pre) (it_items it) = (if ?f \<noteq> [] \<and> fst (last ?f) = pre then butlast ?f else ?f)" .
  show ?thesis
  proof (cases "iter_Valid ?it")
    case True
    then have "rev ?f = iter_entry ?it # behind (iter_Prev ?it)" using behind_Valid b by simp
    then have f: "?f = rev (behind (iter_Prev ?it)) @ [iter_entry ?it]" by (metis rev.simps(2) rev_rev_ident)
    then have "iter_entry ?it \<in> set ?f" by simp
    then have "fst (iter_entry ?it) \<le> pre" by simp
    then have "starts_with (iter_key ?it) pre \<longleftrightarrow> fst (iter_entry ?it) = pre"
      using prefix_imp_le [of pre "fst (iter_entry ?it)"] by (auto simp: iter_key_def starts_with_def)
    then show ?thesis unfolding lt using True b f by (simp add: lesser_start_def Let_def del: filter_empty_conv)
  next
    case False
    then have "?f = []" using b behind_invalid by simp
    then show ?thesis unfolding lt using False b by (simp add: lesser_start_def)
  qed
qed

lemma scan_lesser_start:
  assumes "om_ok (it_items it)" "list_all (\<lambda>p. CHR ''#'' \<in> set (fst p)) (it_items it)"
  shows "scan_lesser (lesser_start pre it) = Ret (rev (map snd (filter (\<lambda>p. fst p < pre) (it_items it))))"
proof -
  have "list_all (\<lambda>p. CHR ''#'' \<in> set (fst p)) (behind (lesser_start pre it))"
    using assms(2) by (simp add: behind_lesser_start [OF assms(1)] list_all_iff)
  from scan_lesser_behind [OF this] show ?thesis
    by (simp add: behind_lesser_start [OF assms(1)] rev_map)
qed

section \<open>The abstract store\<close>

text \<open>What an open engine stands for: a table for every collection and index name.\<close>

definition tables :: "engine \<Rightarrow> string \<Rightarrow> kv option" where
  "tables e c = (case map_of (columnFamilies e) c of None \<Rightarrow> None | Some h \<Rightarrow> map_option snd (family h (store e)))"

text \<open>The names the engine knows are those of the families the store has: \<open>F\<close> gives the family behind
  a handle, \<open>M\<close> the handle of a name, and handles from \<open>n\<close> on are free.\<close>

definition mirrors :: "(nat \<Rightarrow> (string \<times> kv) option) \<Rightarrow> (string \<Rightarrow> nat option) \<Rightarrow> nat \<Rightarrow> bool" where
  "mirrors F M n =
     ((\<forall>h c kv. F h = Some (c, kv) \<longrightarrow> om_ok kv \<and> h < n \<and> M c = Some h) \<and>
      (\<forall>c h. M c = Some h \<longrightarrow> (\<exists>kv. F h = Some (c, kv))))"

definition engine_inv :: "engine \<Rightarrow> bool" where
  "engine_inv e =
     (db_ptr e = Opened \<and> om_ok (columnFamilies e) \<and> om_ok (families (store e)) \<and> created (store e) \<and> locked (store e) \<and>
      mirrors (\<lambda>h. family h (store e)) (map_of (columnFamilies e)) (next_family (store e)) \<and>
      map_of (columnFamilies e) default_family = Some 0)"

definition next_answer :: "engine \<Rightarrow> rstatus" where
  "next_answer e = (case faults (store e) of [] \<Rightarrow> ROk | s # ss \<Rightarrow> s)"

text \<open>The store after one answered call, and after a change of one table.\<close>

definition tick :: "engine \<Rightarrow> engine" where
  "tick e = e\<lparr>store := (store e)\<lparr>faults := tl (faults (store e))\<rparr>\<rparr>"

definition set_table :: "string \<Rightarrow> kv \<Rightarrow> engine \<Rightarrow> engine" where
  "set_table c m e = (case map_of (columnFamilies e) c of
       None \<Rightarrow> e
     | Some h \<Rightarrow> e\<lparr>store := (store e)\<lparr>families := om_update h (c, m) (families (store e))\<rparr>\<rparr>)"

definition add_table :: "string \<Rightarrow> engine \<Rightarrow> engine" where
  "add_table c e = e\<lparr>
     columnFamilies := om_update c (next_family (store e)) (columnFamilies e),
     ownedHandles := ownedHandles e @ [next_family (store e)],
     store := (store e)\<lparr>families := om_update (next_family (store e)) (c, []) (families (store e)),
                       next_family := Suc (next_family (store e))\<rparr>\<rparr>"

definition drop_table :: "string \<Rightarrow> engine \<Rightarrow> engine" where
  "drop_table c e = (case map_of (columnFamilies e) c of
       None \<Rightarrow> e
     | Some h \<Rightarrow> e\<lparr>columnFamilies := om_delete c (columnFamilies e),
                   store := (store e)\<lparr>families := om_delete h (families (store e))\<rparr>\<rparr>)"

text \<open>A store that answers every call.\<close>

definition healthy :: "engine \<Rightarrow> bool" where
  "healthy e = (faults (store e) = [])"

section \<open>Lemmas: the abstract store\<close>

lemma answer_eq: "answer (store e) = (next_answer e, store (tick e))"
  by (simp add: answer_def next_answer_def tick_def split: list.splits)

lemma tick_fields [simp]:
  "db_ptr (tick e) = db_ptr e" "columnFamilies (tick e) = columnFamilies e" "ownedHandles (tick e) = ownedHandles e"
  "families (store (tick e)) = families (store e)" "next_family (store (tick e)) = next_family (store e)"
  "created (store (tick e)) = created (store e)" "locked (store (tick e)) = locked (store e)"
  "family h (store (tick e)) = family h (store e)"
  by (simp_all add: tick_def family_def)

lemma store_tick: "e\<lparr>store := store (tick e)\<rparr> = tick e"
  by (simp add: tick_def)

lemma tables_tick [simp]: "tables (tick e) = tables e"
  by (simp add: tables_def fun_eq_iff split: option.splits)

lemma engine_inv_tick [simp]: "engine_inv (tick e) = engine_inv e"
  by (simp add: engine_inv_def)

lemma healthy_tick [simp]: "healthy e \<Longrightarrow> tick e = e" "healthy e \<Longrightarrow> next_answer e = ROk"
  by (simp_all add: healthy_def tick_def next_answer_def)

lemma mirrorsD:
  assumes "mirrors F M n"
  shows "F h = Some (c, kv) \<Longrightarrow> om_ok kv" "F h = Some (c, kv) \<Longrightarrow> h < n" "F h = Some (c, kv) \<Longrightarrow> M c = Some h"
    "M c = Some h \<Longrightarrow> \<exists>kv. F h = Some (c, kv)"
  using assms by (auto simp: mirrors_def)

lemma mirrors_inject: "mirrors F M n \<Longrightarrow> M c = Some h \<Longrightarrow> M c' = Some h \<Longrightarrow> c = c'"
  using mirrorsD(4) by (metis option.inject prod.inject)

lemma mirrors_fresh: "mirrors F M n \<Longrightarrow> F n = None"
  using mirrorsD(2) by (metis less_irrefl option.exhaust prod.collapse)

lemma mirrorsI:
  assumes "\<And>h c kv. F h = Some (c, kv) \<Longrightarrow> om_ok kv \<and> h < n \<and> M c = Some h"
    and "\<And>c h. M c = Some h \<Longrightarrow> \<exists>kv. F h = Some (c, kv)"
  shows "mirrors F M n"
  using assms unfolding mirrors_def by blast

lemma mirrors_other: "mirrors F M n \<Longrightarrow> M c = Some h \<Longrightarrow> c' \<noteq> c \<Longrightarrow> M c' \<noteq> Some h"
  using mirrors_inject by metis

lemma mirrors_set:
  assumes "mirrors F M n" "M c = Some h" "om_ok kv"
  shows "mirrors (F(h \<mapsto> (c, kv))) M n"
proof (rule mirrorsI)
  fix h' c' kv' assume "(F(h \<mapsto> (c, kv))) h' = Some (c', kv')"
  moreover obtain kv0 where "F h = Some (c, kv0)" using mirrorsD(4) [OF assms(1,2)] by blast
  ultimately show "om_ok kv' \<and> h' < n \<and> M c' = Some h'"
    using mirrorsD(1-3) [OF assms(1)] assms(2,3) by (cases "h' = h") auto
next
  fix c' h' assume "M c' = Some h'"
  then show "\<exists>kv'. (F(h \<mapsto> (c, kv))) h' = Some (c', kv')"
    using mirrorsD(4) [OF assms(1)] mirrors_other [OF assms(1,2), of c'] by (cases "c' = c") (auto simp: assms(2))
qed

lemma mirrors_add:
  assumes "mirrors F M n" "M c = None"
  shows "mirrors (F(n \<mapsto> (c, []))) (M(c \<mapsto> n)) (Suc n)"
proof (rule mirrorsI)
  fix h' c' kv' assume h: "(F(n \<mapsto> (c, []))) h' = Some (c', kv')"
  show "om_ok kv' \<and> h' < Suc n \<and> (M(c \<mapsto> n)) c' = Some h'"
  proof (cases "h' = n")
    case False
    then have "F h' = Some (c', kv')" using h by simp
    then show ?thesis using mirrorsD(1-3) [OF assms(1)] assms(2) less_SucI by fastforce
  qed (use h in auto)
next
  fix c' h' assume "(M(c \<mapsto> n)) c' = Some h'"
  then show "\<exists>kv'. (F(n \<mapsto> (c, []))) h' = Some (c', kv')"
    using mirrorsD(4) [OF assms(1), of c' h'] mirrors_fresh [OF assms(1)] by (cases "c' = c") auto
qed

lemma mirrors_drop:
  assumes "mirrors F M n" "M c = Some h"
  shows "mirrors (F(h := None)) (M(c := None)) n"
proof (rule mirrorsI)
  fix h' c' kv' assume h: "(F(h := None)) h' = Some (c', kv')"
  then have "F h' = Some (c', kv')" "h' \<noteq> h" by (auto split: if_splits)
  then show "om_ok kv' \<and> h' < n \<and> (M(c := None)) c' = Some h'"
    using mirrorsD(1-3) [OF assms(1), of h' c' kv'] assms(2) by (cases "c' = c") auto
next
  fix c' h' assume "(M(c := None)) c' = Some h'"
  then have "M c' = Some h'" "c' \<noteq> c" by (auto split: if_splits)
  then show "\<exists>kv'. (F(h := None)) h' = Some (c', kv')"
    using mirrorsD(4) [OF assms(1), of c' h'] mirrors_other [OF assms, of c'] by auto
qed

lemma engine_invD:
  assumes "engine_inv e"
  shows "db_ptr e = Opened" "om_ok (columnFamilies e)" "om_ok (families (store e))"
    and "mirrors (\<lambda>h. family h (store e)) (map_of (columnFamilies e)) (next_family (store e))"
    and "map_of (columnFamilies e) default_family = Some 0"
  using assms by (auto simp: engine_inv_def)

lemma tables_SomeE:
  assumes "engine_inv e" "tables e c = Some m"
  obtains h where "map_of (columnFamilies e) c = Some h" "family h (store e) = Some (c, m)"
proof -
  from assms(2) obtain h where h: "map_of (columnFamilies e) c = Some h" "map_option snd (family h (store e)) = Some m"
    by (auto simp: tables_def split: option.splits)
  with mirrorsD(4) [OF engine_invD(4) [OF assms(1)] h(1)] that show thesis by auto
qed

lemma tables_None: "engine_inv e \<Longrightarrow> tables e c = None \<longleftrightarrow> map_of (columnFamilies e) c = None"
  using mirrorsD(4) [OF engine_invD(4), of e c] by (auto simp: tables_def split: option.splits)

lemma tables_ok: "engine_inv e \<Longrightarrow> tables e c = Some m \<Longrightarrow> om_ok m"
  using mirrorsD(1) [OF engine_invD(4)] by (metis tables_SomeE)

lemma handles_other:
  "engine_inv e \<Longrightarrow> map_of (columnFamilies e) c = Some h \<Longrightarrow> c' \<noteq> c \<Longrightarrow> map_of (columnFamilies e) c' \<noteq> Some h"
  by (rule mirrors_other [OF engine_invD(4)])

lemma family_update: "(\<lambda>h. family h (r\<lparr>families := om_update h' x (families r)\<rparr>)) = (\<lambda>h. family h r)(h' \<mapsto> x)"
  by (simp add: family_def om_lookup_update fun_eq_iff)

lemma family_delete:
  "om_ok (families r) \<Longrightarrow> (\<lambda>h. family h (r\<lparr>families := om_delete h' (families r)\<rparr>)) = (\<lambda>h. family h r)(h' := None)"
  by (simp add: family_def om_lookup_delete fun_eq_iff)

lemmas family_changes = family_update [THEN fun_cong] family_delete [THEN fun_cong]

lemma tables_set_table:
  assumes "engine_inv e" "tables e c \<noteq> None"
  shows "tables (set_table c m e) = (tables e)(c \<mapsto> m)"
proof
  fix c'
  from assms obtain h where h: "map_of (columnFamilies e) c = Some h" using tables_None [OF assms(1), of c] by auto
  show "tables (set_table c m e) c' = ((tables e)(c \<mapsto> m)) c'"
  proof (cases "c' = c")
    case False
    from handles_other [OF assms(1) h this] h False show ?thesis
      by (simp add: set_table_def tables_def family_changes split: option.splits)
  qed (simp add: set_table_def tables_def family_changes h)
qed

lemma engine_inv_set_table:
  assumes "engine_inv e" "om_ok m"
  shows "engine_inv (set_table c m e)"
proof (cases "map_of (columnFamilies e) c")
  case (Some h)
  have "mirrors ((\<lambda>h. family h (store e))(h \<mapsto> (c, m))) (map_of (columnFamilies e)) (next_family (store e))"
    by (rule mirrors_set [OF engine_invD(4) [OF assms(1)] Some assms(2)])
  then show ?thesis using assms(1) Some by (simp add: engine_inv_def set_table_def family_update om_ok_update)
qed (simp add: set_table_def assms)

lemma healthy_set_table [simp]: "healthy (set_table c m e) = healthy e"
  by (simp add: healthy_def set_table_def split: option.splits)

lemma family_add: "(\<lambda>h. family h (store (add_table c e))) = (\<lambda>h. family h (store e))(next_family (store e) \<mapsto> (c, []))"
  by (simp add: add_table_def family_def om_lookup_update fun_eq_iff)

lemma tables_add_table:
  assumes "engine_inv e"
  shows "tables (add_table c e) = (tables e)(c \<mapsto> [])"
proof
  fix c'
  have "map_of (columnFamilies e) c' \<noteq> Some (next_family (store e))"
    using mirrorsD(4) [OF engine_invD(4) [OF assms], of c'] mirrors_fresh [OF engine_invD(4) [OF assms]] by fastforce
  then show "tables (add_table c e) c' = ((tables e)(c \<mapsto> [])) c'"
    by (auto simp: tables_def om_lookup_update family_add [THEN fun_cong] split: option.splits)
      (auto simp: add_table_def om_lookup_update split: if_splits)
qed

lemma engine_inv_add_table:
  assumes "engine_inv e" "tables e c = None"
  shows "engine_inv (add_table c e)"
proof -
  have c: "map_of (columnFamilies e) c = None" using assms tables_None by blast
  then have "c \<noteq> default_family" using engine_invD(5) [OF assms(1)] by auto
  moreover have "mirrors ((\<lambda>h. family h (store e))(next_family (store e) \<mapsto> (c, [])))
      ((map_of (columnFamilies e))(c \<mapsto> next_family (store e))) (Suc (next_family (store e)))"
    by (rule mirrors_add [OF engine_invD(4) [OF assms(1)] c])
  ultimately show ?thesis
    using assms(1) unfolding engine_inv_def family_add by (simp add: add_table_def om_ok_update om_lookup_update)
qed

lemma tables_drop_table:
  assumes "engine_inv e"
  shows "tables (drop_table c e) = (tables e)(c := None)"
proof
  fix c'
  show "tables (drop_table c e) c' = ((tables e)(c := None)) c'"
  proof (cases "map_of (columnFamilies e) c")
    case (Some h)
    note ok = engine_invD(2,3) [OF assms]
    show ?thesis
    proof (cases "c' = c")
      case False
      from handles_other [OF assms Some this] Some False ok show ?thesis
        by (simp add: drop_table_def tables_def om_lookup_delete family_changes split: option.splits)
    qed (simp add: drop_table_def tables_def om_lookup_delete ok Some)
  qed (simp add: drop_table_def tables_def)
qed

lemma engine_inv_drop_table:
  assumes "engine_inv e" "c \<noteq> default_family"
  shows "engine_inv (drop_table c e)"
proof (cases "map_of (columnFamilies e) c")
  case (Some h)
  have "mirrors ((\<lambda>h. family h (store e))(h := None)) ((map_of (columnFamilies e))(c := None)) (next_family (store e))"
    by (rule mirrors_drop [OF engine_invD(4) [OF assms(1)] Some])
  then show ?thesis
    using assms Some by (simp add: engine_inv_def drop_table_def family_delete om_ok_delete om_lookup_delete)
qed (simp add: drop_table_def assms)

lemma healthy_changes [simp]: "healthy (add_table c e) = healthy e" "healthy (drop_table c e) = healthy e"
  by (simp_all add: healthy_def add_table_def drop_table_def split: option.splits)

section \<open>Lemmas: the operations on an open engine\<close>

lemma collection_not_found_status [simp]: "\<not> ok (collection_not_found c)" "isNotFound (collection_not_found c)"
  by (simp_all add: collection_not_found_def)

named_theorems engine_runs \<open>operations of the engine evaluated on its tables\<close>

lemma dbcall_run: "engine_inv e \<Longrightarrow> dbcall f e = (Ret (fst (f (store e))), e\<lparr>store := snd (f (store e))\<rparr>)"
  by (simp add: dbcall_def engine_invD split: prod.splits)

lemma with_handle_run:
  assumes "engine_inv e"
  shows "with_handle c miss f e = (case tables e c of None \<Rightarrow> (Ret miss, e) | Some m \<Rightarrow> f (the (map_of (columnFamilies e) c)) e)"
proof (cases "tables e c")
  case (Some m)
  from tables_SomeE [OF assms Some] obtain h where "map_of (columnFamilies e) c = Some h" by blast
  with Some show ?thesis by (simp add: with_handle_def)
qed (use tables_None [OF assms, of c] in \<open>simp add: with_handle_def\<close>)

lemma rocks_write_run:
  assumes "engine_inv e" "tables e c = Some m"
  shows "dbcall (rocks_write (the (map_of (columnFamilies e) c)) f) e =
    (if next_answer e = ROk then (Ret ROk, set_table c (f m) (tick e)) else (Ret (next_answer e), tick e))"
proof -
  from tables_SomeE [OF assms] obtain h where h: "map_of (columnFamilies e) c = Some h" "family h (store e) = Some (c, m)" by blast
  then show ?thesis
    unfolding dbcall_run [OF assms(1)] rocks_write_def answer_eq
    by (simp add: store_tick) (simp add: set_table_def tick_def)
qed

lemma engine_put_run [engine_runs]:
  assumes "engine_inv e"
  shows "engine_put c k v e = (case tables e c of
      None \<Rightarrow> (Ret (collection_not_found c), e)
    | Some m \<Rightarrow> if next_answer e = ROk then (Ret StatusOK, set_table c (om_update k v m) (tick e))
                else (Ret (IOError (r_to_string (next_answer e))), tick e))"
  unfolding engine_put_def with_handle_run [OF assms] rocks_put_def
  by (auto simp: bindM_def rocks_write_run [OF assms] status_of_def returnM_def split: option.splits)

lemma engine_putIndex_run [engine_runs]: "engine_putIndex c k v e = engine_put c k v e"
  by (simp add: engine_put_def engine_putIndex_def)

lemma engine_remove_run [engine_runs]:
  assumes "engine_inv e"
  shows "engine_remove c k e = (case tables e c of
      None \<Rightarrow> (Ret (collection_not_found c), e)
    | Some m \<Rightarrow> if next_answer e = ROk then (Ret StatusOK, set_table c (om_delete k m) (tick e))
                else if next_answer e = RNotFound then (Ret StatusOK, tick e)
                else (Ret (IOError (r_to_string (next_answer e))), tick e))"
  unfolding engine_remove_def with_handle_run [OF assms] rocks_delete_def
  by (auto simp: bindM_def rocks_write_run [OF assms] returnM_def split: option.splits)

lemma engine_get_run [engine_runs]:
  assumes "engine_inv e"
  shows "engine_get c k e = (case tables e c of
      None \<Rightarrow> (Ret (collection_not_found c, []), e)
    | Some m \<Rightarrow>
        (Ret (if next_answer e = ROk then (case map_of m k of None \<Rightarrow> (NotFound (''Key not found: '' @ k), []) | Some v \<Rightarrow> (StatusOK, v))
              else if next_answer e = RNotFound then (NotFound (''Key not found: '' @ k), [])
              else (IOError (r_to_string (next_answer e)), [])), tick e))"
proof (cases "tables e c")
  case (Some m)
  from tables_SomeE [OF assms Some] obtain h where h: "map_of (columnFamilies e) c = Some h" "family h (store e) = Some (c, m)" by blast
  then show ?thesis
    unfolding engine_get_def with_handle_run [OF assms] rocks_get_def bindM_def dbcall_run [OF assms] answer_eq
    by (auto simp: Some store_tick returnM_def split: option.splits)
qed (simp add: engine_get_def with_handle_run [OF assms])

lemma rocks_iterator_run:
  assumes "engine_inv e" "tables e c = Some m"
  shows "dbcall (rocks_iterator (the (map_of (columnFamilies e) c))) e =
    (Ret \<lparr>it_items = (if next_answer e = ROk then m else []), it_pos = None, it_status = next_answer e\<rparr>, tick e)"
proof -
  from tables_SomeE [OF assms] obtain h where h: "map_of (columnFamilies e) c = Some h" "family h (store e) = Some (c, m)" by blast
  then show ?thesis
    unfolding dbcall_run [OF assms(1)] rocks_iterator_def answer_eq by (simp add: store_tick)
qed

text \<open>The entries an iterator on table \<open>m\<close> delivers: all of them, or none when it cannot be created.\<close>

definition visible :: "engine \<Rightarrow> kv \<Rightarrow> kv" where
  "visible e m = (if next_answer e = ROk then m else [])"

lemma visible_ok: "om_ok m \<Longrightarrow> om_ok (visible e m)" and visible_healthy: "healthy e \<Longrightarrow> visible e m = m"
  and visible_all: "list_all P m \<Longrightarrow> list_all P (visible e m)" and visible_subset: "set (visible e m) \<subseteq> set m"
  by (auto simp: visible_def)

lemma fetchDocIdsForEqual_run [engine_runs]:
  assumes "engine_inv e"
  shows "fetchDocIdsForEqual c pre ids e = (case tables e c of
      None \<Rightarrow> (Ret (collection_not_found c, ids), e)
    | Some m \<Rightarrow> (Ret (StatusOK, ids @ map snd (filter (\<lambda>p. prefix pre (fst p)) (visible e m))), tick e))"
proof (cases "tables e c")
  case (Some m)
  then show ?thesis using tables_ok [OF assms Some]
    unfolding fetchDocIdsForEqual_def with_handle_run [OF assms] bindM_def
    by (simp add: rocks_iterator_run [OF assms] scan_equal visible_def returnM_def)
qed (simp add: fetchDocIdsForEqual_def with_handle_run [OF assms])

lemma fetchDocIdsForGreater_run [engine_runs]:
  assumes "engine_inv e"
  shows "fetchDocIdsForGreater c pre ids e = (case tables e c of
      None \<Rightarrow> (Ret (collection_not_found c, ids), e)
    | Some m \<Rightarrow> (Ret (StatusOK, ids @ map snd (filter (\<lambda>p. pre \<le> fst p \<and> \<not> prefix pre (fst p)) (visible e m))), tick e))"
proof (cases "tables e c")
  case (Some m)
  then show ?thesis using tables_ok [OF assms Some]
    unfolding fetchDocIdsForGreater_def with_handle_run [OF assms] bindM_def
    by (simp add: rocks_iterator_run [OF assms] scan_greater visible_def returnM_def)
qed (simp add: fetchDocIdsForGreater_def with_handle_run [OF assms])

lemma fetchDocIdsForLesser_run [engine_runs]:
  assumes "engine_inv e" "\<And>m. tables e c = Some m \<Longrightarrow> list_all (\<lambda>p. CHR ''#'' \<in> set (fst p)) m"
  shows "fetchDocIdsForLesser c pre ids e = (case tables e c of
      None \<Rightarrow> (Ret (collection_not_found c, ids), e)
    | Some m \<Rightarrow> (Ret (StatusOK, ids @ rev (map snd (filter (\<lambda>p. fst p < pre) (visible e m)))), tick e))"
proof (cases "tables e c")
  case (Some m)
  then show ?thesis using tables_ok [OF assms(1) Some] assms(2) [OF Some]
    unfolding fetchDocIdsForLesser_def with_handle_run [OF assms(1)] bindM_def
    by (simp add: rocks_iterator_run [OF assms(1)] scan_lesser_start visible_def returnM_def liftO_def)
qed (simp add: fetchDocIdsForLesser_def with_handle_run [OF assms(1)])

lemma fetchDocIdsByOrder_run [engine_runs]:
  assumes "engine_inv e"
  shows "fetchDocIdsByOrder c v ids e = (case tables e c of
      None \<Rightarrow> (Ret (collection_not_found c, ids), e)
    | Some m \<Rightarrow> (Ret (StatusOK, ids @ (if v = ''asc'' then map snd (visible e m) else rev (map snd (visible e m)))), tick e))"
proof (cases "tables e c")
  case (Some m)
  then show ?thesis
    unfolding fetchDocIdsByOrder_def with_handle_run [OF assms] bindM_def
    by (simp add: rocks_iterator_run [OF assms] scan_next_ahead scan_prev_behind ahead_SeekToFirst
        behind_SeekToLast visible_def returnM_def rev_map)
qed (simp add: fetchDocIdsByOrder_def with_handle_run [OF assms])

lemma getAll_run [engine_runs]:
  assumes "engine_inv e"
  shows "getAll c vs e = (case tables e c of
      None \<Rightarrow> (Ret (collection_not_found c, vs), e)
    | Some m \<Rightarrow> (Ret (StatusOK, map snd (visible e m)), tick e))"
proof (cases "tables e c")
  case (Some m)
  then show ?thesis
    unfolding getAll_def with_handle_run [OF assms] bindM_def
    by (simp add: rocks_iterator_run [OF assms] scan_next_ahead ahead_SeekToFirst visible_def returnM_def)
qed (simp add: getAll_def with_handle_run [OF assms])

lemma family_named_None:
  assumes "engine_inv e" "tables e c = None"
  shows "family_named c (store e) = None"
proof -
  have "map_of (columnFamilies e) c = None" using assms tables_None by blast
  then have "\<nexists>h kv. family h (store e) = Some (c, kv)" using mirrorsD(3) [OF engine_invD(4) [OF assms(1)]] by fastforce
  then have "\<nexists>h kv. (h, c, kv) \<in> set (families (store e))"
    using engine_invD(3) [OF assms(1)] by (auto simp: family_def om_lookup_mem)
  then show ?thesis by (auto simp: family_named_def map_of_eq_None_iff)
qed

lemma engine_createCollection_run [engine_runs]:
  assumes "engine_inv e"
  shows "engine_createCollection c e =
    (if tables e c \<noteq> None then (Ret (InvalidArgument (''Collection already exists: '' @ c)), e)
     else if next_answer e = ROk then (Ret StatusOK, add_table c (tick e))
     else (Ret (IOError (r_to_string (next_answer e))), tick e))"
proof (cases "tables e c")
  case None
  moreover have "family_named c (store (tick e)) = None"
    using family_named_None [of "tick e" c] assms None by simp
  moreover have "map_of (columnFamilies e) c = None" using assms None tables_None by blast
  ultimately show ?thesis
    unfolding engine_createCollection_def bindM_def dbcall_run [OF assms] rocks_create_def answer_eq
    by (simp add: store_tick returnM_def) (simp add: add_table_def tick_def)
next
  case (Some m)
  then have "map_of (columnFamilies e) c \<noteq> None" using tables_None [OF assms, of c] by simp
  with Some show ?thesis by (simp add: engine_createCollection_def)
qed

lemma engine_dropCollection_run [engine_runs]:
  assumes "engine_inv e" "c \<noteq> default_family"
  shows "engine_dropCollection c e = (case tables e c of
      None \<Rightarrow> (Ret (collection_not_found c), e)
    | Some m \<Rightarrow> if next_answer e = ROk then (Ret StatusOK, drop_table c (tick e))
                else (Ret (IOError (r_to_string (next_answer e))), tick e))"
proof (cases "tables e c")
  case (Some m)
  from tables_SomeE [OF assms(1) Some] obtain h where h: "map_of (columnFamilies e) c = Some h" by blast
  have "h \<noteq> 0" using handles_other [OF assms(1) engine_invD(5) [OF assms(1)] assms(2)] h by auto
  with Some h show ?thesis
    unfolding engine_dropCollection_def with_handle_run [OF assms(1)] bindM_def dbcall_run [OF assms(1)] rocks_drop_def answer_eq
    by (simp add: store_tick returnM_def) (simp add: drop_table_def tick_def)
qed (simp add: engine_dropCollection_def with_handle_run [OF assms(1)])

lemma collectionExists_tables: "engine_inv e \<Longrightarrow> collectionExists e c = (tables e c \<noteq> None)"
  by (simp add: collectionExists_def tables_None)

section \<open>Lemmas: names of collections and indexes\<close>

text \<open>The family of index \<open>ix\<close> on collection \<open>c\<close>, and the collection names from which it can be told
  apart: those in which, with the delimiter appended, the delimiter first occurs at the end.\<close>

definition index_family :: "string \<Rightarrow> string \<Rightarrow> string" where
  "index_family c ix = c @ index_delimiter @ ix"

definition plain_name :: "string \<Rightarrow> bool" where
  "plain_name c = (find_sub index_delimiter (c @ index_delimiter) = Some (length c))"

lemma prefix_delim_append:
  assumes "m < length c"
  shows "prefix index_delimiter (drop m (c @ index_delimiter @ ix)) = prefix index_delimiter (drop m (c @ index_delimiter))"
proof -
  have l: "length index_delimiter \<le> length (drop m (c @ index_delimiter))" using assms by simp
  have "drop m (c @ index_delimiter @ ix) = drop m (c @ index_delimiter) @ ix" using assms by simp
  moreover have "prefix p (xs @ ys) = prefix p xs" if "length p \<le> length xs" for p xs ys :: string
    using that by (metis prefixI prefix_length_prefix prefix_order.trans)
  ultimately show ?thesis using l by (simp only:)
qed

lemma find_index_family: "plain_name c \<Longrightarrow> find_sub index_delimiter (index_family c ix) = Some (length c)"
proof (rule find_sub_first)
  assume "plain_name c"
  then have "\<forall>m < length c. \<not> prefix index_delimiter (drop m (c @ index_delimiter))"
    using find_sub_Some unfolding plain_name_def by blast
  then show "\<forall>m < length c. \<not> prefix index_delimiter (drop m (index_family c ix))"
    by (simp add: index_family_def prefix_delim_append del: drop_append)
qed (simp_all add: index_family_def)

lemma find_sub_split: "find_sub pat n = Some pos \<Longrightarrow> n = take pos n @ pat @ drop (pos + length pat) n"
  using find_sub_Some [of pat n pos] by (auto simp: prefix_def) (metis append_eq_conv_conj append_take_drop_id drop_drop add.commute)

text \<open>The index a family name stands for.\<close>

definition index_of :: "string \<Rightarrow> (string \<times> string) option" where
  "index_of n = (if n = default_family then None else
     map_option (\<lambda>pos. (take pos n, drop (pos + length index_delimiter) n)) (find_sub index_delimiter n))"

lemma index_of_Some: "index_of n = Some (c, ix) \<Longrightarrow> n = index_family c ix"
  using find_sub_split [of index_delimiter n] by (auto simp: index_of_def index_family_def split: if_splits)

lemma index_of_family: "plain_name c \<Longrightarrow> index_of (index_family c ix) = Some (c, ix)"
proof -
  assume "plain_name c"
  moreover have "index_family c ix \<noteq> default_family"
  proof
    assume "index_family c ix = default_family"
    then have "length (index_family c ix) = 7" by (simp add: default_family_def)
    then show False by (simp add: index_family_def index_delimiter_def)
  qed
  ultimately show ?thesis by (simp add: index_of_def find_index_family) (simp add: index_family_def)
qed

lemma note_index_eq: "note_index (n, h) index = (case index_of n of
    None \<Rightarrow> index
  | Some (cn, ix) \<Rightarrow> om_update cn (insort_insert ix (case map_of index cn of None \<Rightarrow> [] | Some s \<Rightarrow> s)) index)"
  by (simp add: note_index_def index_of_def Let_def split: option.splits)

lemma fold_note_index:
  "\<forall>c. sorted (case map_of index c of None \<Rightarrow> [] | Some s \<Rightarrow> s) \<and> distinct (case map_of index c of None \<Rightarrow> [] | Some s \<Rightarrow> s) \<Longrightarrow>
   (let r = (case map_of (fold note_index fs index) c of None \<Rightarrow> [] | Some s \<Rightarrow> s) in
     sorted r \<and> distinct r \<and>
     set r = set (case map_of index c of None \<Rightarrow> [] | Some s \<Rightarrow> s) \<union> {ix. \<exists>n \<in> fst ` set fs. index_of n = Some (c, ix)})"
proof (induction fs arbitrary: index)
  case (Cons f fs)
  obtain n h where f: "f = (n, h)" by force
  show ?case
  proof (cases "index_of n")
    case None
    with Cons f show ?thesis by (simp add: note_index_eq Let_def)
  next
    case (Some p)
    obtain cn ix where p: "p = (cn, ix)" by force
    let ?i = "om_update cn (insort_insert ix (case map_of index cn of None \<Rightarrow> [] | Some s \<Rightarrow> s)) index"
    have "\<forall>c. sorted (case map_of ?i c of None \<Rightarrow> [] | Some s \<Rightarrow> s) \<and> distinct (case map_of ?i c of None \<Rightarrow> [] | Some s \<Rightarrow> s)"
      using Cons.prems by (simp add: om_lookup_update sorted_insort_insert distinct_insort_insert)
    from Cons.IH [OF this] Some p f show ?thesis
      by (auto simp: note_index_eq om_lookup_update set_insort_insert Let_def)
  qed
qed (auto simp: Let_def)

lemma getIndexNames_sorted: "sorted (getIndexNames e c)" "distinct (getIndexNames e c)"
  and getIndexNames_set: "set (getIndexNames e c) = {ix. \<exists>n \<in> fst ` set (columnFamilies e). index_of n = Some (c, ix)}"
  using fold_note_index [of "[]" "columnFamilies e" c] by (simp_all add: getIndexNames_def Let_def)

lemma mem_columnFamilies: "engine_inv e \<Longrightarrow> n \<in> fst ` set (columnFamilies e) \<longleftrightarrow> tables e n \<noteq> None"
  using tables_None [of e n] map_of_eq_None_iff [of "columnFamilies e" n] by auto

lemma getIndexNames_table: "engine_inv e \<Longrightarrow> ix \<in> set (getIndexNames e c) \<Longrightarrow> tables e (index_family c ix) \<noteq> None"
proof -
  assume e: "engine_inv e" and "ix \<in> set (getIndexNames e c)"
  then obtain n where n: "n \<in> fst ` set (columnFamilies e)" "index_of n = Some (c, ix)"
    unfolding getIndexNames_set by blast
  then show ?thesis using mem_columnFamilies [OF e, of n] index_of_Some [OF n(2)] by simp
qed

lemma getIndexNames_iff:
  assumes "engine_inv e" "plain_name c"
  shows "ix \<in> set (getIndexNames e c) \<longleftrightarrow> tables e (index_family c ix) \<noteq> None"
proof
  assume "tables e (index_family c ix) \<noteq> None"
  then have "index_family c ix \<in> fst ` set (columnFamilies e)" using mem_columnFamilies [OF assms(1)] by blast
  then show "ix \<in> set (getIndexNames e c)"
    unfolding getIndexNames_set using index_of_family [OF assms(2)] by blast
qed (rule getIndexNames_table [OF assms(1)])

lemma getIndexNames_cong: "columnFamilies e = columnFamilies e' \<Longrightarrow> getIndexNames e c = getIndexNames e' c"
  by (simp add: getIndexNames_def)

lemma columnFamilies_set_table [simp]: "columnFamilies (set_table c m e) = columnFamilies e"
  by (simp add: set_table_def split: option.splits)

lemma getIndexNames_set_table [simp]: "getIndexNames (set_table c m e) d = getIndexNames e d"
  and getIndexNames_tick [simp]: "getIndexNames (tick e) d = getIndexNames e d"
  by (rule getIndexNames_cong, simp)+

section \<open>The interface of the engine\<close>

text \<open>The contract under which collections use the engine: tables of ordered entries, an operation that
  reports success has its effect, one that reports a failure has none, and a store that works answers
  every operation on an existing table with success.\<close>

locale table_store =
  fixes tbl :: "'s \<Rightarrow> string \<Rightarrow> kv option"
    and inv :: "'s \<Rightarrow> bool"
    and works :: "'s \<Rightarrow> bool"
    and put :: "string \<Rightarrow> string \<Rightarrow> string \<Rightarrow> ('s, status) comp"
    and remove :: "string \<Rightarrow> string \<Rightarrow> ('s, status) comp"
    and get :: "string \<Rightarrow> string \<Rightarrow> ('s, status \<times> string) comp"
  assumes put_returns: "inv s \<Longrightarrow> \<exists>st s'. put c k v s = (Ret st, s')"
    and remove_returns: "inv s \<Longrightarrow> \<exists>st s'. remove c k s = (Ret st, s')"
    and get_returns: "inv s \<Longrightarrow> \<exists>r s'. get c k s = (Ret r, s')"
    and put_law: "inv s \<Longrightarrow> put c k v s = (Ret st, s') \<Longrightarrow> inv s' \<and> (works s \<longrightarrow> works s') \<and>
      (if ok st then \<exists>m. tbl s c = Some m \<and> tbl s' = (tbl s)(c \<mapsto> om_update k v m) else tbl s' = tbl s) \<and>
      (works s \<and> tbl s c \<noteq> None \<longrightarrow> ok st)"
    and remove_law: "inv s \<Longrightarrow> remove c k s = (Ret st, s') \<Longrightarrow> inv s' \<and> (works s \<longrightarrow> works s') \<and>
      (works s \<and> tbl s c \<noteq> None \<longrightarrow> ok st \<and> (\<exists>m. tbl s c = Some m \<and> tbl s' = (tbl s)(c \<mapsto> om_delete k m)))"
    and get_law: "inv s \<Longrightarrow> get c k s = (Ret (st, v), s') \<Longrightarrow> inv s' \<and> tbl s' = tbl s \<and> (works s \<longrightarrow> works s') \<and>
      (ok st \<longrightarrow> (\<exists>m. tbl s c = Some m \<and> map_of m k = Some v)) \<and>
      (works s \<longrightarrow> (ok st \<longleftrightarrow> (\<exists>m. tbl s c = Some m \<and> map_of m k \<noteq> None)) \<and> (\<not> ok st \<longrightarrow> isNotFound st))"
    and tbl_ok: "inv s \<Longrightarrow> tbl s c = Some m \<Longrightarrow> om_ok m"
begin

text \<open>Read after write: a value put successfully is what a working store returns for its key, and every
  other key of every table returns what it did.\<close>

lemma get_after_put:
  assumes "inv s" "put c k v s = (Ret st, s')" "ok st" "works s'"
  shows "\<exists>st' s''. get c k s' = (Ret (st', v), s'') \<and> ok st'"
proof -
  obtain m where i: "inv s'" and t: "tbl s' c = Some (om_update k v m)"
    using put_law [OF assms(1,2)] assms(3) by auto
  obtain st' v' s'' where g: "get c k s' = (Ret (st', v'), s'')" using get_returns [OF i] by fastforce
  with get_law [OF i g] t assms(4) show ?thesis by (auto simp: om_lookup_update)
qed

lemma get_after_put_other:
  assumes "inv s" "put c k v s = (Ret st, s')" "works s" "(c', k') \<noteq> (c, k)"
    and "get c' k' s = (Ret (st1, v1), s1)" "get c' k' s' = (Ret (st2, v2), s2)" "ok st1 \<or> ok st2"
  shows "ok st1 \<and> ok st2 \<and> v1 = v2"
proof -
  have p: "inv s'" "works s'" "tbl s' = tbl s \<or> (\<exists>m. tbl s c = Some m \<and> tbl s' = (tbl s)(c \<mapsto> om_update k v m))"
    using put_law [OF assms(1,2)] assms(3) by (auto split: if_splits)
  have "(\<exists>m. tbl s' c' = Some m \<and> map_of m k' = Some w) \<longleftrightarrow> (\<exists>m. tbl s c' = Some m \<and> map_of m k' = Some w)" for w
    using p(3) assms(4) by (cases "c' = c") (auto simp: om_lookup_update)
  then show ?thesis
    using get_law [OF assms(1,5)] get_law [OF p(1) assms(6)] p(2) assms(3,7) by (auto; metis option.inject)
qed

lemma get_after_remove:
  assumes "inv s" "works s" "tbl s c \<noteq> None" "remove c k s = (Ret st, s')"
  shows "\<exists>st' v' s''. get c k s' = (Ret (st', v'), s'') \<and> isNotFound st'"
proof -
  obtain m where m: "tbl s c = Some m" "tbl s' = (tbl s)(c \<mapsto> om_delete k m)" and i: "inv s'" and w: "works s'"
    using remove_law [OF assms(1,4)] assms(2,3) by auto
  have n: "map_of (om_delete k m) k = None" using tbl_ok [OF assms(1) m(1)] by (simp add: om_lookup_delete)
  obtain st' v' s'' where g: "get c k s' = (Ret (st', v'), s'')" using get_returns [OF i] by fastforce
  from get_law [OF i g] m(2) w n g show ?thesis by (auto simp del: map_of_eq_None_iff)
qed

end

interpretation eng: table_store tables engine_inv healthy engine_put engine_remove engine_get
proof
  fix s s' :: engine and c k v m st
  assume i: "engine_inv s"
  then have it: "engine_inv (tick s)" by simp
  show "\<exists>st s'. engine_put c k v s = (Ret st, s')" by (simp add: engine_put_run [OF i] split: option.splits)
  show "\<exists>st s'. engine_remove c k s = (Ret st, s')" by (simp add: engine_remove_run [OF i] split: option.splits)
  show "\<exists>r s'. engine_get c k s = (Ret r, s')" by (simp add: engine_get_run [OF i] split: option.splits)
  show "engine_put c k v s = (Ret st, s') \<Longrightarrow> engine_inv s' \<and> (healthy s \<longrightarrow> healthy s') \<and>
      (if ok st then \<exists>m. tables s c = Some m \<and> tables s' = (tables s)(c \<mapsto> om_update k v m) else tables s' = tables s) \<and>
      (healthy s \<and> tables s c \<noteq> None \<longrightarrow> ok st)"
    using i it by (auto simp: engine_put_run [OF i] tables_set_table [OF it] engine_inv_set_table
        om_ok_update tables_ok [OF i] split: option.splits if_splits)
  show "engine_remove c k s = (Ret st, s') \<Longrightarrow> engine_inv s' \<and> (healthy s \<longrightarrow> healthy s') \<and>
      (healthy s \<and> tables s c \<noteq> None \<longrightarrow> ok st \<and> (\<exists>m. tables s c = Some m \<and> tables s' = (tables s)(c \<mapsto> om_delete k m)))"
    using i it by (auto simp: engine_remove_run [OF i] tables_set_table [OF it] tables_set_table [OF i]
        engine_inv_set_table om_ok_delete tables_ok [OF i] split: option.splits if_splits)
  show "engine_get c k s = (Ret (st, v), s') \<Longrightarrow> engine_inv s' \<and> tables s' = tables s \<and> (healthy s \<longrightarrow> healthy s') \<and>
      (ok st \<longrightarrow> (\<exists>m. tables s c = Some m \<and> map_of m k = Some v)) \<and>
      (healthy s \<longrightarrow> (ok st \<longleftrightarrow> (\<exists>m. tables s c = Some m \<and> map_of m k \<noteq> None)) \<and> (\<not> ok st \<longrightarrow> isNotFound st))"
    using i it by (auto simp: engine_get_run [OF i] split: option.splits if_splits)
  show "tables s c = Some m \<Longrightarrow> om_ok m" by (rule tables_ok [OF i])
qed

section \<open>Lemmas: opening and closing\<close>

text \<open>A database at rest: no process holds its lock, and if it exists its families are well formed,
  have distinct names and include the default one.\<close>

definition disk_ok :: "rocks \<Rightarrow> bool" where
  "disk_ok r = (\<not> locked r \<and> (created r \<longrightarrow> om_ok (families r) \<and> distinct (family_names r) \<and>
     list_all (\<lambda>(h, n, kv). om_ok kv \<and> h < next_family r) (families r) \<and>
     map_option fst (family 0 r) = Some default_family))"

text \<open>The tables a database at rest holds.\<close>

definition disk_tables :: "rocks \<Rightarrow> string \<Rightarrow> kv option" where
  "disk_tables r c =
     (if created r then (case family_named c r of None \<Rightarrow> None | Some h \<Rightarrow> map_option snd (family h r))
      else if c = default_family then Some [] else None)"

lemma family_named_iff:
  assumes "om_ok (families r)" "distinct (family_names r)"
  shows "family_named n r = Some h \<longleftrightarrow> (\<exists>kv. family h r = Some (n, kv))"
proof -
  have "distinct (map fst (map (\<lambda>(h, nm, kv). (nm, h)) (families r)))"
    using assms(2) by (simp add: family_names_def comp_def case_prod_beta)
  then have "family_named n r = Some h \<longleftrightarrow> (n, h) \<in> set (map (\<lambda>(h, nm, kv). (nm, h)) (families r))"
    unfolding family_named_def by (rule map_of_eq_Some_iff)
  also have "\<dots> \<longleftrightarrow> (\<exists>kv. (h, n, kv) \<in> set (families r))" by force
  finally show ?thesis using assms(1) by (simp add: family_def om_lookup_mem)
qed

lemma family_named_names: "n \<in> set (family_names r) \<longleftrightarrow> family_named n r \<noteq> None"
  by (force simp: family_names_def family_named_def map_of_eq_None_iff)

text \<open>Opening an existing database with all its families.\<close>

lemma open_handles:
  assumes "om_ok (families r)" "distinct (family_names r)"
  defines "m \<equiv> fold (\<lambda>(n, h). om_update n h) (zip (family_names r) (map (\<lambda>n. the (family_named n r)) (family_names r))) []"
  shows "map_of m = (\<lambda>n. family_named n r)" and "om_ok m"
proof
  fix n
  let ?z = "zip (family_names r) (map (\<lambda>n. the (family_named n r)) (family_names r))"
  have z: "?z = map (\<lambda>n. (n, the (family_named n r))) (family_names r)" by (simp add: zip_map2 zip_same_conv_map)
  have d: "distinct (map fst ?z)" using assms(2) by simp
  have "map_of m n = map_of ?z n"
    unfolding m_def fold_om_update_lookup [OF d] by (cases "map_of ?z n") (simp_all only: option.case map_of.simps)
  also have "\<dots> = family_named n r"
    unfolding z map_of_map_restrict using family_named_names [of n r] by (auto simp: restrict_map_def)
  finally show "map_of m n = family_named n r" .
next
  show "om_ok m" unfolding m_def by (rule fold_om_update_ok) simp
qed

lemma engine_open_created:
  assumes "disk_ok (store e)" "created (store e)" "columnFamilies e = []" "healthy e"
  shows "\<exists>e'. engine_open e = (Ret StatusOK, e') \<and> engine_inv e' \<and> healthy e' \<and> tables e' = disk_tables (store e) \<and>
    families (store e') = families (store e)"
proof -
  let ?r = "store e" and ?n = "family_names (store e)"
  let ?h = "map (\<lambda>n. the (family_named n ?r)) ?n"
  let ?e = "e\<lparr>db_ptr := Opened, columnFamilies := fold (\<lambda>(n, h). om_update n h) (zip ?n ?h) [],
      ownedHandles := ownedHandles e @ ?h, store := ?r\<lparr>locked := True\<rparr>\<rparr>"
  have ok: "om_ok (families ?r)" "distinct ?n" "map_option fst (family 0 ?r) = Some default_family"
    and all: "list_all (\<lambda>(h, n, kv). om_ok kv \<and> h < next_family ?r) (families ?r)" and "\<not> locked ?r"
    using assms(1,2) by (auto simp: disk_ok_def)
  have f: "family h (?r\<lparr>locked := True\<rparr>) = family h ?r" for h by (simp add: family_def)
  obtain kv0 where zero: "family 0 ?r = Some (default_family, kv0)" using ok(3) by auto
  then have "?n \<noteq> []" using family_named_iff [OF ok(1,2), of default_family 0] family_named_names [of default_family ?r] by auto
  moreover have "answer ?r = (ROk, ?r)" using assms(4) by (simp add: answer_def healthy_def)
  moreover have "list_all (\<lambda>n. family_named n ?r \<noteq> None) ?n" using family_named_names by (auto simp: list_all_iff)
  ultimately have run: "engine_open e = (Ret StatusOK, ?e)"
    using assms(2,3) \<open>\<not> locked ?r\<close> by (simp add: engine_open_def rocks_list_def rocks_open_def Let_def)
  have m: "map_of (columnFamilies ?e) = (\<lambda>n. family_named n ?r)" "om_ok (columnFamilies ?e)"
    using open_handles [OF ok(1,2)] by simp_all
  have "mirrors (\<lambda>h. family h ?r) (\<lambda>n. family_named n ?r) (next_family ?r)"
    using all family_named_iff [OF ok(1,2)]
    by (intro mirrorsI) (auto simp: list_all_iff family_def om_lookup_mem [OF ok(1)])
  moreover have "family_named default_family ?r = Some 0" using zero family_named_iff [OF ok(1,2)] by blast
  ultimately have "engine_inv ?e"
    using ok(1) assms(2) m unfolding engine_inv_def by (simp add: f)
  moreover have "tables ?e = disk_tables ?r"
    unfolding fun_eq_iff tables_def m(1) using assms(2) by (simp add: f disk_tables_def split: option.splits)
  ultimately show ?thesis using run assms(4) by (auto simp: healthy_def)
qed

lemma engine_open_fresh:
  assumes "\<not> locked (store e)" "\<not> created (store e)" "columnFamilies e = []" "healthy e"
  shows "\<exists>e'. engine_open e = (Ret StatusOK, e') \<and> engine_inv e' \<and> healthy e' \<and> tables e' = [default_family \<mapsto> []]"
proof -
  let ?e = "e\<lparr>db_ptr := Opened, columnFamilies := [(default_family, 0)], ownedHandles := ownedHandles e @ [0],
      store := (store e)\<lparr>families := [(0, default_family, [])], next_family := 1, created := True, locked := True\<rparr>\<rparr>"
  have "answer (store e) = (ROk, store e)" using assms(4) by (simp add: answer_def healthy_def)
  then have "engine_open e = (Ret StatusOK, ?e)"
    using assms by (simp add: engine_open_def rocks_list_def rocks_open_def Let_def family_names_def family_named_def)
  moreover have "engine_inv ?e"
    unfolding engine_inv_def by (auto simp: om_ok_def family_def intro!: mirrorsI split: if_splits)
  moreover have "tables ?e = [default_family \<mapsto> []]"
    by (auto simp: fun_eq_iff tables_def family_def)
  ultimately show ?thesis using assms(4) by (auto simp: healthy_def)
qed

lemma flush_all_run:
  assumes "healthy e" "db_ptr e = Opened"
  shows "forM (\<lambda>(n, h). bindM (dbcall (rocks_flush h)) (\<lambda>_. returnM ())) fs e = (Ret (), e)"
proof (induction fs)
  case (Cons f fs)
  have "answer (store e) = (ROk, store e)" using assms(1) by (simp add: answer_def healthy_def)
  then have "dbcall (rocks_flush h) e = (Ret ROk, e)" for h using assms(2) by (simp add: dbcall_def rocks_flush_def)
  with Cons show ?case by (cases f) (simp add: bindM_def returnM_def)
qed (simp add: returnM_def)

lemma disk_ok_closed:
  assumes "engine_inv e"
  shows "disk_ok ((store e)\<lparr>locked := False\<rparr>)" "disk_tables ((store e)\<lparr>locked := False\<rparr>) = tables e"
proof -
  let ?r = "(store e)\<lparr>locked := False\<rparr>"
  have f: "family h ?r = family h (store e)" for h by (simp add: family_def)
  note i = engine_invD [OF assms] and m = mirrorsD [OF engine_invD(4) [OF assms]]
  have fam: "om_ok (families ?r)" using i(3) by simp
  have inj: "h = h'" if "family h (store e) = Some (n, kv)" "family h' (store e) = Some (n, kv')" for h h' n kv kv'
    using m(3) that by (metis option.inject)
  have mem: "(h, n, kv) \<in> set (families ?r) \<longleftrightarrow> family h (store e) = Some (n, kv)" for h n kv
    using i(3) by (simp add: family_def om_lookup_mem)
  have "inj_on (\<lambda>p. fst (snd p)) (set (families ?r))"
  proof (rule inj_onI)
    fix p q assume "p \<in> set (families ?r)" "q \<in> set (families ?r)" "fst (snd p) = fst (snd q)"
    moreover obtain h n kv where p: "p = (h, n, kv)" by (cases p) auto
    moreover obtain h' n' kv' where q: "q = (h', n', kv')" by (cases q) auto
    ultimately have pq: "family h (store e) = Some (n, kv)" "family h' (store e) = Some (n, kv')" "n' = n"
      using mem by simp_all
    with inj [OF pq(1,2)] p q show "p = q" by simp
  qed
  then have dist: "distinct (family_names ?r)"
    using om_ok_distinct [OF fam] by (simp add: family_names_def distinct_map)
  obtain kv0 where "family 0 (store e) = Some (default_family, kv0)" using m(4) [OF i(5)] by blast
  then show "disk_ok ?r"
    using fam dist m(1,2) mem by (auto simp: disk_ok_def f list_all_iff)
  have "family_named c ?r = map_of (columnFamilies e) c" for c
  proof (rule option.expand)
    show "(family_named c ?r = None) = (map_of (columnFamilies e) c = None)"
      using family_named_iff [OF fam dist, of c] m(3,4) by (auto simp: f) (metis option.exhaust)+
    assume "family_named c ?r \<noteq> None"
    then obtain h where h: "family_named c ?r = Some h" by blast
    then obtain kv where "family h (store e) = Some (c, kv)" using family_named_iff [OF fam dist, of c h] by (auto simp: f)
    then show "the (family_named c ?r) = the (map_of (columnFamilies e) c)" using h m(3) by simp
  qed
  then show "disk_tables ?r = tables e"
    using assms by (auto simp: fun_eq_iff disk_tables_def tables_def f engine_inv_def split: option.splits)
qed

lemma engine_close_run:
  assumes "engine_inv e" "healthy e"
  shows "engine_close e = (Ret StatusOK,
    e\<lparr>columnFamilies := [], ownedHandles := [], store := (store e)\<lparr>locked := False\<rparr>, db_ptr := Null\<rparr>)"
proof -
  note o = engine_invD(1) [OF assms(1)]
  have a: "answer (store e) = (ROk, store e)" using assms(2) by (simp add: answer_def healthy_def)
  let ?e = "e\<lparr>columnFamilies := [], ownedHandles := []\<rparr>"
  note fl = flush_all_run [OF assms(2) o, of "columnFamilies e"]
  have y: "dbcall rocks_sync e = (Ret ROk, e)" using o a by (simp add: dbcall_def rocks_sync_def)
  have c: "dbcall rocks_close ?e = (Ret ROk, ?e\<lparr>store := (store e)\<lparr>locked := False\<rparr>\<rparr>)"
    using o a by (simp add: dbcall_def rocks_close_def)
  show ?thesis
    by (simp add: engine_close_def o bindM_Ret fl y c)
qed

lemma engine_reopen:
  assumes "engine_inv e" "healthy e"
  shows "\<exists>e1 e2. engine_close e = (Ret StatusOK, e1) \<and> engine_open e1 = (Ret StatusOK, e2) \<and>
    engine_inv e2 \<and> healthy e2 \<and> tables e2 = tables e"
proof -
  let ?e = "e\<lparr>columnFamilies := [], ownedHandles := [], store := (store e)\<lparr>locked := False\<rparr>, db_ptr := Null\<rparr>"
  have "created (store e)" using assms(1) by (simp add: engine_inv_def)
  then obtain e2 where "engine_open ?e = (Ret StatusOK, e2)" "engine_inv e2" "healthy e2" "tables e2 = disk_tables (store ?e)"
    using engine_open_created [of ?e] disk_ok_closed(1) [OF assms(1)] assms(2) by (auto simp: healthy_def)
  then show ?thesis using engine_close_run [OF assms] disk_ok_closed(2) [OF assms(1)] by auto
qed

section \<open>Runs of the engine\<close>

text \<open>One call of the engine's interface that returns, as a step from state to state.\<close>

inductive engine_step :: "engine \<Rightarrow> engine \<Rightarrow> bool" where
  step_put: "engine_put c k v e = (Ret st, e') \<Longrightarrow> engine_step e e'"
| step_putIndex: "engine_putIndex c k v e = (Ret st, e') \<Longrightarrow> engine_step e e'"
| step_remove: "engine_remove c k e = (Ret st, e') \<Longrightarrow> engine_step e e'"
| step_get: "engine_get c k e = (Ret r, e') \<Longrightarrow> engine_step e e'"
| step_getAll: "getAll c vs e = (Ret r, e') \<Longrightarrow> engine_step e e'"
| step_equal: "fetchDocIdsForEqual c pre ids e = (Ret r, e') \<Longrightarrow> engine_step e e'"
| step_greater: "fetchDocIdsForGreater c pre ids e = (Ret r, e') \<Longrightarrow> engine_step e e'"
| step_lesser: "fetchDocIdsForLesser c pre ids e = (Ret r, e') \<Longrightarrow> engine_step e e'"
| step_order: "fetchDocIdsByOrder c v ids e = (Ret r, e') \<Longrightarrow> engine_step e e'"
| step_create: "engine_createCollection c e = (Ret st, e') \<Longrightarrow> engine_step e e'"
| step_drop: "engine_dropCollection c e = (Ret st, e') \<Longrightarrow> engine_step e e'"

lemma fetchDocIdsForLesser_state:
  assumes "engine_inv e" "fetchDocIdsForLesser c pre ids e = (Ret r, e')"
  shows "e' = e \<or> e' = tick e"
proof (cases "tables e c")
  case (Some m)
  with assms show ?thesis
    unfolding fetchDocIdsForLesser_def with_handle_run [OF assms(1)] bindM_def
    by (auto simp: rocks_iterator_run [OF assms(1)] returnM_def liftO_def split: outcome.splits)
qed (use assms in \<open>simp add: fetchDocIdsForLesser_def with_handle_run\<close>)

lemma engine_dropCollection_default:
  assumes "engine_inv e" "engine_dropCollection default_family e = (Ret st, e')"
  shows "e' = tick e \<and> \<not> ok st"
proof -
  have z: "map_of (columnFamilies e) default_family = Some 0" by (rule engine_invD(5) [OF assms(1)])
  then show ?thesis
    using assms unfolding engine_dropCollection_def with_handle_def bindM_def dbcall_run [OF assms(1)] rocks_drop_def answer_eq
    by (auto simp: store_tick returnM_def split: if_splits)
qed

lemma engine_dropCollection_inv:
  "engine_inv e \<Longrightarrow> engine_dropCollection c e = (Ret st, e') \<Longrightarrow> engine_inv e'"
  using engine_dropCollection_default [of e st e']
  by (cases "c = default_family") (auto simp: engine_dropCollection_run engine_inv_drop_table split: option.splits if_splits)

lemma engine_createCollection_inv:
  "engine_inv e \<Longrightarrow> engine_createCollection c e = (Ret st, e') \<Longrightarrow> engine_inv e'"
  by (auto simp: engine_createCollection_run engine_inv_add_table split: if_splits)

lemma fetch_inv:
  assumes "engine_inv e"
  shows "getAll c vs e = (Ret r, e') \<Longrightarrow> engine_inv e'" "fetchDocIdsForEqual c pre ids e = (Ret r, e') \<Longrightarrow> engine_inv e'"
    "fetchDocIdsForGreater c pre ids e = (Ret r, e') \<Longrightarrow> engine_inv e'" "fetchDocIdsByOrder c v ids e = (Ret r, e') \<Longrightarrow> engine_inv e'"
    "fetchDocIdsForLesser c pre ids e = (Ret r, e') \<Longrightarrow> engine_inv e'"
  using assms fetchDocIdsForLesser_state [OF assms, of c pre ids r e']
  by (auto simp: getAll_run fetchDocIdsForEqual_run fetchDocIdsForGreater_run fetchDocIdsByOrder_run split: option.splits)

lemma engine_step_inv: "engine_step e e' \<Longrightarrow> engine_inv e \<Longrightarrow> engine_inv e'"
proof (induction rule: engine_step.induct)
  case (step_get c k e r e')
  then show ?case using eng.get_law [of e c k] by (cases r) blast
qed (auto simp: engine_putIndex_run dest: eng.put_law eng.remove_law fetch_inv engine_createCollection_inv engine_dropCollection_inv)

lemma engine_steps_inv: "engine_step\<^sup>*\<^sup>* e e' \<Longrightarrow> engine_inv e \<Longrightarrow> engine_inv e'"
  by (induction rule: rtranclp_induct) (auto intro: engine_step_inv)

text \<open>A constructed engine over a directory that does not exist yet.\<close>

definition new_engine :: engine where
  "new_engine = \<lparr>db_ptr = Uninit, columnFamilies = [], ownedHandles = [],
     store = \<lparr>families = [], next_family = 0, faults = [], created = False, locked = False\<rparr>\<rparr>"

definition opened_engine :: engine where
  "opened_engine = snd (engine_open new_engine)"

lemma opened_engine: "engine_open new_engine = (Ret StatusOK, opened_engine)" "engine_inv opened_engine"
  "healthy opened_engine" "tables opened_engine = [default_family \<mapsto> []]"
  using engine_open_fresh [of new_engine] by (auto simp: opened_engine_def new_engine_def healthy_def)

text \<open>The same engine with one collection.\<close>

definition engine_with :: "string \<Rightarrow> engine" where
  "engine_with c = add_table c opened_engine"

lemma engine_with:
  assumes "c \<noteq> default_family"
  shows "engine_inv (engine_with c)" "healthy (engine_with c)" "tables (engine_with c) = [default_family \<mapsto> [], c \<mapsto> []]"
  using assms opened_engine by (simp_all add: engine_with_def engine_inv_add_table tables_add_table)

section \<open>Properties of the engine\<close>

text \<open>Starting from an opened engine, whatever sequence of puts, index puts, gets, removes, scans,
  and creations and drops of collections is run, and whatever calls the store answers with an error,
  the engine's map of names and the store's column families stay in agreement: every known name has
  its own live family of that name, every live family is known, the entries of each are in strict
  key order, and the default family stays.\<close>

theorem engine_reachable_inv:
  "engine_open new_engine = (Ret st, e0) \<Longrightarrow> engine_step\<^sup>*\<^sup>* e0 e \<Longrightarrow> engine_inv e"
  using engine_steps_inv opened_engine by simp

theorem engine_reachable_inv_witness:
  "engine_inv (snd (engine_createCollection ''users'' opened_engine))"
proof -
  have "engine_createCollection ''users'' opened_engine = (Ret StatusOK, add_table ''users'' opened_engine)"
    using opened_engine by (simp add: engine_createCollection_run default_family_def)
  then show ?thesis
    using engine_reachable_inv [OF opened_engine(1), of "add_table ''users'' opened_engine"] step_create by fastforce
qed

text \<open>\<^verbatim>\<open>put\<close> and \<^verbatim>\<open>remove\<close> refine the update and deletion of one key of one table. On an open engine
  both return; \<^verbatim>\<open>put\<close> has reported success exactly when the key now holds the value and everything
  else is as it was, and after a reported failure nothing has changed; a working store fails only
  for a collection that does not exist.\<close>

theorem engine_put_remove_refine:
  assumes "engine_inv e"
  shows "(\<exists>st e'. engine_put c k v e = (Ret st, e') \<and> engine_inv e' \<and>
      (ok st \<longrightarrow> (\<exists>m. tables e c = Some m \<and> tables e' = (tables e)(c \<mapsto> om_update k v m))) \<and>
      (\<not> ok st \<longrightarrow> tables e' = tables e) \<and> (healthy e \<longrightarrow> ok st = (tables e c \<noteq> None))) \<and>
    (\<exists>st e'. engine_remove c k e = (Ret st, e') \<and> engine_inv e' \<and>
      (\<not> ok st \<longrightarrow> tables e' = tables e) \<and>
      (healthy e \<longrightarrow> ok st = (tables e c \<noteq> None) \<and> (\<forall>m. tables e c = Some m \<longrightarrow> tables e' = (tables e)(c \<mapsto> om_delete k m))))"
proof
  obtain st e' where p: "engine_put c k v e = (Ret st, e')" using eng.put_returns [OF assms] by blast
  then show "\<exists>st e'. engine_put c k v e = (Ret st, e') \<and> engine_inv e' \<and>
      (ok st \<longrightarrow> (\<exists>m. tables e c = Some m \<and> tables e' = (tables e)(c \<mapsto> om_update k v m))) \<and>
      (\<not> ok st \<longrightarrow> tables e' = tables e) \<and> (healthy e \<longrightarrow> ok st = (tables e c \<noteq> None))"
    using eng.put_law [OF assms p] by (auto split: if_splits)
next
  obtain st e' where r: "engine_remove c k e = (Ret st, e')" using eng.remove_returns [OF assms] by blast
  then have "\<not> ok st \<Longrightarrow> tables e' = tables e" "tables e c = None \<Longrightarrow> \<not> ok st"
    by (auto simp: engine_remove_run [OF assms] split: option.splits if_splits)
  with r show "\<exists>st e'. engine_remove c k e = (Ret st, e') \<and> engine_inv e' \<and>
      (\<not> ok st \<longrightarrow> tables e' = tables e) \<and>
      (healthy e \<longrightarrow> ok st = (tables e c \<noteq> None) \<and> (\<forall>m. tables e c = Some m \<longrightarrow> tables e' = (tables e)(c \<mapsto> om_delete k m)))"
    using eng.remove_law [OF assms r] by (cases "tables e c") auto
qed

theorem engine_put_remove_refine_witness:
  "\<exists>e'. engine_put ''users'' ''k'' ''v'' (engine_with ''users'') = (Ret StatusOK, e') \<and> tables e' ''users'' = Some [(''k'', ''v'')]"
proof -
  have u: "''users'' \<noteq> default_family" by (simp add: default_family_def)
  obtain st e' where "engine_put ''users'' ''k'' ''v'' (engine_with ''users'') = (Ret st, e')" "ok st"
    "tables e' ''users'' = Some [(''k'', ''v'')]"
    using engine_put_remove_refine [OF engine_with(1) [OF u], of "''users''" "''k''" "''v''"] engine_with(2,3) [OF u] by auto
  then show ?thesis by (auto simp: engine_put_run [OF engine_with(1) [OF u]] engine_with(2,3) [OF u])
qed

text \<open>Read after write through the engine: once \<^verbatim>\<open>put\<close> reported success and the store works,
  \<^verbatim>\<open>get\<close> of that key returns the value put.\<close>

theorem engine_get_after_put:
  assumes "engine_inv e" "engine_put c k v e = (Ret st, e')" "ok st" "healthy e'"
  shows "\<exists>e''. engine_get c k e' = (Ret (StatusOK, v), e'')"
proof -
  obtain st' e'' where g: "engine_get c k e' = (Ret (st', v), e'')" "ok st'"
    using eng.get_after_put [OF assms] by blast
  moreover have "engine_inv e'" using eng.put_law [OF assms(1,2)] by blast
  ultimately have "st' = StatusOK"
    using assms(4) by (auto simp: engine_get_run split: option.splits if_splits)
  with g show ?thesis by blast
qed

theorem engine_get_after_put_witness:
  "\<exists>e''. engine_get ''users'' ''k'' (snd (engine_put ''users'' ''k'' ''v'' (engine_with ''users''))) = (Ret (StatusOK, ''v''), e'')"
proof -
  have u: "''users'' \<noteq> default_family" by (simp add: default_family_def)
  note w = engine_with [OF u]
  have "engine_put ''users'' ''k'' ''v'' (engine_with ''users'') = (Ret StatusOK, set_table ''users'' [(''k'', ''v'')] (engine_with ''users''))"
    using w by (simp add: engine_put_run)
  with engine_get_after_put [OF w(1) this] w(2) show ?thesis by simp
qed

text \<open>The three index scans split an index table. On a working store, over a table whose keys all
  contain \<^verbatim>\<open>#\<close>, \<^verbatim>\<open>fetchDocIdsForEqual\<close>, \<^verbatim>\<open>fetchDocIdsForGreater\<close> and \<^verbatim>\<open>fetchDocIdsForLesser\<close> with the same
  prefix return: the values of the keys with that prefix in key order, of the keys above it that do
  not have it in key order, and of the keys below it in reverse key order; together every value of
  the table exactly once.\<close>

theorem fetch_split:
  assumes "engine_inv e" "healthy e" "tables e c = Some m" "list_all (\<lambda>p. CHR ''#'' \<in> set (fst p)) m"
  shows "\<exists>eqs gts lts.
    fetchDocIdsForEqual c pre [] e = (Ret (StatusOK, eqs), e) \<and> eqs = map snd (filter (\<lambda>p. prefix pre (fst p)) m) \<and>
    fetchDocIdsForGreater c pre [] e = (Ret (StatusOK, gts), e) \<and> gts = map snd (filter (\<lambda>p. pre < fst p \<and> \<not> prefix pre (fst p)) m) \<and>
    fetchDocIdsForLesser c pre [] e = (Ret (StatusOK, lts), e) \<and> lts = rev (map snd (filter (\<lambda>p. fst p < pre) m)) \<and>
    mset eqs + mset gts + mset lts = mset (map snd m)"
proof -
  let ?E = "\<lambda>p :: string \<times> string. prefix pre (fst p)" and ?G = "\<lambda>p :: string \<times> string. pre < fst p \<and> \<not> prefix pre (fst p)"
    and ?L = "\<lambda>p :: string \<times> string. fst p < pre"
  have g: "filter (\<lambda>p. pre \<le> fst p \<and> \<not> prefix pre (fst p)) m = filter ?G m"
    by (auto simp: le_less intro!: filter_cong)
  have "filter_mset ?E (mset m) + filter_mset ?G (mset m) + filter_mset ?L (mset m) = mset m"
    using prefix_imp_le [of pre] by (induction m) (auto simp: not_less le_less)
  then have "image_mset snd (filter_mset ?E (mset m)) + image_mset snd (filter_mset ?G (mset m)) +
      image_mset snd (filter_mset ?L (mset m)) = image_mset snd (mset m)"
    by (metis image_mset_union)
  then have "mset (map snd (filter ?E m)) + mset (map snd (filter ?G m)) + mset (rev (map snd (filter ?L m))) = mset (map snd m)"
    by simp
  moreover have "fetchDocIdsForLesser c pre [] e = (Ret (StatusOK, rev (map snd (filter ?L m))), e)"
    by (subst fetchDocIdsForLesser_run [OF assms(1)]) (use assms in \<open>auto simp: visible_healthy\<close>)
  ultimately show ?thesis
    using assms(1-3) by (simp add: fetchDocIdsForEqual_run fetchDocIdsForGreater_run visible_healthy g)
qed

theorem fetch_split_witness:
  "\<exists>e. engine_inv e \<and> tables e ''i'' = Some [(''a#1'', ''1''), (''b#2'', ''2''), (''c#3'', ''3'')] \<and>
    fetchDocIdsForGreater ''i'' ''b#'' [] e = (Ret (StatusOK, [''3'']), e) \<and> fetchDocIdsForLesser ''i'' ''b#'' [] e = (Ret (StatusOK, [''1'']), e)"
proof -
  let ?m = "[(''a#1'', ''1''), (''b#2'', ''2''), (''c#3'', ''3'')]" and ?e = "set_table ''i'' [(''a#1'', ''1''), (''b#2'', ''2''), (''c#3'', ''3'')] (engine_with ''i'')"
  have u: "''i'' \<noteq> default_family" by (simp add: default_family_def)
  note w = engine_with [OF u]
  have "om_ok ?m" by (simp add: om_ok_def less_char_def)
  then have i: "engine_inv ?e" using w(1) by (rule engine_inv_set_table [rotated])
  have t: "tables ?e ''i'' = Some ?m" using w by (simp add: tables_set_table)
  have h: "healthy ?e" using w by simp
  show ?thesis
    using fetch_split [OF i h t, of "''b#''"] i t by (auto simp: less_char_def)
qed

text \<open>\<^verbatim>\<open>getIndexNames\<close> returns, sorted and without repetition, exactly the indexes of the collection:
  the names \<^verbatim>\<open>ix\<close> for which the family \<^verbatim>\<open>c__index__ix\<close> exists, for every collection name that does not
  contain the delimiter and does not end in a way that makes it occur early.\<close>

theorem getIndexNames_exact:
  assumes "engine_inv e" "plain_name c"
  shows "sorted (getIndexNames e c) \<and> distinct (getIndexNames e c) \<and>
    set (getIndexNames e c) = {ix. tables e (c @ ''__index__'' @ ix) \<noteq> None}"
proof -
  have "set (getIndexNames e c) = {ix. tables e (index_family c ix) \<noteq> None}"
    using getIndexNames_iff [OF assms] by blast
  then show ?thesis by (simp add: getIndexNames_sorted index_family_def index_delimiter_def)
qed

theorem getIndexNames_exact_witness:
  "''age'' \<in> set (getIndexNames (engine_with ''users__index__age'') ''users'')"
proof -
  have u: "''users__index__age'' \<noteq> default_family" by (simp add: default_family_def)
  have "plain_name ''users''" by (simp add: plain_name_def index_delimiter_def)
  from getIndexNames_exact [OF engine_with(1) [OF u] this] show ?thesis
    using engine_with(3) [OF u] by simp
qed

text \<open>Closing and reopening a working engine keeps every collection and every entry: \<^verbatim>\<open>close\<close> and then
  \<^verbatim>\<open>open\<close> both succeed and the tables are the same.\<close>

theorem engine_reopen_persists:
  "engine_inv e \<Longrightarrow> healthy e \<Longrightarrow>
    \<exists>e1 e2. engine_close e = (Ret StatusOK, e1) \<and> engine_open e1 = (Ret StatusOK, e2) \<and> engine_inv e2 \<and> tables e2 = tables e"
  using engine_reopen by blast

theorem engine_reopen_persists_witness:
  "\<exists>e1 e2. engine_close (engine_with ''users'') = (Ret StatusOK, e1) \<and> engine_open e1 = (Ret StatusOK, e2) \<and> tables e2 ''users'' = Some []"
proof -
  have u: "''users'' \<noteq> default_family" by (simp add: default_family_def)
  from engine_reopen_persists [OF engine_with(1,2) [OF u]] engine_with(3) [OF u] show ?thesis by fastforce
qed

text \<open>\<^verbatim>\<open>createCollection\<close> and \<^verbatim>\<open>dropCollection\<close>: on a working engine a new name gets an empty table and
  all others are kept, an existing name is refused without a change; dropping an existing collection
  other than the default one removes its table only, and a missing one is reported as not found.\<close>

theorem engine_create_drop:
  assumes "engine_inv e" "healthy e" "c \<noteq> ''default''"
  shows "if tables e c = None
    then (\<exists>e'. engine_createCollection c e = (Ret StatusOK, e') \<and> tables e' = (tables e)(c \<mapsto> [])) \<and>
         engine_dropCollection c e = (Ret (NotFound (''Collection not found: '' @ c)), e)
    else engine_createCollection c e = (Ret (InvalidArgument (''Collection already exists: '' @ c)), e) \<and>
         (\<exists>e'. engine_dropCollection c e = (Ret StatusOK, e') \<and> tables e' = (tables e)(c := None))"
  using assms
  by (auto simp: engine_createCollection_run engine_dropCollection_run default_family_def tables_add_table
      tables_drop_table collection_not_found_def split: option.splits)

theorem engine_create_drop_witness:
  "\<exists>e'. engine_dropCollection ''users'' (engine_with ''users'') = (Ret StatusOK, e') \<and> tables e' ''users'' = None"
proof -
  have u: "''users'' \<noteq> default_family" by (simp add: default_family_def)
  from engine_create_drop [OF engine_with(1,2) [OF u], of "''users''"] engine_with(3) [OF u] show ?thesis by auto
qed

end
