(* ===== verification/Anu_Ieee.thy ===== *)
theory Anu_Ieee
  imports Anu_Prelude
begin

text \<open>
  IEEE 754 numbers as bit patterns: a \<^verbatim>\<open>double\<close> is a 64-bit word, a \<^verbatim>\<open>float\<close> a 32-bit one.
  \<open>fp_units\<close> reads a finite double as an exact integer multiple of \<open>2 ^ (-1074)\<close>, the least
  positive denormal (an infinity reads as a value beyond every finite one), so that the C++
  operators \<open>==\<close>, \<open><\<close>, \<open>\<le>\<close> on doubles are comparisons of integers. The conversions
  \<^verbatim>\<open>int64_t\<close> to \<^verbatim>\<open>double\<close> and \<^verbatim>\<open>double\<close> to \<^verbatim>\<open>float\<close> round to nearest, ties to even.
\<close>

type_synonym double = "64 word"
type_synonym float32 = "32 word"

definition fp_neg :: "double \<Rightarrow> bool" where
  "fp_neg w = (2 ^ 63 \<le> unat w)"

definition fp_mag :: "double \<Rightarrow> nat" where
  "fp_mag w = unat w mod 2 ^ 63"

definition fp_nan :: "double \<Rightarrow> bool" where
  "fp_nan w = (2047 * 2 ^ 52 < fp_mag w)"

definition mag_units :: "nat \<Rightarrow> nat" where
  "mag_units m = (let e = m div 2 ^ 52; f = m mod 2 ^ 52
                  in if e = 0 then f else (2 ^ 52 + f) * 2 ^ (e - 1))"

definition fp_units :: "double \<Rightarrow> int" where
  "fp_units w = (if fp_neg w then - int (mag_units (fp_mag w)) else int (mag_units (fp_mag w)))"

definition fp_eq :: "double \<Rightarrow> double \<Rightarrow> bool" where
  "fp_eq a b = (\<not> fp_nan a \<and> \<not> fp_nan b \<and> fp_units a = fp_units b)"

definition fp_lt :: "double \<Rightarrow> double \<Rightarrow> bool" where
  "fp_lt a b = (\<not> fp_nan a \<and> \<not> fp_nan b \<and> fp_units a < fp_units b)"

definition fp_le :: "double \<Rightarrow> double \<Rightarrow> bool" where
  "fp_le a b = (\<not> fp_nan a \<and> \<not> fp_nan b \<and> fp_units a \<le> fp_units b)"

text \<open>Truncation towards zero, as a conversion to an integer type does.\<close>

definition fp_trunc :: "double \<Rightarrow> int" where
  "fp_trunc w = (if fp_neg w then - int (mag_units (fp_mag w) div 2 ^ 1074)
                 else int (mag_units (fp_mag w) div 2 ^ 1074))"

fun ilog2 :: "nat \<Rightarrow> nat" where
  "ilog2 n = (if n < 2 then 0 else Suc (ilog2 (n div 2)))"

declare ilog2.simps [simp del]

definition rne_shift :: "nat \<Rightarrow> nat \<Rightarrow> nat" where
  "rne_shift m s =
     (if s = 0 then m
      else let q = m div 2 ^ s; r = m mod 2 ^ s; half = 2 ^ (s - 1)
           in if half < r \<or> (r = half \<and> odd q) then q + 1 else q)"

definition double_of_int :: "int \<Rightarrow> double" where
  "double_of_int i =
     (let m = nat \<bar>i\<bar>; e = ilog2 m;
          mag = (if m = 0 then 0
                 else if e \<le> 52 then (e + 1022) * 2 ^ 52 + m * 2 ^ (52 - e)
                 else (e + 1022) * 2 ^ 52 + rne_shift m (e - 52))
      in word_of_nat (if i < 0 then 2 ^ 63 + mag else mag))"

definition float_of_double :: "double \<Rightarrow> float32" where
  "float_of_double w =
     (let e = fp_mag w div 2 ^ 52; f = fp_mag w mod 2 ^ 52;
          m = (if e = 0 then f else 2 ^ 52 + f); e' = max e 1;
          mag = (if 897 \<le> e' then (e' - 897) * 2 ^ 23 + rne_shift m 29
                 else rne_shift m (29 + (897 - e')))
      in word_of_nat (if fp_neg w then 2 ^ 31 + mag else mag))"

definition double_of_float :: "float32 \<Rightarrow> double" where
  "double_of_float x =
     (let n = unat x; neg = (2 ^ 31 \<le> n); F = n mod 2 ^ 31 div 2 ^ 23; g = n mod 2 ^ 23;
          mag = (if F = 255 then 2047 * 2 ^ 52 + g * 2 ^ 29
                 else if F \<noteq> 0 then (F + 896) * 2 ^ 52 + g * 2 ^ 29
                 else if g = 0 then 0
                 else (ilog2 g + 873) * 2 ^ 52 + g * 2 ^ (52 - ilog2 g))
      in word_of_nat (if neg then 2 ^ 63 + mag else mag))"

definition float_max :: double where
  "float_max = double_of_float 0x7F7FFFFF"

definition float_lowest :: double where
  "float_lowest = double_of_float 0xFF7FFFFF"

section \<open>The order of doubles is the order of their sign-magnitude patterns\<close>

lemma mag_units_Suc: "mag_units m < mag_units (Suc m)"
proof -
  define e f where "e = m div 2 ^ 52" and "f = m mod 2 ^ 52"
  have m: "m = e * 2 ^ 52 + f" and f: "f < 2 ^ 52"
    by (simp_all add: e_def f_def)
  show ?thesis
  proof (cases "Suc f < 2 ^ 52")
    case True
    then have d: "Suc m div 2 ^ 52 = e" "Suc m mod 2 ^ 52 = Suc f"
      unfolding m by (simp_all add: mod_Suc div_Suc)
    show ?thesis unfolding mag_units_def Let_def d
      using e_def f_def by auto
  next
    case False
    with f have f': "f = 2 ^ 52 - 1" by simp
    then have Sm: "Suc m = Suc e * 2 ^ 52" unfolding m by simp
    have d: "Suc m div 2 ^ 52 = Suc e" "Suc m mod 2 ^ 52 = 0"
      unfolding Sm by (simp_all del: mult_Suc)
    have "mag_units m = (if e = 0 then f else (2 ^ 52 + f) * 2 ^ (e - 1))"
      by (simp only: mag_units_def Let_def flip: e_def f_def)
    moreover have "mag_units (Suc m) = 2 ^ 52 * 2 ^ e"
      unfolding mag_units_def Let_def d by simp
    ultimately show ?thesis using f' by (cases e) simp_all
  qed
qed

lemma mag_units_strict_mono: "strict_mono mag_units"
  by (simp add: strict_mono_Suc_iff mag_units_Suc)

lemma mag_units_less [simp]: "mag_units m < mag_units n \<longleftrightarrow> m < n"
  by (rule strict_mono_less [OF mag_units_strict_mono])

lemma mag_units_eq [simp]: "mag_units m = mag_units n \<longleftrightarrow> m = n"
  by (rule strict_mono_eq [OF mag_units_strict_mono])

lemma mag_units_0 [simp]: "mag_units 0 = 0"
  by (simp add: mag_units_def)

lemma mag_units_eq_0 [simp]: "mag_units m = 0 \<longleftrightarrow> m = 0"
  using mag_units_eq [of m 0] by simp

definition fp_signmag :: "double \<Rightarrow> int" where
  "fp_signmag w = (if fp_neg w then - int (fp_mag w) else int (fp_mag w))"

lemma minus_int_less_int: "- int x < int y \<longleftrightarrow> x \<noteq> 0 \<or> y \<noteq> 0"
  by linarith

lemma int_less_minus_int: "\<not> int x < - int y"
  by linarith

lemma fp_units_less_iff: "fp_units a < fp_units b \<longleftrightarrow> fp_signmag a < fp_signmag b"
  unfolding fp_units_def fp_signmag_def
  by (cases "fp_neg a"; cases "fp_neg b") (simp_all add: minus_int_less_int int_less_minus_int)

lemma fp_units_eq_iff: "fp_units a = fp_units b \<longleftrightarrow> fp_signmag a = fp_signmag b"
  using fp_units_less_iff [of a b] fp_units_less_iff [of b a] by linarith

lemma unat_split_sign: "unat w = (if fp_neg w then 2 ^ 63 + fp_mag w else fp_mag w)" for w :: double
proof -
  have "unat w < 2 ^ 64" using unsigned_less [of w] by simp
  then show ?thesis by (auto simp: fp_neg_def fp_mag_def mod_if)
qed

lemma fp_signmag_inject: "fp_signmag a = fp_signmag b \<Longrightarrow> a = b \<or> fp_mag a = 0 \<and> fp_mag b = 0"
  using unat_split_sign [of a] unat_split_sign [of b]
  by (auto simp: fp_signmag_def word_unat_eq_iff split: if_splits)

lemma fp_eq_cases: "fp_eq a b \<Longrightarrow> a = b \<or> fp_mag a = 0 \<and> fp_mag b = 0"
  by (auto simp: fp_eq_def fp_units_eq_iff dest: fp_signmag_inject)

lemma fp_mag_0: "fp_mag w = 0 \<Longrightarrow> w = 0 \<or> w = 2 ^ 63"
  using unat_split_sign [of w] by (auto simp: word_unat_eq_iff split: if_splits)

section \<open>Conversions\<close>

text \<open>A double that survives the detour through \<^verbatim>\<open>float\<close> is restored bit for bit, signed zeros included.\<close>

lemma float_detour_exact:
  assumes "fp_eq (double_of_float (float_of_double w)) w"
  shows "double_of_float (float_of_double w) = w"
proof (rule disjE [OF fp_eq_cases [OF assms]])
  assume "fp_mag (double_of_float (float_of_double w)) = 0 \<and> fp_mag w = 0"
  then consider "w = 0" | "w = 2 ^ 63" using fp_mag_0 by blast
  then show ?thesis
    by cases (simp_all add: float_of_double_def double_of_float_def fp_mag_def fp_neg_def rne_shift_def Let_def)
qed

lemma ilog2_bounds: "0 < n \<Longrightarrow> 2 ^ ilog2 n \<le> n \<and> n < 2 ^ Suc (ilog2 n)"
proof (induction n rule: ilog2.induct)
  case (1 n)
  show ?case
  proof (cases "n < 2")
    case False
    with 1 have "2 ^ ilog2 (n div 2) \<le> n div 2 \<and> n div 2 < 2 ^ Suc (ilog2 (n div 2))" by simp
    moreover have "ilog2 n = Suc (ilog2 (n div 2))" using False by (subst ilog2.simps) simp
    ultimately show ?thesis using False by auto
  qed (use 1 in \<open>simp add: ilog2.simps [of n]\<close>)
qed

lemma mag_units_normal:
  assumes "2 ^ 52 \<le> q" "q < 2 ^ 53"
  shows "mag_units ((e + 1022) * 2 ^ 52 + q) = q * 2 ^ (e + 1022)"
proof -
  have eq: "(e + 1022) * 2 ^ 52 + q = (q - 2 ^ 52) + (e + 1023) * 2 ^ 52" using assms by simp
  have r: "q - 2 ^ 52 < 2 ^ 52" using assms by simp
  have d: "((e + 1022) * 2 ^ 52 + q) div 2 ^ 52 = e + 1023"
    unfolding eq by (subst div_mult_self1) (use r in simp_all)
  have m: "((e + 1022) * 2 ^ 52 + q) mod 2 ^ 52 = q - 2 ^ 52"
    unfolding eq by (subst mod_mult_self1) (use r in simp)
  show ?thesis unfolding mag_units_def Let_def d m using assms by simp
qed

text \<open>Integers of at most 53 bits convert to double exactly.\<close>

lemma double_of_int_exact:
  assumes "\<bar>i\<bar> < 2 ^ 53"
  shows "fp_units (double_of_int i) = i * 2 ^ 1074"
proof (cases "i = 0")
  case False
  define m where "m = nat \<bar>i\<bar>"
  define e where "e = ilog2 m"
  have m0: "0 < m" and m53: "m < 2 ^ 53" using False assms by (auto simp: m_def nat_less_iff)
  have lo: "2 ^ e \<le> m" and hi: "m < 2 ^ Suc e" using ilog2_bounds [OF m0] by (auto simp: e_def)
  have e52: "e \<le> 52"
  proof (rule ccontr)
    assume "\<not> e \<le> 52"
    then have "(2::nat) ^ 53 \<le> 2 ^ e" by (intro power_increasing) auto
    with lo m53 show False by linarith
  qed
  define q where "q = m * 2 ^ (52 - e)"
  have p: "(2::nat) ^ e * 2 ^ (52 - e) = 2 ^ 52" using e52 by (simp flip: power_add)
  have q1: "2 ^ 52 \<le> q" using lo p unfolding q_def by (metis mult_le_mono1)
  have q2: "q < 2 ^ 53"
  proof -
    have "m * 2 ^ (52 - e) < 2 ^ Suc e * 2 ^ (52 - e)" using hi by (intro mult_strict_right_mono) auto
    also have "\<dots> = 2 ^ 53" using p by simp
    finally show ?thesis by (simp add: q_def)
  qed
  define mag where "mag = (e + 1022) * 2 ^ 52 + q"
  have mag_lt: "mag < 2 ^ 63" using e52 q2 by (simp add: mag_def)
  have w: "double_of_int i = word_of_nat (if i < 0 then 2 ^ 63 + mag else mag)"
    using m0 e52 by (simp only: double_of_int_def Let_def mag_def q_def flip: m_def e_def) simp
  have un: "unat (double_of_int i) = (if i < 0 then 2 ^ 63 + mag else mag)"
    unfolding w using mag_lt by (simp add: unat_of_nat)
  have u: "mag_units mag = m * 2 ^ 1074"
  proof -
    have "mag_units mag = q * 2 ^ (e + 1022)" unfolding mag_def by (rule mag_units_normal [OF q1 q2])
    also have "\<dots> = m * 2 ^ (52 - e + (e + 1022))" by (simp add: q_def power_add)
    also have "52 - e + (e + 1022) = 1074" using e52 by simp
    finally show ?thesis .
  qed
  show ?thesis
    using mag_lt un u unfolding fp_units_def fp_neg_def fp_mag_def
    by (auto simp: m_def)
qed (simp add: double_of_int_def fp_units_def fp_neg_def fp_mag_def)

end
