(* ===== verification/Anu_Json.thy ===== *)
theory Anu_Json
  imports Anu_Ieee
begin

text \<open>
  JSON values as \<^verbatim>\<open>nlohmann::json\<close> (the vendored \<^verbatim>\<open>third_party/json/json.hpp\<close>, version 3.11.3)
  keeps them, and the member functions AnuDB calls: type tests, \<^verbatim>\<open>find\<close>, \<^verbatim>\<open>contains\<close>,
  \<^verbatim>\<open>operator[]\<close>, \<^verbatim>\<open>erase\<close>, \<^verbatim>\<open>push_back\<close>, iteration with \<^verbatim>\<open>key()\<close>, \<^verbatim>\<open>operator==\<close>, and the
  conversions \<^verbatim>\<open>get<std::string>\<close>, \<^verbatim>\<open>get<int>\<close>, \<^verbatim>\<open>get<uint32_t>\<close>. An object is a
  \<^verbatim>\<open>std::map\<close>: an association list in strictly increasing key order (\<open>wf_json\<close>). Integers are the
  64-bit words of \<^verbatim>\<open>int64_t\<close> and \<^verbatim>\<open>uint64_t\<close>, floating point numbers the bits of a \<^verbatim>\<open>double\<close>.
  The \<^verbatim>\<open>discarded\<close> value is not modelled: AnuDB never parses with exceptions switched off.
\<close>

datatype json =
    JNull
  | JBoolean bool
  | JInteger "64 word"
  | JUnsigned "64 word"
  | JFloat double
  | JString string
  | JBinary string "64 word option"
  | JArray "json list"
  | JObject "(string \<times> json) list"

type_synonym jobject = "(string \<times> json) list"

section \<open>Exceptions\<close>

definition exn_name :: "string \<Rightarrow> nat \<Rightarrow> string" where
  "exn_name ename i = ''[json.exception.'' @ ename @ ''.'' @ to_string i @ ''] ''"

fun what :: "exn \<Rightarrow> string" where
  "what (parse_error i byte m) =
     exn_name ''parse_error'' i @ ''parse error'' @ (if byte = 0 then [] else '' at byte '' @ to_string byte) @ '': '' @ m"
| "what (syntax_error i line column m) =
     exn_name ''parse_error'' i @ ''parse error at line '' @ to_string line @ '', column '' @ to_string column @ '': '' @ m"
| "what (invalid_iterator i m) = exn_name ''invalid_iterator'' i @ m"
| "what (type_error i m) = exn_name ''type_error'' i @ m"
| "what (out_of_range i m) = exn_name ''out_of_range'' i @ m"
| "what (std_invalid_argument m) = m"
| "what (std_out_of_range m) = m"
| "what (runtime_error m) = m"

section \<open>Type inspection\<close>

fun type_name :: "json \<Rightarrow> string" where
  "type_name JNull = ''null''"
| "type_name (JObject _) = ''object''"
| "type_name (JArray _) = ''array''"
| "type_name (JString _) = ''string''"
| "type_name (JBoolean _) = ''boolean''"
| "type_name (JBinary _ _) = ''binary''"
| "type_name _ = ''number''"

fun is_object :: "json \<Rightarrow> bool" where
  "is_object (JObject _) = True"
| "is_object _ = False"

fun is_array :: "json \<Rightarrow> bool" where
  "is_array (JArray _) = True"
| "is_array _ = False"

fun is_string :: "json \<Rightarrow> bool" where
  "is_string (JString _) = True"
| "is_string _ = False"

fun is_number_integer :: "json \<Rightarrow> bool" where
  "is_number_integer (JInteger _) = True"
| "is_number_integer (JUnsigned _) = True"
| "is_number_integer _ = False"

section \<open>Lookup and element access\<close>

fun json_find :: "string \<Rightarrow> json \<Rightarrow> json option" where
  "json_find k (JObject m) = map_of m k"
| "json_find k _ = None"

definition contains :: "json \<Rightarrow> string \<Rightarrow> bool" where
  "contains j k = (is_object j \<and> json_find k j \<noteq> None)"

definition index_error :: "json \<Rightarrow> exn" where
  "index_error j = type_error 305 (''cannot use operator[] with a string argument with '' @ type_name j)"

text \<open>\<^verbatim>\<open>j[k]\<close> on a mutable value: null becomes an object, an absent key is inserted with null.
  \<open>index_read\<close> is the value found there, \<open>index_write\<close> the value after \<^verbatim>\<open>j[k] = v\<close>.\<close>

fun index_read :: "string \<Rightarrow> json \<Rightarrow> json outcome" where
  "index_read k (JObject m) = Ret (case map_of m k of Some v \<Rightarrow> v | None \<Rightarrow> JNull)"
| "index_read k JNull = Ret JNull"
| "index_read k j = Throw (index_error j)"

fun index_write :: "string \<Rightarrow> json \<Rightarrow> json \<Rightarrow> json outcome" where
  "index_write k v (JObject m) = Ret (JObject (om_update k v m))"
| "index_write k v JNull = Ret (JObject [(k, v)])"
| "index_write k v j = Throw (index_error j)"

text \<open>\<^verbatim>\<open>j[k]\<close> on a constant value: an absent key is undefined behaviour.\<close>

fun const_index :: "string \<Rightarrow> json \<Rightarrow> json outcome" where
  "const_index k (JObject m) = (case map_of m k of Some v \<Rightarrow> Ret v | None \<Rightarrow> Undef)"
| "const_index k j = Throw (index_error j)"

fun json_erase :: "string \<Rightarrow> json \<Rightarrow> json outcome" where
  "json_erase k (JObject m) = Ret (JObject (om_delete k m))"
| "json_erase k j = Throw (type_error 307 (''cannot use erase() with '' @ type_name j))"

fun push_back :: "json \<Rightarrow> json \<Rightarrow> json outcome" where
  "push_back v (JArray xs) = Ret (JArray (xs @ [v]))"
| "push_back v JNull = Ret (JArray [v])"
| "push_back v j = Throw (type_error 308 (''cannot use push_back() with '' @ type_name j))"

section \<open>Iteration\<close>

definition key_error :: exn where
  "key_error = invalid_iterator 207 ''cannot use key() for non-object iterators''"

text \<open>A loop from \<^verbatim>\<open>begin()\<close> to \<^verbatim>\<open>end()\<close> whose body first calls \<^verbatim>\<open>key()\<close>: an object gives its entries
  in key order, null and an empty array give nothing, every other value reaches the body once or
  more and \<^verbatim>\<open>key()\<close> throws.\<close>

fun entries_of :: "json \<Rightarrow> (string \<times> json) list outcome" where
  "entries_of (JObject m) = Ret m"
| "entries_of JNull = Ret []"
| "entries_of (JArray []) = Ret []"
| "entries_of _ = Throw key_error"

text \<open>\<^verbatim>\<open>j.begin().key()\<close> and \<^verbatim>\<open>j.begin().value()\<close>: the first entry of an object; on an empty object the
  end iterator is dereferenced.\<close>

fun first_entry :: "json \<Rightarrow> (string \<times> json) outcome" where
  "first_entry (JObject []) = Undef"
| "first_entry (JObject (p # _)) = Ret p"
| "first_entry _ = Throw key_error"

section \<open>Conversions\<close>

fun get_string :: "json \<Rightarrow> string outcome" where
  "get_string (JString s) = Ret s"
| "get_string j = Throw (type_error 302 (''type must be string, but is '' @ type_name j))"

definition number_error :: "json \<Rightarrow> exn" where
  "number_error j = type_error 302 (''type must be number, but is '' @ type_name j)"

fun get_int :: "json \<Rightarrow> 32 word outcome" where
  "get_int (JUnsigned w) = Ret (ucast w)"
| "get_int (JInteger w) = Ret (ucast w)"
| "get_int (JFloat d) =
     (if \<not> fp_nan d \<and> - (2 ^ 31) \<le> fp_trunc d \<and> fp_trunc d < 2 ^ 31 then Ret (word_of_int (fp_trunc d)) else Undef)"
| "get_int (JBoolean b) = Ret (if b then 1 else 0)"
| "get_int j = Throw (number_error j)"

fun get_uint32 :: "json \<Rightarrow> 32 word outcome" where
  "get_uint32 (JUnsigned w) = Ret (ucast w)"
| "get_uint32 (JInteger w) = Ret (ucast w)"
| "get_uint32 (JFloat d) =
     (if \<not> fp_nan d \<and> 0 \<le> fp_trunc d \<and> fp_trunc d < 2 ^ 32 then Ret (word_of_int (fp_trunc d)) else Undef)"
| "get_uint32 (JBoolean b) = Ret (if b then 1 else 0)"
| "get_uint32 j = Throw (number_error j)"

section \<open>Equality\<close>

text \<open>\<^verbatim>\<open>operator==\<close>: same-typed values compare member by member (doubles as IEEE numbers); integers
  and doubles compare after conversion to double, signed and unsigned integers as \<^verbatim>\<open>int64_t\<close>.\<close>

fun json_eq :: "json \<Rightarrow> json \<Rightarrow> bool"
  and json_eq_list :: "json list \<Rightarrow> json list \<Rightarrow> bool"
  and json_eq_obj :: "(string \<times> json) list \<Rightarrow> (string \<times> json) list \<Rightarrow> bool" where
  "json_eq lhs rhs =
     (case lhs of
        JArray xs \<Rightarrow> (case rhs of JArray ys \<Rightarrow> json_eq_list xs ys | _ \<Rightarrow> False)
      | JObject m \<Rightarrow> (case rhs of JObject n \<Rightarrow> json_eq_obj m n | _ \<Rightarrow> False)
      | JNull \<Rightarrow> (case rhs of JNull \<Rightarrow> True | _ \<Rightarrow> False)
      | JString s \<Rightarrow> (case rhs of JString t \<Rightarrow> s = t | _ \<Rightarrow> False)
      | JBoolean a \<Rightarrow> (case rhs of JBoolean b \<Rightarrow> a = b | _ \<Rightarrow> False)
      | JBinary a s \<Rightarrow> (case rhs of JBinary b t \<Rightarrow> a = b \<and> s = t | _ \<Rightarrow> False)
      | JInteger a \<Rightarrow> (case rhs of JInteger b \<Rightarrow> a = b
                      | JFloat b \<Rightarrow> fp_eq (double_of_int (sint a)) b
                      | JUnsigned b \<Rightarrow> a = b
                      | _ \<Rightarrow> False)
      | JUnsigned a \<Rightarrow> (case rhs of JUnsigned b \<Rightarrow> a = b
                      | JFloat b \<Rightarrow> fp_eq (double_of_int (uint a)) b
                      | JInteger b \<Rightarrow> a = b
                      | _ \<Rightarrow> False)
      | JFloat a \<Rightarrow> (case rhs of JFloat b \<Rightarrow> fp_eq a b
                      | JInteger b \<Rightarrow> fp_eq a (double_of_int (sint b))
                      | JUnsigned b \<Rightarrow> fp_eq a (double_of_int (uint b))
                      | _ \<Rightarrow> False))"
| "json_eq_list [] [] = True"
| "json_eq_list (x # xs) (y # ys) = (json_eq x y \<and> json_eq_list xs ys)"
| "json_eq_list _ _ = False"
| "json_eq_obj [] [] = True"
| "json_eq_obj ((k, x) # xs) ((k', y) # ys) = (k = k' \<and> json_eq x y \<and> json_eq_obj xs ys)"
| "json_eq_obj _ _ = False"

declare json_eq.simps [simp del]

text \<open>\<^verbatim>\<open>operator!=\<close> is not the negation: a NaN against a number is neither equal nor unequal.\<close>

fun is_number :: "json \<Rightarrow> bool" where
  "is_number (JInteger _) = True"
| "is_number (JUnsigned _) = True"
| "is_number (JFloat _) = True"
| "is_number _ = False"

fun is_nan :: "json \<Rightarrow> bool" where
  "is_nan (JFloat d) = fp_nan d"
| "is_nan _ = False"

definition compares_unordered :: "json \<Rightarrow> json \<Rightarrow> bool" where
  "compares_unordered lhs rhs = (is_nan lhs \<and> is_number rhs \<or> is_nan rhs \<and> is_number lhs)"

definition json_ne :: "json \<Rightarrow> json \<Rightarrow> bool" where
  "json_ne lhs rhs = (\<not> compares_unordered lhs rhs \<and> \<not> json_eq lhs rhs)"

section \<open>Well-formed values\<close>

fun wf_json :: "json \<Rightarrow> bool" where
  "wf_json (JArray xs) = list_all wf_json xs"
| "wf_json (JObject m) = (om_ok m \<and> list_all (\<lambda>p. wf_json (snd p)) m)"
| "wf_json _ = True"

section \<open>Lemmas\<close>

lemma is_object_iff: "is_object j \<longleftrightarrow> (\<exists>m. j = JObject m)"
  by (cases j) auto

lemma is_array_iff: "is_array j \<longleftrightarrow> (\<exists>xs. j = JArray xs)"
  by (cases j) auto

lemma contains_JObject [simp]: "contains (JObject m) k \<longleftrightarrow> map_of m k \<noteq> None"
  by (simp add: contains_def)

lemma contains_find: "contains j k \<longleftrightarrow> json_find k j \<noteq> None"
  by (cases j) (simp_all add: contains_def)

lemma json_find_index_write:
  "index_write k v j = Ret j' \<Longrightarrow> json_find k' j' = (if k' = k then Some v else json_find k' j)"
  by (cases j) (auto simp: om_lookup_update)

lemma index_write_object: "index_write k v j = Ret j' \<Longrightarrow> is_object j'"
  by (cases j) auto

lemma wf_index_write: "wf_json j \<Longrightarrow> wf_json v \<Longrightarrow> index_write k v j = Ret j' \<Longrightarrow> wf_json j'"
  by (cases j) (auto simp: om_ok_Cons om_ok_update list_all_om_update)

lemma wf_erase: "wf_json j \<Longrightarrow> json_erase k j = Ret j' \<Longrightarrow> wf_json j'"
  by (cases j) (auto simp: om_ok_delete list_all_om_delete)

lemma wf_push_back: "wf_json j \<Longrightarrow> wf_json v \<Longrightarrow> push_back v j = Ret j' \<Longrightarrow> wf_json j'"
  by (cases j) auto

lemma wf_map_of: "list_all (\<lambda>p. wf_json (snd p)) m \<Longrightarrow> map_of m k = Some v \<Longrightarrow> wf_json v"
  by (drule map_of_SomeD) (force simp: list_all_iff)

lemma json_find_erase: "wf_json j \<Longrightarrow> json_erase k j = Ret j' \<Longrightarrow> json_find k' j' = (if k' = k then None else json_find k' j)"
  by (cases j) (auto simp: om_lookup_delete)

text \<open>Without floating point numbers \<^verbatim>\<open>operator==\<close> is reflexive; a NaN differs from itself.\<close>

lemma fp_eq_refl: "\<not> fp_nan a \<Longrightarrow> fp_eq a a"
  by (simp add: fp_eq_def)

fun no_nan :: "json \<Rightarrow> bool" where
  "no_nan (JFloat d) = (\<not> fp_nan d)"
| "no_nan (JArray xs) = list_all no_nan xs"
| "no_nan (JObject m) = list_all (\<lambda>p. no_nan (snd p)) m"
| "no_nan _ = True"

lemma json_eq_refl: "no_nan j \<Longrightarrow> json_eq j j"
proof -
  have "(no_nan j \<longrightarrow> json_eq j j)" for j
  proof (induction j)
    case (JArray xs)
    then have "list_all no_nan xs \<longrightarrow> json_eq_list xs xs" by (induction xs) auto
    then show ?case by (simp add: json_eq.simps)
  next
    case (JObject m)
    have "(\<forall>p \<in> set m. no_nan (snd p) \<longrightarrow> json_eq (snd p) (snd p)) \<Longrightarrow> list_all (\<lambda>p. no_nan (snd p)) m \<longrightarrow> json_eq_obj m m"
      by (induction m) auto
    moreover have "\<forall>p \<in> set m. no_nan (snd p) \<longrightarrow> json_eq (snd p) (snd p)"
      using JObject by (metis prod.collapse snds.intros)
    ultimately show ?case by (simp add: json_eq.simps)
  qed (auto simp: fp_eq_refl json_eq.simps)
  then show "no_nan j \<Longrightarrow> json_eq j j" by blast
qed

end
