(* ===== verification/Anu_Msgpack.thy ===== *)
theory Anu_Msgpack
  imports Anu_Json
begin

text \<open>
  MessagePack as \<^verbatim>\<open>third_party/json/json.hpp\<close> writes it (\<^verbatim>\<open>binary_writer::write_msgpack\<close>) and
  reads it (\<^verbatim>\<open>binary_reader::parse_msgpack_internal\<close> with the DOM-building SAX handler): the format
  in which AnuDB stores every document. The reader's state is the number of characters read and
  the input that is left. Its recursion is bounded by fuel, one unit per nesting level;
  \<open>parse_total\<close> shows that the length of the input is always enough, so \<open>from_msgpack\<close> is total.
\<close>

section \<open>Writer\<close>

definition write_number :: "nat \<Rightarrow> nat \<Rightarrow> string" where
  "write_number k v = be_bytes k v"

definition ctl :: "nat \<Rightarrow> string" where
  "ctl b = [char_of b]"

definition write_unsigned :: "64 word \<Rightarrow> string" where
  "write_unsigned w =
     (let n = unat w
      in if n < 128 then write_number 1 n
         else if n \<le> 255 then ctl 0xCC @ write_number 1 n
         else if n \<le> 65535 then ctl 0xCD @ write_number 2 n
         else if n \<le> 4294967295 then ctl 0xCE @ write_number 4 n
         else ctl 0xCF @ write_number 8 n)"

definition write_integer :: "64 word \<Rightarrow> string" where
  "write_integer w =
     (if 0 \<le> sint w then write_unsigned w
      else if - 32 \<le> sint w then write_number 1 (unat w)
      else if - 128 \<le> sint w then ctl 0xD0 @ write_number 1 (unat w)
      else if - 32768 \<le> sint w then ctl 0xD1 @ write_number 2 (unat w)
      else if - 2147483648 \<le> sint w then ctl 0xD2 @ write_number 4 (unat w)
      else ctl 0xD3 @ write_number 8 (unat w))"

definition write_compact_float :: "double \<Rightarrow> string" where
  "write_compact_float d =
     (if fp_le float_lowest d \<and> fp_le d float_max \<and> fp_eq (double_of_float (float_of_double d)) d
      then ctl 0xCA @ write_number 4 (unat (float_of_double d))
      else ctl 0xCB @ write_number 8 (unat d))"

definition write_string :: "string \<Rightarrow> string" where
  "write_string s =
     (let n = length s
      in (if n \<le> 31 then write_number 1 (0xA0 + n)
          else if n \<le> 255 then ctl 0xD9 @ write_number 1 n
          else if n \<le> 65535 then ctl 0xDA @ write_number 2 n
          else if n \<le> 4294967295 then ctl 0xDB @ write_number 4 n
          else []) @ s)"

definition array_header :: "nat \<Rightarrow> string" where
  "array_header n =
     (if n \<le> 15 then write_number 1 (0x90 + n)
      else if n \<le> 65535 then ctl 0xDC @ write_number 2 n
      else if n \<le> 4294967295 then ctl 0xDD @ write_number 4 n
      else [])"

definition object_header :: "nat \<Rightarrow> string" where
  "object_header n =
     (if n \<le> 15 then write_number 1 (0x80 + n)
      else if n \<le> 65535 then ctl 0xDE @ write_number 2 n
      else if n \<le> 4294967295 then ctl 0xDF @ write_number 4 n
      else [])"

definition fixext :: "nat \<Rightarrow> nat option" where
  "fixext n = (if n = 1 then Some 0xD4 else if n = 2 then Some 0xD5 else if n = 4 then Some 0xD6
     else if n = 8 then Some 0xD7 else if n = 16 then Some 0xD8 else None)"

definition write_binary :: "string \<Rightarrow> 64 word option \<Rightarrow> string" where
  "write_binary bs subtype =
     (let n = length bs; use_ext = (subtype \<noteq> None)
      in (if n \<le> 255
          then (if use_ext
                then (case fixext n of Some t \<Rightarrow> ctl t | None \<Rightarrow> ctl 0xC7 @ write_number 1 n)
                else ctl 0xC4 @ write_number 1 n)
          else if n \<le> 65535 then ctl (if use_ext then 0xC8 else 0xC5) @ write_number 2 n
          else if n \<le> 4294967295 then ctl (if use_ext then 0xC9 else 0xC6) @ write_number 4 n
          else [])
         @ (case subtype of Some t \<Rightarrow> write_number 1 (unat t) | None \<Rightarrow> [])
         @ bs)"

fun write_msgpack :: "json \<Rightarrow> string" where
  "write_msgpack JNull = ctl 0xC0"
| "write_msgpack (JBoolean b) = ctl (if b then 0xC3 else 0xC2)"
| "write_msgpack (JInteger w) = write_integer w"
| "write_msgpack (JUnsigned w) = write_unsigned w"
| "write_msgpack (JFloat d) = write_compact_float d"
| "write_msgpack (JString s) = write_string s"
| "write_msgpack (JArray xs) = array_header (length xs) @ concat (map write_msgpack xs)"
| "write_msgpack (JBinary bs t) = write_binary bs t"
| "write_msgpack (JObject m) =
     object_header (length m) @ concat (map (\<lambda>p. write_string (fst p) @ write_msgpack (snd p)) m)"

definition to_msgpack :: "json \<Rightarrow> string" where
  "to_msgpack j = write_msgpack j"

section \<open>Reader\<close>

type_synonym rd = "nat \<times> string"

definition mp_message :: "string \<Rightarrow> string \<Rightarrow> string" where
  "mp_message detail ctx = ''syntax error while parsing MessagePack '' @ ctx @ '': '' @ detail"

definition eof_error :: "string \<Rightarrow> nat \<Rightarrow> exn" where
  "eof_error ctx n = parse_error 110 n (mp_message ''unexpected end of input'' ctx)"

definition hex_digit :: "nat \<Rightarrow> char" where
  "hex_digit d = (if d < 10 then char_of (48 + d) else char_of (55 + d))"

definition token_string :: "nat \<Rightarrow> string" where
  "token_string b = [hex_digit (b div 16), hex_digit (b mod 16)]"

fun get_bytes :: "string \<Rightarrow> nat \<Rightarrow> rd \<Rightarrow> (string \<times> rd) outcome" where
  "get_bytes ctx 0 r = Ret ([], r)"
| "get_bytes ctx (Suc k) (n, []) = Throw (eof_error ctx (Suc n))"
| "get_bytes ctx (Suc k) (n, c # cs) =
     bindO (get_bytes ctx k (Suc n, cs)) (\<lambda>p. Ret (c # fst p, snd p))"

definition get_number :: "nat \<Rightarrow> rd \<Rightarrow> (nat \<times> rd) outcome" where
  "get_number k r = bindO (get_bytes ''number'' k r) (\<lambda>p. Ret (be_val (fst p), snd p))"

definition get_msgpack_string :: "nat \<Rightarrow> rd \<Rightarrow> (string \<times> rd) outcome" where
  "get_msgpack_string b r =
     (if 0xA0 \<le> b \<and> b \<le> 0xBF then get_bytes ''string'' (b mod 32) r
      else if b = 0xD9 then bindO (get_number 1 r) (\<lambda>p. get_bytes ''string'' (fst p) (snd p))
      else if b = 0xDA then bindO (get_number 2 r) (\<lambda>p. get_bytes ''string'' (fst p) (snd p))
      else if b = 0xDB then bindO (get_number 4 r) (\<lambda>p. get_bytes ''string'' (fst p) (snd p))
      else Throw (parse_error 113 (fst r)
             (mp_message (''expected length specification (0xA0-0xBF, 0xD9-0xDB); last byte: 0x'' @ token_string b) ''string'')))"

definition read_bin :: "nat \<Rightarrow> rd \<Rightarrow> (json \<times> rd) outcome" where
  "read_bin k r = bindO (get_number k r) (\<lambda>p. bindO (get_bytes ''binary'' (fst p) (snd p)) (\<lambda>q. Ret (JBinary (fst q) None, snd q)))"

definition read_ext_body :: "nat \<Rightarrow> rd \<Rightarrow> (json \<times> rd) outcome" where
  "read_ext_body len r = bindO (get_number 1 r) (\<lambda>p. bindO (get_bytes ''binary'' len (snd p)) (\<lambda>q. Ret (JBinary (fst q) (Some (of_nat (fst p))), snd q)))"

definition read_ext :: "nat \<Rightarrow> rd \<Rightarrow> (json \<times> rd) outcome" where
  "read_ext k r = bindO (get_number k r) (\<lambda>p. read_ext_body (fst p) (snd p))"

definition get_msgpack_binary :: "nat \<Rightarrow> rd \<Rightarrow> (json \<times> rd) outcome" where
  "get_msgpack_binary b r =
     (if b = 0xC4 then read_bin 1 r
      else if b = 0xC5 then read_bin 2 r
      else if b = 0xC6 then read_bin 4 r
      else if b = 0xC7 then read_ext 1 r
      else if b = 0xC8 then read_ext 2 r
      else if b = 0xC9 then read_ext 4 r
      else if b = 0xD4 then read_ext_body 1 r
      else if b = 0xD5 then read_ext_body 2 r
      else if b = 0xD6 then read_ext_body 4 r
      else if b = 0xD7 then read_ext_body 8 r
      else read_ext_body 16 r)"

definition sext :: "nat \<Rightarrow> nat \<Rightarrow> 64 word" where
  "sext k v = word_of_int (if 2 ^ (k - 1) \<le> v then int v - 2 ^ k else int v)"

definition read_uint :: "nat \<Rightarrow> rd \<Rightarrow> (json \<times> rd) outcome" where
  "read_uint k r = bindO (get_number k r) (\<lambda>p. Ret (JUnsigned (of_nat (fst p)), snd p))"

definition read_int :: "nat \<Rightarrow> rd \<Rightarrow> (json \<times> rd) outcome" where
  "read_int k r = bindO (get_number k r) (\<lambda>p. Ret (JInteger (sext (8 * k) (fst p)), snd p))"

text \<open>The leading bytes whose value is not a container.\<close>

definition parse_scalar :: "nat \<Rightarrow> rd \<Rightarrow> (json \<times> rd) outcome" where
  "parse_scalar b r =
     (if b < 0x80 then Ret (JUnsigned (of_nat b), r)
      else if 0xA0 \<le> b \<and> b \<le> 0xBF \<or> 0xD9 \<le> b \<and> b \<le> 0xDB
        then bindO (get_msgpack_string b r) (\<lambda>p. Ret (JString (fst p), snd p))
      else if b = 0xC0 then Ret (JNull, r)
      else if b = 0xC2 then Ret (JBoolean False, r)
      else if b = 0xC3 then Ret (JBoolean True, r)
      else if 0xC4 \<le> b \<and> b \<le> 0xC9 \<or> 0xD4 \<le> b \<and> b \<le> 0xD8 then get_msgpack_binary b r
      else if b = 0xCA then bindO (get_number 4 r) (\<lambda>p. Ret (JFloat (double_of_float (of_nat (fst p))), snd p))
      else if b = 0xCB then bindO (get_number 8 r) (\<lambda>p. Ret (JFloat (of_nat (fst p)), snd p))
      else if b = 0xCC then read_uint 1 r
      else if b = 0xCD then read_uint 2 r
      else if b = 0xCE then read_uint 4 r
      else if b = 0xCF then read_uint 8 r
      else if b = 0xD0 then read_int 1 r
      else if b = 0xD1 then read_int 2 r
      else if b = 0xD2 then read_int 4 r
      else if b = 0xD3 then read_int 8 r
      else if 0xE0 \<le> b then Ret (JInteger (sext 8 b), r)
      else Throw (parse_error 112 (fst r) (mp_message (''invalid byte: 0x'' @ token_string b) ''value'')))"

text \<open>The number of elements a container byte announces, and whether it is an object.\<close>

definition container_len :: "nat \<Rightarrow> rd \<Rightarrow> ((bool \<times> nat) \<times> rd) outcome option" where
  "container_len b r =
     (if 0x80 \<le> b \<and> b \<le> 0x8F then Some (Ret ((True, b mod 16), r))
      else if 0x90 \<le> b \<and> b \<le> 0x9F then Some (Ret ((False, b mod 16), r))
      else if b = 0xDC then Some (bindO (get_number 2 r) (\<lambda>p. Ret ((False, fst p), snd p)))
      else if b = 0xDD then Some (bindO (get_number 4 r) (\<lambda>p. Ret ((False, fst p), snd p)))
      else if b = 0xDE then Some (bindO (get_number 2 r) (\<lambda>p. Ret ((True, fst p), snd p)))
      else if b = 0xDF then Some (bindO (get_number 4 r) (\<lambda>p. Ret ((True, fst p), snd p)))
      else None)"

fun bindF :: "'a outcome option \<Rightarrow> ('a \<Rightarrow> 'b outcome option) \<Rightarrow> 'b outcome option" where
  "bindF None f = None"
| "bindF (Some (Ret x)) f = f x"
| "bindF (Some (Throw e)) f = Some (Throw e)"
| "bindF (Some Undef) f = Some Undef"

definition read_key :: "rd \<Rightarrow> (string \<times> rd) outcome" where
  "read_key r = (case snd r of
       [] \<Rightarrow> Throw (eof_error ''string'' (Suc (fst r)))
     | c # cs \<Rightarrow> get_msgpack_string (of_char c) (Suc (fst r), cs))"

function (sequential) parse_msgpack :: "nat \<Rightarrow> rd \<Rightarrow> (json \<times> rd) outcome option"
  and parse_array :: "nat \<Rightarrow> nat \<Rightarrow> rd \<Rightarrow> (json list \<times> rd) outcome option"
  and parse_object :: "nat \<Rightarrow> nat \<Rightarrow> jobject \<Rightarrow> rd \<Rightarrow> (jobject \<times> rd) outcome option" where
  "parse_msgpack 0 r = None"
| "parse_msgpack (Suc f) (n, []) = Some (Throw (eof_error ''value'' (Suc n)))"
| "parse_msgpack (Suc f) (n, c # cs) =
     (case container_len (of_char c) (Suc n, cs) of
        None \<Rightarrow> Some (parse_scalar (of_char c) (Suc n, cs))
      | Some h \<Rightarrow> bindF (Some h) (\<lambda>((obj, len), r).
          if obj then bindF (parse_object f len [] r) (\<lambda>(m, r'). Some (Ret (JObject m, r')))
          else bindF (parse_array f len r) (\<lambda>(xs, r'). Some (Ret (JArray xs, r')))))"
| "parse_array f 0 r = Some (Ret ([], r))"
| "parse_array f (Suc len) r =
     bindF (parse_msgpack f r) (\<lambda>(x, r'). bindF (parse_array f len r') (\<lambda>(xs, r''). Some (Ret (x # xs, r''))))"
| "parse_object f 0 acc r = Some (Ret (acc, r))"
| "parse_object f (Suc len) acc r =
     bindF (Some (read_key r)) (\<lambda>(k, r').
       bindF (parse_msgpack f r') (\<lambda>(v, r''). parse_object f len (om_update k v acc) r''))"
  by pat_completeness auto
termination
  by (relation "measures [\<lambda>x. case x of Inl (f, r) \<Rightarrow> f | Inr (Inl (f, n, r)) \<Rightarrow> f | Inr (Inr (f, n, acc, r)) \<Rightarrow> f,
                          \<lambda>x. case x of Inl (f, r) \<Rightarrow> 0 | Inr (Inl (f, n, r)) \<Rightarrow> Suc n | Inr (Inr (f, n, acc, r)) \<Rightarrow> Suc n]")
    auto

definition from_msgpack :: "string \<Rightarrow> json outcome" where
  "from_msgpack bs =
     (case parse_msgpack (Suc (length bs)) (0, bs) of
        None \<Rightarrow> Undef
      | Some (Throw e) \<Rightarrow> Throw e
      | Some Undef \<Rightarrow> Undef
      | Some (Ret (j, n, [])) \<Rightarrow> Ret j
      | Some (Ret (j, n, c # cs)) \<Rightarrow>
          Throw (parse_error 110 (Suc n)
            (mp_message (''expected end of input; last byte: 0x'' @ token_string (of_char c)) ''value'')))"

section \<open>What a round trip keeps\<close>

fun norm :: "json \<Rightarrow> json" where
  "norm (JInteger w) = (if 0 \<le> sint w then JUnsigned w else JInteger w)"
| "norm (JArray xs) = JArray (map norm xs)"
| "norm (JObject m) = JObject (map (\<lambda>p. (fst p, norm (snd p))) m)"
| "norm j = j"

fun mp_ok :: "json \<Rightarrow> bool" where
  "mp_ok (JString s) = (length s < 2 ^ 32)"
| "mp_ok (JBinary bs t) = (length bs < 2 ^ 32 \<and> (case t of None \<Rightarrow> True | Some u \<Rightarrow> unat u < 256))"
| "mp_ok (JArray xs) = (length xs < 2 ^ 32 \<and> list_all mp_ok xs)"
| "mp_ok (JObject m) = (length m < 2 ^ 32 \<and> list_all (\<lambda>p. length (fst p) < 2 ^ 32 \<and> mp_ok (snd p)) m)"
| "mp_ok _ = True"

fun depth :: "json \<Rightarrow> nat" where
  "depth (JArray xs) = Suc (Max (insert 0 (set (map depth xs))))"
| "depth (JObject m) = Suc (Max (insert 0 (set (map (\<lambda>p. depth (snd p)) m))))"
| "depth _ = 0"

section \<open>Lemmas: reading back what was written\<close>

lemma be_bytes_1 [simp]: "be_bytes 1 v = [char_of v]" and be_bytes_Suc_0 [simp]: "be_bytes (Suc 0) v = [char_of v]"
  by simp_all

lemma get_bytes_append: "length bs = k \<Longrightarrow> get_bytes ctx k (n, bs @ rest) = Ret (bs, n + k, rest)"
  by (induction bs arbitrary: k n) auto

lemma get_number_be: "get_number k (n, be_bytes k v @ rest) = Ret (v mod 256 ^ k, n + k, rest)"
  by (simp add: get_number_def get_bytes_append)

lemma get_number_1: "get_number (Suc 0) (n, char_of v # rest) = Ret (v mod 256, Suc n, rest)"
  using get_number_be [of 1 n v rest] by simp

lemmas mp_reads = ctl_def write_number_def container_len_def parse_scalar_def read_uint_def read_int_def
  get_number_be get_number_1 get_bytes_append

lemma parse_container_None:
  "container_len (of_char c) (Suc n, cs) = None \<Longrightarrow>
   parse_msgpack (Suc f) (n, c # cs) = Some (parse_scalar (of_char c) (Suc n, cs))"
  by simp

lemma unat_bound64: "unat (w :: 64 word) < 18446744073709551616"
  using unsigned_less [of w, where ?'a = nat] by simp

lemma parse_unsigned:
  "parse_msgpack (Suc f) (n, write_unsigned w @ rest) =
     Some (Ret (JUnsigned w, n + length (write_unsigned w), rest))"
  using unat_bound64 [of w]
  by (simp add: write_unsigned_def Let_def mp_reads)

lemma sext_mod:
  assumes "0 < k" "k \<le> 8" "- (2 ^ (8 * k - 1)) \<le> sint w" "sint w < 0"
  shows "sext (8 * k) (unat w mod 256 ^ k) = w"
    and "unat w mod 256 ^ k = nat (256 ^ k + sint w)"
proof -
  define p :: int where "p = 256 ^ k"
  have p2: "p = 2 ^ (8 * k)" by (simp add: p_def power_mult)
  have half: "2 * 2 ^ (8 * k - 1) = p" using assms(1) by (simp add: p2 flip: power_Suc)
  have dv: "p dvd 2 ^ 64" unfolding p2 using assms(2) by (intro le_imp_power_dvd) simp
  have "int (unat w mod 256 ^ k) = uint w mod p"
    by (simp add: p_def zmod_int)
  also have "\<dots> = sint w mod 2 ^ 64 mod p"
    using uint_sint [of w] by (simp add: take_bit_eq_mod)
  also have "\<dots> = (sint w + p) mod p"
    using dv by (simp add: mod_mod_cancel)
  also have "\<dots> = sint w + p"
    using assms(3,4) half by (intro mod_pos_pos_trivial) (auto intro: order_trans)
  finally have v: "int (unat w mod 256 ^ k) = sint w + p" .
  then show "unat w mod 256 ^ k = nat (256 ^ k + sint w)"
    by (simp add: p_def add.commute)
  have "2 ^ (8 * k - 1) \<le> sint w + p" using assms(3) half by linarith
  then have "2 ^ (8 * k - 1) \<le> unat w mod 256 ^ k"
    using v by (metis of_nat_le_iff of_nat_numeral of_nat_power)
  then have "sext (8 * k) (unat w mod 256 ^ k) = word_of_int (sint w)"
    unfolding sext_def using v p2 by simp
  then show "sext (8 * k) (unat w mod 256 ^ k) = w" by simp
qed

lemma parse_neg_fixint:
  assumes "224 \<le> b" "b < 256"
  shows "parse_msgpack (Suc f) (n, char_of b # rest) = Some (Ret (JInteger (sext 8 b), Suc n, rest))"
proof -
  have "container_len b r = None" for r using assms by (simp add: container_len_def)
  moreover have "parse_scalar b r = Ret (JInteger (sext 8 b), r)" for r
    using assms by (simp add: parse_scalar_def)
  ultimately show ?thesis using assms by simp
qed

lemma parse_integer:
  "parse_msgpack (Suc f) (n, write_integer w @ rest) =
     Some (Ret (norm (JInteger w), n + length (write_integer w), rest))"
proof (cases "0 \<le> sint w")
  case True
  then show ?thesis by (simp add: write_integer_def parse_unsigned)
next
  case neg: False
  have lo: "- (2 ^ 63) \<le> sint w" using sint_ge [of w] by simp
  consider (i5) "- 32 \<le> sint w" | (i8) "sint w < - 32" "- 128 \<le> sint w"
    | (i16) "sint w < - 128" "- 32768 \<le> sint w" | (i32) "sint w < - 32768" "- 2147483648 \<le> sint w"
    | (i64) "sint w < - 2147483648" by linarith
  then show ?thesis
  proof cases
    case i5
    then have m: "unat w mod 256 = nat (256 + sint w)" and sx: "sext 8 (unat w mod 256) = w"
      using sext_mod [of 1 w] neg by simp_all
    have "224 \<le> unat w mod 256" using i5 neg m by simp
    from parse_neg_fixint [OF this, of f n rest]
    have "parse_msgpack (Suc f) (n, char_of (unat w) # rest) = Some (Ret (JInteger w, Suc n, rest))"
      by (simp only: sx char_of_mod_256)
    with i5 neg show ?thesis
      by (simp add: write_integer_def write_number_def del: parse_msgpack.simps)
  next
    case i8
    with sext_mod [of 1 w] neg show ?thesis by (simp add: write_integer_def mp_reads)
  next
    case i16
    with sext_mod [of 2 w] neg show ?thesis by (simp add: write_integer_def mp_reads)
  next
    case i32
    with sext_mod [of 4 w] neg show ?thesis by (simp add: write_integer_def mp_reads)
  next
    case i64
    with sext_mod [of 8 w] neg lo show ?thesis by (simp add: write_integer_def mp_reads)
  qed
qed

lemma parse_float:
  "parse_msgpack (Suc f) (n, write_compact_float d @ rest) =
     Some (Ret (JFloat d, n + length (write_compact_float d), rest))"
proof -
  have "unat (float_of_double d) < 4294967296"
    using unsigned_less [of "float_of_double d", where ?'a = nat] by simp
  then show ?thesis
    using unat_bound64 [of d]
    by (simp add: write_compact_float_def mp_reads float_detour_exact)
qed

lemma read_written_string:
  assumes "length s < 2 ^ 32"
  obtains b hd where "write_string s = char_of b # hd @ s" "b < 256" "0xA0 \<le> b \<and> b \<le> 0xBF \<or> 0xD9 \<le> b \<and> b \<le> 0xDB"
    "\<And>n rest. get_msgpack_string b (n, hd @ s @ rest) = Ret (s, n + length hd + length s, rest)"
proof -
  consider "length s \<le> 31" | "31 < length s" "length s \<le> 255" | "255 < length s" "length s \<le> 65535"
    | "65535 < length s" by linarith
  then show ?thesis
  proof cases
    case 1
    then have "(160 + length s) mod 32 = length s"
      using mod_mult_self1 [of "length s" 5 "32::nat"] by (simp add: add.commute)
    with 1 show ?thesis
      by (intro that [of "160 + length s" "[]"])
        (simp_all add: write_string_def Let_def get_msgpack_string_def write_number_def get_bytes_append)
  next
    case 2
    then show ?thesis
      by (intro that [of "0xD9" "be_bytes 1 (length s)"])
        (simp_all add: write_string_def Let_def get_msgpack_string_def mp_reads)
  next
    case 3
    then show ?thesis
      by (intro that [of "0xDA" "be_bytes 2 (length s)"])
        (simp_all add: write_string_def Let_def get_msgpack_string_def mp_reads)
  next
    case 4
    with assms show ?thesis
      by (intro that [of "0xDB" "be_bytes 4 (length s)"])
        (simp_all add: write_string_def Let_def get_msgpack_string_def mp_reads)
  qed
qed

lemma parse_string:
  assumes "length s < 2 ^ 32"
  shows "parse_msgpack (Suc f) (n, write_string s @ rest) = Some (Ret (JString s, n + length (write_string s), rest))"
proof -
  obtain b hd where h: "write_string s = char_of b # hd @ s" "b < 256" "0xA0 \<le> b \<and> b \<le> 0xBF \<or> 0xD9 \<le> b \<and> b \<le> 0xDB"
    "\<And>n rest. get_msgpack_string b (n, hd @ s @ rest) = Ret (s, n + length hd + length s, rest)"
    using read_written_string [OF assms] by blast
  have "container_len b r = None" for r using h(3) by (auto simp: container_len_def)
  moreover have "parse_scalar b (m, hd @ s @ rest) = Ret (JString s, m + length hd + length s, rest)" for m
    using h(3) by (auto simp: parse_scalar_def h(4))
  ultimately show ?thesis using h(2) by (simp add: h(1))
qed

lemma read_key_string:
  assumes "length s < 2 ^ 32"
  shows "read_key (n, write_string s @ rest) = Ret (s, n + length (write_string s), rest)"
proof -
  obtain b hd where h: "write_string s = char_of b # hd @ s" "b < 256"
    "\<And>n rest. get_msgpack_string b (n, hd @ s @ rest) = Ret (s, n + length hd + length s, rest)"
    using read_written_string [OF assms] by metis
  then show ?thesis by (simp add: read_key_def)
qed

lemma parse_binary:
  assumes "mp_ok (JBinary bs t)"
  shows "parse_msgpack (Suc f) (n, write_binary bs t @ rest) = Some (Ret (JBinary bs t, n + length (write_binary bs t), rest))"
proof -
  note rd = write_binary_def Let_def mp_reads get_msgpack_binary_def read_bin_def read_ext_def read_ext_body_def fixext_def
  consider "length bs \<le> 255" | "255 < length bs" "length bs \<le> 65535" | "65535 < length bs" "length bs < 4294967296"
    using assms by fastforce
  note sizes = this
  show ?thesis
  proof (cases t)
    case None
    from sizes show ?thesis by cases (simp_all add: None rd)
  next
    case (Some u)
    with assms have u: "unat u < 256" by simp
    consider "length bs = 1" | "length bs = 2" | "length bs = 4" | "length bs = 8" | "length bs = 16"
      | (other) "length bs \<notin> {1, 2, 4, 8, 16}" by blast
    then show ?thesis
    proof cases
      case other
      from sizes other u show ?thesis by cases (simp_all add: Some rd)
    qed (use u in \<open>simp_all add: Some rd\<close>)
  qed
qed

lemma container_array_header:
  assumes "len < 2 ^ 32"
  obtains c hd where "array_header len = c # hd"
    "\<And>n rest. container_len (of_char c) (n, hd @ rest) = Some (Ret ((False, len), n + length hd, rest))"
proof -
  consider "len \<le> 15" | "15 < len" "len \<le> 65535" | "65535 < len" by linarith
  then show ?thesis
  proof cases
    case 1
    then have "(144 + len) mod 16 = len"
      using mod_mult_self1 [of len 9 "16::nat"] by (simp add: add.commute)
    with 1 show ?thesis
      by (intro that [of "char_of (144 + len)" "[]"]) (simp_all add: array_header_def container_len_def write_number_def)
  next
    case 2
    then show ?thesis
      by (intro that [of "char_of (0xDC :: nat)" "be_bytes 2 len"]) (simp_all add: array_header_def mp_reads)
  next
    case 3
    with assms show ?thesis
      by (intro that [of "char_of (0xDD :: nat)" "be_bytes 4 len"]) (simp_all add: array_header_def mp_reads)
  qed
qed

lemma container_object_header:
  assumes "len < 2 ^ 32"
  obtains c hd where "object_header len = c # hd"
    "\<And>n rest. container_len (of_char c) (n, hd @ rest) = Some (Ret ((True, len), n + length hd, rest))"
proof -
  consider "len \<le> 15" | "15 < len" "len \<le> 65535" | "65535 < len" by linarith
  then show ?thesis
  proof cases
    case 1
    then have "(128 + len) mod 16 = len"
      using mod_mult_self1 [of len 8 "16::nat"] by (simp add: add.commute)
    with 1 show ?thesis
      by (intro that [of "char_of (128 + len)" "[]"]) (simp_all add: object_header_def container_len_def write_number_def)
  next
    case 2
    then show ?thesis
      by (intro that [of "char_of (0xDE :: nat)" "be_bytes 2 len"]) (simp_all add: object_header_def mp_reads)
  next
    case 3
    with assms show ?thesis
      by (intro that [of "char_of (0xDF :: nat)" "be_bytes 4 len"]) (simp_all add: object_header_def mp_reads)
  qed
qed

abbreviation reads_back :: "nat \<Rightarrow> json \<Rightarrow> bool" where
  "reads_back f j \<equiv> (\<forall>n rest. parse_msgpack f (n, write_msgpack j @ rest) =
     Some (Ret (norm j, n + length (write_msgpack j), rest)))"

lemma parse_elements:
  assumes "\<And>x. x \<in> set xs \<Longrightarrow> reads_back f x"
  shows "parse_array f (length xs) (n, concat (map write_msgpack xs) @ rest) =
    Some (Ret (map norm xs, n + length (concat (map write_msgpack xs)), rest))"
  using assms by (induction xs arbitrary: n) (simp_all add: add.assoc)

lemma om_update_greatest: "\<forall>k' \<in> fst ` set acc. k' < k \<Longrightarrow> om_update k v acc = acc @ [(k, v)]"
  by (induction k v acc rule: om_update.induct) auto

lemma parse_members:
  assumes "\<And>p. p \<in> set m \<Longrightarrow> length (fst p) < 2 ^ 32 \<and> reads_back f (snd p)"
    and "om_ok (acc @ m)"
  shows "parse_object f (length m) acc (n, concat (map (\<lambda>p. write_string (fst p) @ write_msgpack (snd p)) m) @ rest) =
    Some (Ret (acc @ map (\<lambda>p. (fst p, norm (snd p))) m,
      n + length (concat (map (\<lambda>p. write_string (fst p) @ write_msgpack (snd p)) m)), rest))"
  using assms
proof (induction m arbitrary: acc n)
  case (Cons p m)
  have lt: "\<forall>k \<in> fst ` set acc. k < fst p"
    using Cons.prems(2) by (auto simp: om_ok_def sorted_wrt_append)
  have ok: "om_ok ((acc @ [(fst p, norm (snd p))]) @ m)"
    using Cons.prems(2) by (simp add: om_ok_def)
  have "length (fst p) < 2 ^ 32" "reads_back f (snd p)" using Cons.prems(1) by auto
  then show ?case
    using Cons.IH [OF _ ok] Cons.prems(1)
    by (simp add: read_key_string om_update_greatest [OF lt] add.assoc)
qed simp

lemma depth_Max_less:
  "Max (insert 0 (set (map g xs))) < f \<Longrightarrow> x \<in> set xs \<Longrightarrow> g x < (f :: nat)"
  by auto

lemma parse_written: "wf_json j \<Longrightarrow> mp_ok j \<Longrightarrow> depth j < f \<Longrightarrow> reads_back f j"
proof (induction j arbitrary: f)
  case JNull
  then obtain g where "f = Suc g" by (cases f) auto
  then show ?case by (simp add: mp_reads)
next
  case (JBoolean b)
  then obtain g where "f = Suc g" by (cases f) auto
  then show ?case by (cases b) (simp_all add: mp_reads)
next
  case (JInteger w)
  then obtain g where "f = Suc g" by (cases f) auto
  then show ?case by (simp only: write_msgpack.simps parse_integer) simp
next
  case (JUnsigned w)
  then obtain g where "f = Suc g" by (cases f) auto
  then show ?case by (simp only: write_msgpack.simps parse_unsigned) simp
next
  case (JFloat d)
  then obtain g where "f = Suc g" by (cases f) auto
  then show ?case by (simp only: write_msgpack.simps parse_float) simp
next
  case (JString s)
  then obtain g where "f = Suc g" by (cases f) auto
  with JString show ?case by (simp add: parse_string del: parse_msgpack.simps)
next
  case (JBinary bs t)
  then obtain g where "f = Suc g" by (cases f) auto
  then show ?case using parse_binary [OF JBinary.prems(2)] by (simp del: parse_msgpack.simps)
next
  case (JArray xs)
  then obtain g where f: "f = Suc g" by (cases f) auto
  have len: "length xs < 2 ^ 32" using JArray.prems by simp
  have "reads_back g x" if "x \<in> set xs" for x
    using JArray that f depth_Max_less [of depth xs g x] by (simp add: list_all_iff)
  note els = parse_elements [OF this]
  obtain c hd where h: "array_header (length xs) = c # hd"
    "\<And>n rest. container_len (of_char c) (n, hd @ rest) = Some (Ret ((False, length xs), n + length hd, rest))"
    using container_array_header [OF len] by blast
  show ?case unfolding f by (simp add: h els)
next
  case (JObject m)
  then obtain g where f: "f = Suc g" by (cases f) auto
  have len: "length m < 2 ^ 32" and ok: "om_ok ([] @ m)" using JObject.prems by simp_all
  have "length (fst p) < 2 ^ 32 \<and> reads_back g (snd p)" if "p \<in> set m" for p
    using JObject that f depth_Max_less [of "\<lambda>p. depth (snd p)" m g p]
    by (metis (no_types, lifting) Suc_less_SucD depth.simps(2) list_all_iff mp_ok.simps(4) prod.collapse snds.intros wf_json.simps(2))
  note mems = parse_members [OF this ok]
  obtain c hd where h: "object_header (length m) = c # hd"
    "\<And>n rest. container_len (of_char c) (n, hd @ rest) = Some (Ret ((True, length m), n + length hd, rest))"
    using container_object_header [OF len] by blast
  show ?case unfolding f using mems by (simp add: h)
qed

lemma Max_le_concat:
  assumes "\<And>x. x \<in> set xs \<Longrightarrow> g x \<le> length (w x)"
  shows "Max (insert 0 (set (map g xs))) \<le> length (concat (map w xs))"
proof -
  have "g x \<le> length (concat (map w xs))" if "x \<in> set xs" for x
    using assms [OF that] that by (induction xs) force+
  then show ?thesis by simp
qed

lemma depth_le_length: "mp_ok j \<Longrightarrow> depth j \<le> length (write_msgpack j)"
proof (induction j)
  case (JArray xs)
  then have "Max (insert 0 (set (map depth xs))) \<le> length (concat (map write_msgpack xs))"
    by (intro Max_le_concat) (simp add: list_all_iff)
  moreover have "array_header (length xs) \<noteq> []"
    using container_array_header [of "length xs"] JArray.prems by force
  ultimately show ?case by (cases "array_header (length xs)") (auto intro: trans_le_add2)
next
  case (JObject m)
  have "depth (snd p) \<le> length (write_string (fst p) @ write_msgpack (snd p))" if "p \<in> set m" for p
    using JObject that
    by (metis (no_types, lifting) le_add2 le_trans length_append list_all_iff mp_ok.simps(4) prod.collapse snds.intros)
  from Max_le_concat [of m "\<lambda>p. depth (snd p)", OF this]
  have "Max (insert 0 (set (map (\<lambda>p. depth (snd p)) m)))
      \<le> length (concat (map (\<lambda>p. write_string (fst p) @ write_msgpack (snd p)) m))" .
  moreover have "object_header (length m) \<noteq> []"
    using container_object_header [of "length m"] JObject.prems by force
  ultimately show ?case by (cases "object_header (length m)") (auto intro: trans_le_add2)
qed simp_all

lemma from_to_msgpack:
  assumes "wf_json j" "mp_ok j"
  shows "from_msgpack (to_msgpack j) = Ret (norm j)"
proof -
  have "depth j < Suc (length (write_msgpack j))" using depth_le_length [OF assms(2)] by simp
  from parse_written [OF assms this]
  have "parse_msgpack (Suc (length (write_msgpack j))) (0, write_msgpack j @ []) =
    Some (Ret (norm j, 0 + length (write_msgpack j), []))" by blast
  then show ?thesis by (simp add: from_msgpack_def to_msgpack_def del: parse_msgpack.simps)
qed

section \<open>Lemmas: the reader always answers\<close>

lemma get_bytes_shrinks: "get_bytes ctx k r = Ret (bs, r') \<Longrightarrow> length (snd r') \<le> length (snd r)"
proof (induction ctx k r arbitrary: bs rule: get_bytes.induct)
  case (3 ctx k n c cs)
  then show ?case by (cases "get_bytes ctx k (Suc n, cs)") fastforce+
qed auto

lemma bindO_Ret: "bindO m f = Ret y \<longleftrightarrow> (\<exists>x. m = Ret x \<and> f x = Ret y)"
  by (cases m) auto

lemma get_number_shrinks: "get_number k r = Ret (v, r') \<Longrightarrow> length (snd r') \<le> length (snd r)"
  by (auto simp: get_number_def bindO_Ret dest: get_bytes_shrinks)

lemmas rd_shrinks = get_bytes_shrinks get_number_shrinks

lemma get_msgpack_string_shrinks: "get_msgpack_string b r = Ret (s, r') \<Longrightarrow> length (snd r') \<le> length (snd r)"
  by (fastforce simp: get_msgpack_string_def bindO_Ret split: if_splits dest: rd_shrinks)

lemma get_msgpack_binary_shrinks: "get_msgpack_binary b r = Ret (j, r') \<Longrightarrow> length (snd r') \<le> length (snd r)"
  by (fastforce simp: get_msgpack_binary_def read_bin_def read_ext_def read_ext_body_def bindO_Ret
      split: if_splits dest: rd_shrinks)

lemma parse_scalar_shrinks: "parse_scalar b r = Ret (j, r') \<Longrightarrow> length (snd r') \<le> length (snd r)"
  by (fastforce simp: parse_scalar_def read_uint_def read_int_def bindO_Ret
      split: if_splits dest: rd_shrinks get_msgpack_string_shrinks get_msgpack_binary_shrinks)

lemma container_len_shrinks: "container_len b r = Some (Ret (h, r')) \<Longrightarrow> length (snd r') \<le> length (snd r)"
  by (fastforce simp: container_len_def bindO_Ret split: if_splits dest: rd_shrinks)

lemma read_key_shrinks: "read_key r = Ret (k, r') \<Longrightarrow> length (snd r') < length (snd r)"
  by (fastforce simp: read_key_def split: list.splits dest: get_msgpack_string_shrinks)

lemma bindF_Some_Ret: "bindF m f = Some (Ret y) \<longleftrightarrow> (\<exists>x. m = Some (Ret x) \<and> f x = Some (Ret y))"
  by (cases "(m, f)" rule: bindF.cases) auto

lemma bindF_None: "bindF m f = None \<longleftrightarrow> m = None \<or> (\<exists>x. m = Some (Ret x) \<and> f x = None)"
  by (cases "(m, f)" rule: bindF.cases) auto

lemma parse_shrinks:
  "parse_msgpack f r = Some (Ret (j, r')) \<Longrightarrow> length (snd r') < length (snd r)"
  "parse_array f n r = Some (Ret (xs, r')) \<Longrightarrow> length (snd r') \<le> length (snd r)"
  "parse_object f n acc r = Some (Ret (m, r')) \<Longrightarrow> length (snd r') \<le> length (snd r)"
proof (induction f r and f n r and f n acc r arbitrary: j r' and xs r' and m r'
    rule: parse_msgpack_parse_array_parse_object.induct)
  case (3 f n c cs)
  show ?case
  proof (cases "container_len (of_char c) (Suc n, cs)")
    case None
    with 3 show ?thesis by (auto dest: parse_scalar_shrinks)
  next
    case (Some h)
    with "3.prems" obtain ob len a b where h: "h = Ret ((ob, len), a, b)"
      by (auto simp: bindF_Some_Ret)
    have "length b \<le> length cs" using container_len_shrinks Some h by fastforce
    moreover have "length (snd r') \<le> length b"
    proof (cases ob)
      case True
      with "3.prems" Some h obtain m where "parse_object f len [] (a, b) = Some (Ret (m, r'))"
        by (auto simp: bindF_Some_Ret)
      from "3.IH"(1) [OF Some True this] show ?thesis by simp
    next
      case False
      with "3.prems" Some h obtain xs where "parse_array f len (a, b) = Some (Ret (xs, r'))"
        by (auto simp: bindF_Some_Ret)
      from "3.IH"(2) [OF Some False this] show ?thesis by simp
    qed
    ultimately show ?thesis by simp
  qed
next
  case (5 f len r)
  then show ?case by (fastforce simp: bindF_Some_Ret)
next
  case (7 f len acc r)
  then obtain k a b v a' b' where k: "read_key r = Ret (k, a, b)"
    and v: "parse_msgpack f (a, b) = Some (Ret (v, a', b'))"
    and m: "parse_object f len (om_update k v acc) (a', b') = Some (Ret (m, r'))"
    by (auto simp: bindF_Some_Ret)
  have "length b' < length b" using "7.IH"(1) k v by fastforce
  moreover have "length (snd r') \<le> length b'" using "7.IH"(2) k v m by fastforce
  ultimately show ?case using read_key_shrinks [OF k] by simp
qed auto

lemma parse_total:
  "length (snd r) < f \<Longrightarrow> parse_msgpack f r \<noteq> None"
  "length (snd r) < f \<Longrightarrow> parse_array f n r \<noteq> None"
  "length (snd r) < f \<Longrightarrow> parse_object f n acc r \<noteq> None"
proof (induction f r and f n r and f n acc r rule: parse_msgpack_parse_array_parse_object.induct)
  case (3 f n c cs)
  show ?case
  proof (cases "container_len (of_char c) (Suc n, cs)")
    case (Some h)
    show ?thesis
    proof
      assume "parse_msgpack (Suc f) (n, c # cs) = None"
      with Some obtain ob len a b where h: "h = Ret ((ob, len), a, b)"
        and bad: "if ob then parse_object f len [] (a, b) = None else parse_array f len (a, b) = None"
        by (auto simp: bindF_None split: if_splits)
      have "length b \<le> length cs" using container_len_shrinks Some h by fastforce
      then have lt: "length (snd (a, b)) < f" using "3.prems" by simp
      show False
      proof (cases ob)
        case True
        from "3.IH"(1) [OF Some True lt, of len] bad True show False by simp
      next
        case False
        from "3.IH"(2) [OF Some False lt, of len] bad False show False by simp
      qed
    qed
  qed simp
next
  case (5 f len r)
  show ?case
  proof
    assume "parse_array f (Suc len) r = None"
    with 5 obtain x a b where "parse_msgpack f r = Some (Ret (x, a, b))" "parse_array f len (a, b) = None"
      by (auto simp: bindF_None)
    with parse_shrinks(1) [OF this(1)] "5.IH"(2) [of "(a, b)"] "5.prems" show False by simp
  qed
next
  case (7 f len acc r)
  show ?case
  proof
    assume "parse_object f (Suc len) acc r = None"
    then obtain k a b where k: "read_key r = Ret (k, a, b)"
      and bad: "bindF (parse_msgpack f (a, b)) (\<lambda>(v, r''). parse_object f len (om_update k v acc) r'') = None"
      by (auto simp: bindF_None)
    have ab: "length (snd (a, b)) < f" using read_key_shrinks [OF k] "7.prems" by simp
    have "parse_msgpack f (a, b) \<noteq> None" using "7.IH"(1) k ab by (metis outcome.inject(1) prod.inject)
    with bad obtain v a' b' where v: "parse_msgpack f (a, b) = Some (Ret (v, a', b'))"
      "parse_object f len (om_update k v acc) (a', b') = None"
      by (auto simp: bindF_None)
    have "length (snd (a', b')) < f" using parse_shrinks(1) [OF v(1)] ab by simp
    with "7.IH"(2) v(2) show False by metis
  qed
qed simp_all

section \<open>Lemmas: what the reader delivers\<close>

text \<open>The exceptions of the MessagePack reader are the parse errors 110, 112 and 113; a step of the
  reader delivers \<open>P\<close> when it returns a value with \<open>P\<close> or throws one of them.\<close>

fun mp_error :: "exn \<Rightarrow> bool" where
  "mp_error (parse_error i n m) = (i \<in> {110, 112, 113})"
| "mp_error _ = False"

fun delivers :: "('a \<Rightarrow> bool) \<Rightarrow> 'a outcome \<Rightarrow> bool" where
  "delivers P (Ret x) = P x"
| "delivers P (Throw e) = mp_error e"
| "delivers P Undef = False"

fun deliversF :: "('a \<Rightarrow> bool) \<Rightarrow> 'a outcome option \<Rightarrow> bool" where
  "deliversF P None = True"
| "deliversF P (Some r) = delivers P r"

lemma delivers_Ret: "P x \<Longrightarrow> delivers P (Ret x)"
  by simp

lemma delivers_if: "delivers P a \<Longrightarrow> delivers P b \<Longrightarrow> delivers P (if c then a else b)"
  by simp

lemma delivers_bind: "delivers (\<lambda>x. True) m \<Longrightarrow> (\<And>x. delivers P (f x)) \<Longrightarrow> delivers P (bindO m f)"
  by (cases m) auto

lemma delivers_throw: "i \<in> {110, 112, 113} \<Longrightarrow> delivers P (Throw (parse_error i n m))"
  by simp

lemma deliversF_bind: "deliversF Q m \<Longrightarrow> (\<And>x. Q x \<Longrightarrow> m = Some (Ret x) \<Longrightarrow> deliversF P (f x)) \<Longrightarrow> deliversF P (bindF m f)"
  by (cases "(m, f)" rule: bindF.cases) auto

lemma get_bytes_delivers: "delivers (\<lambda>x. True) (get_bytes ctx k r)"
  by (induction ctx k r rule: get_bytes.induct) (auto intro: delivers_bind simp: eof_error_def)

lemma get_number_delivers: "delivers (\<lambda>x. True) (get_number k r)"
  unfolding get_number_def by (intro delivers_bind get_bytes_delivers) simp

lemmas delivers_rules = delivers_if delivers_bind delivers_throw get_bytes_delivers get_number_delivers

lemma get_msgpack_string_delivers: "delivers (\<lambda>x. True) (get_msgpack_string b r)"
  unfolding get_msgpack_string_def by (intro delivers_rules) simp

lemma get_msgpack_binary_delivers: "delivers (\<lambda>p. wf_json (fst p)) (get_msgpack_binary b r)"
  unfolding get_msgpack_binary_def read_bin_def read_ext_def read_ext_body_def
  by (intro delivers_rules delivers_Ret) simp_all

lemma parse_scalar_delivers: "delivers (\<lambda>p. wf_json (fst p)) (parse_scalar b r)"
  unfolding parse_scalar_def read_uint_def read_int_def
  by (intro delivers_rules delivers_Ret get_msgpack_string_delivers get_msgpack_binary_delivers) simp_all

lemma container_len_delivers: "deliversF (\<lambda>x. True) (container_len b r)"
proof -
  have "delivers (\<lambda>x. True) (bindO (get_number k r) (\<lambda>p. Ret ((ob, fst p), snd p)))" for k and ob :: bool
    by (intro delivers_rules) simp
  then show ?thesis by (simp add: container_len_def)
qed

lemma read_key_delivers: "delivers (\<lambda>x. True) (read_key r)"
  by (auto simp: read_key_def eof_error_def get_msgpack_string_delivers split: list.splits)

lemma parse_delivers:
  "deliversF (\<lambda>p. wf_json (fst p)) (parse_msgpack f r)"
  "deliversF (\<lambda>p. list_all wf_json (fst p)) (parse_array f n r)"
  "wf_json (JObject acc) \<Longrightarrow> deliversF (\<lambda>p. wf_json (JObject (fst p))) (parse_object f n acc r)"
proof (induction f r and f n r and f n acc r rule: parse_msgpack_parse_array_parse_object.induct)
  case (3 f n c cs)
  show ?case
  proof (cases "container_len (of_char c) (Suc n, cs)")
    case None
    then show ?thesis using parse_scalar_delivers by simp
  next
    case (Some h)
    have h: "deliversF (\<lambda>x. True) (Some h)" using container_len_delivers Some by metis
    have ob: "deliversF (\<lambda>p. wf_json (fst p)) (bindF (parse_object f len [] r) (\<lambda>(m, r'). Some (Ret (JObject m, r'))))" for len r
      using "3.IH"(1) [OF Some, of True len r]
      by - (rule deliversF_bind [where Q = "\<lambda>p. wf_json (JObject (fst p))"], auto)
    have ar: "deliversF (\<lambda>p. wf_json (fst p)) (bindF (parse_array f len r) (\<lambda>(xs, r'). Some (Ret (JArray xs, r'))))" for len r
      using "3.IH"(2) [OF Some, of False len r]
      by - (rule deliversF_bind [where Q = "\<lambda>p. list_all wf_json (fst p)"], auto)
    show ?thesis unfolding parse_msgpack.simps Some option.case
      by (intro deliversF_bind [OF h]) (auto simp: ob ar)
  qed
next
  case (5 f len r)
  then show ?case by (fastforce intro!: deliversF_bind)
next
  case (7 f len acc r)
  have "deliversF (\<lambda>x. True) (Some (read_key r))" using read_key_delivers by simp
  with 7 show ?case
    by (auto intro!: deliversF_bind simp: om_ok_update list_all_om_update)
qed (auto simp: eof_error_def)

lemma from_msgpack_delivers: "delivers wf_json (from_msgpack bs)"
  using parse_total(1) [of "(0, bs)" "Suc (length bs)"] parse_delivers(1) [of "Suc (length bs)" "(0, bs)"]
  by (auto simp: from_msgpack_def simp del: parse_msgpack.simps split: option.splits outcome.splits list.splits)

lemma from_msgpack_wf: "from_msgpack bs = Ret j \<Longrightarrow> wf_json j"
  using from_msgpack_delivers [of bs] by simp

lemma from_msgpack_defined: "from_msgpack bs \<noteq> Undef"
  using from_msgpack_delivers [of bs] by auto

lemma norm_type [simp]: "is_object (norm j) = is_object j" "is_array (norm j) = is_array j" "is_string (norm j) = is_string j"
  by (cases j; simp)+

lemma json_find_norm: "json_find k (norm j) = map_option norm (json_find k j)"
proof (cases j)
  case (JObject m)
  then show ?thesis by (induction m arbitrary: j) auto
qed simp_all

section \<open>Properties of the codec\<close>

text \<open>C15: every well-formed JSON value within the size limits of the format (string, binary, array
  and object lengths below \<open>2^32\<close>, binary subtypes below 256) is read back by \<^verbatim>\<open>from_msgpack\<close> from
  what \<^verbatim>\<open>to_msgpack\<close> wrote: the same value, where a non-negative signed integer comes back unsigned
  (\<open>norm\<close>), floating point numbers bit for bit also through the four-byte form.\<close>

theorem msgpack_round_trip:
  "wf_json j \<Longrightarrow> mp_ok j \<Longrightarrow> from_msgpack (to_msgpack j) = Ret (norm j)"
  by (rule from_to_msgpack)

theorem msgpack_round_trip_witness:
  "from_msgpack (to_msgpack (JObject [(''a'', JArray [JInteger 5, JInteger (- 300), JNull]), (''b'', JFloat 0x3FF8000000000000)]))
     = Ret (JObject [(''a'', JArray [JUnsigned 5, JInteger (- 300), JNull]), (''b'', JFloat 0x3FF8000000000000)])"
  using msgpack_round_trip [of "JObject [(''a'', JArray [JInteger 5, JInteger (- 300), JNull]), (''b'', JFloat 0x3FF8000000000000)]"]
  by (simp add: om_ok_def)

text \<open>C30: \<^verbatim>\<open>from_msgpack\<close> answers on every byte string, however malformed or truncated: it returns a
  well-formed JSON value or throws one of the parse errors 110, 112 and 113; nesting never exhausts
  the levels \<open>from_msgpack\<close> gives the parser and no input leads to undefined behaviour.\<close>

theorem from_msgpack_total:
  "(\<exists>j. from_msgpack bs = Ret j \<and> wf_json j) \<or> (\<exists>i n m. from_msgpack bs = Throw (parse_error i n m) \<and> i \<in> {110, 112, 113})"
proof -
  have "delivers wf_json (from_msgpack bs)" by (rule from_msgpack_delivers)
  then show ?thesis by (cases "from_msgpack bs") (auto elim: mp_error.elims)
qed

end
