(* ===== verification/Anu_Document.thy ===== *)
theory Anu_Document
  imports Anu_Msgpack
begin

text \<open>
  The class \<^verbatim>\<open>anudb::Document\<close> of \<^verbatim>\<open>src/Document.h\<close> and \<^verbatim>\<open>src/Document.cpp\<close>: an identifier and a JSON
  value, field access, the update operators \<^verbatim>\<open>$set\<close>, \<^verbatim>\<open>$unset\<close>, \<^verbatim>\<open>$push\<close> and \<^verbatim>\<open>$pull\<close>, and the stored
  form. The operators work on \<^verbatim>\<open>data_\<close> in place and may throw half way, so they are computations
  over the JSON value. The pointer \<^verbatim>\<open>current\<close> that walks down a dotted key is a path of steps into
  the value (\<open>json_at\<close> dereferences it, \<open>json_put\<close> writes through it).
\<close>

record Document =
  doc_id :: string
  doc_data :: json

definition setId :: "string \<Rightarrow> Document \<Rightarrow> Document" where
  "setId i d = d\<lparr>doc_id := i\<rparr>"

definition setData :: "json \<Rightarrow> Document \<Rightarrow> Document" where
  "setData j d = d\<lparr>doc_data := j\<rparr>"

definition hasField :: "Document \<Rightarrow> string \<Rightarrow> bool" where
  "hasField d field = (json_find field (doc_data d) \<noteq> None)"

definition setValue :: "string \<Rightarrow> json \<Rightarrow> (Document, unit) comp" where
  "setValue field v = (\<lambda>d. case index_write field v (doc_data d) of
       Ret j \<Rightarrow> (Ret (), d\<lparr>doc_data := j\<rparr>)
     | Throw e \<Rightarrow> (Throw e, d)
     | Undef \<Rightarrow> (Undef, d))"

text \<open>The template \<^verbatim>\<open>getValue<T>\<close>; \<open>get\<close> is the conversion \<^verbatim>\<open>get<T>\<close>.\<close>

definition getValue :: "(json \<Rightarrow> 'a outcome) \<Rightarrow> Document \<Rightarrow> string \<Rightarrow> 'a outcome" where
  "getValue get d field =
     (if \<not> hasField d field then Throw (runtime_error (''Field not found: '' @ field))
      else bindO (const_index field (doc_data d)) get)"

section \<open>Walking down a dotted key\<close>

datatype pstep = At_index nat | At_key string

fun json_step :: "pstep \<Rightarrow> json \<Rightarrow> json option" where
  "json_step (At_index i) (JArray xs) = (if i < length xs then Some (xs ! i) else None)"
| "json_step (At_key k) (JObject m) = map_of m k"
| "json_step _ _ = None"

fun json_at :: "pstep list \<Rightarrow> json \<Rightarrow> json option" where
  "json_at [] j = Some j"
| "json_at (p # ps) j = (case json_step p j of None \<Rightarrow> None | Some x \<Rightarrow> json_at ps x)"

fun json_set_step :: "pstep \<Rightarrow> json \<Rightarrow> json \<Rightarrow> json" where
  "json_set_step (At_index i) x (JArray xs) = JArray (xs[i := x])"
| "json_set_step (At_key k) x (JObject m) = JObject (om_update k x m)"
| "json_set_step _ x j = j"

fun json_put :: "pstep list \<Rightarrow> json \<Rightarrow> json \<Rightarrow> json" where
  "json_put [] v j = v"
| "json_put (p # ps) v j = (case json_step p j of None \<Rightarrow> j | Some x \<Rightarrow> json_set_step p (json_put ps v x) j)"

definition isdigit :: "char \<Rightarrow> bool" where
  "isdigit c = (48 \<le> (of_char c :: nat) \<and> of_char c \<le> (57 :: nat))"

fun dec_val :: "nat \<Rightarrow> string \<Rightarrow> nat" where
  "dec_val a [] = a"
| "dec_val a (c # cs) = dec_val (a * 10 + (of_char c - 48)) cs"

text \<open>\<^verbatim>\<open>std::stoi\<close> on a string of digits.\<close>

definition stoi_digits :: "string \<Rightarrow> nat outcome" where
  "stoi_digits t =
     (if t = [] then Throw (std_invalid_argument ''stoi'')
      else if 2147483647 < dec_val 0 t then Throw (std_out_of_range ''stoi'')
      else Ret (dec_val 0 t))"

text \<open>One round of the walk: where \<^verbatim>\<open>current\<close> moves for a token, or nowhere.\<close>

definition walk_token :: "string \<Rightarrow> json \<Rightarrow> pstep option outcome" where
  "walk_token token current =
     (case current of
        JArray xs \<Rightarrow>
          if list_all isdigit token
          then bindO (stoi_digits token) (\<lambda>index. Ret (if index < length xs then Some (At_index index) else None))
          else Ret None
      | JObject m \<Rightarrow> Ret (if contains current token then Some (At_key token) else None)
      | _ \<Rightarrow> Ret None)"

text \<open>The loop of \<^verbatim>\<open>$set\<close>: a token that leads nowhere is skipped (\<^verbatim>\<open>continue\<close>).\<close>

fun walk_set :: "string list \<Rightarrow> pstep list \<Rightarrow> json \<Rightarrow> (pstep list \<times> json) outcome" where
  "walk_set [] path current = Ret (path, current)"
| "walk_set (token # tokens) path current =
     bindO (walk_token token current) (\<lambda>st. case st of
         None \<Rightarrow> walk_set tokens path current
       | Some p \<Rightarrow> (case json_step p current of
           None \<Rightarrow> Undef
         | Some x \<Rightarrow> walk_set tokens (path @ [p]) x))"

text \<open>The loop of \<^verbatim>\<open>$unset\<close>: a token that leads nowhere ends it (\<^verbatim>\<open>break\<close>), and then \<^verbatim>\<open>i\<close> has not
  reached the last token.\<close>

fun walk_unset :: "string list \<Rightarrow> pstep list \<Rightarrow> json \<Rightarrow> (pstep list \<times> json) option outcome" where
  "walk_unset [] path current = Ret (Some (path, current))"
| "walk_unset (token # tokens) path current =
     bindO (walk_token token current) (\<lambda>st. case st of
         None \<Rightarrow> Ret None
       | Some p \<Rightarrow> (case json_step p current of
           None \<Rightarrow> Undef
         | Some x \<Rightarrow> walk_unset tokens (path @ [p]) x))"

section \<open>The update operators\<close>

definition dotted :: "string \<Rightarrow> bool" where
  "dotted key = (CHR ''.'' \<in> set key)"

definition tokens_of :: "string \<Rightarrow> string list" where
  "tokens_of key = getline_all (CHR ''.'') [] key"

definition modifyO :: "(json \<Rightarrow> json outcome) \<Rightarrow> (json, unit) comp" where
  "modifyO f = (\<lambda>j. case f j of Ret j' \<Rightarrow> (Ret (), j') | Throw e \<Rightarrow> (Throw e, j) | Undef \<Rightarrow> (Undef, j))"

definition set_op :: "string \<times> json \<Rightarrow> (json, unit) comp" where
  "set_op = (\<lambda>(key, v). modifyO (\<lambda>data.
     if dotted key then
       (case tokens_of key of
          [] \<Rightarrow> Undef
        | t # ts \<Rightarrow>
            bindO (walk_set (butlast (t # ts)) [] data) (\<lambda>(path, current).
              if json_find (last (t # ts)) current \<noteq> None
              then bindO (index_write (last (t # ts)) v current) (\<lambda>c. Ret (json_put path c data))
              else Ret data))
     else index_write key v data))"

definition unset_op :: "string \<times> json \<Rightarrow> (json, unit) comp" where
  "unset_op = (\<lambda>(key, v). modifyO (\<lambda>data.
     if dotted key then
       (case tokens_of key of
          [] \<Rightarrow> Undef
        | t # ts \<Rightarrow>
            bindO (walk_unset (butlast (t # ts)) [] data) (\<lambda>r. case r of
                None \<Rightarrow> Ret data
              | Some (path, current) \<Rightarrow>
                  if json_find (last (t # ts)) current \<noteq> None
                  then bindO (json_erase (last (t # ts)) current) (\<lambda>c. Ret (json_put path c data))
                  else Ret data))
     else json_erase key data))"

definition push_op :: "string \<times> json \<Rightarrow> (json, unit) comp" where
  "push_op = (\<lambda>(key, v). modifyO (\<lambda>data.
     case json_find key data of
       None \<Rightarrow> index_write key v data
     | Some cur \<Rightarrow>
         if is_array cur then bindO (push_back v cur) (\<lambda>c. index_write key c data)
         else index_write key (JArray [cur, v]) data))"

text \<open>The array \<^verbatim>\<open>$pull\<close> iterates over.\<close>

fun elements :: "json \<Rightarrow> json list" where
  "elements (JArray xs) = xs"
| "elements j = []"

definition pull_op :: "string \<times> json \<Rightarrow> (json, unit) comp" where
  "pull_op = (\<lambda>(key, v). modifyO (\<lambda>data.
     case json_find key data of
       None \<Rightarrow> Ret data
     | Some cur \<Rightarrow>
         if is_array cur then index_write key (JArray (filter (\<lambda>item. json_ne item v) (elements cur))) data
         else if json_eq cur v then json_erase key data
         else index_write key v data))"

definition update_op :: "string \<times> json \<Rightarrow> (json, unit) comp" where
  "update_op = (\<lambda>(op, ops).
     if op = ''$set'' then bindM (liftO (entries_of ops)) (forM set_op)
     else if op = ''$unset'' then bindM (liftO (entries_of ops)) (forM unset_op)
     else if op = ''$push'' then bindM (liftO (entries_of ops)) (forM push_op)
     else if op = ''$pull'' then bindM (liftO (entries_of ops)) (forM pull_op)
     else returnM ())"

definition applyUpdate :: "json \<Rightarrow> (json, unit) comp" where
  "applyUpdate update = bindM (liftO (entries_of update)) (forM update_op)"

section \<open>The stored form\<close>

definition Document_to_msgpack :: "Document \<Rightarrow> string" where
  "Document_to_msgpack d = to_msgpack (JObject [(''_id'', JString (doc_id d)), (''data'', doc_data d)])"

definition Document_from_msgpack :: "string \<Rightarrow> Document outcome" where
  "Document_from_msgpack bs =
     bindO (from_msgpack bs) (\<lambda>j.
     bindO (index_read ''_id'' j) (\<lambda>i.
     bindO (get_string i) (\<lambda>i'.
     bindO (index_read ''data'' j) (\<lambda>d. Ret \<lparr>doc_id = i', doc_data = d\<rparr>))))"

section \<open>Lemmas: paths\<close>

lemma json_at_append: "json_at (p @ q) j = (case json_at p j of None \<Rightarrow> None | Some x \<Rightarrow> json_at q x)"
  by (induction p j rule: json_at.induct) (auto split: option.splits)

lemma json_step_set: "json_step p j = Some x \<Longrightarrow> json_step q (json_set_step p y j) = (if q = p then Some y else json_step q j)"
  by (cases p; cases j; cases q) (auto simp: om_lookup_update split: if_splits)

lemma json_at_put: "json_at p j = Some x \<Longrightarrow> json_at p (json_put p v j) = Some v"
  by (induction p v j arbitrary: x rule: json_put.induct) (auto simp: json_step_set split: option.splits)

lemma json_at_put_below: "json_at p j = Some x \<Longrightarrow> json_at (p @ q) (json_put p v j) = json_at q v"
  by (simp add: json_at_append json_at_put)

lemma json_at_put_frame: "p \<parallel> q \<Longrightarrow> json_at q (json_put p v j) = json_at q j"
proof (induction p v j arbitrary: q rule: json_put.induct)
  case (2 p ps v j)
  then obtain q' qs where q: "q = q' # qs" by (cases q) auto
  show ?case
  proof (cases "json_step p j")
    case (Some x)
    show ?thesis
    proof (cases "q' = p")
      case True
      with 2 q have "ps \<parallel> qs" by (auto simp: parallel_def)
      with 2(1) [OF Some] Some q True show ?thesis by (simp add: json_step_set)
    qed (use Some q in \<open>simp add: json_step_set\<close>)
  qed simp
qed simp

lemma wf_json_step: "wf_json j \<Longrightarrow> json_step p j = Some x \<Longrightarrow> wf_json x"
proof (cases p; cases j)
  fix i xs assume "wf_json j" "json_step p j = Some x" "p = At_index i" "j = JArray xs"
  then show ?thesis by (auto simp: list_all_length split: if_splits)
qed (auto dest: wf_map_of)

lemma wf_json_at: "wf_json j \<Longrightarrow> json_at p j = Some x \<Longrightarrow> wf_json x"
  by (induction p j rule: json_at.induct) (auto dest: wf_json_step split: option.splits)

lemma list_all_list_update: "list_all P xs \<Longrightarrow> P x \<Longrightarrow> list_all P (xs[i := x])"
  by (induction xs arbitrary: i) (auto split: nat.splits)

lemma wf_json_set_step: "wf_json j \<Longrightarrow> wf_json x \<Longrightarrow> wf_json (json_set_step p x j)"
  by (cases p; cases j) (auto simp: om_ok_update list_all_om_update list_all_list_update)

lemma wf_json_put: "wf_json j \<Longrightarrow> wf_json v \<Longrightarrow> wf_json (json_put p v j)"
proof (induction p v j rule: json_put.induct)
  case (2 p ps v j)
  show ?case
  proof (cases "json_step p j")
    case (Some x)
    with 2 wf_json_step [OF 2(2) Some] show ?thesis by (simp add: wf_json_set_step)
  qed (use 2 in simp)
qed simp

lemma is_object_set_step: "is_object j \<Longrightarrow> is_object (json_set_step p x j)"
  by (cases p; cases j) auto

lemma is_object_put: "is_object j \<Longrightarrow> (p = [] \<Longrightarrow> is_object v) \<Longrightarrow> is_object (json_put p v j)"
  by (cases p) (auto simp: is_object_set_step split: option.splits)

section \<open>Lemmas: the walk\<close>

text \<open>What \<^verbatim>\<open>std::stoi\<close> can throw.\<close>

definition stoi_error :: "exn \<Rightarrow> bool" where
  "stoi_error e = (e \<in> {std_invalid_argument ''stoi'', std_out_of_range ''stoi''})"

lemma walk_token_Some: "walk_token t cur = Ret (Some p) \<Longrightarrow> \<exists>x. json_step p cur = Some x"
  by (cases cur) (auto simp: walk_token_def bindO_Ret split: if_splits)

lemma walk_token_not_Undef: "walk_token t cur \<noteq> Undef"
  by (cases cur) (auto simp: walk_token_def stoi_digits_def)

lemma walk_token_Throw: "walk_token t cur = Throw e \<Longrightarrow> stoi_error e"
  by (cases cur) (auto simp: walk_token_def stoi_digits_def stoi_error_def split: if_splits)

lemma walk_set_spec:
  "case walk_set ts path cur of
     Ret (path', cur') \<Rightarrow> \<exists>q. path' = path @ q \<and> json_at q cur = Some cur'
   | Throw e \<Rightarrow> stoi_error e
   | Undef \<Rightarrow> False"
proof (induction ts path cur rule: walk_set.induct)
  case (2 t ts path cur)
  show ?case
  proof (cases "walk_token t cur")
    case (Ret st)
    show ?thesis
    proof (cases st)
      case None
      with 2(1) Ret show ?thesis by simp
    next
      case (Some p)
      with Ret obtain x where x: "json_step p cur = Some x" using walk_token_Some by blast
      from 2(2) [OF x] Ret Some x show ?thesis
        by (auto split: outcome.splits)
    qed
  qed (simp_all add: walk_token_Throw walk_token_not_Undef)
qed simp

lemma walk_unset_spec:
  "case walk_unset ts path cur of
     Ret (Some (path', cur')) \<Rightarrow> \<exists>q. path' = path @ q \<and> json_at q cur = Some cur'
   | Ret None \<Rightarrow> True
   | Throw e \<Rightarrow> stoi_error e
   | Undef \<Rightarrow> False"
proof (induction ts path cur rule: walk_unset.induct)
  case (2 t ts path cur)
  show ?case
  proof (cases "walk_token t cur")
    case (Ret st)
    show ?thesis
    proof (cases st)
      case (Some p)
      with Ret obtain x where x: "json_step p cur = Some x" using walk_token_Some by blast
      from 2 [OF x] Ret Some x show ?thesis
        by (auto split: outcome.splits option.splits)
    qed (use Ret in simp)
  qed (simp_all add: walk_token_Throw walk_token_not_Undef)
qed simp

text \<open>When every token leads somewhere the two loops agree.\<close>

lemma walk_set_unset: "walk_unset ts path cur = Ret (Some r) \<Longrightarrow> walk_set ts path cur = Ret r"
proof (induction ts path cur rule: walk_unset.induct)
  case (2 t ts path cur)
  then obtain p where p: "walk_token t cur = Ret (Some p)" by (auto simp: bindO_Ret split: option.splits)
  then obtain x where "json_step p cur = Some x" using walk_token_Some by blast
  with 2 p show ?case by simp
qed simp

lemma getline_all_nonempty: "acc \<noteq> [] \<or> s \<noteq> [] \<Longrightarrow> getline_all sep acc s \<noteq> []"
  by (induction sep acc s rule: getline_all.induct) auto

lemma tokens_of_dotted: "dotted key \<Longrightarrow> tokens_of key \<noteq> []"
  unfolding tokens_of_def dotted_def by (rule getline_all_nonempty) auto

lemma dotted_tokens: "dotted key \<Longrightarrow> \<exists>t ts. tokens_of key = t # ts"
  using tokens_of_dotted by (cases "tokens_of key") auto

section \<open>Lemmas: the operators keep the document well formed\<close>

text \<open>A document value: a well-formed object.\<close>

definition doc_ok :: "json \<Rightarrow> bool" where
  "doc_ok j = (wf_json j \<and> is_object j)"

text \<open>A step over a document value that keeps \<open>doc_ok\<close> and throws only what \<open>E\<close> admits.\<close>

fun admits :: "(exn \<Rightarrow> bool) \<Rightarrow> 'a outcome \<Rightarrow> bool" where
  "admits E (Ret x) = True"
| "admits E (Throw e) = E e"
| "admits E Undef = False"

definition keeps_doc :: "(exn \<Rightarrow> bool) \<Rightarrow> (json, unit) comp \<Rightarrow> bool" where
  "keeps_doc E m = (\<forall>j. doc_ok j \<longrightarrow> doc_ok (snd (m j)) \<and> admits E (fst (m j)))"

text \<open>The same for a function on the value.\<close>

fun doc_out :: "(exn \<Rightarrow> bool) \<Rightarrow> json outcome \<Rightarrow> bool" where
  "doc_out E (Ret j) = doc_ok j"
| "doc_out E (Throw e) = E e"
| "doc_out E Undef = False"

lemma keeps_doc_modify: "(\<And>j. doc_ok j \<Longrightarrow> doc_out E (f j)) \<Longrightarrow> keeps_doc E (modifyO f)"
  unfolding keeps_doc_def
proof (intro allI impI)
  fix j assume f: "\<And>j. doc_ok j \<Longrightarrow> doc_out E (f j)" and j: "doc_ok j"
  from f [OF j] j show "doc_ok (snd (modifyO f j)) \<and> admits E (fst (modifyO f j))"
    by (cases "f j") (simp_all add: modifyO_def)
qed

lemma keeps_doc_bind:
  assumes "keeps_doc E m" and "\<And>x. keeps_doc E (f x)"
  shows "keeps_doc E (bindM m f)"
  unfolding keeps_doc_def
proof (intro allI impI)
  fix j assume j: "doc_ok j"
  obtain r t where m: "m j = (r, t)" by force
  have r: "doc_ok t \<and> admits E r" using assms(1) [unfolded keeps_doc_def, rule_format, OF j] m by simp
  then have "doc_ok (snd (f x t)) \<and> admits E (fst (f x t))" for x
    using assms(2) [unfolded keeps_doc_def, rule_format] by blast
  then show "doc_ok (snd (bindM m f j)) \<and> admits E (fst (bindM m f j))"
    using m r by (cases r) (simp_all add: bindM_def)
qed

lemma keeps_doc_return: "keeps_doc E (returnM ())"
  by (simp add: keeps_doc_def returnM_def)

lemma keeps_doc_forM: "(\<And>x. x \<in> set xs \<Longrightarrow> keeps_doc E (f x)) \<Longrightarrow> keeps_doc E (forM f xs)"
  by (induction xs) (auto intro!: keeps_doc_bind keeps_doc_return)

lemma admits_weaken: "admits E r \<Longrightarrow> (\<And>e. E e \<Longrightarrow> E' e) \<Longrightarrow> admits E' r"
  by (cases r) auto

lemma keeps_doc_weaken: "keeps_doc E m \<Longrightarrow> (\<And>e. E e \<Longrightarrow> E' e) \<Longrightarrow> keeps_doc E' m"
  unfolding keeps_doc_def using admits_weaken by blast

lemma index_write_doc: "doc_ok j \<Longrightarrow> wf_json v \<Longrightarrow> doc_out E (index_write k v j)"
  by (cases j) (auto simp: doc_ok_def om_ok_update list_all_om_update)

lemma erase_doc: "doc_ok j \<Longrightarrow> doc_out E (json_erase k j)"
  by (cases j) (auto simp: doc_ok_def om_ok_delete list_all_om_delete)

lemma json_find_doc: "wf_json j \<Longrightarrow> json_find k j = Some v \<Longrightarrow> doc_ok j \<and> wf_json v"
  by (cases j) (auto simp: doc_ok_def wf_map_of)

lemma put_doc: "doc_ok j \<Longrightarrow> doc_out E c \<Longrightarrow> doc_out E (bindO c (\<lambda>c. Ret (json_put p c j)))"
  by (cases c) (auto simp: doc_ok_def wf_json_put is_object_put)

lemma walked_wf:
  "doc_ok j \<Longrightarrow> walk_set ts [] j = Ret (path, cur) \<Longrightarrow> wf_json cur"
  "doc_ok j \<Longrightarrow> walk_unset ts [] j = Ret (Some (path, cur)) \<Longrightarrow> wf_json cur"
  using walk_set_spec [where ts = ts and path = "[]" and cur = j] walk_unset_spec [where ts = ts and path = "[]" and cur = j] by (auto simp: doc_ok_def wf_json_at)

lemma set_op_keeps: "wf_json v \<Longrightarrow> keeps_doc stoi_error (set_op (key, v))"
  unfolding set_op_def prod.case
proof (rule keeps_doc_modify, goal_cases)
  case (1 j)
  show ?case
  proof (cases "dotted key")
    case True
    then obtain t ts where ts: "tokens_of key = t # ts" using dotted_tokens by blast
    show ?thesis
    proof (cases "walk_set (butlast (t # ts)) [] j")
      case (Ret r)
      obtain path cur where r: "r = (path, cur)" by force
      have "doc_out stoi_error (index_write k v cur)" if "json_find k cur \<noteq> None" for k
        using that walked_wf(1) [OF 1(2) Ret [unfolded r]] 1(1) by (auto intro: index_write_doc dest: json_find_doc)
      then show ?thesis using 1 True ts Ret r put_doc [OF 1(2)] by simp
    qed (use walk_set_spec [where ts = "butlast (t # ts)" and path = "[]" and cur = j] True ts in simp_all)
  qed (simp add: index_write_doc 1)
qed

lemma unset_op_keeps: "keeps_doc stoi_error (unset_op (key, v))"
  unfolding unset_op_def prod.case
proof (rule keeps_doc_modify, goal_cases)
  case (1 j)
  show ?case
  proof (cases "dotted key")
    case True
    then obtain t ts where ts: "tokens_of key = t # ts" using dotted_tokens by blast
    show ?thesis
    proof (cases "walk_unset (butlast (t # ts)) [] j")
      case (Ret r)
      show ?thesis
      proof (cases r)
        case (Some pc)
        obtain path cur where pc: "pc = (path, cur)" by force
        have "doc_out stoi_error (json_erase k cur)" if "json_find k cur \<noteq> None" for k
          using that walked_wf(2) [OF 1 Ret [unfolded Some pc]] by (auto intro: erase_doc dest: json_find_doc)
        then show ?thesis using 1 True ts Ret Some pc put_doc [OF 1] by simp
      qed (use 1 True ts Ret in simp)
    qed (use walk_unset_spec [where ts = "butlast (t # ts)" and path = "[]" and cur = j] True ts in simp_all)
  qed (simp add: erase_doc 1)
qed

lemma push_op_keeps: "wf_json v \<Longrightarrow> keeps_doc E (push_op (key, v))"
  unfolding push_op_def prod.case
proof (rule keeps_doc_modify, goal_cases)
  case (1 j)
  show ?case
  proof (cases "json_find key j")
    case (Some cur)
    then have "wf_json cur" using 1(2) json_find_doc by (auto simp: doc_ok_def)
    with 1 Some show ?thesis by (cases cur) (auto intro!: index_write_doc)
  qed (simp add: index_write_doc 1)
qed

lemma elements_wf: "wf_json j \<Longrightarrow> list_all wf_json (elements j)"
  by (cases j) auto

lemma pull_op_keeps: "wf_json v \<Longrightarrow> keeps_doc E (pull_op (key, v))"
  unfolding pull_op_def prod.case
proof (rule keeps_doc_modify, goal_cases)
  case (1 j)
  show ?case
  proof (cases "json_find key j")
    case (Some cur)
    then have "wf_json cur" using 1(2) json_find_doc by (auto simp: doc_ok_def)
    then have "wf_json (JArray (filter (\<lambda>item. json_ne item v) (elements cur)))"
      using elements_wf [of cur] by (auto simp: list_all_iff)
    then show ?thesis using Some 1 by (simp add: index_write_doc erase_doc del: wf_json.simps)
  qed (use 1 in simp)
qed

text \<open>The exceptions an update of a document can end in.\<close>

definition update_error :: "exn \<Rightarrow> bool" where
  "update_error e = (stoi_error e \<or> e = key_error)"

lemma keeps_doc_entries:
  assumes "\<And>kvs. entries_of j = Ret kvs \<Longrightarrow> keeps_doc update_error (f kvs)"
  shows "keeps_doc update_error (bindM (liftO (entries_of j)) f)"
proof (cases "entries_of j")
  case (Ret kvs)
  then show ?thesis using assms by (simp add: keeps_doc_def bindM_def liftO_def)
next
  case (Throw e)
  then have "e = key_error" by (cases j rule: entries_of.cases) auto
  with Throw show ?thesis by (simp add: keeps_doc_def bindM_def liftO_def update_error_def)
next
  case Undef
  then show ?thesis by (cases j rule: entries_of.cases) auto
qed

lemma entries_wf: "wf_json j \<Longrightarrow> entries_of j = Ret kvs \<Longrightarrow> p \<in> set kvs \<Longrightarrow> wf_json (snd p)"
  by (cases j rule: entries_of.cases) (auto simp: list_all_iff)

lemma update_op_keeps: "wf_json v \<Longrightarrow> keeps_doc update_error (update_op (op, v))"
proof -
  assume v: "wf_json v"
  have k: "keeps_doc update_error (bindM (liftO (entries_of v)) (forM f))"
    if "\<And>k x. wf_json x \<Longrightarrow> keeps_doc stoi_error (f (k, x))" for f
  proof (intro keeps_doc_entries keeps_doc_forM)
    fix kvs p assume "entries_of v = Ret kvs" "p \<in> set kvs"
    then have "wf_json (snd p)" using entries_wf v by blast
    then have "keeps_doc stoi_error (f p)" using that [of "snd p" "fst p"] by simp
    then show "keeps_doc update_error (f p)" by (rule keeps_doc_weaken) (simp add: update_error_def)
  qed
  show ?thesis
    unfolding update_op_def prod.case
    by (simp add: k set_op_keeps unset_op_keeps push_op_keeps pull_op_keeps keeps_doc_return)
qed

lemma applyUpdate_keeps: "wf_json u \<Longrightarrow> keeps_doc update_error (applyUpdate u)"
  unfolding applyUpdate_def
  by (intro keeps_doc_entries keeps_doc_forM) (metis entries_wf prod.collapse update_op_keeps)

section \<open>Lemmas: what the operators do\<close>

lemma index_write_at: "index_write k v j = Ret j' \<Longrightarrow> is_object j \<Longrightarrow> json_at [At_key k'] j' = (if k' = k then Some v else json_at [At_key k'] j)"
  by (cases j) (auto simp: om_lookup_update)

section \<open>The key of a place\<close>

text \<open>How a client writes a place: the keys and the (decimal) array indices on the way, separated by dots. A
  place can be written if no key on the way has a dot, its indices are in the range of an \<^verbatim>\<open>int\<close>, and it ends
  with a key that is not empty. This does not mention how the code reads the key.\<close>

fun step_text :: "pstep \<Rightarrow> string" where
  "step_text (At_key k) = k"
| "step_text (At_index i) = to_string i"

fun dotted_key :: "pstep list \<Rightarrow> string" where
  "dotted_key [] = []"
| "dotted_key [p] = step_text p"
| "dotted_key (p # ps) = step_text p @ ''.'' @ dotted_key ps"

fun plain_step :: "pstep \<Rightarrow> bool" where
  "plain_step (At_key k) = (CHR ''.'' \<notin> set k)"
| "plain_step (At_index i) = (i < 2 ^ 31)"

definition writable_place :: "pstep list \<Rightarrow> bool" where
  "writable_place path = (list_all plain_step path \<and> (\<exists>ps k. path = ps @ [At_key k] \<and> k \<noteq> []))"

lemma to_string_digits: "list_all isdigit (to_string n)"
proof (induction n rule: to_string.induct)
  case (1 n)
  have d: "isdigit (char_of (48 + m))" if "m < 10" for m :: nat
    using that by (simp add: isdigit_def)
  show ?case
  proof (cases "n < 10")
    case True
    then show ?thesis by (subst to_string.simps) (simp add: d)
  next
    case False
    then show ?thesis using 1 d [of "n mod 10"] by (subst to_string.simps) simp
  qed
qed

lemma dec_val_append: "dec_val a (s @ t) = dec_val (dec_val a s) t"
  by (induction a s rule: dec_val.induct) simp_all

lemma dec_val_to_string: "dec_val 0 (to_string n) = n"
proof (induction n rule: to_string.induct)
  case (1 n)
  have d: "(of_char (char_of (48 + m) :: char) :: nat) = 48 + m" if "m < 10" for m :: nat
    using that by simp
  show ?case
  proof (cases "n < 10")
    case True
    then show ?thesis by (subst to_string.simps) (simp add: d)
  next
    case False
    have m: "n mod 10 < 10" by simp
    have "dec_val 0 (to_string n) = dec_val 0 (to_string (n div 10)) * 10 + n mod 10"
      using False d [OF m] by (subst to_string.simps) (simp add: dec_val_append)
    then show ?thesis using 1 False by simp
  qed
qed

lemma to_string_nonempty: "to_string n \<noteq> []"
  by (subst to_string.simps) simp

lemma stoi_to_string: "n < 2 ^ 31 \<Longrightarrow> stoi_digits (to_string n) = Ret n"
  by (simp add: stoi_digits_def dec_val_to_string to_string_nonempty)

lemma step_text_no_dot: "plain_step p \<Longrightarrow> CHR ''.'' \<notin> set (step_text p)"
proof (cases p)
  case (At_index i)
  have "\<not> isdigit (CHR ''.'')" by (simp add: isdigit_def)
  then show ?thesis using to_string_digits [of i] At_index by (auto simp: list_all_iff)
qed simp

lemma getline_all_piece: "CHR ''.'' \<notin> set t \<Longrightarrow> getline_all (CHR ''.'') acc (t @ ''.'' @ s) = (acc @ t) # getline_all (CHR ''.'') [] s"
  by (induction t arbitrary: acc) auto

lemma getline_all_last: "CHR ''.'' \<notin> set t \<Longrightarrow> acc @ t \<noteq> [] \<Longrightarrow> getline_all (CHR ''.'') acc t = [acc @ t]"
  by (induction t arbitrary: acc) auto

lemma tokens_of_dotted_key:
  "list_all plain_step ps \<Longrightarrow> plain_step (At_key k) \<Longrightarrow> k \<noteq> [] \<Longrightarrow>
     tokens_of (dotted_key (ps @ [At_key k])) = map step_text ps @ [k]"
proof (induction ps)
  case Nil
  then show ?case using getline_all_last [of k "[]"] by (simp add: tokens_of_def)
next
  case (Cons p ps)
  have "dotted_key ((p # ps) @ [At_key k]) = step_text p @ ''.'' @ dotted_key (ps @ [At_key k])" by (cases ps) simp_all
  then show ?case using Cons getline_all_piece [OF step_text_no_dot, of p "[]"] by (simp add: tokens_of_def)
qed

lemma dotted_dotted_key:
  assumes "plain_step (At_key k)" shows "dotted (dotted_key (ps @ [At_key k])) \<longleftrightarrow> ps \<noteq> []"
proof (cases ps)
  case (Cons p qs)
  then have "dotted_key (ps @ [At_key k]) = step_text p @ ''.'' @ dotted_key (qs @ [At_key k])" by (cases qs) simp_all
  then show ?thesis using Cons by (simp add: dotted_def)
qed (use assms in \<open>simp add: dotted_def\<close>)

text \<open>The walk of the code reaches the place.\<close>

lemma walk_token_step: "plain_step p \<Longrightarrow> json_step p cur = Some x \<Longrightarrow> walk_token (step_text p) cur = Ret (Some p)"
  by (cases p; cases cur) (auto simp: walk_token_def to_string_digits stoi_to_string contains_find split: if_splits)

lemma walk_unset_place:
  "list_all plain_step ps \<Longrightarrow> json_at ps cur = Some x \<Longrightarrow> walk_unset (map step_text ps) path cur = Ret (Some (path @ ps, x))"
proof (induction ps arbitrary: path cur)
  case (Cons p ps)
  then obtain y where "json_step p cur = Some y" "json_at ps y = Some x" by (auto split: option.splits)
  then show ?case using Cons walk_token_step by simp
qed simp

lemma writable_placeE:
  assumes "writable_place path" "json_at path j = Some old"
  obtains p k m where "path = p @ [At_key k]" "json_at p j = Some (JObject m)" "map_of m k = Some old"
    "dotted (dotted_key path) \<longleftrightarrow> p \<noteq> []" "tokens_of (dotted_key path) = map step_text p @ [k]"
    "walk_unset (map step_text p) [] j = Ret (Some (p, JObject m))" "p = [] \<Longrightarrow> dotted_key path = k"
proof -
  from assms(1) obtain p k where p: "path = p @ [At_key k]" "list_all plain_step p" "plain_step (At_key k)" "k \<noteq> []"
    unfolding writable_place_def list_all_append by auto
  then obtain cur where c: "json_at p j = Some cur" "json_step (At_key k) cur = Some old"
    using assms(2) by (auto simp: json_at_append split: option.splits)
  then obtain m where m: "cur = JObject m" "map_of m k = Some old" by (cases cur) auto
  show thesis
    by (rule that [of p k m])
      (use p c m walk_unset_place [OF p(2) c(1), of "[]"] tokens_of_dotted_key [OF p(2-4)] dotted_dotted_key [OF p(3), of p]
        in \<open>simp_all\<close>)
qed

lemma parallel_append_split: "(p @ [x]) \<parallel> q \<Longrightarrow> p \<parallel> q \<or> (\<exists>y ys. q = p @ y # ys \<and> y \<noteq> x)"
proof -
  assume a: "(p @ [x]) \<parallel> q"
  show ?thesis
  proof (cases "p \<parallel> q")
    case False
    then have "prefix p q \<or> prefix q p" by (auto simp: parallel_def)
    moreover have "\<not> prefix q p" using a by (auto simp: parallel_def prefix_def)
    ultimately obtain ys where q: "q = p @ ys" by (auto simp: prefix_def)
    with \<open>\<not> prefix q p\<close> obtain y zs where "ys = y # zs" by (cases ys) auto
    with q a show ?thesis by (auto simp: parallel_def)
  qed simp
qed

text \<open>Replacing the entry \<open>k\<close> of the object at \<open>p\<close> leaves every other place as it was.\<close>

lemma put_entry_frame:
  assumes "json_at p j = Some (JObject m)" "(p @ [At_key k]) \<parallel> q"
    and "\<And>k'. k' \<noteq> k \<Longrightarrow> map_of m' k' = map_of m k'"
  shows "json_at q (json_put p (JObject m') j) = json_at q j"
  using parallel_append_split [OF assms(2)]
proof
  assume "\<exists>y ys. q = p @ y # ys \<and> y \<noteq> At_key k"
  then obtain y ys where q: "q = p @ y # ys" "y \<noteq> At_key k" by blast
  then have "json_step y (JObject m') = json_step y (JObject m)" using assms(3) by (cases y) auto
  then show ?thesis using q(1) assms(1) by (simp add: json_at_append json_at_put [OF assms(1)])
qed (simp add: json_at_put_frame)

lemma set_op_place:
  assumes "writable_place path" "json_at path j = Some old"
  obtains j' where "set_op (dotted_key path, v) j = (Ret (), j')" "json_at path j' = Some v"
    "\<And>q. path \<parallel> q \<Longrightarrow> json_at q j' = json_at q j"
  using assms
proof (rule writable_placeE)
  fix p k m
  assume path: "path = p @ [At_key k]" and at: "json_at p j = Some (JObject m)" and old: "map_of m k = Some old"
    and dot: "dotted (dotted_key path) \<longleftrightarrow> p \<noteq> []" and tok: "tokens_of (dotted_key path) = map step_text p @ [k]"
    and w: "walk_unset (map step_text p) [] j = Ret (Some (p, JObject m))" and plain: "p = [] \<Longrightarrow> dotted_key path = k"
  let ?j = "json_put p (JObject (om_update k v m)) j"
  obtain t ts where tt: "map step_text p @ [k] = t # ts" by (cases "map step_text p") auto
  then have l: "butlast (t # ts) = map step_text p" "last (t # ts) = k" by (metis butlast_snoc, metis last_snoc)
  have "set_op (dotted_key path, v) j = (Ret (), ?j)"
  proof (cases "p = []")
    case True
    then show ?thesis using at dot plain by (simp add: set_op_def modifyO_def)
  next
    case False
    then show ?thesis using walk_set_unset [OF w] dot old by (simp add: set_op_def modifyO_def tok tt l del: butlast.simps last.simps)
  qed
  moreover have "json_at path ?j = Some v"
    unfolding path json_at_put_below [OF at] by (simp add: om_lookup_update)
  moreover have "json_at q ?j = json_at q j" if "path \<parallel> q" for q
    using put_entry_frame [OF at that [unfolded path]] by (simp add: om_lookup_update)
  ultimately show thesis using that by blast
qed

lemma unset_op_place:
  assumes "writable_place path" "json_at path j = Some old" "wf_json j"
  obtains j' where "unset_op (dotted_key path, v) j = (Ret (), j')" "json_at path j' = None"
    "\<And>q. path \<parallel> q \<Longrightarrow> json_at q j' = json_at q j"
  using assms(1,2)
proof (rule writable_placeE)
  fix p k m
  assume path: "path = p @ [At_key k]" and at: "json_at p j = Some (JObject m)" and old: "map_of m k = Some old"
    and dot: "dotted (dotted_key path) \<longleftrightarrow> p \<noteq> []" and tok: "tokens_of (dotted_key path) = map step_text p @ [k]"
    and w: "walk_unset (map step_text p) [] j = Ret (Some (p, JObject m))" and plain: "p = [] \<Longrightarrow> dotted_key path = k"
  have "om_ok m" using wf_json_at [OF assms(3) at] by simp
  let ?j = "json_put p (JObject (om_delete k m)) j"
  obtain t ts where tt: "map step_text p @ [k] = t # ts" by (cases "map step_text p") auto
  then have l: "butlast (t # ts) = map step_text p" "last (t # ts) = k" by (metis butlast_snoc, metis last_snoc)
  have "unset_op (dotted_key path, v) j = (Ret (), ?j)"
  proof (cases "p = []")
    case True
    then show ?thesis using at dot plain by (simp add: unset_op_def modifyO_def)
  next
    case False
    then show ?thesis using w dot old by (simp add: unset_op_def modifyO_def tok tt l del: butlast.simps last.simps)
  qed
  moreover have "json_at path ?j = None"
    unfolding path json_at_put_below [OF at] using \<open>om_ok m\<close> by (simp add: om_lookup_delete)
  moreover have "json_at q ?j = json_at q j" if "path \<parallel> q" for q
    using put_entry_frame [OF at that [unfolded path]] \<open>om_ok m\<close> by (simp add: om_lookup_delete)
  ultimately show thesis using that by blast
qed

text \<open>Runs of the operators over dot-free keys, as updates of the top-level map.\<close>

lemma set_ops_plain:
  assumes "list_all (\<lambda>p. \<not> dotted (fst p)) ops"
  shows "forM set_op ops (JObject m) = (Ret (), JObject (fold (\<lambda>(k, v). om_update k v) ops m))"
  using assms
  by (induction ops arbitrary: m) (auto simp: comp_simps set_op_def modifyO_def bindM_def split: prod.splits)

lemma unset_ops_plain:
  assumes "list_all (\<lambda>p. \<not> dotted (fst p)) ops"
  shows "forM unset_op ops (JObject m) = (Ret (), JObject (fold (\<lambda>(k, v). om_delete k) ops m))"
  using assms
  by (induction ops arbitrary: m) (auto simp: comp_simps unset_op_def modifyO_def bindM_def split: prod.splits)

lemma fold_om_delete_lookup:
  "om_ok m \<Longrightarrow> map_of (fold (\<lambda>(k, v). om_delete k) ops m) k = (if map_of ops k = None then map_of m k else None)"
proof (induction ops arbitrary: m)
  case (Cons p ops)
  then show ?case by (cases p) (auto simp: om_lookup_delete om_ok_delete simp del: map_of_eq_None_iff)
qed simp

lemma applyUpdate_single: "applyUpdate (JObject [(op, v)]) = update_op (op, v)"
proof
  fix j
  show "applyUpdate (JObject [(op, v)]) j = update_op (op, v) j"
    by (cases "update_op (op, v) j"; cases "fst (update_op (op, v) j)")
      (auto simp: applyUpdate_def bindM_def liftO_def returnM_def)
qed

lemma update_op_run:
  "update_op (''$set'', JObject ops) j = forM set_op ops j"
  "update_op (''$unset'', JObject ops) j = forM unset_op ops j"
  "update_op (''$push'', JObject ops) j = forM push_op ops j"
  "update_op (''$pull'', JObject ops) j = forM pull_op ops j"
  by (simp_all add: update_op_def bindM_def liftO_def)

lemma Document_from_to:
  assumes "wf_json (doc_data d)" "mp_ok (doc_data d)" "length (doc_id d) < 2 ^ 32"
  shows "Document_from_msgpack (Document_to_msgpack d) = Ret (d\<lparr>doc_data := norm (doc_data d)\<rparr>)"
proof -
  let ?j = "JObject [(''_id'', JString (doc_id d)), (''data'', doc_data d)]"
  have "from_msgpack (to_msgpack ?j) = Ret (norm ?j)"
    using assms by (intro from_to_msgpack) (simp_all add: om_ok_def)
  then show ?thesis by (simp add: Document_from_msgpack_def Document_to_msgpack_def)
qed

section \<open>Properties of documents\<close>

text \<open>C28: an update of a document (a well-formed object) by any well-formed JSON value leaves a
  well-formed object behind, also when it stops half way, and it ends in one of four ways: it
  returns, or it throws because an operator's operand is not an object (\<^verbatim>\<open>key()\<close>, error 207), or
  because \<^verbatim>\<open>std::stoi\<close> meets an empty or too large array index. It never runs into undefined
  behaviour and never fails on the types of the values it walks through.\<close>

theorem applyUpdate_safe:
  assumes "wf_json u" "wf_json j" "is_object j"
  shows "wf_json (snd (applyUpdate u j)) \<and> is_object (snd (applyUpdate u j)) \<and>
    fst (applyUpdate u j) \<in> {Ret (), Throw key_error, Throw (std_invalid_argument ''stoi''), Throw (std_out_of_range ''stoi'')}"
proof -
  have "doc_ok (snd (applyUpdate u j)) \<and> admits update_error (fst (applyUpdate u j))"
    using applyUpdate_keeps [OF assms(1)] assms(2,3) unfolding keeps_doc_def doc_ok_def by blast
  then show ?thesis
    by (cases "fst (applyUpdate u j)") (auto simp: doc_ok_def update_error_def stoi_error_def)
qed

theorem applyUpdate_safe_witness:
  "is_object (snd (applyUpdate (JObject [(''$set'', JObject [(''a..b'', JNull)])]) (JObject [(''a'', JArray [JNull])])))
   \<and> fst (applyUpdate (JObject [(''$set'', JObject [(''a..b'', JNull)])]) (JObject [(''a'', JArray [JNull])]))
     = Throw (std_invalid_argument ''stoi'')"
  using applyUpdate_safe [of "JObject [(''$set'', JObject [(''a..b'', JNull)])]" "JObject [(''a'', JArray [JNull])]"]
  by (simp add: om_ok_def applyUpdate_single update_op_run set_op_def modifyO_def dotted_def tokens_of_def
      walk_token_def stoi_digits_def bindM_def)

text \<open>C26: \<^verbatim>\<open>$set\<close> at an existing place. Take any place of the value (a path of object keys and array indices
  that ends with a key, \<open>json_at\<close>) and write it as the steps joined with dots, indices in decimal. Then
  \<^verbatim>\<open>$set\<close> with that key puts the new value at that place and changes nothing at any place that is not
  below or above it.\<close>

theorem applyUpdate_set_place:
  assumes "writable_place path" "json_at path j \<noteq> None"
  shows "\<exists>j'. applyUpdate (JObject [(''$set'', JObject [(dotted_key path, v)])]) j = (Ret (), j') \<and>
    json_at path j' = Some v \<and> (\<forall>q. path \<parallel> q \<longrightarrow> json_at q j' = json_at q j)"
proof -
  obtain old where "json_at path j = Some old" using assms(2) by blast
  then obtain j' where "set_op (dotted_key path, v) j = (Ret (), j')" "json_at path j' = Some v"
    "\<And>q. path \<parallel> q \<Longrightarrow> json_at q j' = json_at q j"
    using set_op_place [OF assms(1)] by blast
  then show ?thesis by (auto simp: applyUpdate_single update_op_run comp_simps)
qed

lemma place_example:
  "writable_place [At_key ''a'', At_index 1, At_key ''b'']"
  "json_at [At_key ''a'', At_index 1, At_key ''b''] (JObject [(''a'', JArray [JNull, JObject [(''b'', JNull)]])]) \<noteq> None"
  "dotted_key [At_key ''a'', At_index 1, At_key ''b''] = ''a.1.b''"
proof -
  show "writable_place [At_key ''a'', At_index 1, At_key ''b'']"
    unfolding writable_place_def
    by (intro conjI exI [of _ "[At_key ''a'', At_index 1]"] exI [of _ "''b''"]) simp_all
  show "dotted_key [At_key ''a'', At_index 1, At_key ''b''] = ''a.1.b''"
    by code_simp
qed simp

theorem applyUpdate_set_place_witness:
  "\<exists>j'. applyUpdate (JObject [(''$set'', JObject [(''a.1.b'', JBoolean True)])])
      (JObject [(''a'', JArray [JNull, JObject [(''b'', JNull)]])]) = (Ret (), j')
    \<and> json_at [At_key ''a'', At_index 1, At_key ''b''] j' = Some (JBoolean True)"
  using applyUpdate_set_place [OF place_example(1,2), of "JBoolean True"] unfolding place_example(3) by blast

text \<open>C27: \<^verbatim>\<open>$unset\<close> with the key of an existing place, written in the same way, removes that entry and
  changes nothing at any place that is not below or above it.\<close>

theorem applyUpdate_unset_place:
  assumes "writable_place path" "json_at path j \<noteq> None" "wf_json j"
  shows "\<exists>j'. applyUpdate (JObject [(''$unset'', JObject [(dotted_key path, v)])]) j = (Ret (), j') \<and>
    json_at path j' = None \<and> (\<forall>q. path \<parallel> q \<longrightarrow> json_at q j' = json_at q j)"
proof -
  obtain old where "json_at path j = Some old" using assms(2) by blast
  then obtain j' where "unset_op (dotted_key path, v) j = (Ret (), j')" "json_at path j' = None"
    "\<And>q. path \<parallel> q \<Longrightarrow> json_at q j' = json_at q j"
    using unset_op_place [OF assms(1) _ assms(3)] by blast
  then show ?thesis by (auto simp: applyUpdate_single update_op_run comp_simps)
qed

theorem applyUpdate_unset_place_witness:
  "\<exists>j'. applyUpdate (JObject [(''$unset'', JObject [(''a.1.b'', JNull)])])
      (JObject [(''a'', JArray [JNull, JObject [(''b'', JNull)]])]) = (Ret (), j')
    \<and> json_at [At_key ''a'', At_index 1, At_key ''b''] j' = None
    \<and> json_at [At_key ''a'', At_index 0] j' = Some JNull"
proof -
  obtain j' where "applyUpdate (JObject [(''$unset'', JObject [(''a.1.b'', JNull)])])
      (JObject [(''a'', JArray [JNull, JObject [(''b'', JNull)]])]) = (Ret (), j')"
    "json_at [At_key ''a'', At_index 1, At_key ''b''] j' = None"
    "\<forall>q. [At_key ''a'', At_index 1, At_key ''b''] \<parallel> q \<longrightarrow>
       json_at q j' = json_at q (JObject [(''a'', JArray [JNull, JObject [(''b'', JNull)]])])"
    using applyUpdate_unset_place [OF place_example(1,2), of JNull] unfolding place_example(3) by (auto simp: om_ok_def)
  moreover have "[At_key ''a'', At_index 1, At_key ''b''] \<parallel> [At_key ''a'', At_index 0]" by (simp add: parallel_def)
  ultimately show ?thesis by fastforce
qed

text \<open>\<^verbatim>\<open>$set\<close> and \<^verbatim>\<open>$unset\<close> with keys without dots: every key of the operand is set to its value (is
  removed), and all other top-level fields keep theirs.\<close>

theorem applyUpdate_plain:
  assumes "wf_json (JObject ops)" "wf_json (JObject m)" "list_all (\<lambda>p. \<not> dotted (fst p)) ops"
  shows "(\<exists>j'. applyUpdate (JObject [(''$set'', JObject ops)]) (JObject m) = (Ret (), j') \<and>
      (\<forall>k. json_find k j' = (case map_of ops k of Some v \<Rightarrow> Some v | None \<Rightarrow> map_of m k))) \<and>
    (\<exists>j'. applyUpdate (JObject [(''$unset'', JObject ops)]) (JObject m) = (Ret (), j') \<and>
      (\<forall>k. json_find k j' = (if map_of ops k = None then map_of m k else None)))"
proof -
  have d: "distinct (map fst ops)" and m: "om_ok m" using assms(1,2) by (simp_all add: om_ok_distinct)
  show ?thesis
    unfolding applyUpdate_single update_op_run set_ops_plain [OF assms(3)] unset_ops_plain [OF assms(3)]
    by (auto simp: fold_om_update_lookup [OF d] fold_om_delete_lookup [OF m] simp del: map_of_eq_None_iff)
qed

theorem applyUpdate_plain_witness:
  "\<exists>j'. applyUpdate (JObject [(''$set'', JObject [(''b'', JBoolean True)])]) (JObject [(''a'', JNull), (''b'', JNull)]) = (Ret (), j')
    \<and> json_find ''a'' j' = Some JNull \<and> json_find ''b'' j' = Some (JBoolean True)"
proof -
  have "\<exists>j'. applyUpdate (JObject [(''$set'', JObject [(''b'', JBoolean True)])]) (JObject [(''a'', JNull), (''b'', JNull)]) = (Ret (), j')
    \<and> (\<forall>k. json_find k j' = (case map_of [(''b'', JBoolean True)] k of Some v \<Rightarrow> Some v | None \<Rightarrow> map_of [(''a'', JNull), (''b'', JNull)] k))"
    using applyUpdate_plain [of "[(''b'', JBoolean True)]" "[(''a'', JNull), (''b'', JNull)]"]
    by (simp add: om_ok_def dotted_def del: map_of.simps)
  then show ?thesis by fastforce
qed

text \<open>C29: \<^verbatim>\<open>$pull\<close> on an array field keeps, in order, the elements that differ from the value pulled
  (compared by JSON equality, which makes 1 and 1.0 the same), and none equal to it is left; \<^verbatim>\<open>$push\<close>
  of that value afterwards appends it at the end. Other fields keep their values.\<close>

theorem applyUpdate_pull_push:
  assumes "wf_json (JObject m)" "map_of m k = Some (JArray xs)" "no_nan v" "no_nan (JArray xs)"
  shows "\<exists>j1 j2. applyUpdate (JObject [(''$pull'', JObject [(k, v)])]) (JObject m) = (Ret (), j1) \<and>
    json_find k j1 = Some (JArray (filter (\<lambda>x. \<not> json_eq x v) xs)) \<and>
    applyUpdate (JObject [(''$push'', JObject [(k, v)])]) j1 = (Ret (), j2) \<and>
    json_find k j2 = Some (JArray (filter (\<lambda>x. \<not> json_eq x v) xs @ [v])) \<and>
    (\<forall>k'. k' \<noteq> k \<longrightarrow> json_find k' j2 = map_of m k')"
proof -
  have ne: "json_ne x v = (\<not> json_eq x v)" if "x \<in> set xs" for x
    using assms(3,4) that by (cases x; cases v) (auto simp: json_ne_def compares_unordered_def list_all_iff)
  let ?ys = "filter (\<lambda>x. \<not> json_eq x v) xs"
  have "applyUpdate (JObject [(''$pull'', JObject [(k, v)])]) (JObject m) = (Ret (), JObject (om_update k (JArray ?ys) m))"
    using assms(2) ne by (simp add: applyUpdate_single update_op_run pull_op_def modifyO_def bindM_def returnM_def cong: filter_cong)
  moreover have "applyUpdate (JObject [(''$push'', JObject [(k, v)])]) (JObject (om_update k (JArray ?ys) m)) =
      (Ret (), JObject (om_update k (JArray (?ys @ [v])) (om_update k (JArray ?ys) m)))"
    by (simp add: applyUpdate_single update_op_run push_op_def modifyO_def bindM_def returnM_def om_lookup_update)
  ultimately show ?thesis by (simp add: om_lookup_update)
qed

theorem applyUpdate_pull_push_witness:
  "\<exists>j1. applyUpdate (JObject [(''$pull'', JObject [(''t'', JUnsigned 1)])]) (JObject [(''t'', JArray [JInteger 1, JNull])]) = (Ret (), j1)
    \<and> json_find ''t'' j1 = Some (JArray [JNull])"
  using applyUpdate_pull_push [of "[(''t'', JArray [JInteger 1, JNull])]" "''t''" "[JInteger 1, JNull]" "JUnsigned 1"]
  by (auto simp: om_ok_def json_eq.simps)

text \<open>A document within the format's size limits that is written with \<^verbatim>\<open>to_msgpack\<close> and read back
  with \<^verbatim>\<open>from_msgpack\<close> has the same identifier and the same data (non-negative signed integers
  become unsigned ones).\<close>

theorem Document_round_trip:
  "wf_json (doc_data d) \<Longrightarrow> mp_ok (doc_data d) \<Longrightarrow> length (doc_id d) < 2 ^ 32 \<Longrightarrow>
   Document_from_msgpack (Document_to_msgpack d) = Ret \<lparr>doc_id = doc_id d, doc_data = norm (doc_data d)\<rparr>"
  by (simp add: Document_from_to)

theorem Document_round_trip_witness:
  "Document_from_msgpack (Document_to_msgpack \<lparr>doc_id = ''d1'', doc_data = JObject [(''age'', JInteger 42)]\<rparr>)
     = Ret \<lparr>doc_id = ''d1'', doc_data = JObject [(''age'', JUnsigned 42)]\<rparr>"
  using Document_round_trip [of "\<lparr>doc_id = ''d1'', doc_data = JObject [(''age'', JInteger 42)]\<rparr>"] by (simp add: om_ok_def)

end
