(* ===== verification/Anu_Cursor.thy ===== *)
theory Anu_Cursor
  imports Anu_Engine Anu_Document
begin

text \<open>
  The class \<^verbatim>\<open>anudb::Cursor\<close> of \<^verbatim>\<open>src/Cursor.cpp\<close>: an iterator over the documents of one collection with
  the flag \<^verbatim>\<open>valid_\<close> that caches the iterator's validity. A cursor on a collection that does not exist
  has no iterator. The iterator is a snapshot, so a cursor does not see later changes.
\<close>

record cursor =
  cur_collection :: string
  cur_iter :: "iter option"
  cur_valid :: bool

definition Cursor_new :: "string \<Rightarrow> (engine, cursor) comp" where
  "Cursor_new c = (\<lambda>e. case map_of (columnFamilies e) c of
       None \<Rightarrow> (Ret \<lparr>cur_collection = c, cur_iter = None, cur_valid = False\<rparr>, e)
     | Some h \<Rightarrow> bindM (dbcall (rocks_iterator h)) (\<lambda>it.
         let it1 = SeekToFirst it in
         returnM \<lparr>cur_collection = c, cur_iter = Some it1, cur_valid = iter_Valid it1\<rparr>) e)"

definition isValid :: "cursor \<Rightarrow> bool" where
  "isValid cur = cur_valid cur"

text \<open>Moving the iterator, with \<^verbatim>\<open>valid_\<close> set again.\<close>

definition cur_move :: "(iter \<Rightarrow> iter) \<Rightarrow> cursor \<Rightarrow> cursor" where
  "cur_move f cur = (case cur_iter cur of
       None \<Rightarrow> cur
     | Some it \<Rightarrow> cur\<lparr>cur_iter := Some (f it), cur_valid := iter_Valid (f it)\<rparr>)"

definition cursor_next :: "cursor \<Rightarrow> cursor" where
  "cursor_next cur = (if \<not> cur_valid cur then cur else cur_move iter_Next cur)"

definition cursor_current :: "cursor \<Rightarrow> Document \<Rightarrow> (status \<times> Document) outcome" where
  "cursor_current cur doc =
     (if \<not> cur_valid cur then Ret (InvalidArgument ''Invalid cursor position'', doc)
      else case cur_iter cur of
          None \<Rightarrow> Undef
        | Some it \<Rightarrow> bindO (Document_from_msgpack (iter_value it)) (\<lambda>d. Ret (StatusOK, d)))"

definition currentId :: "cursor \<Rightarrow> string" where
  "currentId cur = (if \<not> cur_valid cur then [] else case cur_iter cur of None \<Rightarrow> [] | Some it \<Rightarrow> iter_key it)"

definition cursor_seek :: "string \<Rightarrow> cursor \<Rightarrow> cursor" where
  "cursor_seek i cur = cur_move (Seek i) cur"

definition cursor_reset :: "cursor \<Rightarrow> cursor" where
  "cursor_reset cur = cur_move SeekToFirst cur"

text \<open>The entries ahead of a cursor.\<close>

definition cur_ahead :: "cursor \<Rightarrow> kv" where
  "cur_ahead cur = (if cur_valid cur then (case cur_iter cur of None \<Rightarrow> [] | Some it \<Rightarrow> ahead it) else [])"

definition cur_left :: "cursor \<Rightarrow> nat" where
  "cur_left cur = length (cur_ahead cur)"

section \<open>Lemmas\<close>

definition cur_ok :: "cursor \<Rightarrow> bool" where
  "cur_ok cur = (cur_valid cur = (case cur_iter cur of None \<Rightarrow> False | Some it \<Rightarrow> iter_Valid it))"

lemma cur_ok_move: "cur_ok cur \<Longrightarrow> cur_ok (cur_move f cur)"
  by (simp add: cur_ok_def cur_move_def split: option.splits)

lemma cur_ok_next: "cur_ok cur \<Longrightarrow> cur_ok (cursor_next cur)"
  by (simp add: cursor_next_def cur_ok_move)

lemma cur_ok_seek: "cur_ok cur \<Longrightarrow> cur_ok (cursor_seek i cur)" and cur_ok_reset: "cur_ok cur \<Longrightarrow> cur_ok (cursor_reset cur)"
  by (simp_all add: cursor_seek_def cursor_reset_def cur_ok_move)

lemma cur_ahead_iter: "cur_ok cur \<Longrightarrow> cur_iter cur = Some it \<Longrightarrow> cur_ahead cur = ahead it"
  by (auto simp: cur_ok_def cur_ahead_def ahead_invalid)

lemma cur_ahead_move: "cur_iter cur = Some it \<Longrightarrow> cur_ahead (cur_move f cur) = ahead (f it)"
  by (simp add: cur_ahead_def cur_move_def ahead_invalid)

lemma isValid_ahead: "cur_ok cur \<Longrightarrow> isValid cur \<longleftrightarrow> cur_ahead cur \<noteq> []"
  by (auto simp: isValid_def cur_ok_def cur_ahead_def Valid_ahead split: option.splits)

lemma cursor_step:
  assumes "cur_ok cur" "isValid cur"
  shows "cur_ahead cur = (currentId cur, snd (hd (cur_ahead cur))) # cur_ahead (cursor_next cur)"
    and "cursor_current cur doc = bindO (Document_from_msgpack (snd (hd (cur_ahead cur)))) (\<lambda>d. Ret (StatusOK, d))"
proof -
  from assms obtain it where it: "cur_iter cur = Some it" "iter_Valid it" "cur_valid cur"
    by (auto simp: cur_ok_def isValid_def split: option.splits)
  then have a: "cur_ahead cur = iter_entry it # ahead (iter_Next it)" using ahead_Valid by (simp add: cur_ahead_def)
  moreover have "cur_ahead (cursor_next cur) = ahead (iter_Next it)"
    using it by (simp add: cursor_next_def cur_ahead_move)
  ultimately show "cur_ahead cur = (currentId cur, snd (hd (cur_ahead cur))) # cur_ahead (cursor_next cur)"
    using it by (simp add: currentId_def iter_key_def)
  show "cursor_current cur doc = bindO (Document_from_msgpack (snd (hd (cur_ahead cur)))) (\<lambda>d. Ret (StatusOK, d))"
    using it a by (simp add: cursor_current_def iter_value_def)
qed

lemma cur_left_next: "cur_ok cur \<Longrightarrow> isValid cur \<Longrightarrow> cur_left (cursor_next cur) < cur_left cur"
  using cursor_step(1) [of cur] by (metis cur_left_def length_Cons lessI)

lemma Cursor_new_run:
  assumes "engine_inv e"
  shows "\<exists>cur e'. Cursor_new c e = (Ret cur, e') \<and> cur_ok cur \<and> (e' = e \<or> e' = tick e) \<and>
    cur_ahead cur = (case tables e c of None \<Rightarrow> [] | Some m \<Rightarrow> visible e m)"
proof (cases "tables e c")
  case None
  then have "map_of (columnFamilies e) c = None" using assms tables_None by blast
  then show ?thesis using None by (simp add: Cursor_new_def cur_ok_def cur_ahead_def)
next
  case (Some m)
  from tables_SomeE [OF assms Some] obtain h where h: "map_of (columnFamilies e) c = Some h" by blast
  show ?thesis
    using rocks_iterator_run [OF assms Some] h Some
    by (simp add: Cursor_new_def bindM_def Let_def returnM_def cur_ok_def cur_ahead_def visible_def
        ahead_SeekToFirst Valid_ahead)
qed

section \<open>Traversal\<close>

text \<open>The loop \<^verbatim>\<open>while (cursor->isValid()) { ... cursor->next(); }\<close> over a cursor, collecting the identifiers.\<close>

function visit :: "cursor \<Rightarrow> string list" where
  "visit cur = (if cur_ok cur \<and> isValid cur then currentId cur # visit (cursor_next cur) else [])"
  by auto
termination by (relation "measure cur_left") (auto simp: cur_left_next)

declare visit.simps [simp del]

lemma visit_ahead: "cur_ok cur \<Longrightarrow> visit cur = map fst (cur_ahead cur)"
proof (induction cur rule: visit.induct)
  case (1 cur)
  show ?case
  proof (cases "isValid cur")
    case True
    note a = cursor_step(1) [OF 1(2) True]
    have "visit cur = currentId cur # visit (cursor_next cur)" using 1(2) True by (subst visit.simps) simp
    also have "\<dots> = currentId cur # map fst (cur_ahead (cursor_next cur))"
      using 1(1) [OF conjI [OF 1(2) True] cur_ok_next [OF 1(2)]] by simp
    also have "\<dots> = map fst (cur_ahead cur)" using a by (metis fst_conv list.simps(9))
    finally show ?thesis .
  qed (use 1(2) isValid_ahead in \<open>subst visit.simps; simp\<close>)
qed

section \<open>Properties of cursors\<close>

text \<open>C31: a cursor loop terminates and visits every document of the collection exactly once, in the order
  of the identifiers; after \<^verbatim>\<open>seek\<close> it visits those from the given identifier on, after \<^verbatim>\<open>reset\<close> all of
  them again.\<close>

theorem cursor_traversal:
  assumes "engine_inv e" "healthy e" "tables e c = Some m"
  shows "\<exists>cur. Cursor_new c e = (Ret cur, e) \<and> visit cur = map fst m \<and>
    visit (cursor_seek i cur) = filter (\<lambda>k. i \<le> k) (map fst m) \<and> visit (cursor_reset (cursor_seek i cur)) = map fst m"
proof -
  from tables_SomeE [OF assms(1,3)] obtain h where h: "map_of (columnFamilies e) c = Some h" by blast
  let ?it = "SeekToFirst \<lparr>it_items = m, it_pos = None, it_status = ROk\<rparr>"
  let ?cur = "\<lparr>cur_collection = c, cur_iter = Some ?it, cur_valid = iter_Valid ?it\<rparr>"
  have n: "Cursor_new c e = (Ret ?cur, e)"
    using rocks_iterator_run [OF assms(1,3)] h assms(2) by (simp add: Cursor_new_def bindM_def Let_def returnM_def)
  have ok: "cur_ok ?cur" by (simp add: cur_ok_def)
  have items: "it_items ?it = m" by simp
  have "om_ok m" by (rule tables_ok [OF assms(1,3)])
  then have "cur_ahead (cursor_seek i ?cur) = filter (\<lambda>p. i \<le> fst p) m"
    by (simp add: cursor_seek_def cur_ahead_move [of _ ?it] ahead_Seek)
  moreover have "cur_ahead (cursor_reset (cursor_seek i ?cur)) = m"
    by (simp add: cursor_reset_def cursor_seek_def cur_move_def cur_ahead_def ahead_SeekToFirst ahead_invalid)
      (metis ahead_SeekToFirst ahead_invalid iter_fields(3) iter_fields(5) items)
  moreover have "cur_ahead ?cur = m" using cur_ahead_iter [OF ok] by (simp add: ahead_SeekToFirst)
  ultimately show ?thesis
    using n ok by (simp add: visit_ahead cur_ok_seek cur_ok_reset filter_map comp_def)
qed

theorem cursor_traversal_witness:
  "\<exists>e cur. tables e ''users'' = Some [(''a'', ''x''), (''b'', ''y'')] \<and> Cursor_new ''users'' e = (Ret cur, e) \<and>
    visit cur = [''a'', ''b''] \<and> visit (cursor_seek ''aa'' cur) = [''b'']"
proof -
  let ?m = "[(''a'', ''x''), (''b'', ''y'')]"
  let ?e = "set_table ''users'' ?m (engine_with ''users'')"
  have u: "''users'' \<noteq> default_family" by (simp add: default_family_def)
  note w = engine_with [OF u]
  have "engine_inv ?e" by (rule engine_inv_set_table [OF w(1)]) (simp add: om_ok_def less_char_def)
  moreover have "healthy ?e" using w(2) by simp
  moreover have t: "tables ?e ''users'' = Some ?m" using w by (simp add: tables_set_table)
  ultimately have "\<exists>cur. Cursor_new ''users'' ?e = (Ret cur, ?e) \<and> visit cur = map fst ?m \<and>
      visit (cursor_seek ''aa'' cur) = filter (\<lambda>k. ''aa'' \<le> k) (map fst ?m)"
    using cursor_traversal [of ?e "''users''" ?m "''aa''"] by blast
  with t show ?thesis by (auto simp: less_char_def intro!: exI [of _ ?e])
qed

end
