(* ===== verification/Anu_KeyCodec.thy ===== *)
theory Anu_KeyCodec
  imports Anu_Engine Anu_Json
begin

text \<open>
  The encodings of index keys in \<^verbatim>\<open>src/Collection.cpp\<close>: \<^verbatim>\<open>encodeIntKey\<close>, \<^verbatim>\<open>decodeIntKey\<close>,
  \<^verbatim>\<open>encodeDoubleKey\<close>, \<^verbatim>\<open>decodeDoubleKey\<close> and \<^verbatim>\<open>parseValue\<close>. The lemmas show that the encodings can be
  undone and that the bytewise order of the keys is the order of the numbers, which is what the
  range scans of the engine rely on. The sum \<^verbatim>\<open>value + INT64_MAX + 1\<close> of \<^verbatim>\<open>encodeIntKey\<close> overflows
  \<^verbatim>\<open>int64_t\<close> for every non-negative value; the model computes it modulo \<open>2^64\<close>, as compilers do.
\<close>

unbundle bit_operations_syntax

section \<open>Encodings\<close>

definition byte_at :: "nat \<Rightarrow> 64 word \<Rightarrow> char" where
  "byte_at i w = char_of (unat (drop_bit i w AND 0xFF))"

definition int64_max :: "64 word" where
  "int64_max = 0x7FFFFFFFFFFFFFFF"

definition encodeIntKey :: "32 word \<Rightarrow> string" where
  "encodeIntKey v =
     (let shifted = scast v + int64_max + 1
      in [byte_at 56 shifted, byte_at 48 shifted, byte_at 40 shifted, byte_at 32 shifted,
          byte_at 24 shifted, byte_at 16 shifted, byte_at 8 shifted, byte_at 0 shifted])"

definition encodeDoubleKey :: "double \<Rightarrow> string" where
  "encodeDoubleKey v =
     (let bits = (if v AND 0x8000000000000000 \<noteq> 0 then NOT v else v OR 0x8000000000000000)
      in map (\<lambda>i. byte_at (56 - i * 8) bits) [0..<8])"

text \<open>The assertion on the length is the only failure of the decoders.\<close>

definition decodeDoubleKey :: "string \<Rightarrow> double outcome" where
  "decodeDoubleKey encoded =
     (if length encoded \<noteq> 8 then Undef
      else let v = be_word64 encoded
           in Ret (if v AND push_bit 63 1 = 0 then NOT v else v AND NOT (push_bit 63 1)))"

definition decodeIntKey :: "string \<Rightarrow> 64 word outcome" where
  "decodeIntKey encoded = (if length encoded \<noteq> 8 then Undef else Ret (be_word64 encoded XOR push_bit 63 1))"

fun parseValue :: "json \<Rightarrow> string outcome" where
  "parseValue (JString s) = Ret s"
| "parseValue (JInteger w) = bindO (get_int (JInteger w)) (\<lambda>v. Ret (encodeIntKey v))"
| "parseValue (JUnsigned w) = bindO (get_int (JUnsigned w)) (\<lambda>v. Ret (encodeIntKey v))"
| "parseValue (JFloat d) = Ret (encodeDoubleKey d)"
| "parseValue (JBoolean b) = Ret (if b then ''true'' else ''false'')"
| "parseValue JNull = Ret []"
| "parseValue (JObject m) = get_string (JObject m)"
| "parseValue (JArray xs) = get_string (JArray xs)"
| "parseValue (JBinary bs t) = Ret []"

section \<open>Lemmas: bytes of a word\<close>

lemma byte_at_char: "byte_at i w = char_of (unat w div 2 ^ i)"
proof -
  have m: "(0xFF :: 64 word) = mask 8" by (simp add: mask_eq_exp_minus_1)
  have "unat (drop_bit i w AND 0xFF) = unat (take_bit 8 (drop_bit i w))"
    unfolding m by (simp only: take_bit_eq_mask)
  also have "\<dots> = take_bit 8 (drop_bit i (unat w))"
    by (simp only: unsigned_take_bit_eq unat_drop_bit_eq)
  finally show ?thesis by (simp add: byte_at_def take_bit_eq_mod drop_bit_eq_div)
qed

lemma be_bytes_8:
  "be_bytes 8 v = [char_of (v div 2 ^ 56), char_of (v div 2 ^ 48), char_of (v div 2 ^ 40), char_of (v div 2 ^ 32),
     char_of (v div 2 ^ 24), char_of (v div 2 ^ 16), char_of (v div 256), char_of (v div 2 ^ 0)]"
proof -
  have "(8 :: nat) = Suc (Suc (Suc (Suc (Suc (Suc (Suc (Suc 0)))))))" by simp
  then show ?thesis by (simp only: be_bytes.simps) simp
qed

lemma bytes_of_word:
  "[byte_at 56 w, byte_at 48 w, byte_at 40 w, byte_at 32 w, byte_at 24 w, byte_at 16 w, byte_at 8 w, byte_at 0 w]
     = be_bytes 8 (unat w)"
  unfolding byte_at_char be_bytes_8 by simp

lemma bytes_of_word_map: "map (\<lambda>i. byte_at (56 - i * 8) w) [0..<8] = be_bytes 8 (unat w)"
  unfolding bytes_of_word [symmetric] by (simp add: upt_rec [of _ 8])

lemma be_word64_fold:
  "fold (\<lambda>c r. or (push_bit 8 r) (of_nat (of_char c))) s (of_nat a :: 64 word) = of_nat (be_acc a s)"
proof (induction s arbitrary: a)
  case (Cons c s)
  have "push_bit 8 (of_nat a :: 64 word) AND of_nat (of_char c) = 0"
  proof (rule bit_eqI)
    fix n
    have "\<not> bit (of_char c :: nat) n" if "8 \<le> n"
    proof -
      have "(of_char c :: nat) < 2 ^ 8" using nat_of_char_less_256 [of c] by simp
      also have "(2 :: nat) ^ 8 \<le> 2 ^ n" using that by (rule power_increasing) simp
      finally show ?thesis by (simp add: bit_iff_odd)
    qed
    then show "bit (push_bit 8 (of_nat a :: 64 word) AND of_nat (of_char c)) n = bit (0 :: 64 word) n"
      by (auto simp: bit_simps)
  qed
  then have "or (push_bit 8 (of_nat a :: 64 word)) (of_nat (of_char c)) = push_bit 8 (of_nat a) + of_nat (of_char c)"
    by (simp add: disjunctive_add_eq_or)
  also have "\<dots> = of_nat (a * 256 + of_char c)"
    by (simp add: push_bit_eq_mult)
  finally show ?case using Cons.IH [of "a * 256 + of_char c"] by simp
qed simp

lemma be_word64_val: "be_word64 s = of_nat (be_val s)"
  using be_word64_fold [of s 0] by (simp add: be_word64_def be_val_def)

lemma be_word64_bytes: "be_word64 (be_bytes 8 (unat w)) = w"
  using unsigned_less [of w, where ?'a = nat] by (simp add: be_word64_val)

section \<open>Lemmas: integer keys\<close>

lemma encodeIntKey_bytes: "encodeIntKey v = be_bytes 8 (unat (scast v + int64_max + 1 :: 64 word))"
  unfolding encodeIntKey_def Let_def bytes_of_word ..

lemma length_encodeIntKey [simp, codec_simps]: "length (encodeIntKey v) = 8"
  by (simp add: encodeIntKey_bytes)

lemma sint_int_bounds: "- (2 ^ 31) \<le> sint (v :: 32 word)" "sint (v :: 32 word) < 2 ^ 31"
  using sint_greater_eq [of v] sint_less [of v] by simp_all

lemma shifted_value: "uint (scast (v :: 32 word) + int64_max + 1 :: 64 word) = sint v + 2 ^ 63"
proof -
  have m: "int64_max + 1 = word_of_int (2 ^ 63)" by (simp add: int64_max_def)
  have "(scast v + int64_max + 1 :: 64 word) = word_of_int (sint v) + word_of_int (2 ^ 63)"
    unfolding m [symmetric] by (simp only: scast_eq add.assoc)
  also have "\<dots> = word_of_int (sint v + 2 ^ 63)" by (simp only: wi_hom_add)
  finally have e: "(scast v + int64_max + 1 :: 64 word) = word_of_int (sint v + 2 ^ 63)" .
  show ?thesis unfolding e uint_word_of_int using sint_int_bounds [of v] by simp
qed

lemma encodeIntKey_less: "encodeIntKey v < encodeIntKey w \<longleftrightarrow> sint v < sint w"
proof -
  have "unat (scast u + int64_max + 1 :: 64 word) < 256 ^ 8" for u :: "32 word"
    using unsigned_less [of "scast u + int64_max + 1 :: 64 word", where ?'a = nat] by simp
  then have "encodeIntKey v < encodeIntKey w \<longleftrightarrow>
      unat (scast v + int64_max + 1 :: 64 word) < unat (scast w + int64_max + 1 :: 64 word)"
    by (simp only: encodeIntKey_bytes be_bytes_less_iff)
  also have "\<dots> \<longleftrightarrow> uint (scast v + int64_max + 1 :: 64 word) < uint (scast w + int64_max + 1 :: 64 word)"
    by (simp only: unat_eq_nat_uint zless_nat_eq_int_zless) simp
  finally show ?thesis by (simp add: shifted_value)
qed

lemma encodeIntKey_inject: "encodeIntKey v = encodeIntKey w \<longleftrightarrow> v = w"
  using encodeIntKey_less [of v w] encodeIntKey_less [of w v]
  by (metis less_irrefl linorder_neqE signed_word_eqI)

lemma be_word64_encodeInt: "be_word64 (encodeIntKey v) = scast v + int64_max + 1"
  by (simp add: encodeIntKey_bytes be_word64_bytes)

text \<open>The sign bit of a 64-bit word.\<close>

definition msb64 :: "64 word" where
  "msb64 = push_bit 63 1"

lemma bit_msb64: "bit msb64 n \<longleftrightarrow> n = 63"
  unfolding msb64_def bit_push_bit_iff bit_1_iff by auto

lemma msb64_numeral: "(0x8000000000000000 :: 64 word) = msb64" "(push_bit 63 1 :: 64 word) = msb64" "msb64 + msb64 = 0"
  by (simp_all add: msb64_def push_bit_eq_mult)

lemma and_msb64: "w AND msb64 = 0 \<longleftrightarrow> \<not> bit w 63"
proof
  assume "w AND msb64 = 0"
  then have "\<not> bit (w AND msb64) 63" by simp
  then show "\<not> bit w 63" by (simp add: bit_and_iff bit_msb64)
next
  assume "\<not> bit w 63"
  then show "w AND msb64 = 0" by (intro bit_word_eqI) (auto simp: bit_and_iff bit_msb64)
qed

lemma xor_msb64: "w XOR msb64 = w + msb64"
proof (cases "bit w 63")
  case False
  then have "w AND msb64 = 0" by (simp add: and_msb64)
  then show ?thesis by (simp add: disjunctive_add_eq_xor)
next
  case True
  let ?u = "w XOR msb64"
  have "?u AND msb64 = 0" using True by (simp add: and_msb64 bit_xor_iff bit_msb64)
  then have "?u + msb64 = w" by (simp add: disjunctive_add_eq_xor xor.assoc)
  then have "w + msb64 = ?u + (msb64 + msb64)" by (metis add.assoc)
  then show ?thesis by (simp add: msb64_numeral)
qed

lemma decode_encode_int: "decodeIntKey (encodeIntKey v) = Ret (scast v)" "DecodeIntKey (encodeIntKey v) = scast v"
proof -
  have e: "(scast v + int64_max + 1 :: 64 word) = scast v + msb64"
    unfolding msb64_numeral(1) [symmetric] by (simp add: int64_max_def)
  show "decodeIntKey (encodeIntKey v) = Ret (scast v)"
    unfolding decodeIntKey_def be_word64_encodeInt e msb64_numeral(2) xor_msb64 by (simp add: add.assoc msb64_numeral(3))
  show "DecodeIntKey (encodeIntKey v) = scast v"
    unfolding DecodeIntKey_def be_word64_encodeInt e msb64_numeral(1) by simp
qed

section \<open>Lemmas: floating point keys\<close>

definition double_bits :: "double \<Rightarrow> 64 word" where
  "double_bits v = (if bit v 63 then NOT v else v OR msb64)"

lemma encodeDoubleKey_bytes: "encodeDoubleKey v = be_bytes 8 (unat (double_bits v))"
  unfolding encodeDoubleKey_def Let_def bytes_of_word_map double_bits_def msb64_numeral(1) and_msb64 by simp

lemma length_encodeDoubleKey [simp, codec_simps]: "length (encodeDoubleKey v) = 8"
  by (simp add: encodeDoubleKey_bytes)

lemma decode_encode_double: "decodeDoubleKey (encodeDoubleKey v) = Ret v"
proof -
  have "be_word64 (encodeDoubleKey v) = double_bits v" by (simp add: encodeDoubleKey_bytes be_word64_bytes)
  moreover have "bit (double_bits v) 63 \<longleftrightarrow> \<not> bit v 63"
    by (simp add: double_bits_def bit_not_iff bit_or_iff bit_msb64)
  moreover have "(v OR msb64) AND NOT msb64 = v" if "\<not> bit v 63"
    using that by (intro bit_word_eqI) (auto simp: bit_and_iff bit_or_iff bit_not_iff bit_msb64)
  ultimately show ?thesis
    unfolding decodeDoubleKey_def Let_def msb64_numeral(2) and_msb64 by (simp add: double_bits_def)
qed

lemma unat_not64: "unat (NOT v) = 2 ^ 64 - 1 - unat v" for v :: "64 word"
proof -
  have "NOT v = - 1 - v" by (simp add: not_eq_complement)
  also have "unat \<dots> = unat (- 1 :: 64 word) - unat v" by (rule unat_sub) simp
  finally show ?thesis by (simp add: unsigned_minus_1_eq_mask mask_eq_exp_minus_1)
qed

lemma unat_msb64: "unat msb64 = 2 ^ 63"
  unfolding msb64_numeral(1) [symmetric] by simp

lemma fp_neg_bit: "fp_neg v \<longleftrightarrow> bit v 63"
proof -
  have b: "unat v < 2 ^ 64" using unsigned_less [of v, where ?'a = nat] by simp
  have "bit v 63 \<longleftrightarrow> bit (unat v) 63" by (simp add: bit_unsigned_iff)
  also have "\<dots> \<longleftrightarrow> odd (unat v div 2 ^ 63)" by (rule bit_iff_odd)
  also have "\<dots> \<longleftrightarrow> 2 ^ 63 \<le> unat v"
  proof (cases "2 ^ 63 \<le> unat v")
    case True
    then have "unat v div 2 ^ 63 = 1" using b by (intro div_nat_eqI) simp_all
    with True show ?thesis by simp
  qed simp
  finally show ?thesis by (simp add: fp_neg_def)
qed

lemma unat_double_bits:
  "int (unat (double_bits v)) = (if fp_neg v then 2 ^ 63 - 1 - int (fp_mag v) else 2 ^ 63 + int (fp_mag v))"
proof (cases "bit v 63")
  case True
  then have "unat v = 2 ^ 63 + fp_mag v" "fp_mag v < 2 ^ 63"
    using unat_split_sign [of v] by (simp_all add: fp_neg_bit fp_mag_def)
  with True show ?thesis by (simp add: double_bits_def fp_neg_bit unat_not64)
next
  case False
  then have v: "unat v = fp_mag v" "fp_mag v < 2 ^ 63" using unat_split_sign [of v] by (simp_all add: fp_neg_bit fp_mag_def)
  have "v OR msb64 = v + msb64" using False by (simp add: disjunctive_add_eq_or and_msb64)
  moreover have "unat (v + msb64) = unat v + unat msb64"
    by (rule unat_add_lem [THEN iffD1]) (use v in \<open>simp add: unat_msb64\<close>)
  ultimately show ?thesis using False v by (simp add: double_bits_def fp_neg_bit unat_msb64)
qed

lemma encodeDoubleKey_less:
  "encodeDoubleKey a < encodeDoubleKey b \<longleftrightarrow>
     fp_units a < fp_units b \<or> fp_units a = fp_units b \<and> fp_neg a \<and> \<not> fp_neg b"
proof -
  have "unat (double_bits u) < 256 ^ 8" for u
    using unsigned_less [of "double_bits u", where ?'a = nat] by simp
  then have "encodeDoubleKey a < encodeDoubleKey b \<longleftrightarrow> unat (double_bits a) < unat (double_bits b)"
    by (simp only: encodeDoubleKey_bytes be_bytes_less_iff)
  also have "\<dots> \<longleftrightarrow> int (unat (double_bits a)) < int (unat (double_bits b))" by (simp only: of_nat_less_iff)
  also have "\<dots> \<longleftrightarrow> fp_signmag a < fp_signmag b \<or> fp_signmag a = fp_signmag b \<and> fp_neg a \<and> \<not> fp_neg b"
    unfolding unat_double_bits fp_signmag_def by (cases "fp_neg a"; cases "fp_neg b") auto
  finally show ?thesis by (simp only: fp_units_less_iff fp_units_eq_iff)
qed

section \<open>Properties of the key encodings\<close>

text \<open>C16: integer index keys: both decoders (\<^verbatim>\<open>Collection::decodeIntKey\<close> and \<^verbatim>\<open>StorageEngine::DecodeIntKey\<close>)
  return the encoded number, every key has eight bytes, and the bytewise order of the keys is the
  order of the signed numbers, over the whole range of \<^verbatim>\<open>int\<close>.\<close>

theorem int_keys_ordered:
  "decodeIntKey (encodeIntKey v) = Ret (scast v) \<and> DecodeIntKey (encodeIntKey v) = scast v \<and>
   length (encodeIntKey v) = 8 \<and> (encodeIntKey v < encodeIntKey w \<longleftrightarrow> sint v < sint w)"
  by (simp add: decode_encode_int encodeIntKey_less)

text \<open>C22: floating point index keys: \<^verbatim>\<open>decodeDoubleKey\<close> returns the encoded bits, every key has eight
  bytes, and for numbers (no NaN) the bytewise order of the keys is the numeric order; two numbers
  that are equal have the same key, except that negative zero comes directly before zero.\<close>

theorem double_keys_ordered:
  assumes "\<not> fp_nan a" "\<not> fp_nan b"
  shows "decodeDoubleKey (encodeDoubleKey a) = Ret a \<and> length (encodeDoubleKey a) = 8 \<and>
    (encodeDoubleKey a < encodeDoubleKey b \<longleftrightarrow> fp_lt a b \<or> fp_eq a b \<and> fp_neg a \<and> \<not> fp_neg b)"
  using assms by (simp add: decode_encode_double encodeDoubleKey_less fp_lt_def fp_eq_def)

theorem double_keys_ordered_witness:
  "encodeDoubleKey 0xBFF0000000000000 < encodeDoubleKey 0x3FE0000000000000"
proof -
  have "fp_lt 0xBFF0000000000000 0x3FE0000000000000"
    unfolding fp_lt_def fp_units_less_iff by (simp add: fp_nan_def fp_signmag_def fp_neg_def fp_mag_def)
  then show ?thesis
    using double_keys_ordered [of "0xBFF0000000000000" "0x3FE0000000000000"] by (simp add: fp_nan_def fp_mag_def)
qed

end
