(* ===== verification/Anu_Collection.thy ===== *)
theory Anu_Collection
  imports Anu_Cursor Anu_KeyCodec
begin

text \<open>
  The class \<^verbatim>\<open>anudb::Collection\<close> of \<^verbatim>\<open>src/Collection.cpp\<close>: documents, indexes, queries, updates, import.
  A collection is its name; its state is the engine's. Parameters by reference that an operation
  changes are part of its result. \<^verbatim>\<open>time(nullptr)\<close> and \<^verbatim>\<open>rand()\<close> are arguments of the operations that
  reach \<^verbatim>\<open>generateId\<close>. Output on \<^verbatim>\<open>std::cout\<close> and \<^verbatim>\<open>std::cerr\<close> is left out here
  (the message \<^verbatim>\<open>createIndex\<close> ends with is \<open>coll_createIndex\<close> of \<open>Anu_Console\<close>, where there are streams). An \<^verbatim>\<open>unordered_set\<close> is a list
  without repetition whose order carries no meaning.
\<close>

section \<open>Identifiers\<close>

text \<open>The array \<^verbatim>\<open>alphanum\<close> has 62 letters and digits and the terminating zero byte; \<^verbatim>\<open>sizeof\<close> counts it.\<close>

definition alphanum :: string where
  "alphanum = ''0123456789ABCDEFGHIJKLMNOPQRSTUVWXYZabcdefghijklmnopqrstuvwxyz'' @ [char_of (0 :: nat)]"

fun id_digits :: "nat \<Rightarrow> nat \<Rightarrow> string" where
  "id_digits 0 t = []"
| "id_digits (Suc n) t = alphanum ! (t mod length alphanum) # id_digits n (t div length alphanum)"

definition generateId :: "32 word \<Rightarrow> nat list \<Rightarrow> string" where
  "generateId time rands = id_digits 8 (unat time) @ map (\<lambda>r. alphanum ! (r mod (length alphanum - 1))) (take 4 rands)"

section \<open>Index entries\<close>

definition getIndexCfName :: "string \<Rightarrow> string \<Rightarrow> string" where
  "getIndexCfName name index = name @ ''__index__'' @ index"

definition hasIndexField :: "json \<Rightarrow> string \<Rightarrow> bool" where
  "hasIndexField doc field = contains doc field"

definition index_key :: "Document \<Rightarrow> string \<Rightarrow> string outcome" where
  "index_key doc index =
     bindO (const_index index (doc_data doc)) (\<lambda>v. bindO (parseValue v) (\<lambda>k. Ret (k @ ''#'' @ doc_id doc)))"

definition insertIfIndexFieldExists :: "string \<Rightarrow> Document \<Rightarrow> string \<Rightarrow> (engine, status) comp" where
  "insertIfIndexFieldExists name doc index =
     bindM (liftO (index_key doc index)) (\<lambda>key. engine_putIndex (getIndexCfName name index) key (doc_id doc))"

definition deleteIfIndexFieldExists :: "string \<Rightarrow> Document \<Rightarrow> string \<Rightarrow> (engine, status) comp" where
  "deleteIfIndexFieldExists name doc index =
     bindM (liftO (index_key doc index)) (\<lambda>key. engine_remove (getIndexCfName name index) key)"

text \<open>The loop over the indexes of a collection, which returns at the first status that is not OK.\<close>

fun each_index :: "(string \<Rightarrow> (engine, status) comp) \<Rightarrow> string list \<Rightarrow> (engine, status) comp" where
  "each_index f [] = returnM StatusOK"
| "each_index f (index # indexes) = bindM (f index) (\<lambda>s. if ok s then each_index f indexes else returnM s)"

definition insert_entry :: "string \<Rightarrow> Document \<Rightarrow> string \<Rightarrow> (engine, status) comp" where
  "insert_entry name doc index =
     (if hasIndexField (doc_data doc) index then insertIfIndexFieldExists name doc index else returnM StatusOK)"

definition delete_entry :: "string \<Rightarrow> Document \<Rightarrow> string \<Rightarrow> (engine, status) comp" where
  "delete_entry name doc index =
     (if hasIndexField (doc_data doc) index then deleteIfIndexFieldExists name doc index else returnM StatusOK)"

section \<open>Documents\<close>

text \<open>The first part of \<^verbatim>\<open>createDocument\<close>: an identifier, and the field \<^verbatim>\<open>_id\<close> in the data.\<close>

definition prepare :: "32 word \<Rightarrow> nat list \<Rightarrow> Document \<Rightarrow> unit outcome \<times> Document" where
  "prepare time rands doc =
     (let doc1 = (if doc_id doc = [] then setId (generateId time rands) doc else doc)
      in if \<not> hasField doc1 ''_id'' then setValue ''_id'' (JString (doc_id doc1)) doc1 else (Ret (), doc1))"

definition createDocument :: "string \<Rightarrow> 32 word \<Rightarrow> nat list \<Rightarrow> Document \<Rightarrow> (engine, status \<times> Document) comp" where
  "createDocument name time rands doc =
     (case prepare time rands doc of (r, doc2) \<Rightarrow>
        bindM (liftO r) (\<lambda>_. bindM getM (\<lambda>e.
        bindM (each_index (insert_entry name doc2) (getIndexNames e name)) (\<lambda>s.
          if \<not> ok s then returnM (s, doc2)
          else bindM (engine_put name (doc_id doc2) (Document_to_msgpack doc2)) (\<lambda>s'. returnM (s', doc2))))))"

definition deserialize_error :: "exn \<Rightarrow> status" where
  "deserialize_error ex = Corruption (''Failed to deserialize document: '' @ what ex)"

definition readDocument :: "string \<Rightarrow> string \<Rightarrow> Document \<Rightarrow> (engine, status \<times> Document) comp" where
  "readDocument name i doc =
     bindM (engine_get name i) (\<lambda>(s, serialized).
       if \<not> ok s then returnM (s, doc)
       else catchM (bindM (liftO (Document_from_msgpack serialized)) (\<lambda>d. returnM (StatusOK, d)))
              (\<lambda>ex. returnM (deserialize_error ex, doc)))"

definition empty_document :: Document where
  "empty_document = \<lparr>doc_id = [], doc_data = JNull\<rparr>"

definition deleteDocument :: "string \<Rightarrow> string \<Rightarrow> (engine, status) comp" where
  "deleteDocument name i =
     bindM (readDocument name i empty_document) (\<lambda>(s, doc).
       if \<not> ok s then returnM s
       else bindM getM (\<lambda>e.
         bindM (each_index (delete_entry name doc) (getIndexNames e name)) (\<lambda>s'.
           if \<not> ok s' then returnM s' else engine_remove name i)))"

text \<open>The update works on the document read, or with \<^verbatim>\<open>upsert\<close> on a new one with only its identifier.\<close>

definition new_document :: "string \<Rightarrow> Document" where
  "new_document i = \<lparr>doc_id = i, doc_data = JObject [(''_id'', JString i)]\<rparr>"

definition update_and_store :: "string \<Rightarrow> 32 word \<Rightarrow> nat list \<Rightarrow> json \<Rightarrow> Document \<Rightarrow> (engine, status) comp" where
  "update_and_store name time rands update doc =
     (case applyUpdate update (doc_data doc) of (r, data) \<Rightarrow>
        bindM (liftO r) (\<lambda>_. bindM (createDocument name time rands (doc\<lparr>doc_data := data\<rparr>)) (\<lambda>(s, _). returnM s)))"

definition updateDocument :: "string \<Rightarrow> 32 word \<Rightarrow> nat list \<Rightarrow> string \<Rightarrow> json \<Rightarrow> bool \<Rightarrow> (engine, status) comp" where
  "updateDocument name time rands i update upsert =
     bindM (readDocument name i empty_document) (\<lambda>(s, doc).
       if isNotFound s then
         (if upsert then update_and_store name time rands update (new_document i) else returnM s)
       else if \<not> ok s then returnM s
       else update_and_store name time rands update doc)"

section \<open>Indexes\<close>

definition getIndex :: "string \<Rightarrow> string list \<Rightarrow> (engine, status \<times> string list) comp" where
  "getIndex name indexList = bindM getM (\<lambda>e. returnM (StatusOK, indexList @ getIndexNames e name))"

text \<open>The loop of \<^verbatim>\<open>createIndex\<close> over the documents; \<open>Some s\<close> is an early return. The guard \<open>cur_ok\<close> says
  that \<^verbatim>\<open>valid_\<close> is the validity of the iterator, which every cursor operation keeps.\<close>

function index_documents :: "string \<Rightarrow> string \<Rightarrow> cursor \<Rightarrow> (engine, status option) comp" where
  "index_documents name index cur =
     (if cur_ok cur \<and> isValid cur then
        bindM (liftO (cursor_current cur empty_document)) (\<lambda>(s, doc).
          if ok s then
            bindM (insert_entry name doc index) (\<lambda>s'.
              if ok s' then index_documents name index (cursor_next cur) else returnM (Some s'))
          else returnM (Some s))
      else returnM None)"
  by pat_completeness auto
termination by (relation "measure (\<lambda>(name, index, cur). cur_left cur)") (auto simp: cur_left_next)

declare index_documents.simps [simp del]

definition createIndex :: "string \<Rightarrow> string \<Rightarrow> (engine, status) comp" where
  "createIndex name index =
     bindM (engine_createCollection (getIndexCfName name index)) (\<lambda>_.
       bindM (catchM (bindM (Cursor_new name) (index_documents name index)) (\<lambda>ex. returnM (Some (deserialize_error ex)))) (\<lambda>r.
         returnM (case r of Some s \<Rightarrow> s | None \<Rightarrow> StatusOK)))"

definition deleteIndex :: "string \<Rightarrow> string \<Rightarrow> (engine, status) comp" where
  "deleteIndex name index = engine_dropCollection (getIndexCfName name index)"

section \<open>Reading all documents\<close>

text \<open>The loop appends to the caller's vector; what it has read before an exception stays there.\<close>

function read_documents :: "64 word \<Rightarrow> 64 word \<Rightarrow> cursor \<Rightarrow> (Document list, unit) comp" where
  "read_documents limit cnt cur =
     (if cur_ok cur \<and> isValid cur \<and> cnt < limit then
        bindM (liftO (cursor_current cur empty_document)) (\<lambda>(s, doc).
        bindM (\<lambda>docs. (Ret (), if ok s then docs @ [doc] else docs)) (\<lambda>_.
          read_documents limit (cnt + 1) (cursor_next cur)))
      else returnM ())"
  by pat_completeness auto
termination by (relation "measure (\<lambda>(limit, cnt, cur). cur_left cur)") (auto simp: cur_left_next)

declare read_documents.simps [simp del]

definition readAllDocuments :: "string \<Rightarrow> 64 word \<Rightarrow> Document list \<Rightarrow> (engine, status \<times> Document list) comp" where
  "readAllDocuments name limit docs =
     bindM (Cursor_new name) (\<lambda>cur.
       case read_documents limit 0 cur docs of
         (Ret _, docs') \<Rightarrow> returnM (StatusOK, docs')
       | (Throw ex, docs') \<Rightarrow> returnM (deserialize_error ex, docs')
       | (Undef, docs') \<Rightarrow> undefM)"

section \<open>Queries\<close>

definition findDocumentsUsingEq :: "string \<Rightarrow> json \<Rightarrow> string list \<Rightarrow> string list \<Rightarrow> (engine, status \<times> string list) comp" where
  "findDocumentsUsingEq name eqOps indexes docIds =
     bindM (liftO (first_entry eqOps)) (\<lambda>(key, v).
     bindM (liftO (parseValue v)) (\<lambda>val.
       if key \<notin> set indexes
       then returnM (InvalidArgument (''Specified key is not indexed, please create index for '' @ key), docIds)
       else fetchDocIdsForEqual (getIndexCfName name key) (val @ ''#'') docIds))"

definition findDocumentsUsingLt :: "string \<Rightarrow> json \<Rightarrow> string list \<Rightarrow> string list \<Rightarrow> (engine, status \<times> string list) comp" where
  "findDocumentsUsingLt name ltOps indexes docIds =
     bindM (liftO (first_entry ltOps)) (\<lambda>(key, v).
     bindM (liftO (parseValue v)) (\<lambda>val.
       if val = [] then returnM (InvalidArgument ''Unable to parse value of operator..'', docIds)
       else fetchDocIdsForLesser (getIndexCfName name key) (val @ ''#'') docIds))"

definition findDocumentsUsingGt :: "string \<Rightarrow> json \<Rightarrow> string list \<Rightarrow> string list \<Rightarrow> (engine, status \<times> string list) comp" where
  "findDocumentsUsingGt name gtOps indexes docIds =
     bindM (liftO (first_entry gtOps)) (\<lambda>(key, v).
     bindM (liftO (parseValue v)) (\<lambda>val.
       if val = [] then returnM (InvalidArgument ''Unable to parse value of operator..'', docIds)
       else fetchDocIdsForGreater (getIndexCfName name key) (val @ ''#'') docIds))"

text \<open>One operator inside \<^verbatim>\<open>$and\<close> or \<^verbatim>\<open>$or\<close>: \<^verbatim>\<open>element.key().data()\<close> ends at the first zero byte.\<close>

definition c_string :: "string \<Rightarrow> string" where
  "c_string s = takeWhile (\<lambda>c. c \<noteq> char_of (0 :: nat)) s"

definition find_element :: "string \<Rightarrow> string list \<Rightarrow> string \<times> json \<Rightarrow> (engine, status \<times> string list) comp" where
  "find_element name indexes element =
     (let ops = c_string (fst element) in
      if ops = ''$eq'' then findDocumentsUsingEq name (snd element) indexes []
      else if ops = ''$gt'' then findDocumentsUsingGt name (snd element) indexes []
      else if ops = ''$lt'' then findDocumentsUsingLt name (snd element) indexes []
      else returnM (InvalidArgument ''Not supported operator is passed'', []))"

text \<open>How the identifiers of one operator are combined with those found so far.\<close>

definition and_combine :: "string list \<Rightarrow> string list \<Rightarrow> string list" where
  "and_combine andDocIds docIds =
     (if andDocIds = [] then remdups docIds else filter (\<lambda>d. d \<in> set docIds) andDocIds)"

definition or_combine :: "string list \<Rightarrow> string list \<Rightarrow> string list" where
  "or_combine orDocIds docIds = fold (\<lambda>d ids. if d \<in> set ids then ids else ids @ [d]) docIds orDocIds"

fun find_elements :: "(string list \<Rightarrow> string list \<Rightarrow> string list) \<Rightarrow> string \<Rightarrow> string list \<Rightarrow> (string \<times> json) list
    \<Rightarrow> string list \<Rightarrow> (engine, string list option) comp" where
  "find_elements combine name indexes [] found = returnM (Some found)"
| "find_elements combine name indexes (element # elems) found =
     bindM (find_element name indexes element) (\<lambda>(s, docIds).
       if \<not> ok s then returnM None
       else find_elements combine name indexes elems (combine found docIds))"

fun find_items :: "(string list \<Rightarrow> string list \<Rightarrow> string list) \<Rightarrow> string \<Rightarrow> string list \<Rightarrow> json list
    \<Rightarrow> string list \<Rightarrow> (engine, string list option) comp" where
  "find_items combine name indexes [] found = returnM (Some found)"
| "find_items combine name indexes (item # items) found =
     bindM (liftO (entries_of item)) (\<lambda>elems.
     bindM (find_elements combine name indexes elems found) (\<lambda>r. case r of
         None \<Rightarrow> returnM None
       | Some found' \<Rightarrow> find_items combine name indexes items found'))"

text \<open>One operator of the filter; \<open>None\<close> stands for \<^verbatim>\<open>return {}\<close>.\<close>

definition find_op :: "string \<Rightarrow> string list \<Rightarrow> string \<times> json \<Rightarrow> string list \<Rightarrow> (engine, string list option) comp" where
  "find_op name indexes = (\<lambda>(op, ops) docIds.
     if op = ''$eq'' then bindM (findDocumentsUsingEq name ops indexes docIds) (\<lambda>(s, ids). returnM (Some ids))
     else if op = ''$gt'' then bindM (findDocumentsUsingGt name ops indexes docIds) (\<lambda>(s, ids). returnM (Some ids))
     else if op = ''$lt'' then bindM (findDocumentsUsingLt name ops indexes docIds) (\<lambda>(s, ids). returnM (Some ids))
     else if op = ''$and'' then
       bindM (find_items and_combine name indexes (elements ops) []) (\<lambda>r. returnM (map_option (\<lambda>ids. docIds @ ids) r))
     else if op = ''$or'' then
       bindM (find_items or_combine name indexes (elements ops) []) (\<lambda>r. returnM (map_option (\<lambda>ids. docIds @ ids) r))
     else if op = ''$orderBy'' then
       bindM (liftO (first_entry ops)) (\<lambda>(key, v).
       bindM (liftO (get_string v)) (\<lambda>val.
       bindM (fetchDocIdsByOrder (getIndexCfName name key) val docIds) (\<lambda>(s, ids). returnM (Some ids))))
     else returnM (Some docIds))"

fun find_ops :: "string \<Rightarrow> string list \<Rightarrow> (string \<times> json) list \<Rightarrow> string list \<Rightarrow> (engine, string list) comp" where
  "find_ops name indexes [] docIds = returnM docIds"
| "find_ops name indexes (op # ops) docIds =
     bindM (find_op name indexes op docIds) (\<lambda>r. case r of
         None \<Rightarrow> returnM []
       | Some docIds' \<Rightarrow> find_ops name indexes ops docIds')"

definition findDocument :: "string \<Rightarrow> json \<Rightarrow> (engine, string list) comp" where
  "findDocument name filterOption =
     bindM getM (\<lambda>e. bindM (liftO (entries_of filterOption)) (\<lambda>ops. find_ops name (getIndexNames e name) ops []))"

section \<open>Import\<close>

text \<open>The file is what \<^verbatim>\<open>file >> jsonData\<close> finds: \<open>None\<close> when it cannot be opened, otherwise the outcome of
  parsing it. Every document that is created draws its own \<^verbatim>\<open>time\<close> and \<^verbatim>\<open>rand\<close> values.\<close>

fun import_items :: "string \<Rightarrow> (nat \<Rightarrow> 32 word \<times> nat list) \<Rightarrow> json list \<Rightarrow> nat \<Rightarrow> nat \<Rightarrow> (engine, nat \<times> nat) comp" where
  "import_items name env [] successCount failureCount = returnM (successCount, failureCount)"
| "import_items name env (item # items) successCount failureCount =
     (if \<not> is_object item then import_items name env items successCount (Suc failureCount)
      else
        bindM (liftO (if contains item ''_id'' then bindO (const_index ''_id'' item) get_string
                      else Ret (''doc_'' @ to_string (successCount + failureCount)))) (\<lambda>docId.
        bindM (createDocument name (fst (env (successCount + failureCount))) (snd (env (successCount + failureCount)))
                 \<lparr>doc_id = docId, doc_data = item\<rparr>) (\<lambda>(s, doc).
          if ok s then import_items name env items (Suc successCount) failureCount
          else import_items name env items successCount (Suc failureCount))))"

definition importFromJsonFile :: "string \<Rightarrow> (nat \<Rightarrow> 32 word \<times> nat list) \<Rightarrow> string \<Rightarrow> json outcome option \<Rightarrow> (engine, status) comp" where
  "importFromJsonFile name env filePath file =
     (case file of
        None \<Rightarrow> returnM (IOError (''Could not open file: '' @ filePath))
      | Some parsed \<Rightarrow>
          catchM
            (bindM (liftO parsed) (\<lambda>jsonData.
               if \<not> is_array jsonData
               then returnM (NotSupported (''File must contain a JSON array of objects: '' @ filePath))
               else bindM (import_items name env (elements jsonData) 0 0) (\<lambda>_. returnM StatusOK)))
            (\<lambda>ex. returnM (InternalError (''JSON import error: '' @ what ex))))"

section \<open>Destruction\<close>

fun drop_indexes :: "string \<Rightarrow> string list \<Rightarrow> (engine, unit) comp" where
  "drop_indexes name [] = returnM ()"
| "drop_indexes name (index # indexes) = bindM (deleteIndex name index) (\<lambda>_. drop_indexes name indexes)"

definition Collection_destroy :: "string \<Rightarrow> (engine, unit) comp" where
  "Collection_destroy name = bindM getM (\<lambda>e. drop_indexes name (getIndexNames e name))"

section \<open>Lemmas: operations on a working store\<close>

definition live :: "engine \<Rightarrow> bool" where
  "live e = (engine_inv e \<and> healthy e)"

lemma liveD: "live e \<Longrightarrow> engine_inv e" "live e \<Longrightarrow> healthy e"
  by (simp_all add: live_def)

text \<open>A call that returns OK and leaves the tables \<open>T\<close>, with the same collections and indexes.\<close>

definition effects :: "(engine, status) comp \<Rightarrow> engine \<Rightarrow> (string \<Rightarrow> kv option) \<Rightarrow> bool" where
  "effects m e T = (\<exists>e'. m e = (Ret StatusOK, e') \<and> live e' \<and> columnFamilies e' = columnFamilies e \<and> tables e' = T)"

lemma effects_put:
  assumes "live e" "tables e c = Some m"
  shows "effects (engine_put c k v) e ((tables e)(c \<mapsto> om_update k v m))"
proof -
  have "engine_put c k v e = (Ret StatusOK, set_table c (om_update k v m) e)"
    using assms by (simp add: engine_put_run liveD)
  moreover have "om_ok (om_update k v m)" using assms tables_ok by (auto simp: live_def om_ok_update)
  ultimately show ?thesis
    using assms by (simp add: effects_def live_def engine_inv_set_table tables_set_table)
qed

lemma effects_remove:
  assumes "live e" "tables e c = Some m"
  shows "effects (engine_remove c k) e ((tables e)(c \<mapsto> om_delete k m))"
proof -
  have "engine_remove c k e = (Ret StatusOK, set_table c (om_delete k m) e)"
    using assms by (simp add: engine_remove_run liveD)
  moreover have "om_ok (om_delete k m)" using assms tables_ok by (auto simp: live_def om_ok_delete)
  ultimately show ?thesis
    using assms by (simp add: effects_def live_def engine_inv_set_table tables_set_table)
qed

lemma effects_return: "live e \<Longrightarrow> effects (returnM StatusOK) e (tables e)"
  by (simp add: effects_def returnM_def)

lemma getIndexCfName_family: "getIndexCfName name index = index_family name index"
  by (simp add: getIndexCfName_def index_family_def index_delimiter_def)

lemma index_family_inject [simp]: "index_family c ix = index_family c ix' \<longleftrightarrow> ix = ix'"
  by (simp add: index_family_def)

lemma index_family_neq [simp]: "index_family c ix \<noteq> c" "c \<noteq> index_family c ix"
  by (simp_all add: index_family_def index_delimiter_def)

text \<open>The values that can be indexed, and the key they get.\<close>

definition scalar :: "json \<Rightarrow> bool" where
  "scalar v = (\<not> is_object v \<and> \<not> is_array v)"

definition key_of :: "json \<Rightarrow> string" where
  "key_of v = (case parseValue v of Ret k \<Rightarrow> k | _ \<Rightarrow> [])"

lemma parseValue_scalar: "scalar v \<Longrightarrow> parseValue v = Ret (key_of v)"
  by (cases v) (simp_all add: scalar_def key_of_def)

lemma parseValue_compound: "\<not> scalar v \<Longrightarrow> \<exists>e. parseValue v = Throw e"
  by (cases v) (simp_all add: scalar_def)

definition entry_of :: "Document \<Rightarrow> json \<Rightarrow> string" where
  "entry_of d v = key_of v @ ''#'' @ doc_id d"

lemma index_key_run:
  "json_find ix (doc_data d) = Some v \<Longrightarrow> scalar v \<Longrightarrow> index_key d ix = Ret (entry_of d v)"
  by (cases "doc_data d") (simp_all add: index_key_def parseValue_scalar entry_of_def)

text \<open>A document whose indexed fields can be indexed.\<close>

definition indexable :: "string list \<Rightarrow> json \<Rightarrow> bool" where
  "indexable ixs j = (\<forall>ix \<in> set ixs. \<forall>v. json_find ix j = Some v \<longrightarrow> scalar v)"

definition with_entry :: "Document \<Rightarrow> string \<Rightarrow> kv \<Rightarrow> kv" where
  "with_entry d ix m = (case json_find ix (doc_data d) of None \<Rightarrow> m | Some v \<Rightarrow> om_update (entry_of d v) (doc_id d) m)"

definition without_entry :: "Document \<Rightarrow> string \<Rightarrow> kv \<Rightarrow> kv" where
  "without_entry d ix m = (case json_find ix (doc_data d) of None \<Rightarrow> m | Some v \<Rightarrow> om_delete (entry_of d v) m)"

lemma insert_entry_effects:
  assumes "live e" "tables e (index_family name ix) = Some m" "indexable [ix] (doc_data d)"
  shows "effects (insert_entry name d ix) e ((tables e)(index_family name ix \<mapsto> with_entry d ix m))"
proof (cases "json_find ix (doc_data d)")
  case None
  have "(tables e)(index_family name ix \<mapsto> m) = tables e" using assms(2) by auto
  then show ?thesis
    using None effects_return [OF assms(1)]
    by (simp add: insert_entry_def hasIndexField_def contains_find with_entry_def)
next
  case (Some v)
  then have "index_key d ix = Ret (entry_of d v)" using assms(3) by (simp add: index_key_run indexable_def)
  then have "insert_entry name d ix = engine_put (index_family name ix) (entry_of d v) (doc_id d)"
    using Some by (simp add: fun_eq_iff insert_entry_def hasIndexField_def contains_find insertIfIndexFieldExists_def
        bindM_def liftO_def engine_putIndex_run getIndexCfName_family)
  then show ?thesis using effects_put [OF assms(1,2)] Some by (simp add: with_entry_def)
qed

lemma delete_entry_effects:
  assumes "live e" "tables e (index_family name ix) = Some m" "indexable [ix] (doc_data d)"
  shows "effects (delete_entry name d ix) e ((tables e)(index_family name ix \<mapsto> without_entry d ix m))"
proof (cases "json_find ix (doc_data d)")
  case None
  have "(tables e)(index_family name ix \<mapsto> m) = tables e" using assms(2) by auto
  then show ?thesis
    using None effects_return [OF assms(1)]
    by (simp add: delete_entry_def hasIndexField_def contains_find without_entry_def)
next
  case (Some v)
  then have "index_key d ix = Ret (entry_of d v)" using assms(3) by (simp add: index_key_run indexable_def)
  then have "delete_entry name d ix = engine_remove (index_family name ix) (entry_of d v)"
    using Some by (simp add: fun_eq_iff delete_entry_def hasIndexField_def contains_find deleteIfIndexFieldExists_def
        bindM_def liftO_def getIndexCfName_family)
  then show ?thesis using effects_remove [OF assms(1,2)] Some by (simp add: without_entry_def)
qed

text \<open>The tables after the entries of several indexes were changed by \<open>g\<close>.\<close>

fun change_all :: "string \<Rightarrow> (string \<Rightarrow> kv \<Rightarrow> kv) \<Rightarrow> string list \<Rightarrow> (string \<Rightarrow> kv option) \<Rightarrow> string \<Rightarrow> kv option" where
  "change_all name g [] T = T"
| "change_all name g (ix # ixs) T = change_all name g ixs (T(index_family name ix := map_option (g ix) (T (index_family name ix))))"

lemma change_all_other: "(\<And>ix. ix \<in> set ixs \<Longrightarrow> c \<noteq> index_family name ix) \<Longrightarrow> change_all name g ixs T c = T c"
  by (induction ixs arbitrary: T) auto

lemma change_all_index: "distinct ixs \<Longrightarrow> ix \<in> set ixs \<Longrightarrow> change_all name g ixs T (index_family name ix) = map_option (g ix) (T (index_family name ix))"
proof (induction ixs arbitrary: T)
  case (Cons i ixs)
  show ?case
  proof (cases "ix = i")
    case True
    then have "index_family name i \<noteq> index_family name i'" if "i' \<in> set ixs" for i'
      using that Cons.prems by auto
    from change_all_other [of ixs "index_family name i" name, OF this] True show ?thesis by simp
  qed (use Cons in auto)
qed simp

lemma change_all_name [simp]: "change_all name g ixs T name = T name"
  by (rule change_all_other) simp

lemma each_index_effects:
  assumes "live e" "\<And>ix. ix \<in> set ixs \<Longrightarrow> tables e (index_family name ix) \<noteq> None"
    and "\<And>ix e m. ix \<in> set ixs \<Longrightarrow> live e \<Longrightarrow> tables e (index_family name ix) = Some m \<Longrightarrow>
      effects (f ix) e ((tables e)(index_family name ix \<mapsto> g ix m))"
  shows "effects (each_index f ixs) e (change_all name g ixs (tables e))"
  using assms
proof (induction ixs arbitrary: e)
  case (Cons ix ixs)
  obtain m where m: "tables e (index_family name ix) = Some m" using Cons.prems(2) [of ix] by auto
  obtain e1 where e1: "f ix e = (Ret StatusOK, e1)" "live e1" "columnFamilies e1 = columnFamilies e"
    "tables e1 = (tables e)(index_family name ix \<mapsto> g ix m)"
    using Cons.prems(3) [of ix e m] Cons.prems(1) m unfolding effects_def by (metis list.set_intros(1))
  have "effects (each_index f ixs) e1 (change_all name g ixs (tables e1))"
    using Cons.prems(2,3) e1 by (intro Cons.IH) auto
  then show ?case using e1 m by (auto simp: effects_def bindM_def)
qed (simp add: effects_return)

section \<open>Lemmas: preparing and storing a document\<close>

lemma prepare_run:
  assumes "is_object (doc_data d)"
  shows "\<exists>d'. prepare time rands d = (Ret (), d') \<and> doc_id d' = (if doc_id d = [] then generateId time rands else doc_id d) \<and>
    is_object (doc_data d') \<and> (\<forall>k. json_find k (doc_data d') =
      (if k = ''_id'' \<and> json_find ''_id'' (doc_data d) = None then Some (JString (doc_id d')) else json_find k (doc_data d)))"
proof -
  from assms obtain m where m: "doc_data d = JObject m" by (auto simp: is_object_iff)
  show ?thesis
    using m by (cases "map_of m ''_id''") (simp_all add: prepare_def setId_def hasField_def setValue_def Let_def om_lookup_update)
qed

text \<open>What \<^verbatim>\<open>createDocument\<close> stores, for a document that has an identifier.\<close>

definition prepared :: "32 word \<Rightarrow> nat list \<Rightarrow> Document \<Rightarrow> Document" where
  "prepared time rands d = snd (prepare time rands d)"

lemma om_ok_single: "om_ok [(k, v)]"
  by (simp add: om_ok_def)

lemma prepared_wf: "wf_json (doc_data d) \<Longrightarrow> wf_json (doc_data (prepared time rands d))"
  by (cases "doc_data d")
    (auto simp: prepared_def prepare_def setId_def hasField_def setValue_def Let_def om_ok_update list_all_om_update om_ok_single)

text \<open>Data that are not an object: \<^verbatim>\<open>null\<close> becomes one, and for every other value the field \<^verbatim>\<open>_id\<close> cannot be
  written.\<close>

lemma prepare_cases:
  obtains "prepare time rands d = (Ret (), prepared time rands d)" "is_object (doc_data (prepared time rands d))"
      "json_find ''_id'' (doc_data (prepared time rands d)) \<noteq> None"
  | "fst (prepare time rands d) = Throw (index_error (doc_data d))"
  using that
  by (cases "doc_data d") (auto simp: prepared_def prepare_def setId_def hasField_def setValue_def Let_def om_lookup_update)

lemma doc_id_prepared: "doc_id d \<noteq> [] \<Longrightarrow> doc_id (prepared time rands d) = doc_id d"
  by (auto simp: prepared_def prepare_def setId_def setValue_def Let_def split: outcome.split)

lemma prepared_pair: "fst (prepare time rands d) = Ret () \<Longrightarrow> prepare time rands d = (Ret (), prepared time rands d)"
  by (simp add: prepared_def prod_eq_iff)

lemma prepared_facts:
  assumes "is_object (doc_data d)"
  shows "prepare time rands d = (Ret (), prepared time rands d)" "is_object (doc_data (prepared time rands d))"
    "doc_id d \<noteq> [] \<Longrightarrow> doc_id (prepared time rands d) = doc_id d"
    "json_find k (doc_data (prepared time rands d)) =
      (if k = ''_id'' \<and> json_find ''_id'' (doc_data d) = None then Some (JString (doc_id (prepared time rands d))) else json_find k (doc_data d))"
  using prepare_run [OF assms, of time rands] by (auto simp: prepared_def)

text \<open>The tables after \<^verbatim>\<open>createDocument\<close> and after \<^verbatim>\<open>deleteDocument\<close>.\<close>

definition stored_tables :: "string \<Rightarrow> string list \<Rightarrow> Document \<Rightarrow> (string \<Rightarrow> kv option) \<Rightarrow> string \<Rightarrow> kv option" where
  "stored_tables name ixs d T =
     (change_all name (with_entry d) ixs T)(name := map_option (om_update (doc_id d) (Document_to_msgpack d)) (T name))"

definition erased_tables :: "string \<Rightarrow> string list \<Rightarrow> Document \<Rightarrow> (string \<Rightarrow> kv option) \<Rightarrow> string \<Rightarrow> kv option" where
  "erased_tables name ixs d T =
     (change_all name (without_entry d) ixs T)(name := map_option (om_delete (doc_id d)) (T name))"

lemma createDocument_prepared:
  assumes "live e" "tables e name = Some m" "fst (prepare time rands d) = Ret ()"
    and "indexable (getIndexNames e name) (doc_data (prepared time rands d))"
  shows "\<exists>e'. createDocument name time rands d e = (Ret (StatusOK, prepared time rands d), e') \<and> live e' \<and>
    columnFamilies e' = columnFamilies e \<and>
    tables e' = stored_tables name (getIndexNames e name) (prepared time rands d) (tables e)"
proof -
  let ?d = "prepared time rands d" and ?ixs = "getIndexNames e name"
  have "effects (each_index (insert_entry name ?d) ?ixs) e (change_all name (with_entry ?d) ?ixs (tables e))"
    using assms(1,4) getIndexNames_table [OF liveD(1) [OF assms(1)]]
    by (intro each_index_effects insert_entry_effects) (auto simp: indexable_def)
  then obtain e1 where e1: "each_index (insert_entry name ?d) ?ixs e = (Ret StatusOK, e1)" "live e1"
    "columnFamilies e1 = columnFamilies e" "tables e1 = change_all name (with_entry ?d) ?ixs (tables e)"
    by (auto simp: effects_def)
  have "tables e1 name = Some m" using e1(4) assms(2) by simp
  from effects_put [OF e1(2) this, of "doc_id ?d" "Document_to_msgpack ?d"]
  obtain e2 where e2: "engine_put name (doc_id ?d) (Document_to_msgpack ?d) e1 = (Ret StatusOK, e2)" "live e2"
    "columnFamilies e2 = columnFamilies e1" "tables e2 = (tables e1)(name \<mapsto> om_update (doc_id ?d) (Document_to_msgpack ?d) m)"
    by (auto simp: effects_def)
  show ?thesis
    using prepared_pair [OF assms(3)] e1 e2 assms(2)
    by (simp add: createDocument_def bindM_def liftO_def getM_def returnM_def stored_tables_def)
qed

lemma createDocument_effects:
  assumes "live e" "tables e name = Some m" "is_object (doc_data d)"
    and "indexable (getIndexNames e name) (doc_data (prepared time rands d))"
  shows "\<exists>e'. createDocument name time rands d e = (Ret (StatusOK, prepared time rands d), e') \<and> live e' \<and>
    columnFamilies e' = columnFamilies e \<and>
    tables e' = stored_tables name (getIndexNames e name) (prepared time rands d) (tables e)"
  by (rule createDocument_prepared [OF assms(1,2) _ assms(4)]) (use prepared_facts(1) [OF assms(3), of time rands] in simp)

lemma createDocument_throws: "fst (prepare time rands d) = Throw ex \<Longrightarrow> createDocument name time rands d e = (Throw ex, e)"
  by (cases "prepare time rands d") (simp add: createDocument_def bindM_def liftO_def)

lemma Document_from_msgpack_defined: "Document_from_msgpack bs \<noteq> Undef"
proof -
  have "index_read k j \<noteq> Undef" "get_string j \<noteq> Undef" for k j by (cases j; simp)+
  then show ?thesis using from_msgpack_defined [of bs]
    by (auto simp: Document_from_msgpack_def bindO_Undef)
qed

text \<open>What a reader sees of a collection: the documents that can be deserialized.\<close>

definition stored :: "(string \<Rightarrow> kv option) \<Rightarrow> string \<Rightarrow> string \<Rightarrow> Document outcome option" where
  "stored T name i = (case T name of None \<Rightarrow> None | Some m \<Rightarrow> map_option Document_from_msgpack (map_of m i))"

lemma readDocument_run:
  assumes "live e"
  shows "readDocument name i d0 e =
    (Ret (case stored (tables e) name i of
        None \<Rightarrow> (if tables e name = None then collection_not_found name else NotFound (''Key not found: '' @ i), d0)
      | Some (Ret d) \<Rightarrow> (StatusOK, d)
      | Some (Throw ex) \<Rightarrow> (deserialize_error ex, d0)
      | Some Undef \<Rightarrow> (StatusOK, d0)), e)"
  using liveD [OF assms] Document_from_msgpack_defined
  by (auto simp: readDocument_def stored_def bindM_def engine_get_run catchM_def liftO_def returnM_def
      split: option.splits outcome.splits)

lemma readDocument_frame:
  assumes "live e" "live e'" "stored (tables e') name i = stored (tables e) name i"
    "tables e name \<noteq> None" "tables e' name \<noteq> None"
  shows "readDocument name i x e' = (fst (readDocument name i x e), e')"
  unfolding readDocument_run [OF assms(1)] readDocument_run [OF assms(2)] assms(3)
  by (simp only: assms(4,5) if_False fst_conv simp_thms)

section \<open>Lemmas: documents stored, deleted and updated\<close>

lemma stored_stored:
  assumes "T name \<noteq> None"
  shows "stored (stored_tables name ixs d T) name i =
    (if i = doc_id d then Some (Document_from_msgpack (Document_to_msgpack d)) else stored T name i)"
  using assms by (auto simp: stored_tables_def stored_def om_lookup_update)

lemma stored_erased:
  assumes "T name = Some m" "om_ok m"
  shows "stored (erased_tables name ixs d T) name i = (if i = doc_id d then None else stored T name i)"
  using assms by (auto simp: erased_tables_def stored_def om_lookup_delete)

lemma tables_other:
  assumes "c \<noteq> name" "\<And>ix. c \<noteq> index_family name ix"
  shows "stored_tables name ixs d T c = T c" "erased_tables name ixs d T c = T c"
  using assms by (simp_all add: stored_tables_def erased_tables_def change_all_other)

lemma deleteDocument_effects:
  assumes "live e" "stored (tables e) name i = Some (Ret d)" "doc_id d = i" "indexable (getIndexNames e name) (doc_data d)"
  shows "\<exists>e'. deleteDocument name i e = (Ret StatusOK, e') \<and> live e' \<and> columnFamilies e' = columnFamilies e \<and>
    tables e' = erased_tables name (getIndexNames e name) d (tables e)"
proof -
  let ?ixs = "getIndexNames e name"
  obtain m where m: "tables e name = Some m" using assms(2) by (auto simp: stored_def split: option.splits)
  have "effects (each_index (delete_entry name d) ?ixs) e (change_all name (without_entry d) ?ixs (tables e))"
    using assms(1,4) getIndexNames_table [OF liveD(1) [OF assms(1)]]
    by (intro each_index_effects delete_entry_effects) (auto simp: indexable_def)
  then obtain e1 where e1: "each_index (delete_entry name d) ?ixs e = (Ret StatusOK, e1)" "live e1"
    "columnFamilies e1 = columnFamilies e" "tables e1 = change_all name (without_entry d) ?ixs (tables e)"
    by (auto simp: effects_def)
  have "tables e1 name = Some m" using e1(4) m by simp
  from effects_remove [OF e1(2) this, of i]
  obtain e2 where e2: "engine_remove name i e1 = (Ret StatusOK, e2)" "live e2"
    "columnFamilies e2 = columnFamilies e1" "tables e2 = (tables e1)(name \<mapsto> om_delete i m)"
    by (auto simp: effects_def)
  have "readDocument name i empty_document e = (Ret (StatusOK, d), e)"
    using readDocument_run [OF assms(1)] assms(2) by simp
  then show ?thesis
    using e1 e2 m assms(3) by (simp add: deleteDocument_def bindM_def getM_def returnM_def erased_tables_def)
qed

lemma deleteDocument_missing:
  assumes "live e" "stored (tables e) name i = None"
  shows "\<exists>s. deleteDocument name i e = (Ret s, e) \<and> isNotFound s"
  using readDocument_run [OF assms(1)] assms(2) by (simp add: deleteDocument_def bindM_def returnM_def isNotFound_not_ok)

lemma wf_norm: "wf_json j \<Longrightarrow> wf_json (norm j)"
proof (induction j)
  case (JArray xs)
  then show ?case by (auto simp: list_all_iff)
next
  case (JObject m)
  have "om_ok (map (\<lambda>p. (fst p, norm (snd p))) m)" using JObject.prems by (simp add: om_ok_def comp_def)
  moreover have "wf_json (norm (snd p))" if "p \<in> set m" for p
    using JObject that by (cases p) (auto simp: list_all_iff)
  ultimately show ?case by (simp add: list_all_iff)
qed simp_all

text \<open>A document the format can carry.\<close>

definition storable :: "Document \<Rightarrow> bool" where
  "storable d = (wf_json (doc_data d) \<and> mp_ok (doc_data d) \<and> length (doc_id d) < 2 ^ 32)"

definition normal :: "Document \<Rightarrow> Document" where
  "normal d = d\<lparr>doc_data := norm (doc_data d)\<rparr>"

lemma storable_round: "storable d \<Longrightarrow> Document_from_msgpack (Document_to_msgpack d) = Ret (normal d)"
  by (simp add: storable_def normal_def Document_from_to)

lemma update_and_store_run:
  assumes "live e" "tables e name \<noteq> None" "applyUpdate u (doc_data d) = (Ret (), j)"
    and "is_object j" "indexable (getIndexNames e name) (doc_data (prepared time rands (d\<lparr>doc_data := j\<rparr>)))"
  shows "\<exists>e'. update_and_store name time rands u d e = (Ret StatusOK, e') \<and> live e' \<and> columnFamilies e' = columnFamilies e \<and>
    tables e' = stored_tables name (getIndexNames e name) (prepared time rands (d\<lparr>doc_data := j\<rparr>)) (tables e)"
proof -
  obtain m where m: "tables e name = Some m" using assms(2) by blast
  from createDocument_effects [OF assms(1) m, of "d\<lparr>doc_data := j\<rparr>" time rands] assms(4,5)
  obtain e' where "createDocument name time rands (d\<lparr>doc_data := j\<rparr>) e = (Ret (StatusOK, prepared time rands (d\<lparr>doc_data := j\<rparr>)), e')"
    "live e'" "columnFamilies e' = columnFamilies e"
    "tables e' = stored_tables name (getIndexNames e name) (prepared time rands (d\<lparr>doc_data := j\<rparr>)) (tables e)"
    by auto
  then show ?thesis
    using assms(3) by (simp add: update_and_store_def bindM_def liftO_def returnM_def)
qed

lemma updateDocument_read:
  "live e \<Longrightarrow> stored (tables e) name i = Some (Ret d) \<Longrightarrow>
     updateDocument name time rands i u upsert e = update_and_store name time rands u d e"
  using readDocument_run [of e name i empty_document] by (simp add: updateDocument_def bindM_def)


lemma updateDocument_stored:
  assumes "live e" "stored (tables e) name i = Some (Ret d)" "applyUpdate u (doc_data d) = (Ret (), j)"
    and "doc_id d = i" "is_object j" "indexable (getIndexNames e name) (doc_data (prepared time rands (d\<lparr>doc_data := j\<rparr>)))"
  shows "\<exists>e'. updateDocument name time rands i u upsert e = (Ret StatusOK, e') \<and> live e' \<and> columnFamilies e' = columnFamilies e \<and>
    tables e' = stored_tables name (getIndexNames e name) (prepared time rands (d\<lparr>doc_data := j\<rparr>)) (tables e)"
  unfolding updateDocument_read [OF assms(1,2)]
  by (rule update_and_store_run [OF assms(1) _ assms(3,5,6)]) (use assms(2) in \<open>auto simp: stored_def split: option.splits\<close>)

text \<open>A small database to evaluate the operations on.\<close>

lemma live_users: "live (engine_with ''users'')" "tables (engine_with ''users'') ''users'' = Some []"
  "getIndexNames (engine_with ''users'') ''users'' = []"
proof -
  have u: "''users'' \<noteq> default_family" by (simp add: default_family_def)
  show "live (engine_with ''users'')" "tables (engine_with ''users'') ''users'' = Some []"
    using engine_with [OF u] by (simp_all add: live_def)
  have "plain_name ''users''" by (simp add: plain_name_def index_delimiter_def)
  then have "ix \<notin> set (getIndexNames (engine_with ''users'') ''users'')" for ix
    using getIndexNames_iff [OF engine_with(1) [OF u]] engine_with(3) [OF u]
    by (simp add: index_family_def index_delimiter_def default_family_def)
  then show "getIndexNames (engine_with ''users'') ''users'' = []" by (cases "getIndexNames (engine_with ''users'') ''users''") auto
qed

definition sample :: Document where
  "sample = \<lparr>doc_id = ''d1'', doc_data = JObject [(''age'', JInteger 5)]\<rparr>"

lemma sample_prepared: "prepared time rands sample = \<lparr>doc_id = ''d1'', doc_data = JObject [(''_id'', JString ''d1''), (''age'', JInteger 5)]\<rparr>"
  by (simp add: prepared_def prepare_def sample_def hasField_def setValue_def less_char_def)

lemma sample_storable: "storable (prepared time rands sample)"
  by (simp add: sample_prepared storable_def om_ok_def less_char_def)

text \<open>The same database with the sample stored.\<close>

definition users_db :: engine where
  "users_db = snd (createDocument ''users'' 0 [] sample (engine_with ''users''))"

lemma users_db:
  "createDocument ''users'' 0 [] sample (engine_with ''users'') = (Ret (StatusOK, prepared 0 [] sample), users_db)"
  "live users_db" "getIndexNames users_db ''users'' = []"
  "stored (tables users_db) ''users'' ''d1'' = Some (Ret (normal (prepared 0 [] sample)))"
  "stored (tables users_db) ''users'' ''d2'' = None" "tables users_db ''users'' \<noteq> None"
proof -
  obtain e' where e': "createDocument ''users'' 0 [] sample (engine_with ''users'') = (Ret (StatusOK, prepared 0 [] sample), e')"
    "live e'" "columnFamilies e' = columnFamilies (engine_with ''users'')"
    "tables e' = stored_tables ''users'' [] (prepared 0 [] sample) (tables (engine_with ''users''))"
    using createDocument_effects [OF live_users(1,2), of sample 0 "[]"]
    by (auto simp: live_users(3) indexable_def sample_def)
  then have u: "users_db = e'" by (simp add: users_db_def)
  show "createDocument ''users'' 0 [] sample (engine_with ''users'') = (Ret (StatusOK, prepared 0 [] sample), users_db)"
    "live users_db" using e' u by simp_all
  show "getIndexNames users_db ''users'' = []" using e'(3) u live_users(3) getIndexNames_cong by metis
  show "stored (tables users_db) ''users'' ''d1'' = Some (Ret (normal (prepared 0 [] sample)))"
    using e'(4) u stored_stored [of "tables (engine_with ''users'')" "''users''"] live_users(2) storable_round [OF sample_storable]
    by (simp add: sample_prepared)
  show "stored (tables users_db) ''users'' ''d2'' = None" "tables users_db ''users'' \<noteq> None"
    using e'(4) u stored_stored [of "tables (engine_with ''users'')" "''users''"] live_users(2)
    by (simp_all add: sample_prepared) (simp_all add: stored_def stored_tables_def)
qed

section \<open>Properties of collections\<close>

text \<open>C12: create then read. On a working store, \<^verbatim>\<open>createDocument\<close> of an object the format can carry, with
  indexable values in the indexed fields, succeeds and stores it: \<^verbatim>\<open>readDocument\<close> of its identifier
  returns it with the same fields and an \<^verbatim>\<open>_id\<close> (its identifier, unless the data brought its own);
  every other document of the collection and every other collection is as it was.\<close>

theorem createDocument_readDocument:
  assumes "live e" "tables e name \<noteq> None" "is_object (doc_data d)"
    and "storable (prepared time rands d)" "indexable (getIndexNames e name) (doc_data (prepared time rands d))"
  shows "\<exists>d' e'. createDocument name time rands d e = (Ret (StatusOK, d'), e') \<and>
    doc_id d' = (if doc_id d = [] then generateId time rands else doc_id d) \<and>
    readDocument name (doc_id d') x e' = (Ret (StatusOK, \<lparr>doc_id = doc_id d', doc_data = norm (doc_data d')\<rparr>), e') \<and>
    (\<forall>k. json_find k (doc_data d') = (if k = ''_id'' \<and> json_find ''_id'' (doc_data d) = None
        then Some (JString (doc_id d')) else json_find k (doc_data d))) \<and>
    (\<forall>i. i \<noteq> doc_id d' \<longrightarrow> readDocument name i x e' = (fst (readDocument name i x e), e')) \<and>
    (\<forall>c. c \<noteq> name \<and> (\<forall>ix. c \<noteq> name @ ''__index__'' @ ix) \<longrightarrow> tables e' c = tables e c)"
proof -
  let ?d = "prepared time rands d"
  obtain m where m: "tables e name = Some m" using assms(2) by blast
  obtain e' where e': "createDocument name time rands d e = (Ret (StatusOK, ?d), e')" "live e'"
    "tables e' = stored_tables name (getIndexNames e name) ?d (tables e)"
    using createDocument_effects [OF assms(1) m assms(3,5)] by blast
  have id: "doc_id ?d = (if doc_id d = [] then generateId time rands else doc_id d)"
    using prepare_run [OF assms(3), of time rands] by (auto simp: prepared_def)
  have st: "stored (tables e') name i = (if i = doc_id ?d then Some (Ret (normal ?d)) else stored (tables e) name i)" for i
    using stored_stored [of "tables e" name] assms(2) e'(3) storable_round [OF assms(4)] by simp
  have t: "tables e' name \<noteq> None" using e'(3) m by (simp add: stored_tables_def)
  have "readDocument name (doc_id ?d) x e' = (Ret (StatusOK, \<lparr>doc_id = doc_id ?d, doc_data = norm (doc_data ?d)\<rparr>), e')"
    using readDocument_run [OF e'(2)] st by (simp add: normal_def)
  moreover have "readDocument name i x e' = (fst (readDocument name i x e), e')" if "i \<noteq> doc_id ?d" for i
    using readDocument_frame [OF assms(1) e'(2)] st that t m by simp
  moreover have "tables e' c = tables e c" if "c \<noteq> name" "\<And>ix. c \<noteq> name @ ''__index__'' @ ix" for c
    using e'(3) tables_other(1) [of c name] that by (simp add: index_family_def index_delimiter_def)
  ultimately show ?thesis using e'(1) id prepared_facts(4) [OF assms(3), of _ time rands] by blast
qed

theorem createDocument_readDocument_witness:
  "\<exists>d' e'. createDocument ''users'' 0 [] sample (engine_with ''users'') = (Ret (StatusOK, d'), e') \<and>
    readDocument ''users'' ''d1'' empty_document e' =
      (Ret (StatusOK, \<lparr>doc_id = ''d1'', doc_data = JObject [(''_id'', JString ''d1''), (''age'', JUnsigned 5)]\<rparr>), e')"
proof -
  obtain d' e' where r: "createDocument ''users'' 0 [] sample (engine_with ''users'') = (Ret (StatusOK, d'), e')"
    "readDocument ''users'' (doc_id d') empty_document e' = (Ret (StatusOK, \<lparr>doc_id = doc_id d', doc_data = norm (doc_data d')\<rparr>), e')"
    using createDocument_readDocument [OF live_users(1), of "''users''" sample 0 "[]" empty_document] sample_storable live_users(2,3)
    by (auto simp: indexable_def sample_def)
  then have "d' = prepared 0 [] sample" using users_db(1) by simp
  with r show ?thesis by (auto simp: sample_prepared)
qed

text \<open>C13: \<^verbatim>\<open>deleteDocument\<close>. On a working store a stored document is removed: afterwards reading it reports
  not found, and every other document of the collection and every other collection is as it was. A
  document that is not there is reported as not found and nothing changes.\<close>

theorem deleteDocument_removes:
  assumes "live e"
  shows "(stored (tables e) name i = None \<longrightarrow> (\<exists>s. deleteDocument name i e = (Ret s, e) \<and> isNotFound s)) \<and>
    (\<forall>d. stored (tables e) name i = Some (Ret d) \<and> doc_id d = i \<and> indexable (getIndexNames e name) (doc_data d) \<longrightarrow>
      (\<exists>e'. deleteDocument name i e = (Ret StatusOK, e') \<and>
        (\<exists>s. readDocument name i x e' = (Ret (s, x), e') \<and> isNotFound s) \<and>
        (\<forall>i'. i' \<noteq> i \<longrightarrow> readDocument name i' x e' = (fst (readDocument name i' x e), e')) \<and>
        (\<forall>c. c \<noteq> name \<and> (\<forall>ix. c \<noteq> name @ ''__index__'' @ ix) \<longrightarrow> tables e' c = tables e c)))"
proof (intro conjI impI allI)
  assume "stored (tables e) name i = None"
  then show "\<exists>s. deleteDocument name i e = (Ret s, e) \<and> isNotFound s" by (rule deleteDocument_missing [OF assms])
next
  fix d assume d: "stored (tables e) name i = Some (Ret d) \<and> doc_id d = i \<and> indexable (getIndexNames e name) (doc_data d)"
  then obtain e' where e': "deleteDocument name i e = (Ret StatusOK, e')" "live e'"
    "tables e' = erased_tables name (getIndexNames e name) d (tables e)"
    using deleteDocument_effects [OF assms] by blast
  obtain m where m: "tables e name = Some m" "om_ok m"
    using d tables_ok [OF liveD(1) [OF assms]] by (auto simp: stored_def split: option.splits)
  have st: "stored (tables e') name i' = (if i' = i then None else stored (tables e) name i')" for i'
    using stored_erased [of "tables e" name m, OF m] e'(3) d by simp
  have t: "tables e' name \<noteq> None" using e'(3) m by (simp add: erased_tables_def)
  have "\<exists>s. readDocument name i x e' = (Ret (s, x), e') \<and> isNotFound s"
    using readDocument_run [OF e'(2)] st t by simp
  moreover have "readDocument name i' x e' = (fst (readDocument name i' x e), e')" if "i' \<noteq> i" for i'
    using readDocument_frame [OF assms e'(2)] st that t m by simp
  moreover have "tables e' c = tables e c" if "c \<noteq> name" "\<And>ix. c \<noteq> name @ ''__index__'' @ ix" for c
    using e'(3) tables_other(2) [of c name] that by (simp add: index_family_def index_delimiter_def)
  ultimately show "\<exists>e'. deleteDocument name i e = (Ret StatusOK, e') \<and>
        (\<exists>s. readDocument name i x e' = (Ret (s, x), e') \<and> isNotFound s) \<and>
        (\<forall>i'. i' \<noteq> i \<longrightarrow> readDocument name i' x e' = (fst (readDocument name i' x e), e')) \<and>
        (\<forall>c. c \<noteq> name \<and> (\<forall>ix. c \<noteq> name @ ''__index__'' @ ix) \<longrightarrow> tables e' c = tables e c)"
    using e'(1) by blast
qed

theorem deleteDocument_removes_witness:
  "\<exists>e'. deleteDocument ''users'' ''d1'' users_db = (Ret StatusOK, e') \<and>
    (\<exists>s. readDocument ''users'' ''d1'' empty_document e' = (Ret (s, empty_document), e') \<and> isNotFound s)"
  using deleteDocument_removes [OF users_db(2), of "''users''" "''d1''" empty_document] users_db(3,4)
  by (auto simp: indexable_def normal_def sample_prepared)



end
