(* ===== verification/Anu_Index.thy ===== *)
theory Anu_Index
  imports Anu_Collection
begin

text \<open>
  The indexes of a collection: what an index table should hold (\<open>exact\<close>), that \<^verbatim>\<open>createIndex\<close> builds it and
  \<^verbatim>\<open>createDocument\<close> and \<^verbatim>\<open>deleteDocument\<close> keep it as long as no document is overwritten by one with other keys, and
  what such an overwriting leaves in the tables. An entry is the key of the value, \<^verbatim>\<open>#\<close>, and the
  identifier; identifiers without \<^verbatim>\<open>#\<close> can be told from it.
\<close>

section \<open>Entries\<close>

definition hash_free :: "string \<Rightarrow> bool" where
  "hash_free i = (CHR ''#'' \<notin> set i)"

lemma entry_inject:
  assumes "hash_free i" "hash_free i'" "k @ ''#'' @ i = k' @ ''#'' @ i'"
  shows "k = k' \<and> i = i'"
proof -
  have "takeWhile (\<lambda>c. c \<noteq> CHR ''#'') (rev (k @ ''#'' @ i)) = rev i" if "hash_free i" for k i
    using that by (subst rev_append, subst rev_append) (auto simp: hash_free_def takeWhile_append)
  then have "rev i = rev i'" using assms by metis
  with assms(3) show ?thesis by simp
qed

lemma entry_of_inject:
  "hash_free (doc_id d) \<Longrightarrow> hash_free (doc_id d') \<Longrightarrow> entry_of d v = entry_of d' v' \<Longrightarrow> key_of v = key_of v' \<and> doc_id d = doc_id d'"
  unfolding entry_of_def by (rule entry_inject)

lemma key_of_norm: "scalar v \<Longrightarrow> key_of (norm v) = key_of v"
  by (cases v) (simp_all add: key_of_def scalar_def)

lemma map_of_with_entry:
  "map_of (with_entry d ix m) k =
     (if \<exists>v. json_find ix (doc_data d) = Some v \<and> k = entry_of d v then Some (doc_id d) else map_of m k)"
  by (auto simp: with_entry_def om_lookup_update split: option.splits)

lemma map_of_without_entry:
  "om_ok m \<Longrightarrow> map_of (without_entry d ix m) k =
     (if \<exists>v. json_find ix (doc_data d) = Some v \<and> k = entry_of d v then None else map_of m k)"
  by (auto simp: without_entry_def om_lookup_delete split: option.splits)

section \<open>Exact indexes\<close>

text \<open>Every stored document can be deserialized and carries the identifier it is stored under, which has
  no \<^verbatim>\<open>#\<close>.\<close>

definition docs_ok :: "(string \<Rightarrow> kv option) \<Rightarrow> string \<Rightarrow> bool" where
  "docs_ok T name = (\<forall>i r. stored T name i = Some r \<longrightarrow> hash_free i \<and> (\<exists>d. r = Ret d \<and> doc_id d = i))"

text \<open>The index table holds exactly one entry for every document that has the field.\<close>

definition has_value :: "(string \<Rightarrow> kv option) \<Rightarrow> string \<Rightarrow> string \<Rightarrow> string \<Rightarrow> json \<Rightarrow> bool" where
  "has_value T name ix i v = (\<exists>d. stored T name i = Some (Ret d) \<and> json_find ix (doc_data d) = Some v)"

definition exact :: "(string \<Rightarrow> kv option) \<Rightarrow> string \<Rightarrow> string \<Rightarrow> bool" where
  "exact T name ix = (\<exists>m. T (index_family name ix) = Some m \<and>
     (\<forall>k i. map_of m k = Some i \<longleftrightarrow> (\<exists>v. has_value T name ix i v \<and> k = key_of v @ ''#'' @ i)))"

lemma has_value_entry: "has_value T name ix i v \<Longrightarrow> docs_ok T name \<Longrightarrow> hash_free i"
  by (auto simp: has_value_def docs_ok_def)

text \<open>The value a document has under an index, if another document overwrites it, still has its key.\<close>

definition keeps_keys :: "(string \<Rightarrow> kv option) \<Rightarrow> string \<Rightarrow> string list \<Rightarrow> Document \<Rightarrow> bool" where
  "keeps_keys T name ixs d = (\<forall>ix \<in> set ixs. \<forall>v. has_value T name ix (doc_id d) v \<longrightarrow>
     (\<exists>w. json_find ix (doc_data d) = Some w \<and> key_of w = key_of v))"

lemma keeps_keys_new: "stored T name (doc_id d) = None \<Longrightarrow> keeps_keys T name ixs d"
  by (simp add: keeps_keys_def has_value_def)

text \<open>Storing a document leaves in every index the entry of the document it overwrites.\<close>

lemma entries_create:
  assumes "exact T name ix" "docs_ok T name" "T name \<noteq> None" "distinct ixs" "ix \<in> set ixs"
    and "hash_free (doc_id d)" "storable d" "indexable ixs (doc_data d)"
  shows "\<exists>m. stored_tables name ixs d T (index_family name ix) = Some m \<and>
    (\<forall>k i. map_of m k = Some i \<longleftrightarrow> (\<exists>v. has_value (stored_tables name ixs d T) name ix i v \<and> k = key_of v @ ''#'' @ i) \<or>
      i = doc_id d \<and> (\<exists>v. has_value T name ix i v \<and> k = key_of v @ ''#'' @ i))"
proof -
  let ?T = "stored_tables name ixs d T" and ?f = "index_family name ix"
  obtain m where m: "T ?f = Some m" and ex: "\<And>k i. map_of m k = Some i \<longleftrightarrow> (\<exists>v. has_value T name ix i v \<and> k = key_of v @ ''#'' @ i)"
    using assms(1) by (auto simp: exact_def)
  have t: "?T ?f = Some (with_entry d ix m)"
    using change_all_index [OF assms(4,5)] m by (simp add: stored_tables_def)
  have st: "stored ?T name i = (if i = doc_id d then Some (Ret (normal d)) else stored T name i)" for i
    using stored_stored [of T name, OF assms(3)] storable_round [OF assms(7)] by simp
  have sc: "json_find ix (doc_data d) = Some v \<Longrightarrow> scalar v" for v using assms(5,8) by (auto simp: indexable_def)
  have hv: "has_value ?T name ix i v' \<longleftrightarrow> (if i = doc_id d then \<exists>v. json_find ix (doc_data d) = Some v \<and> v' = norm v
      else has_value T name ix i v')" for i v'
    by (auto simp: has_value_def st normal_def json_find_norm)
  have "map_of (with_entry d ix m) k = Some i \<longleftrightarrow> (\<exists>v. has_value ?T name ix i v \<and> k = key_of v @ ''#'' @ i) \<or>
      i = doc_id d \<and> (\<exists>v. has_value T name ix i v \<and> k = key_of v @ ''#'' @ i)" for k i
  proof (cases "i = doc_id d")
    case True
    have "(\<exists>v. has_value ?T name ix i v \<and> k = key_of v @ ''#'' @ i) \<longleftrightarrow> (\<exists>v. json_find ix (doc_data d) = Some v \<and> k = entry_of d v)"
      using True sc by (auto simp: hv key_of_norm entry_of_def)
    then show ?thesis using True ex [of k i] by (auto simp: map_of_with_entry)
  next
    case False
    have "\<nexists>v. json_find ix (doc_data d) = Some v \<and> k = entry_of d v" if "map_of m k = Some i"
      using that ex [of k i] has_value_entry [OF _ assms(2), of ix i] entry_inject [OF _ assms(6)] False
      by (auto simp: entry_of_def)
    then show ?thesis using False ex by (auto simp: map_of_with_entry hv)
  qed
  then show ?thesis using t by blast
qed

lemma exact_create:
  assumes "exact T name ix" "docs_ok T name" "T name \<noteq> None" "distinct ixs" "ix \<in> set ixs"
    and "keeps_keys T name ixs d" "hash_free (doc_id d)" "storable d" "indexable ixs (doc_data d)"
  shows "exact (stored_tables name ixs d T) name ix"
proof -
  let ?T = "stored_tables name ixs d T"
  have st: "stored ?T name (doc_id d) = Some (Ret (normal d))"
    using stored_stored [of T name, OF assms(3)] storable_round [OF assms(8)] by simp
  have "\<exists>w. has_value ?T name ix (doc_id d) w \<and> key_of w = key_of v" if old: "has_value T name ix (doc_id d) v" for v
  proof -
    obtain w where w: "json_find ix (doc_data d) = Some w" "key_of w = key_of v"
      using assms(5,6) old by (auto simp: keeps_keys_def)
    then have "scalar w" using assms(5,9) by (auto simp: indexable_def)
    then show ?thesis using w by (auto simp: has_value_def st normal_def json_find_norm key_of_norm)
  qed
  then show ?thesis using entries_create [OF assms(1-5,7-9)] unfolding exact_def by metis
qed

lemma docs_ok_create:
  assumes "docs_ok T name" "T name \<noteq> None" "hash_free (doc_id d)" "storable d"
  shows "docs_ok (stored_tables name ixs d T) name"
  using assms stored_stored [of T name ixs d, OF assms(2)] storable_round [OF assms(4)] by (auto simp: docs_ok_def normal_def)

lemma exact_erase:
  assumes "exact T name ix" "docs_ok T name" "T name = Some tm" "om_ok tm" "distinct ixs" "ix \<in> set ixs"
    and "stored T name i0 = Some (Ret d)" "\<And>m. T (index_family name ix) = Some m \<Longrightarrow> om_ok m"
  shows "exact (erased_tables name ixs d T) name ix"
proof -
  let ?T = "erased_tables name ixs d T" and ?f = "index_family name ix"
  obtain m where m: "T ?f = Some m" and ex: "\<And>k i. map_of m k = Some i \<longleftrightarrow> (\<exists>v. has_value T name ix i v \<and> k = key_of v @ ''#'' @ i)"
    using assms(1) by (auto simp: exact_def)
  have d: "doc_id d = i0" "hash_free i0" using assms(2,7) by (auto simp: docs_ok_def)
  have t: "?T ?f = Some (without_entry d ix m)"
    using change_all_index [OF assms(5,6)] m by (simp add: erased_tables_def)
  have st: "stored ?T name i = (if i = i0 then None else stored T name i)" for i
    using stored_erased [of T name, OF assms(3,4)] d by simp
  have hv: "has_value ?T name ix i v' \<longleftrightarrow> i \<noteq> i0 \<and> has_value T name ix i v'" for i v'
    by (auto simp: has_value_def st)
  have "map_of (without_entry d ix m) k = Some i \<longleftrightarrow> (\<exists>v. has_value ?T name ix i v \<and> k = key_of v @ ''#'' @ i)" for k i
  proof (cases "i = i0")
    case True
    have "\<exists>v. json_find ix (doc_data d) = Some v \<and> k = entry_of d v" if "map_of m k = Some i0"
      using that ex [of k i0] assms(7) d by (auto simp: has_value_def entry_of_def)
    then show ?thesis using True by (auto simp: map_of_without_entry [OF assms(8) [OF m]] hv)
  next
    case False
    have "\<nexists>v. json_find ix (doc_data d) = Some v \<and> k = entry_of d v" if "map_of m k = Some i"
      using that ex [of k i] has_value_entry [OF _ assms(2), of ix i] entry_inject [of i i0] d False
      by (auto simp: entry_of_def)
    then show ?thesis using False ex by (auto simp: map_of_without_entry [OF assms(8) [OF m]] hv)
  qed
  then show ?thesis using t by (auto simp: exact_def)
qed

lemma docs_ok_erase:
  assumes "docs_ok T name" "T name = Some m" "om_ok m"
  shows "docs_ok (erased_tables name ixs d T) name"
  using assms stored_erased [of T name m ixs d, OF assms(2,3)] by (auto simp: docs_ok_def split: if_splits)

section \<open>Building an index\<close>

definition decoded :: "string \<Rightarrow> Document" where
  "decoded bs = (case Document_from_msgpack bs of Ret d \<Rightarrow> d | _ \<Rightarrow> empty_document)"

definition add_doc :: "string \<Rightarrow> string \<times> string \<Rightarrow> kv \<Rightarrow> kv" where
  "add_doc ix p = with_entry (decoded (snd p)) ix"

lemma index_documents_effects:
  assumes "live e" "tables e (index_family name ix) = Some t" "cur_ok cur"
    and "\<And>p. p \<in> set (cur_ahead cur) \<Longrightarrow> Document_from_msgpack (snd p) = Ret (decoded (snd p)) \<and> indexable [ix] (doc_data (decoded (snd p)))"
  shows "\<exists>e'. index_documents name ix cur e = (Ret None, e') \<and> live e' \<and> columnFamilies e' = columnFamilies e \<and>
    tables e' = (tables e)(index_family name ix \<mapsto> fold (add_doc ix) (cur_ahead cur) t)"
  using assms
proof (induction "cur_ahead cur" arbitrary: cur e t)
  case Nil
  then have "\<not> isValid cur" using isValid_ahead by metis
  then have "index_documents name ix cur e = (Ret None, e)" by (simp add: index_documents.simps returnM_def)
  moreover have "(tables e)(index_family name ix \<mapsto> t) = tables e" using Nil.prems(2) by auto
  ultimately show ?case using Nil by simp
next
  case (Cons p ps)
  have v: "isValid cur" using Cons.hyps(2) Cons.prems(3) isValid_ahead by (metis list.discI)
  note st = cursor_step [OF Cons.prems(3) v]
  have ps: "ps = cur_ahead (cursor_next cur)" and hd: "hd (cur_ahead cur) = p"
    using st(1) Cons.hyps(2) by (metis list.inject, metis list.sel(1))
  let ?d = "decoded (snd p)"
  have mem: "set (cur_ahead cur) = insert p (set ps)" using Cons.hyps(2) [symmetric] by simp
  then have d: "Document_from_msgpack (snd p) = Ret ?d" "indexable [ix] (doc_data ?d)" using Cons.prems(4) [of p] by simp_all
  obtain e1 where e1: "insert_entry name ?d ix e = (Ret StatusOK, e1)" "live e1" "columnFamilies e1 = columnFamilies e"
    "tables e1 = (tables e)(index_family name ix \<mapsto> with_entry ?d ix t)"
    using insert_entry_effects [OF Cons.prems(1,2) d(2)] unfolding effects_def by blast
  have t1: "tables e1 (index_family name ix) = Some (with_entry ?d ix t)" using e1(4) by simp
  obtain e' where e': "index_documents name ix (cursor_next cur) e1 = (Ret None, e')" "live e'" "columnFamilies e' = columnFamilies e1"
    "tables e' = (tables e1)(index_family name ix \<mapsto> fold (add_doc ix) ps (with_entry ?d ix t))"
    using Cons.hyps(1) [OF ps e1(2) t1 cur_ok_next [OF Cons.prems(3)]] Cons.prems(4) mem ps by auto
  have "index_documents name ix cur e = (Ret None, e')"
    using v Cons.prems(3) st(2) d(1) e1(1) e'(1) hd by (subst index_documents.simps) (simp add: bindM_def liftO_def)
  then show ?case using e' e1 Cons.hyps(2) [symmetric] by (simp add: add_doc_def)
qed

definition gives :: "string \<Rightarrow> string \<Rightarrow> string \<times> string \<Rightarrow> bool" where
  "gives ix k p = (\<exists>v. json_find ix (doc_data (decoded (snd p))) = Some v \<and> k = entry_of (decoded (snd p)) v)"

lemma gives_same:
  "gives ix k p \<Longrightarrow> gives ix k q \<Longrightarrow> hash_free (doc_id (decoded (snd p))) \<Longrightarrow> hash_free (doc_id (decoded (snd q))) \<Longrightarrow>
     doc_id (decoded (snd p)) = doc_id (decoded (snd q))"
  unfolding gives_def using entry_of_inject by metis

lemma map_of_add_docs:
  "list_all (\<lambda>p. hash_free (doc_id (decoded (snd p)))) ps \<Longrightarrow>
     map_of (fold (add_doc ix) ps []) k = Some i \<longleftrightarrow> (\<exists>p \<in> set ps. gives ix k p \<and> i = doc_id (decoded (snd p)))"
proof (induction ps rule: rev_induct)
  case (snoc p ps)
  have w: "map_of (fold (add_doc ix) (ps @ [p]) []) k =
      (if gives ix k p then Some (doc_id (decoded (snd p))) else map_of (fold (add_doc ix) ps []) k)"
    by (simp add: add_doc_def map_of_with_entry gives_def)
  show ?case
  proof (cases "gives ix k p")
    case True
    then have "\<And>q. q \<in> set ps \<Longrightarrow> gives ix k q \<Longrightarrow> doc_id (decoded (snd q)) = doc_id (decoded (snd p))"
      using gives_same [of ix k _ p] snoc.prems by (simp add: list_all_iff)
    then show ?thesis unfolding w using True by auto
  next
    case False
    then show ?thesis unfolding w using snoc by auto
  qed
qed simp

lemma exact_build:
  assumes "docs_ok T name" "T name = Some m" "T (index_family name ix) = Some (fold (add_doc ix) m [])" "om_ok m"
  shows "exact T name ix"
proof -
  have st: "stored T name i = Some (Ret d) \<longleftrightarrow> (\<exists>bs. (i, bs) \<in> set m \<and> Document_from_msgpack bs = Ret d)" for i d
    using assms(2) om_lookup_mem [OF assms(4)] by (auto simp: stored_def)
  have dec: "Document_from_msgpack (snd p) = Ret (decoded (snd p)) \<and> doc_id (decoded (snd p)) = fst p \<and> hash_free (fst p)"
    if "p \<in> set m" for p
  proof -
    have "stored T name (fst p) = Some (Document_from_msgpack (snd p))"
      using that assms(2) om_lookup_mem [OF assms(4), of "fst p" "snd p"] by (simp add: stored_def)
    then obtain d where "Document_from_msgpack (snd p) = Ret d" "doc_id d = fst p" "hash_free (fst p)"
      using assms(1) unfolding docs_ok_def by blast
    then show ?thesis by (simp add: decoded_def)
  qed
  have hv: "has_value T name ix i v \<longleftrightarrow> (\<exists>p \<in> set m. json_find ix (doc_data (decoded (snd p))) = Some v \<and> i = doc_id (decoded (snd p)))" for i v
  proof
    assume "has_value T name ix i v"
    then obtain d bs where "(i, bs) \<in> set m" "Document_from_msgpack bs = Ret d" "json_find ix (doc_data d) = Some v"
      unfolding has_value_def st by blast
    with dec [of "(i, bs)"] show "\<exists>p \<in> set m. json_find ix (doc_data (decoded (snd p))) = Some v \<and> i = doc_id (decoded (snd p))"
      by (intro bexI [of _ "(i, bs)"]) auto
  next
    assume "\<exists>p \<in> set m. json_find ix (doc_data (decoded (snd p))) = Some v \<and> i = doc_id (decoded (snd p))"
    then obtain p where p: "p \<in> set m" "json_find ix (doc_data (decoded (snd p))) = Some v" "i = doc_id (decoded (snd p))" by blast
    then have "(i, snd p) \<in> set m" using dec [OF p(1)] by simp
    with dec [OF p(1)] p(2) show "has_value T name ix i v" unfolding has_value_def st by blast
  qed
  have "list_all (\<lambda>p. hash_free (doc_id (decoded (snd p)))) m" using dec by (auto simp: list_all_iff)
  note ad = map_of_add_docs [OF this, of ix]
  have "map_of (fold (add_doc ix) m []) k = Some i \<longleftrightarrow> (\<exists>v. has_value T name ix i v \<and> k = key_of v @ ''#'' @ i)" for k i
    unfolding ad hv gives_def entry_of_def by auto
  then show ?thesis using assms(3) by (auto simp: exact_def)
qed

lemma createIndex_run:
  assumes "live e" "tables e name = Some m" "docs_ok (tables e) name" "tables e (index_family name ix) = None"
    and "\<And>i d. stored (tables e) name i = Some (Ret d) \<Longrightarrow> indexable [ix] (doc_data d)"
  shows "\<exists>e'. createIndex name ix e = (Ret StatusOK, e') \<and> live e' \<and> exact (tables e') name ix \<and>
    tables e' = (tables e)(index_family name ix := tables e' (index_family name ix))"
proof -
  let ?f = "index_family name ix"
  let ?e1 = "add_table ?f e"
  note i = liveD [OF assms(1)]
  have c: "engine_createCollection ?f e = (Ret StatusOK, ?e1)" using i assms(4) by (simp add: engine_createCollection_run)
  have l1: "live ?e1" using i assms(4) by (simp add: live_def engine_inv_add_table)
  have t1: "tables ?e1 = (tables e)(?f \<mapsto> [])" using i by (simp add: tables_add_table)
  obtain cur where cur: "Cursor_new name ?e1 = (Ret cur, ?e1)" "cur_ok cur" "cur_ahead cur = m"
    using Cursor_new_run [OF liveD(1) [OF l1], of name] liveD(2) [OF l1] t1 assms(2) by (auto simp: visible_healthy)
  have ok: "om_ok m" by (rule tables_ok [OF i(1) assms(2)])
  have dec: "Document_from_msgpack (snd p) = Ret (decoded (snd p)) \<and> indexable [ix] (doc_data (decoded (snd p)))" if "p \<in> set m" for p
  proof -
    have s: "stored (tables e) name (fst p) = Some (Document_from_msgpack (snd p))"
      using that assms(2) om_lookup_mem [OF ok, of "fst p" "snd p"] by (simp add: stored_def)
    then obtain d where "Document_from_msgpack (snd p) = Ret d" using assms(3) by (auto simp: docs_ok_def)
    with s assms(5) [of "fst p" d] show ?thesis by (simp add: decoded_def)
  qed
  have tf: "tables ?e1 ?f = Some []" using t1 by simp
  obtain e' where e': "index_documents name ix cur ?e1 = (Ret None, e')" "live e'"
    "tables e' = (tables ?e1)(?f \<mapsto> fold (add_doc ix) m [])"
    using index_documents_effects [OF l1 tf cur(2)] cur(3) dec by auto
  have st: "stored (tables e') name = stored (tables e) name" by (simp add: fun_eq_iff stored_def e'(3) t1)
  have "exact (tables e') name ix"
    by (rule exact_build [of _ _ m]) (use assms(2,3) e'(3) t1 st ok in \<open>auto simp: docs_ok_def\<close>)
  moreover have "createIndex name ix e = (Ret StatusOK, e')"
    using c cur(1) e'(1) by (simp add: createIndex_def getIndexCfName_family bindM_def catchM_def returnM_def)
  moreover have "tables e' = (tables e)(?f := tables e' ?f)" using e'(3) t1 by simp
  ultimately show ?thesis using e'(2) by blast
qed

section \<open>Fields\<close>

text \<open>The identifiers of the documents that have a field.\<close>

definition with_field :: "(string \<Rightarrow> kv option) \<Rightarrow> string \<Rightarrow> string \<Rightarrow> string set" where
  "with_field T name ix = {i. \<exists>v. has_value T name ix i v}"

section \<open>Lemmas: reading all documents\<close>

lemma read_documents_run:
  assumes "cur_ok cur" "\<And>p. p \<in> set (cur_ahead cur) \<Longrightarrow> Document_from_msgpack (snd p) = Ret (decoded (snd p))"
  shows "read_documents limit cnt cur docs =
    (Ret (), docs @ map (\<lambda>p. decoded (snd p)) (take (unat limit - unat cnt) (cur_ahead cur)))"
  using assms
proof (induction "cur_ahead cur" arbitrary: cur cnt docs)
  case Nil
  then have "\<not> isValid cur" using isValid_ahead by metis
  with Nil show ?case by (simp add: read_documents.simps returnM_def)
next
  case (Cons p ps)
  have v: "isValid cur" using Cons.hyps(2) Cons.prems(1) isValid_ahead by (metis list.discI)
  note st = cursor_step [OF Cons.prems(1) v]
  have ps: "ps = cur_ahead (cursor_next cur)" and hd: "hd (cur_ahead cur) = p"
    using st(1) Cons.hyps(2) by (metis list.inject, metis list.sel(1))
  have mem: "set (cur_ahead cur) = insert p (set ps)" using Cons.hyps(2) [symmetric] by simp
  show ?case
  proof (cases "cnt < limit")
    case True
    have "cnt + 1 \<noteq> 0" using True by (metis add.commute max_word_wrap not_less word_order.extremum)
    then have "unat (cnt + 1) = Suc (unat cnt)" by (metis add.commute unatSuc)
    moreover have "unat cnt < unat limit" using True by (simp add: word_less_nat_alt)
    ultimately have n: "unat limit - unat cnt = Suc (unat limit - unat (cnt + 1))" by linarith
    have "read_documents limit (cnt + 1) (cursor_next cur) (docs @ [decoded (snd p)]) =
        (Ret (), (docs @ [decoded (snd p)]) @ map (\<lambda>p. decoded (snd p)) (take (unat limit - unat (cnt + 1)) ps))"
      using Cons.hyps(1) [OF ps cur_ok_next [OF Cons.prems(1)]] Cons.prems(2) mem ps by auto
    moreover have "cursor_current cur empty_document = Ret (StatusOK, decoded (snd p))"
      using st(2) hd Cons.prems(2) mem by simp
    ultimately show ?thesis
      using True v Cons.prems(1) Cons.hyps(2) [symmetric] n
      by (subst read_documents.simps) (simp add: bindM_def liftO_def)
  next
    case False
    then have "unat limit - unat cnt = 0" by (simp add: word_less_nat_alt)
    with False show ?thesis by (simp add: read_documents.simps returnM_def)
  qed
qed

section \<open>Lemmas: identifiers\<close>

lemma length_alphanum [simp]: "length alphanum = 63"
  by (simp add: alphanum_def)

lemma distinct_alphanum: "distinct alphanum"
  by code_simp

lemma length_id_digits [simp]: "length (id_digits n t) = n"
  by (induction n t rule: id_digits.induct) simp_all

lemma id_digits_inject: "id_digits n t = id_digits n t' \<Longrightarrow> t mod 63 ^ n = t' mod 63 ^ n"
proof (induction n t arbitrary: t' rule: id_digits.induct)
  case (2 n t)
  then have "alphanum ! (t mod 63) = alphanum ! (t' mod 63)" "id_digits n (t div 63) = id_digits n (t' div 63)"
    by simp_all
  then have "t mod 63 = t' mod 63" "t div 63 mod 63 ^ n = t' div 63 mod 63 ^ n"
    using nth_eq_iff_index_eq [OF distinct_alphanum, of "t mod 63" "t' mod 63"] 2(1) by simp_all
  then show ?case by (simp add: mod_mult2_eq)
qed simp

section \<open>The index invariant\<close>

text \<open>Every index of the collection is exact, and every indexed value can be indexed.\<close>

definition index_inv :: "string \<Rightarrow> engine \<Rightarrow> bool" where
  "index_inv name e = (live e \<and> tables e name \<noteq> None \<and> docs_ok (tables e) name \<and>
     (\<forall>ix \<in> set (getIndexNames e name). exact (tables e) name ix \<and> (\<forall>i v. has_value (tables e) name ix i v \<longrightarrow> scalar v)))"

text \<open>The calls of a client that overwrites a document only with one whose values under the indexes have the
  same keys. What another overwriting \<^verbatim>\<open>createDocument\<close> leaves behind is the second part of the
  property below.\<close>

inductive indexed_step :: "string \<Rightarrow> engine \<Rightarrow> engine \<Rightarrow> bool" for name where
  step_createDocument: "createDocument name time rands d e = (Ret r, e') \<Longrightarrow> is_object (doc_data d) \<Longrightarrow>
    storable (prepared time rands d) \<Longrightarrow> indexable (getIndexNames e name) (doc_data (prepared time rands d)) \<Longrightarrow>
    hash_free (doc_id (prepared time rands d)) \<Longrightarrow> keeps_keys (tables e) name (getIndexNames e name) (prepared time rands d) \<Longrightarrow>
    indexed_step name e e'"
| step_deleteDocument: "deleteDocument name i e = (Ret s, e') \<Longrightarrow> indexed_step name e e'"
| step_createIndex: "createIndex name ix e = (Ret s, e') \<Longrightarrow> tables e (index_family name ix) = None \<Longrightarrow>
    (\<And>i v. has_value (tables e) name ix i v \<Longrightarrow> scalar v) \<Longrightarrow> indexed_step name e e'"
| step_deleteIndex: "deleteIndex name ix e = (Ret s, e') \<Longrightarrow> indexed_step name e e'"

lemma index_invD:
  assumes "index_inv name e"
  shows "live e" "engine_inv e" "tables e name \<noteq> None" "docs_ok (tables e) name"
    "ix \<in> set (getIndexNames e name) \<Longrightarrow> exact (tables e) name ix"
    "ix \<in> set (getIndexNames e name) \<Longrightarrow> has_value (tables e) name ix i v \<Longrightarrow> scalar v"
  using assms by (simp_all add: index_inv_def live_def)

lemma index_invI:
  assumes "live e" "tables e name \<noteq> None" "docs_ok (tables e) name"
    and "\<And>ix. ix \<in> set (getIndexNames e name) \<Longrightarrow> exact (tables e) name ix"
    and "\<And>ix i v. ix \<in> set (getIndexNames e name) \<Longrightarrow> has_value (tables e) name ix i v \<Longrightarrow> scalar v"
  shows "index_inv name e"
  using assms by (simp add: index_inv_def)

lemma stored_cong: "T name = T' name \<Longrightarrow> stored T name = stored T' name"
  by (simp add: stored_def fun_eq_iff)

lemma has_value_cong: "stored T name = stored T' name \<Longrightarrow> has_value T name = has_value T' name"
  by (simp add: has_value_def fun_eq_iff)

lemma docs_ok_cong: "stored T name = stored T' name \<Longrightarrow> docs_ok T name = docs_ok T' name"
  by (simp add: docs_ok_def)

lemma exact_cong:
  "stored T name = stored T' name \<Longrightarrow> T (index_family name ix) = T' (index_family name ix) \<Longrightarrow> exact T name ix = exact T' name ix"
  by (simp add: exact_def has_value_cong [of T name T'])

lemma index_inv_createDocument:
  assumes "index_inv name e" "is_object (doc_data d)" "storable (prepared time rands d)"
    and "indexable (getIndexNames e name) (doc_data (prepared time rands d))"
    and "hash_free (doc_id (prepared time rands d))" "keeps_keys (tables e) name (getIndexNames e name) (prepared time rands d)"
  shows "\<exists>e'. createDocument name time rands d e = (Ret (StatusOK, prepared time rands d), e') \<and> index_inv name e'"
proof -
  let ?d = "prepared time rands d" and ?ixs = "getIndexNames e name"
  note i = index_invD [OF assms(1)]
  obtain m where m: "tables e name = Some m" using i(3) by blast
  obtain e' where e': "createDocument name time rands d e = (Ret (StatusOK, ?d), e')" "live e'"
    "columnFamilies e' = columnFamilies e" "tables e' = stored_tables name ?ixs ?d (tables e)"
    using createDocument_effects [OF i(1) m assms(2,4)] by blast
  have ixs: "getIndexNames e' name = ?ixs" by (rule getIndexNames_cong [OF e'(3)])
  have st: "stored (tables e') name j = (if j = doc_id ?d then Some (Ret (normal ?d)) else stored (tables e) name j)" for j
    using stored_stored [of "tables e" name] i(3) e'(4) storable_round [OF assms(3)] by simp
  have sc: "scalar v" if ix: "ix \<in> set ?ixs" and v: "has_value (tables e') name ix j v" for ix j v
  proof (cases "j = doc_id ?d")
    case True
    with v obtain w where "json_find ix (doc_data ?d) = Some w" "v = norm w" by (auto simp: has_value_def st normal_def json_find_norm)
    then show ?thesis using assms(4) ix by (cases w) (auto simp: indexable_def scalar_def)
  next
    case False
    with v have "has_value (tables e) name ix j v" by (simp add: has_value_def st)
    then show ?thesis using i(6) [OF ix] by blast
  qed
  have "exact (tables e') name ix" if "ix \<in> set ?ixs" for ix
    unfolding e'(4) using i that assms getIndexNames_sorted(2) by (intro exact_create) auto
  moreover have "docs_ok (tables e') name" unfolding e'(4) using i assms by (intro docs_ok_create) auto
  moreover have "tables e' name \<noteq> None" using e'(4) m by (simp add: stored_tables_def)
  ultimately show ?thesis using e'(1,2) sc ixs by (auto simp: index_inv_def)
qed

lemma index_inv_deleteDocument:
  assumes "index_inv name e"
  shows "\<exists>s e'. deleteDocument name i e = (Ret s, e') \<and> index_inv name e'"
proof (cases "stored (tables e) name i")
  case None
  then show ?thesis using deleteDocument_missing [OF index_invD(1) [OF assms]] assms by blast
next
  case (Some r)
  let ?ixs = "getIndexNames e name"
  note v = index_invD [OF assms]
  obtain m where m: "tables e name = Some m" using v(3) by blast
  have om: "om_ok m" by (rule tables_ok [OF v(2) m])
  obtain d where d: "stored (tables e) name i = Some (Ret d)" "doc_id d = i" using Some v(4) by (auto simp: docs_ok_def)
  have "indexable ?ixs (doc_data d)" using v(6) d(1) by (auto simp: indexable_def has_value_def)
  from deleteDocument_effects [OF v(1) d this]
  obtain e' where e': "deleteDocument name i e = (Ret StatusOK, e')" "live e'" "columnFamilies e' = columnFamilies e"
    "tables e' = erased_tables name ?ixs d (tables e)" by blast
  have ixs: "getIndexNames e' name = ?ixs" by (rule getIndexNames_cong [OF e'(3)])
  have st: "stored (tables e') name j = (if j = i then None else stored (tables e) name j)" for j
    using stored_erased [of "tables e" name m, OF m om] e'(4) d(2) by simp
  have "exact (tables e') name ix" if "ix \<in> set ?ixs" for ix
    unfolding e'(4) using v that d(1) m om getIndexNames_sorted(2) tables_ok [OF v(2)] by (intro exact_erase) auto
  moreover have "docs_ok (tables e') name" unfolding e'(4) by (rule docs_ok_erase [OF v(4) m om])
  moreover have "tables e' name \<noteq> None" using e'(4) m by (simp add: erased_tables_def)
  moreover have "has_value (tables e) name ix j w" if "has_value (tables e') name ix j w" for ix j w
    using that by (auto simp: has_value_def st split: if_splits)
  ultimately have "index_inv name e'" using e'(2) v(6) ixs by (metis index_invI)
  then show ?thesis using e'(1) by blast
qed

lemma index_inv_createIndex:
  assumes "index_inv name e" "plain_name name" "tables e (index_family name ix) = None"
    and "\<And>i v. has_value (tables e) name ix i v \<Longrightarrow> scalar v"
  shows "\<exists>e'. createIndex name ix e = (Ret StatusOK, e') \<and> index_inv name e' \<and> ix \<in> set (getIndexNames e' name) \<and>
    stored (tables e') name = stored (tables e) name"
proof -
  note v = index_invD [OF assms(1)]
  obtain m where m: "tables e name = Some m" using v(3) by blast
  have ib: "indexable [ix] (doc_data d)" if "stored (tables e) name i = Some (Ret d)" for i d
    using assms(4) that by (auto simp: indexable_def has_value_def)
  have "\<exists>e'. createIndex name ix e = (Ret StatusOK, e') \<and> live e' \<and> exact (tables e') name ix \<and>
      tables e' = (tables e)(index_family name ix := tables e' (index_family name ix))"
    by (rule createIndex_run [OF v(1) m v(4) assms(3)]) (rule ib)
  then obtain e' where e': "createIndex name ix e = (Ret StatusOK, e')" "live e'" "exact (tables e') name ix"
    "tables e' = (tables e)(index_family name ix := tables e' (index_family name ix))" by blast
  have t: "tables e' c = tables e c" if "c \<noteq> index_family name ix" for c using e'(4) that by (metis fun_upd_other)
  have st: "stored (tables e') name = stored (tables e) name" by (rule stored_cong) (simp add: t)
  note i' = getIndexNames_iff [OF liveD(1) [OF e'(2)] assms(2)] and i = getIndexNames_iff [OF v(2) assms(2)]
  have "exact (tables e') name j" if "j \<in> set (getIndexNames e' name)" for j
  proof (cases "j = ix")
    case False
    then have f: "tables e' (index_family name j) = tables e (index_family name j)" by (simp add: t)
    with that i i' have "exact (tables e) name j" using v(5) by simp
    then show ?thesis using exact_cong [OF st f] by simp
  qed (use e'(3) in simp)
  moreover have "scalar w" if "j \<in> set (getIndexNames e' name)" "has_value (tables e') name j k w" for j k w
  proof (cases "j = ix")
    case True
    then show ?thesis using that assms(4) has_value_cong [OF st] by metis
  next
    case False
    then have "j \<in> set (getIndexNames e name)" using that i i' by (simp add: t)
    then show ?thesis using that v(6) has_value_cong [OF st] by metis
  qed
  moreover have "docs_ok (tables e') name" "tables e' name \<noteq> None" using v(3,4) docs_ok_cong [OF st] by (simp_all add: t)
  moreover have "ix \<in> set (getIndexNames e' name)" using i' e'(3) by (auto simp: exact_def)
  ultimately show ?thesis using e'(1,2) st by (auto simp: index_inv_def)
qed

lemma index_family_not_default: "index_family name ix \<noteq> default_family"
proof
  assume "index_family name ix = default_family"
  then have "length (index_family name ix) = length default_family" by (rule arg_cong)
  then show False by (simp add: index_family_def index_delimiter_def default_family_def)
qed

lemma index_inv_deleteIndex:
  assumes "index_inv name e" "plain_name name"
  shows "\<exists>s e'. deleteIndex name ix e = (Ret s, e') \<and> index_inv name e'"
proof (cases "tables e (index_family name ix)")
  case None
  then show ?thesis
    using engine_dropCollection_run [OF index_invD(2) [OF assms(1)] index_family_not_default, of name ix] assms(1)
    by (simp add: deleteIndex_def getIndexCfName_family)
next
  case (Some m)
  let ?e = "drop_table (index_family name ix) e"
  note v = index_invD [OF assms(1)]
  have r: "deleteIndex name ix e = (Ret StatusOK, ?e)"
    using engine_dropCollection_run [OF v(2) index_family_not_default, of name ix] Some liveD(2) [OF v(1)]
    by (simp add: deleteIndex_def getIndexCfName_family)
  have l: "live ?e" using v(1,2) by (simp add: live_def engine_inv_drop_table index_family_not_default)
  have t: "tables ?e = (tables e)(index_family name ix := None)" by (rule tables_drop_table [OF v(2)])
  have st: "stored (tables ?e) name = stored (tables e) name" by (rule stored_cong) (simp add: t)
  have j: "j \<in> set (getIndexNames e name) \<and> j \<noteq> ix" if "j \<in> set (getIndexNames ?e name)" for j
    using that by (auto simp: getIndexNames_iff [OF liveD(1) [OF l] assms(2)] getIndexNames_iff [OF v(2) assms(2)] t split: if_splits)
  have "exact (tables ?e) name j" if "j \<in> set (getIndexNames ?e name)" for j
    using j [OF that] v(5) exact_cong [OF st, of j] by (simp add: t)
  moreover have "docs_ok (tables ?e) name" "tables ?e name \<noteq> None" using v(3,4) docs_ok_cong [OF st] by (simp_all add: t)
  moreover have "scalar w" if "k \<in> set (getIndexNames ?e name)" "has_value (tables ?e) name k i w" for k i w
    using v(6) [of k i w] j [OF that(1)] that(2) has_value_cong [OF st] by simp
  ultimately have "index_inv name ?e" using l by (metis index_invI)
  then show ?thesis using r by blast
qed

lemma indexed_step_inv: "indexed_step name e e' \<Longrightarrow> plain_name name \<Longrightarrow> index_inv name e \<Longrightarrow> index_inv name e'"
proof (induction rule: indexed_step.induct)
  case (step_createDocument time rands d e r e')
  then show ?case using index_inv_createDocument [of name e d time rands] by auto
next
  case (step_deleteDocument i e s e')
  then show ?case using index_inv_deleteDocument [of name e i] by auto
next
  case (step_createIndex ix e s e')
  then show ?case using index_inv_createIndex [of name e ix] by auto
next
  case (step_deleteIndex ix e s e')
  then show ?case using index_inv_deleteIndex [of name e ix] by auto
qed

lemma indexed_steps_inv: "(indexed_step name)\<^sup>*\<^sup>* e e' \<Longrightarrow> plain_name name \<Longrightarrow> index_inv name e \<Longrightarrow> index_inv name e'"
  by (induction rule: rtranclp_induct) (auto intro: indexed_step_inv)

lemma index_inv_empty: "live e \<Longrightarrow> tables e name = Some [] \<Longrightarrow> getIndexNames e name = [] \<Longrightarrow> index_inv name e"
  by (simp add: index_inv_def docs_ok_def stored_def)

text \<open>A database with an index on a field and one document in it.\<close>

definition users_index :: engine where
  "users_index = snd (createIndex ''users'' ''age'' (engine_with ''users''))"

definition indexed_db :: engine where
  "indexed_db = snd (createDocument ''users'' 0 [] sample users_index)"

lemma plain_users: "plain_name ''users''"
  by (simp add: plain_name_def index_delimiter_def)

lemma users_index:
  "createIndex ''users'' ''age'' (engine_with ''users'') = (Ret StatusOK, users_index)" "index_inv ''users'' users_index"
  "''age'' \<in> set (getIndexNames users_index ''users'')" "stored (tables users_index) ''users'' i = None"
  "tables (engine_with ''users'') (index_family ''users'' ''age'') = None"
proof -
  have inv: "index_inv ''users'' (engine_with ''users'')" using live_users by (rule index_inv_empty)
  have st: "stored (tables (engine_with ''users'')) ''users'' i = None" for i using live_users(2) by (simp add: stored_def)
  show f: "tables (engine_with ''users'') (index_family ''users'' ''age'') = None"
    using getIndexNames_iff [OF index_invD(2) [OF inv] plain_users, of "''age''"] live_users(3) by simp
  have "\<exists>e'. createIndex ''users'' ''age'' (engine_with ''users'') = (Ret StatusOK, e') \<and> index_inv ''users'' e' \<and>
    ''age'' \<in> set (getIndexNames e' ''users'') \<and> stored (tables e') ''users'' = stored (tables (engine_with ''users'')) ''users''"
    by (rule index_inv_createIndex [OF inv plain_users f]) (simp add: has_value_def st)
  then show "createIndex ''users'' ''age'' (engine_with ''users'') = (Ret StatusOK, users_index)" "index_inv ''users'' users_index"
    "''age'' \<in> set (getIndexNames users_index ''users'')" "stored (tables users_index) ''users'' i = None"
    by (auto simp: users_index_def st)
qed

lemma indexed_db:
  "createDocument ''users'' 0 [] sample users_index = (Ret (StatusOK, prepared 0 [] sample), indexed_db)"
  "index_inv ''users'' indexed_db" "''age'' \<in> set (getIndexNames indexed_db ''users'')"
  "stored (tables indexed_db) ''users'' i = (if i = ''d1'' then Some (Ret (normal (prepared 0 [] sample))) else None)"
  "indexable (getIndexNames users_index ''users'') (doc_data (prepared 0 [] sample))" "hash_free (doc_id (prepared 0 [] sample))"
proof -
  show s: "indexable (getIndexNames users_index ''users'') (doc_data (prepared 0 [] sample))" "hash_free (doc_id (prepared 0 [] sample))"
    by (auto simp: sample_prepared indexable_def scalar_def hash_free_def split: if_splits)
  obtain m where m: "tables users_index ''users'' = Some m" using index_invD(3) [OF users_index(2)] by blast
  have ob: "is_object (doc_data sample)" by (simp add: sample_def)
  obtain e' where e': "createDocument ''users'' 0 [] sample users_index = (Ret (StatusOK, prepared 0 [] sample), e')"
    "columnFamilies e' = columnFamilies users_index"
    "tables e' = stored_tables ''users'' (getIndexNames users_index ''users'') (prepared 0 [] sample) (tables users_index)"
    using createDocument_effects [OF index_invD(1) [OF users_index(2)] m ob s(1)] by blast
  then have d: "indexed_db = e'" by (simp add: indexed_db_def)
  show c: "createDocument ''users'' 0 [] sample users_index = (Ret (StatusOK, prepared 0 [] sample), indexed_db)"
    using e'(1) d by simp
  show "index_inv ''users'' indexed_db"
    using index_inv_createDocument [OF users_index(2) ob sample_storable s(1,2) keeps_keys_new] c users_index(4) by auto
  show "''age'' \<in> set (getIndexNames indexed_db ''users'')"
    using users_index(3) getIndexNames_cong [OF e'(2)] d by simp
  show "stored (tables indexed_db) ''users'' i = (if i = ''d1'' then Some (Ret (normal (prepared 0 [] sample))) else None)"
    using e'(3) d stored_stored [of "tables users_index" "''users''"] m storable_round [OF sample_storable] users_index(4)
    by (simp add: sample_prepared)
qed

lemma indexed_db_value: "has_value (tables indexed_db) ''users'' ''age'' i v \<longleftrightarrow> i = ''d1'' \<and> v = JUnsigned 5"
  by (auto simp: has_value_def indexed_db(4) normal_def sample_prepared)

section \<open>Properties of indexes, queries and identifiers\<close>

text \<open>What should be in the index \<open>ix\<close>: \<open>entry\<close> is the key of the value that the readable document \<open>i\<close> has under
  \<open>ix\<close>, \<^verbatim>\<open>#\<close>, and \<open>i\<close>.\<close>

definition has_entry :: "string \<Rightarrow> string \<Rightarrow> engine \<Rightarrow> string \<Rightarrow> string \<Rightarrow> bool" where
  "has_entry name ix e entry i = (\<exists>d v k. readDocument name i empty_document e = (Ret (StatusOK, d), e) \<and>
     json_find ix (doc_data d) = Some v \<and> parseValue v = Ret k \<and> entry = k @ ''#'' @ i)"

lemma has_entry_value:
  assumes "live e" "docs_ok (tables e) name" "\<And>v. has_value (tables e) name ix i v \<Longrightarrow> scalar v"
  shows "has_entry name ix e entry i \<longleftrightarrow> (\<exists>v. has_value (tables e) name ix i v \<and> entry = key_of v @ ''#'' @ i)"
proof -
  have rd: "readDocument name i empty_document e = (Ret (StatusOK, d), e) \<longleftrightarrow> stored (tables e) name i = Some (Ret d)" for d
  proof (cases "stored (tables e) name i")
    case (Some r)
    then obtain d' where "r = Ret d'" using assms(2) by (auto simp: docs_ok_def)
    with Some show ?thesis by (simp add: readDocument_run [OF assms(1)])
  qed (simp add: readDocument_run [OF assms(1)] collection_not_found_def NotFound_def StatusOK_def)
  have "has_entry name ix e entry i \<longleftrightarrow> (\<exists>v k. has_value (tables e) name ix i v \<and> parseValue v = Ret k \<and> entry = k @ ''#'' @ i)"
    unfolding has_entry_def rd has_value_def by blast
  also have "\<dots> \<longleftrightarrow> (\<exists>v. has_value (tables e) name ix i v \<and> entry = key_of v @ ''#'' @ i)"
    using assms(3) parseValue_scalar by (metis outcome.inject(1))
  finally show ?thesis .
qed

lemma index_inv_entries:
  assumes "index_inv name e" "ix \<in> set (getIndexNames e name)"
  shows "has_entry name ix e entry i \<longleftrightarrow> (\<exists>v. has_value (tables e) name ix i v \<and> entry = key_of v @ ''#'' @ i)"
  using index_invD [OF assms(1)] assms(2) by (intro has_entry_value) auto

lemma createDocument_entries:
  assumes "index_inv name e" "ix \<in> set (getIndexNames e name)" "is_object (doc_data d)" "storable (prepared time rands d)"
    and "indexable (getIndexNames e name) (doc_data (prepared time rands d))" "hash_free (doc_id (prepared time rands d))"
  shows "\<exists>e' m. createDocument name time rands d e = (Ret (StatusOK, prepared time rands d), e') \<and>
    tables e' (index_family name ix) = Some m \<and> (\<forall>entry i. (entry, i) \<in> set m \<longleftrightarrow> has_entry name ix e' entry i \<or>
      i = doc_id (prepared time rands d) \<and> has_entry name ix e entry i)"
proof -
  let ?d = "prepared time rands d" and ?ixs = "getIndexNames e name"
  note v = index_invD [OF assms(1)]
  obtain m0 where m0: "tables e name = Some m0" using v(3) by blast
  obtain e' where e': "createDocument name time rands d e = (Ret (StatusOK, ?d), e')" "live e'"
    "tables e' = stored_tables name ?ixs ?d (tables e)"
    using createDocument_effects [OF v(1) m0 assms(3,5)] by blast
  have st: "stored (tables e') name j = (if j = doc_id ?d then Some (Ret (normal ?d)) else stored (tables e) name j)" for j
    using stored_stored [of "tables e" name] v(3) e'(3) storable_round [OF assms(4)] by simp
  have sc: "scalar w" if w: "has_value (tables e') name ix j w" for j w
  proof (cases "j = doc_id ?d")
    case True
    with w obtain u where "json_find ix (doc_data ?d) = Some u" "w = norm u" by (auto simp: has_value_def st normal_def json_find_norm)
    then show ?thesis using assms(2,5) by (cases u) (auto simp: indexable_def scalar_def)
  qed (use v(6) [OF assms(2)] w in \<open>auto simp: has_value_def st\<close>)
  have ok: "docs_ok (tables e') name" unfolding e'(3) using v assms by (intro docs_ok_create) auto
  obtain m where m: "tables e' (index_family name ix) = Some m"
    and en: "\<And>k i. map_of m k = Some i \<longleftrightarrow> (\<exists>v. has_value (tables e') name ix i v \<and> k = key_of v @ ''#'' @ i) \<or>
      i = doc_id ?d \<and> (\<exists>v. has_value (tables e) name ix i v \<and> k = key_of v @ ''#'' @ i)"
    using entries_create [OF v(5) [OF assms(2)] v(4,3) getIndexNames_sorted(2) assms(2,6,4,5)] unfolding e'(3) by blast
  have om: "om_ok m" by (rule tables_ok [OF liveD(1) [OF e'(2)] m])
  have "(entry, i) \<in> set m \<longleftrightarrow> has_entry name ix e' entry i \<or> i = doc_id ?d \<and> has_entry name ix e entry i" for entry i
    using om_lookup_mem [OF om] en has_entry_value [OF e'(2) ok sc] index_inv_entries [OF assms(1,2)] by simp
  then show ?thesis using e'(1) m by blast
qed

text \<open>C2: indexes stay exact. Take an empty collection without indexes on a working store, and any sequence
  of \<^verbatim>\<open>deleteDocument\<close>, \<^verbatim>\<open>deleteIndex\<close>, \<^verbatim>\<open>createIndex\<close> of an index that does not exist over scalar values, and
  \<^verbatim>\<open>createDocument\<close> of objects whose indexed values are scalars, under an identifier without \<^verbatim>\<open>#\<close> that is new or whose
  document keeps its keys in the indexes. Then every index of the collection has an entry for exactly the
  documents that can be read and have the field: the key of the value, \<^verbatim>\<open>#\<close>, the identifier. A
  \<^verbatim>\<open>createDocument\<close> that overwrites a document with any other values, which the README names as the way to
  update, adds the new entries and leaves exactly the entries of the overwritten document behind.\<close>

theorem indexes_stay_exact:
  assumes "plain_name name" "live e0" "tables e0 name = Some []" "getIndexNames e0 name = []"
    and "(indexed_step name)\<^sup>*\<^sup>* e0 e" "ix \<in> set (getIndexNames e name)"
  shows "(\<exists>m. tables e (getIndexCfName name ix) = Some m \<and> (\<forall>entry i. (entry, i) \<in> set m \<longleftrightarrow> has_entry name ix e entry i)) \<and>
    (is_object (doc_data d) \<and> storable (prepared time rands d) \<and>
      indexable (getIndexNames e name) (doc_data (prepared time rands d)) \<and> hash_free (doc_id (prepared time rands d)) \<longrightarrow>
      (\<exists>e' m. createDocument name time rands d e = (Ret (StatusOK, prepared time rands d), e') \<and>
        tables e' (getIndexCfName name ix) = Some m \<and> (\<forall>entry i. (entry, i) \<in> set m \<longleftrightarrow>
          has_entry name ix e' entry i \<or> i = doc_id (prepared time rands d) \<and> has_entry name ix e entry i)))"
proof (intro conjI impI)
  have inv: "index_inv name e" using indexed_steps_inv [OF assms(5,1)] index_inv_empty [OF assms(2-4)] by blast
  note v = index_invD [OF inv]
  obtain m where m: "tables e (index_family name ix) = Some m"
    and ex: "\<And>k i. map_of m k = Some i \<longleftrightarrow> (\<exists>v. has_value (tables e) name ix i v \<and> k = key_of v @ ''#'' @ i)"
    using v(5) [OF assms(6)] by (auto simp: exact_def)
  have om: "om_ok m" by (rule tables_ok [OF v(2) m])
  then have "(entry, i) \<in> set m \<longleftrightarrow> has_entry name ix e entry i" for entry i
    using om_lookup_mem [OF om] ex index_inv_entries [OF inv assms(6)] by simp
  then show "\<exists>m. tables e (getIndexCfName name ix) = Some m \<and> (\<forall>entry i. (entry, i) \<in> set m \<longleftrightarrow> has_entry name ix e entry i)"
    using m by (auto simp: getIndexCfName_family)
  assume "is_object (doc_data d) \<and> storable (prepared time rands d) \<and>
    indexable (getIndexNames e name) (doc_data (prepared time rands d)) \<and> hash_free (doc_id (prepared time rands d))"
  then show "\<exists>e' m. createDocument name time rands d e = (Ret (StatusOK, prepared time rands d), e') \<and>
        tables e' (getIndexCfName name ix) = Some m \<and> (\<forall>entry i. (entry, i) \<in> set m \<longleftrightarrow>
          has_entry name ix e' entry i \<or> i = doc_id (prepared time rands d) \<and> has_entry name ix e entry i)"
    using createDocument_entries [OF inv assms(6)] by (simp add: getIndexCfName_family)
qed

text \<open>A document that overwrites \<open>sample\<close> with another value under the index, and the store after it.\<close>

definition older :: Document where
  "older = \<lparr>doc_id = ''d1'', doc_data = JObject [(''age'', JUnsigned 6)]\<rparr>"

definition overwritten_db :: engine where
  "overwritten_db = snd (createDocument ''users'' 0 [] older indexed_db)"

theorem indexes_stay_exact_witness:
  "\<exists>m m'. tables indexed_db (getIndexCfName ''users'' ''age'') = Some m \<and> (encodeIntKey 5 @ ''#d1'', ''d1'') \<in> set m \<and>
     tables overwritten_db (getIndexCfName ''users'' ''age'') = Some m' \<and> (encodeIntKey 5 @ ''#d1'', ''d1'') \<in> set m'"
proof -
  have "indexed_step ''users'' (engine_with ''users'') users_index"
    using users_index(1,5) by (rule step_createIndex) (simp add: has_value_def stored_def live_users(2))
  moreover have "indexed_step ''users'' users_index indexed_db"
    by (rule step_createDocument [OF indexed_db(1) _ sample_storable indexed_db(5,6) keeps_keys_new [OF users_index(4)]])
      (simp add: sample_def)
  ultimately have st: "(indexed_step ''users'')\<^sup>*\<^sup>* (engine_with ''users'') indexed_db" by (rule rtranclp.rtrancl_into_rtrancl [OF r_into_rtranclp])
  have "readDocument ''users'' ''d1'' empty_document indexed_db = (Ret (StatusOK, normal (prepared 0 [] sample)), indexed_db)"
    by (simp add: readDocument_run [OF index_invD(1) [OF indexed_db(2)]] indexed_db(4))
  moreover have "parseValue (JUnsigned 5) = Ret (encodeIntKey 5)" by simp
  ultimately have h: "has_entry ''users'' ''age'' indexed_db (encodeIntKey 5 @ ''#d1'') ''d1''"
    by (auto simp: has_entry_def normal_def sample_prepared)
  note ex = indexes_stay_exact [OF plain_users live_users st indexed_db(3), of older 0 "[]"]
  have p: "prepared 0 [] older = \<lparr>doc_id = ''d1'', doc_data = JObject [(''_id'', JString ''d1''), (''age'', JUnsigned 6)]\<rparr>"
    by code_simp
  have "storable (prepared 0 [] older)" unfolding p by (simp add: storable_def om_ok_def less_char_def)
  moreover have "indexable (getIndexNames indexed_db ''users'') (doc_data (prepared 0 [] older))"
    unfolding p by (auto simp: indexable_def scalar_def split: if_splits)
  moreover have "hash_free (doc_id (prepared 0 [] older))" unfolding p by (simp add: hash_free_def)
  moreover have "is_object (doc_data older)" by (simp add: older_def)
  ultimately obtain e' m' where "createDocument ''users'' 0 [] older indexed_db = (Ret (StatusOK, prepared 0 [] older), e')"
    "tables e' (getIndexCfName ''users'' ''age'') = Some m'"
    "(encodeIntKey 5 @ ''#d1'', ''d1'') \<in> set m' \<longleftrightarrow> has_entry ''users'' ''age'' e' (encodeIntKey 5 @ ''#d1'') ''d1'' \<or>
       ''d1'' = doc_id (prepared 0 [] older) \<and> has_entry ''users'' ''age'' indexed_db (encodeIntKey 5 @ ''#d1'') ''d1''"
    using ex by blast
  then show ?thesis using ex h by (auto simp: p overwritten_db_def)
qed

text \<open>\<^verbatim>\<open>readAllDocuments\<close> on a working store appends to the caller's vector the documents with the
  \<^verbatim>\<open>limit\<close> smallest identifiers, in the order of their identifiers.\<close>

theorem readAllDocuments_first:
  assumes "live e" "tables e name \<noteq> None" "docs_ok (tables e) name"
  shows "\<exists>ds. readAllDocuments name limit docs e = (Ret (StatusOK, docs @ ds), e) \<and>
    map doc_id ds = take (unat limit) (sorted_list_of_set {i. stored (tables e) name i \<noteq> None}) \<and>
    (\<forall>d \<in> set ds. stored (tables e) name (doc_id d) = Some (Ret d))"
proof -
  obtain m where m: "tables e name = Some m" using assms(2) by blast
  have om: "om_ok m" by (rule tables_ok [OF liveD(1) [OF assms(1)] m])
  have dec: "Document_from_msgpack (snd p) = Ret (decoded (snd p)) \<and> doc_id (decoded (snd p)) = fst p \<and>
      stored (tables e) name (fst p) = Some (Ret (decoded (snd p)))" if "p \<in> set m" for p
  proof -
    have s: "stored (tables e) name (fst p) = Some (Document_from_msgpack (snd p))"
      using that m om_lookup_mem [OF om, of "fst p" "snd p"] by (simp add: stored_def)
    then obtain d where "Document_from_msgpack (snd p) = Ret d" "doc_id d = fst p" using assms(3) unfolding docs_ok_def by blast
    with s show ?thesis by (simp add: decoded_def)
  qed
  obtain cur where cur: "Cursor_new name e = (Ret cur, e)" "cur_ok cur" "cur_ahead cur = m"
    using Cursor_new_run [OF liveD(1) [OF assms(1)], of name] liveD(2) [OF assms(1)] m by (auto simp: visible_healthy)
  let ?ds = "map (\<lambda>p. decoded (snd p)) (take (unat limit) m)"
  have "read_documents limit 0 cur docs = (Ret (), docs @ ?ds)"
    using read_documents_run [OF cur(2), of limit 0 docs] dec cur(3) by simp
  then have r: "readAllDocuments name limit docs e = (Ret (StatusOK, docs @ ?ds), e)"
    using cur(1) by (simp add: readAllDocuments_def bindM_def returnM_def)
  have keys: "{i. stored (tables e) name i \<noteq> None} = set (map fst m)"
    using m map_of_eq_None_iff [of m] by (auto simp: stored_def)
  have "sorted_list_of_set (set (map fst m)) = map fst m"
    using om by (intro sorted_list_of_set.idem_if_sorted_distinct) (simp_all add: om_ok_def strict_sorted_iff)
  then have "map doc_id ?ds = take (unat limit) (sorted_list_of_set {i. stored (tables e) name i \<noteq> None})"
    unfolding keys using dec by (auto simp: take_map dest: in_set_takeD)
  moreover have "stored (tables e) name (doc_id d) = Some (Ret d)" if "d \<in> set ?ds" for d
    using that dec by (auto dest!: in_set_takeD)
  ultimately show ?thesis using r by blast
qed

theorem readAllDocuments_first_witness:
  "\<exists>ds. readAllDocuments ''users'' 10 [] indexed_db = (Ret (StatusOK, ds), indexed_db) \<and> map doc_id ds = [''d1'']"
proof -
  note v = index_invD [OF indexed_db(2)]
  have "{i. stored (tables indexed_db) ''users'' i \<noteq> None} = {''d1''}" by (simp add: indexed_db(4))
  then have "sorted_list_of_set {i. stored (tables indexed_db) ''users'' i \<noteq> None} = [''d1'']"
    by (simp add: sorted_list_of_set.fold_insort_key.remove [of "{''d1''}" "''d1''"])
  moreover have "take (unat (10 :: 64 word)) [''d1''] = [''d1'']" by simp
  ultimately show ?thesis using readAllDocuments_first [OF v(1,3,4), of 10 "[]"] by (metis append_Nil)
qed

lemma generateId_zero_byte: "hd (generateId 62 rands) = char_of (0 :: nat)"
proof -
  have "id_digits (Suc 7) 62 = alphanum ! 62 # id_digits 7 0" by (simp only: id_digits.simps length_alphanum) simp
  moreover have "Suc 7 = 8" by simp
  ultimately have "hd (generateId 62 rands) = alphanum ! 62" by (simp add: generateId_def)
  then show ?thesis by (simp add: alphanum_def)
qed

text \<open>Identifiers. With four random numbers an identifier has twelve characters of the alphabet, and two
  identifiers generated at different times (in seconds, 32 bits) are different whatever the random
  numbers are. The alphabet includes the zero byte that ends the array in the code: the identifier of
  time 62 starts with it.\<close>

theorem generateId_unique:
  assumes "length rands = 4" "length rands' = 4"
  shows "length (generateId time rands) = 12 \<and> set (generateId time rands) \<subseteq> set alphanum \<and>
    (time \<noteq> time' \<longrightarrow> generateId time rands \<noteq> generateId time' rands') \<and> hd (generateId 62 rands) = char_of (0 :: nat)"
proof (intro conjI impI notI generateId_zero_byte)
  show "length (generateId time rands) = 12" using assms(1) by (simp add: generateId_def)
  have "set (id_digits n t) \<subseteq> set alphanum" for n t by (induction n t rule: id_digits.induct) auto
  moreover have "alphanum ! (r mod (length alphanum - 1)) \<in> set alphanum" for r by (intro nth_mem) (simp add: less_Suc_eq)
  ultimately show "set (generateId time rands) \<subseteq> set alphanum" unfolding generateId_def set_append by auto
next
  assume ne: "time \<noteq> time'" and "generateId time rands = generateId time' rands'"
  then have "id_digits 8 (unat time) = id_digits 8 (unat time')" by (simp add: generateId_def)
  from id_digits_inject [OF this] have "unat time mod 63 ^ 8 = unat time' mod 63 ^ 8" .
  moreover have "unat t < 63 ^ 8" for t :: "32 word" by (rule less_trans [OF unsigned_less]) simp
  ultimately have "unat time = unat time'" by (metis mod_less)
  with ne show False by (metis word_unat_eq_iff)
qed

theorem generateId_unique_witness: "generateId 1 [0, 0, 0, 0] \<noteq> generateId 2 [0, 0, 0, 0]"
  using generateId_unique [of "[0, 0, 0, 0]" "[0, 0, 0, 0]" 1 2] by simp

end
