(* ===== verification/Anu_Export.thy ===== *)
theory Anu_Export
  imports Anu_Index
begin

text \<open>
  \<^verbatim>\<open>StorageEngine::exportAllToJson\<close> (\<^verbatim>\<open>src/storage_engine/StorageEngine.cpp\<close>): a collection written as one
  JSON array to a file, by way of a temporary file that is renamed at the end. The file system is part
  of the state: the directories, the files with their contents, and which paths the process may
  create. The serializer \<^verbatim>\<open>dump(4)\<close> is an argument: a function from JSON values to text or an exception.
  The exporting thread's work is one step; an iterator is a snapshot, so writes that happen meanwhile
  are not seen by it.
\<close>

record filesystem =
  fs_dirs :: "string list"
  fs_files :: "(string, string) omap"
  fs_may_create :: "string \<Rightarrow> bool"

section \<open>The file system\<close>

text \<open>The part of a path before its last slash or backslash, if it has one.\<close>

definition directory_of :: "string \<Rightarrow> string option" where
  "directory_of path = (let rest = dropWhile (\<lambda>c. c \<noteq> CHR ''/'' \<and> c \<noteq> CHR 0x5C) (rev path)
     in if rest = [] then None else Some (rev (tl rest)))"

definition parent_exists :: "filesystem \<Rightarrow> string \<Rightarrow> bool" where
  "parent_exists fs path = (let rest = dropWhile (\<lambda>c. c \<noteq> CHR ''/'') (rev path)
     in rest = [] \<or> tl rest = [] \<or> rev (tl rest) \<in> set (fs_dirs fs))"

text \<open>\<^verbatim>\<open>stat\<close>: nothing there, a directory, or something else.\<close>

datatype path_kind = Missing | Directory | Other

definition fs_stat :: "filesystem \<Rightarrow> string \<Rightarrow> path_kind" where
  "fs_stat fs path = (if path \<in> set (fs_dirs fs) then Directory
     else if map_of (fs_files fs) path \<noteq> None then Other else Missing)"

definition fs_mkdir :: "string \<Rightarrow> filesystem \<Rightarrow> bool \<times> filesystem" where
  "fs_mkdir path fs =
     (if fs_stat fs path = Missing \<and> path \<noteq> [] \<and> parent_exists fs path \<and> fs_may_create fs path
      then (True, fs\<lparr>fs_dirs := path # fs_dirs fs\<rparr>) else (False, fs))"

text \<open>Opening for writing creates the file or truncates it.\<close>

definition fs_open_out :: "string \<Rightarrow> filesystem \<Rightarrow> bool \<times> filesystem" where
  "fs_open_out path fs =
     (if fs_stat fs path \<noteq> Directory \<and> parent_exists fs path \<and> fs_may_create fs path
      then (True, fs\<lparr>fs_files := om_update path [] (fs_files fs)\<rparr>) else (False, fs))"

definition fs_append :: "string \<Rightarrow> string \<Rightarrow> filesystem \<Rightarrow> filesystem" where
  "fs_append path txt fs =
     fs\<lparr>fs_files := om_update path ((case map_of (fs_files fs) path of Some t \<Rightarrow> t | None \<Rightarrow> []) @ txt) (fs_files fs)\<rparr>"

definition fs_remove :: "string \<Rightarrow> filesystem \<Rightarrow> filesystem" where
  "fs_remove path fs = fs\<lparr>fs_files := om_delete path (fs_files fs)\<rparr>"

definition fs_rename :: "string \<Rightarrow> string \<Rightarrow> filesystem \<Rightarrow> bool \<times> filesystem" where
  "fs_rename src dst fs =
     (case map_of (fs_files fs) src of
        None \<Rightarrow> (False, fs)
      | Some t \<Rightarrow>
          if fs_stat fs dst = Directory \<or> \<not> parent_exists fs dst \<or> \<not> fs_may_create fs dst then (False, fs)
          else (True, fs\<lparr>fs_files := om_update dst t (om_delete src (fs_files fs))\<rparr>))"

section \<open>The export\<close>

type_synonym exporter = "engine \<times> filesystem"

definition on_store :: "(engine, 'a) comp \<Rightarrow> (exporter, 'a) comp" where
  "on_store m = (\<lambda>(e, fs). case m e of (r, e') \<Rightarrow> (r, e', fs))"

definition on_files :: "(filesystem \<Rightarrow> 'a \<times> filesystem) \<Rightarrow> (exporter, 'a) comp" where
  "on_files f = (\<lambda>(e, fs). case f fs of (x, fs') \<Rightarrow> (Ret x, e, fs'))"

definition write_file :: "string \<Rightarrow> string \<Rightarrow> (exporter, unit) comp" where
  "write_file path txt = on_files (\<lambda>fs. ((), fs_append path txt fs))"

text \<open>The directory of the path is made when it is missing; \<open>Some s\<close> is an early return.\<close>

definition prepare_directory :: "string \<Rightarrow> (exporter, status option) comp" where
  "prepare_directory exportPath =
     (case directory_of exportPath of
        None \<Rightarrow> returnM None
      | Some directory \<Rightarrow>
          bindM (on_files (\<lambda>fs. (fs_stat fs (c_string directory), fs))) (\<lambda>kind.
            if kind = Missing then
              bindM (on_files (fs_mkdir (c_string directory))) (\<lambda>made.
                returnM (if made then None else Some (IOError (''Failed to create directory: '' @ directory))))
            else if kind \<noteq> Directory
            then returnM (Some (IOError (''Path exists but is not a directory: '' @ directory)))
            else returnM None))"

text \<open>The text of one stored value: \<^verbatim>\<open>json::from_msgpack(value)["data"].dump(4)\<close>.\<close>

definition export_value :: "(json \<Rightarrow> string outcome) \<Rightarrow> string \<Rightarrow> string outcome" where
  "export_value dump bytes = bindO (from_msgpack bytes) (\<lambda>j. bindO (index_read ''data'' j) dump)"

function export_entries :: "(json \<Rightarrow> string outcome) \<Rightarrow> string \<Rightarrow> bool \<Rightarrow> iter \<Rightarrow> (exporter, unit) comp" where
  "export_entries dump path is_first it =
     (if iter_Valid it then
        bindM (if is_first then returnM () else write_file path '',\<newline>'') (\<lambda>_.
        bindM (liftO (export_value dump (iter_value it))) (\<lambda>txt.
        bindM (write_file path txt) (\<lambda>_.
          export_entries dump path False (iter_Next it))))
      else returnM ())"
  by pat_completeness auto
termination by (relation "measure (\<lambda>(dump, path, is_first, it). left_fwd it)") (auto simp: left_fwd_Next)

declare export_entries.simps [simp del]

text \<open>The last part: the iterator's status decides whether the temporary file replaces the final one.\<close>

definition finish_export :: "string \<Rightarrow> string \<Rightarrow> rstatus \<Rightarrow> (exporter, status) comp" where
  "finish_export temp_file final_file s =
     (if s \<noteq> ROk then
        bindM (on_files (\<lambda>fs. ((), fs_remove (c_string temp_file) fs))) (\<lambda>_.
          returnM (InternalError ''Unable to export json file''))
      else
        bindM (on_files (\<lambda>fs. ((), fs_remove (c_string final_file) fs))) (\<lambda>_.
        bindM (on_files (fs_rename (c_string temp_file) (c_string final_file))) (\<lambda>renamed.
          returnM (if renamed then StatusOK else IOError ''Failed to rename dump file to final JSON file''))))"

definition write_array :: "(json \<Rightarrow> string outcome) \<Rightarrow> string \<Rightarrow> string \<Rightarrow> string \<Rightarrow> (exporter, status) comp" where
  "write_array dump collection temp_file final_file =
     bindM (write_file (c_string temp_file) ''[\<newline>'') (\<lambda>_.
     bindM (on_store getM) (\<lambda>e. case map_of (columnFamilies e) collection of
         None \<Rightarrow> returnM (collection_not_found collection)
       | Some h \<Rightarrow>
           bindM (on_store (dbcall (rocks_iterator h))) (\<lambda>it.
           bindM (export_entries dump (c_string temp_file) True (SeekToFirst it)) (\<lambda>_.
           bindM (write_file (c_string temp_file) ''\<newline>]'') (\<lambda>_.
             finish_export temp_file final_file (it_status it))))))"

definition exportAllToJson :: "(json \<Rightarrow> string outcome) \<Rightarrow> string \<Rightarrow> string \<Rightarrow> (exporter, status) comp" where
  "exportAllToJson dump collection exportPath =
     bindM (prepare_directory exportPath) (\<lambda>early. case early of
         Some s \<Rightarrow> returnM s
       | None \<Rightarrow>
           let temp_file = exportPath @ ''/'' @ collection @ ''.dump'';
               final_file = exportPath @ ''/'' @ collection @ ''.json'' in
           bindM (on_files (fs_open_out (c_string temp_file))) (\<lambda>is_open.
             if \<not> is_open then returnM (IOError (''Failed to open file for writing: '' @ temp_file))
             else write_array dump collection temp_file final_file))"

section \<open>Lemmas\<close>

text \<open>The text of an array: the parts with commas between them.\<close>

fun joined :: "bool \<Rightarrow> string list \<Rightarrow> string" where
  "joined is_first [] = []"
| "joined is_first (t # ts) = (if is_first then [] else '',\<newline>'') @ t @ joined False ts"

lemma append_run: "map_of (fs_files fs) path = Some t \<Longrightarrow>
    write_file path txt (e, fs) = (Ret (), e, fs\<lparr>fs_files := om_update path (t @ txt) (fs_files fs)\<rparr>)"
  by (simp add: write_file_def on_files_def fs_append_def)

lemma om_update_twice: "om_update k w (om_update k v m) = om_update k w m"
  by (induction k v m rule: om_update.induct) auto

lemma append_set_run:
  "write_file path txt (e, fs\<lparr>fs_files := om_update path t m\<rparr>) = (Ret (), e, fs\<lparr>fs_files := om_update path (t @ txt) m\<rparr>)"
  by (simp add: write_file_def on_files_def fs_append_def om_lookup_update om_update_twice)

lemma export_entries_run:
  "list_all2 (\<lambda>p txt. export_value dump (snd p) = Ret txt) (ahead it) txts \<Longrightarrow>
    export_entries dump path is_first it (e, fs\<lparr>fs_files := om_update path t m\<rparr>) =
      (Ret (), e, fs\<lparr>fs_files := om_update path (t @ joined is_first txts) m\<rparr>)"
proof (induction txts arbitrary: it t is_first)
  case Nil
  then have "\<not> iter_Valid it" by (simp add: Valid_ahead)
  then show ?case by (simp add: export_entries.simps returnM_def)
next
  case (Cons s txts)
  then have v: "iter_Valid it" by (auto simp: Valid_ahead)
  note a = ahead_Valid [OF v]
  have n: "list_all2 (\<lambda>p txt. export_value dump (snd p) = Ret txt) (ahead (iter_Next it)) txts"
    and x: "export_value dump (iter_value it) = Ret s"
    using Cons.prems unfolding a by (simp_all add: iter_value_def)
  show ?case
    using v x Cons.IH [OF n] by (subst export_entries.simps) (simp add: bindM_def returnM_def liftO_def append_set_run)
qed

lemma export_value_document:
  assumes "Document_from_msgpack bs = Ret d"
  shows "export_value dump bs = dump (doc_data d)"
proof (cases "from_msgpack bs")
  case (Ret j)
  with assms show ?thesis
    by (cases "index_read ''_id'' j"; cases "index_read ''data'' j")
      (auto simp: Document_from_msgpack_def export_value_def bindO_Undef elim: bindO.elims)
qed (use assms in \<open>simp_all add: Document_from_msgpack_def\<close>)

text \<open>Paths that can be passed to the system: without a zero byte.\<close>

definition no_zero :: "string \<Rightarrow> bool" where
  "no_zero s = (char_of (0 :: nat) \<notin> set s)"

lemma c_string_id: "no_zero s \<Longrightarrow> c_string s = s"
  unfolding c_string_def no_zero_def by (rule takeWhile_eq_all_conv [THEN iffD2]) auto

lemma zero_char: "char_of (0 :: nat) \<noteq> CHR ''/''" "char_of (0 :: nat) \<noteq> CHR ''.''"
  "no_zero ''.dump''" "no_zero ''.json''"
  by code_simp+

definition simple_name :: "string \<Rightarrow> bool" where
  "simple_name n = (no_zero n \<and> CHR ''/'' \<notin> set n)"

lemma no_zero_file:
  "no_zero p \<Longrightarrow> simple_name n \<Longrightarrow> no_zero (p @ ''/'' @ n @ ''.dump'')" "no_zero p \<Longrightarrow> simple_name n \<Longrightarrow> no_zero (p @ ''/'' @ n @ ''.json'')"
  using zero_char by (auto simp: no_zero_def simple_name_def)

lemma parent_exists_file:
  assumes "p \<in> set (fs_dirs fs)" "CHR ''/'' \<notin> set n" "CHR ''/'' \<notin> set x"
  shows "parent_exists fs (p @ ''/'' @ n @ x)"
proof -
  have "dropWhile (\<lambda>c. c \<noteq> CHR ''/'') (rev (p @ ''/'' @ n @ x)) = CHR ''/'' # rev p"
    using assms(2,3) by (simp add: dropWhile_append)
  then show ?thesis using assms(1) by (simp add: parent_exists_def Let_def)
qed

text \<open>A directory to export to: it and its parent exist, and the two files can be made there.\<close>

definition export_ready :: "filesystem \<Rightarrow> string \<Rightarrow> string \<Rightarrow> bool" where
  "export_ready fs path name = (no_zero path \<and> simple_name name \<and> path \<in> set (fs_dirs fs) \<and> om_ok (fs_files fs) \<and>
     (case directory_of path of None \<Rightarrow> True | Some d \<Rightarrow> d \<in> set (fs_dirs fs)) \<and>
     (\<forall>x \<in> {''.dump'', ''.json''}. fs_may_create fs (path @ ''/'' @ name @ x) \<and> path @ ''/'' @ name @ x \<notin> set (fs_dirs fs)))"

lemma set_dropWhile_subset: "set (dropWhile P xs) \<subseteq> set xs"
  using set_dropWhileD by fast

lemma set_tl_subset: "set (tl xs) \<subseteq> set xs"
  by (cases xs) auto

lemma directory_of_no_zero: "no_zero path \<Longrightarrow> directory_of path = Some d \<Longrightarrow> no_zero d"
proof -
  assume z: "no_zero path" and d: "directory_of path = Some d"
  let ?r = "dropWhile (\<lambda>c. c \<noteq> CHR ''/'' \<and> c \<noteq> CHR 0x5C) (rev path)"
  have "d = rev (tl ?r)" using d by (auto simp: directory_of_def Let_def split: if_splits)
  then have "set d = set (tl ?r)" by simp
  also have "\<dots> \<subseteq> set ?r" by (rule set_tl_subset)
  also have "\<dots> \<subseteq> set (rev path)" by (rule set_dropWhile_subset)
  finally have "set d \<subseteq> set path" by simp
  with z show "no_zero d" by (auto simp: no_zero_def)
qed

lemma prepare_directory_ready:
  assumes "no_zero path" "case directory_of path of None \<Rightarrow> True | Some d \<Rightarrow> d \<in> set (fs_dirs fs)"
  shows "prepare_directory path (e, fs) = (Ret None, e, fs)"
  using assms directory_of_no_zero [OF assms(1)]
  by (auto simp: prepare_directory_def bindM_def on_files_def fs_stat_def c_string_id returnM_def split: option.splits)

section \<open>Properties of the export\<close>

text \<open>C34: the export. On a working store, into an existing directory, \<^verbatim>\<open>exportAllToJson\<close> succeeds: the file
  \<^verbatim>\<open><path>/<collection>.json\<close> holds the array of the data of all documents in the order of their
  identifiers, as \<^verbatim>\<open>dump\<close> prints them; the temporary file is gone, every other file and the database
  are as they were.\<close>

theorem exportAllToJson_writes:
  assumes "live e" "tables e name = Some m" "export_ready fs path name"
    and "list_all2 (\<lambda>p txt. \<exists>d. Document_from_msgpack (snd p) = Ret d \<and> dump (doc_data d) = Ret txt) m txts"
  shows "\<exists>fs'. exportAllToJson dump name path (e, fs) = (Ret StatusOK, e, fs') \<and>
    map_of (fs_files fs') = (map_of (fs_files fs))(path @ ''/'' @ name @ ''.dump'' := None,
      path @ ''/'' @ name @ ''.json'' \<mapsto> ''[\<newline>'' @ joined True txts @ ''\<newline>]'')"
proof -
  let ?t = "path @ ''/'' @ name @ ''.dump''" and ?f = "path @ ''/'' @ name @ ''.json''"
  note r = assms(3) [unfolded export_ready_def]
  have c: "c_string ?t = ?t" "c_string ?f = ?f" using r no_zero_file by (simp_all only: c_string_id)
  have x: "CHR ''/'' \<notin> set ''.dump''" "CHR ''/'' \<notin> set ''.json''" by simp_all
  have n: "CHR ''/'' \<notin> set name" using r by (simp add: simple_name_def)
  have p: "parent_exists fs ?t" "parent_exists fs ?f"
    using r by (blast intro: parent_exists_file [OF _ n x(1)] parent_exists_file [OF _ n x(2)])+
  have pd: "prepare_directory path (e, fs) = (Ret None, e, fs)" using r by (intro prepare_directory_ready) blast+
  have nd: "fs_stat fs ?t \<noteq> Directory" "?f \<notin> set (fs_dirs fs)" using r by (auto simp: fs_stat_def)
  then have op: "fs_open_out ?t fs = (True, fs\<lparr>fs_files := om_update ?t [] (fs_files fs)\<rparr>)"
    using p r by (simp add: fs_open_out_def)
  obtain h where h: "map_of (columnFamilies e) name = Some h" using tables_SomeE [OF liveD(1) [OF assms(1)] assms(2)] by blast
  obtain it where it: "dbcall (rocks_iterator h) e = (Ret it, e)" "it_items it = m" "it_status it = ROk"
    using rocks_iterator_run [OF liveD(1) [OF assms(1)] assms(2)] h liveD(2) [OF assms(1)] by auto
  have l: "list_all2 (\<lambda>p txt. export_value dump (snd p) = Ret txt) (ahead (SeekToFirst it)) txts"
    unfolding ahead_SeekToFirst it(2) using assms(4) by (rule list_all2_mono) (use export_value_document in fastforce)
  let ?txt = "''[\<newline>'' @ joined True txts @ ''\<newline>]''" and ?m = "fs_files fs"
  have ne: "?t \<noteq> ?f" by simp
  let ?fs = "fs\<lparr>fs_files := om_delete ?f (om_update ?t ?txt ?m)\<rparr>"
  have ok: "om_ok (om_update ?t ?txt ?m)" "om_ok (om_delete ?f (om_update ?t ?txt ?m))" using r by (simp_all add: om_ok_update om_ok_delete)
  have pe: "parent_exists ?fs ?f" using p(2) by (simp add: parent_exists_def)
  have rn: "fs_rename ?t ?f ?fs = (True, fs\<lparr>fs_files := om_update ?f ?txt (om_delete ?t (om_delete ?f (om_update ?t ?txt ?m)))\<rparr>)"
    using ok ne nd(2) pe r by (simp add: fs_rename_def om_lookup_delete om_lookup_update fs_stat_def)
  have w: "write_array dump name ?t ?f (e, fs\<lparr>fs_files := om_update ?t [] ?m\<rparr>) =
      (Ret StatusOK, e, fs\<lparr>fs_files := om_update ?f ?txt (om_delete ?t (om_delete ?f (om_update ?t ?txt ?m)))\<rparr>)"
    unfolding write_array_def c finish_export_def
    using h it export_entries_run [OF l] rn
    by (simp add: bindM_def append_set_run on_store_def getM_def on_files_def fs_remove_def returnM_def)
  have "exportAllToJson dump name path (e, fs) =
      (Ret StatusOK, e, fs\<lparr>fs_files := om_update ?f ?txt (om_delete ?t (om_delete ?f (om_update ?t ?txt ?m)))\<rparr>)"
    unfolding exportAllToJson_def Let_def c using pd op w by (simp add: bindM_def on_files_def)
  moreover have "map_of (om_update ?f ?txt (om_delete ?t (om_delete ?f (om_update ?t ?txt ?m)))) =
      (map_of ?m)(?t := None, ?f \<mapsto> ?txt)"
    using ok ne by (auto simp: om_lookup_update om_lookup_delete fun_eq_iff)
  ultimately show ?thesis by auto
qed

lemma indexed_db_table: "\<exists>bs. tables indexed_db ''users'' = Some [(''d1'', bs)] \<and> Document_from_msgpack bs = Ret (normal (prepared 0 [] sample))"
proof -
  note v = index_invD [OF indexed_db(2)]
  obtain m where m: "tables indexed_db ''users'' = Some m" using v(3) by blast
  have om: "om_ok m" by (rule tables_ok [OF v(2) m])
  have st: "map_option Document_from_msgpack (map_of m i) = (if i = ''d1'' then Some (Ret (normal (prepared 0 [] sample))) else None)" for i
    using indexed_db(4) [of i] m by (simp add: stored_def)
  from st [of "''d1''"] obtain bs where bs: "map_of m ''d1'' = Some bs" "Document_from_msgpack bs = Ret (normal (prepared 0 [] sample))"
    by auto
  have "map_of m i = None \<longleftrightarrow> i \<noteq> ''d1''" for i using st [of i] bs(1) by (cases "map_of m i") (auto split: if_splits)
  then have "fst ` set m = {''d1''}" using map_of_eq_None_iff [of m] by blast
  then have "map fst m = [''d1'']" using om_ok_distinct [OF om] by (cases m; cases "tl m") auto
  then have "m = [(''d1'', bs)]" using bs(1) by (cases m) auto
  then show ?thesis using m bs(2) by blast
qed

theorem exportAllToJson_writes_witness:
  "\<exists>fs'. exportAllToJson (\<lambda>_. Ret ''{}'') ''users'' ''out''
      (indexed_db, \<lparr>fs_dirs = [''out''], fs_files = [], fs_may_create = (\<lambda>_. True)\<rparr>) = (Ret StatusOK, indexed_db, fs') \<and>
    map_of (fs_files fs') ''out/users.json'' = Some ''[\<newline>{}\<newline>]''"
proof -
  let ?fs = "\<lparr>fs_dirs = [''out''], fs_files = [], fs_may_create = (\<lambda>_. True)\<rparr>"
  have z: "no_zero ''out''" "simple_name ''users''" by code_simp+
  then have r: "export_ready ?fs ''out'' ''users''" by (simp add: export_ready_def directory_of_def)
  obtain bs where bs: "tables indexed_db ''users'' = Some [(''d1'', bs)]" "Document_from_msgpack bs = Ret (normal (prepared 0 [] sample))"
    using indexed_db_table by blast
  have l: "list_all2 (\<lambda>p t. \<exists>d. Document_from_msgpack (snd p) = Ret d \<and> (\<lambda>_. Ret ''{}'') (doc_data d) = Ret t) [(''d1'', bs)] [''{}'']"
    using bs(2) by simp
  show ?thesis using exportAllToJson_writes [OF index_invD(1) [OF indexed_db(2)] bs(1) r l] by auto
qed

lemma directory_of_length: "directory_of path = Some d \<Longrightarrow> length d < length path"
proof -
  let ?r = "dropWhile (\<lambda>c. c \<noteq> CHR ''/'' \<and> c \<noteq> CHR 0x5C) (rev path)"
  assume "directory_of path = Some d"
  then have r: "?r \<noteq> []" "d = rev (tl ?r)" by (auto simp: directory_of_def Let_def split: if_splits)
  have "length ?r \<le> length (rev path)" by (rule length_dropWhile_le)
  moreover have "0 < length ?r" using r(1) by (simp only: length_greater_0_conv not_False_eq_True)
  ultimately show ?thesis by (simp only: r(2) length_rev length_tl)
qed

lemma prepare_directory_other:
  assumes "no_zero path"
  shows "\<exists>r fs'. prepare_directory path (e, fs) = (Ret r, e, fs') \<and> fs_files fs' = fs_files fs \<and>
    (path \<in> set (fs_dirs fs') \<longrightarrow> path \<in> set (fs_dirs fs)) \<and> (\<forall>s. r = Some s \<longrightarrow> \<not> ok s)"
proof (cases "directory_of path")
  case (Some d)
  note c = c_string_id [OF directory_of_no_zero [OF assms Some]] and l = directory_of_length [OF Some]
  show ?thesis
    using Some l by (auto simp: prepare_directory_def bindM_def on_files_def returnM_def c fs_mkdir_def)
qed (simp add: prepare_directory_def returnM_def)

text \<open>An export needs its directory. The code makes only the part of the path before the last slash, so
  when the directory itself is missing the export fails with an error status, and no file is written.\<close>

theorem exportAllToJson_missing_directory:
  assumes "no_zero path" "simple_name name" "path \<noteq> []" "path \<notin> set (fs_dirs fs)"
  shows "\<exists>s fs'. exportAllToJson dump name path (e, fs) = (Ret s, e, fs') \<and> \<not> ok s \<and> fs_files fs' = fs_files fs"
proof -
  obtain r fs' where p: "prepare_directory path (e, fs) = (Ret r, e, fs')" "fs_files fs' = fs_files fs"
    "path \<notin> set (fs_dirs fs')" "\<And>s. r = Some s \<Longrightarrow> \<not> ok s"
    using prepare_directory_other [OF assms(1), of e fs] assms(4) by auto
  have x: "CHR ''/'' \<notin> set (name @ ''.dump'')" using assms(2) by (simp add: simple_name_def)
  then have "dropWhile (\<lambda>c. c \<noteq> CHR ''/'') (rev (path @ ''/'' @ name @ ''.dump'')) = CHR ''/'' # rev path"
    by (simp add: dropWhile_append)
  then have "\<not> parent_exists fs' (path @ ''/'' @ name @ ''.dump'')"
    using p(3) assms(3) by (simp add: parent_exists_def Let_def)
  then have "fs_open_out (c_string (path @ ''/'' @ name @ ''.dump'')) fs' = (False, fs')"
    by (simp only: c_string_id [OF no_zero_file(1) [OF assms(1,2)]]) (simp add: fs_open_out_def)
  then show ?thesis
    using p by (cases r) (simp_all add: exportAllToJson_def bindM_def on_files_def Let_def returnM_def)
qed

theorem exportAllToJson_missing_directory_witness:
  "\<exists>s fs'. exportAllToJson (\<lambda>_. Ret ''{}'') ''users'' ''data/out''
      (indexed_db, \<lparr>fs_dirs = [''data''], fs_files = [], fs_may_create = (\<lambda>_. True)\<rparr>) = (Ret s, indexed_db, fs') \<and> \<not> ok s"
proof -
  have "no_zero ''data/out''" "simple_name ''users''" by code_simp+
  from exportAllToJson_missing_directory [OF this, of "\<lparr>fs_dirs = [''data''], fs_files = [], fs_may_create = (\<lambda>_. True)\<rparr>"
      "\<lambda>_. Ret ''{}''" indexed_db]
  show ?thesis by auto
qed

end
