(* ===== verification/Anu_Keeps.thy ===== *)
theory Anu_Keeps
  imports Anu_Export
begin

text \<open>
  Invariants of the engine that every operation of a collection keeps, whatever the store answers and
  also when the operation throws half way (nothing is said of a state after undefined behaviour). The interface \<open>engine_invariant\<close> lists the engine operations
  a collection calls; the operations of the collection are compositions of them, so each keeps every
  such invariant. It is interpreted on the engine's own invariant and on that of a working store.
\<close>

definition keeps :: "('s \<Rightarrow> bool) \<Rightarrow> ('s, 'a) comp \<Rightarrow> bool" where
  "keeps I m = (\<forall>s. I s \<longrightarrow> fst (m s) \<noteq> Undef \<longrightarrow> I (snd (m s)))"

named_theorems keeps_intros \<open>computations that keep an invariant\<close>

lemma keepsD: "keeps I m \<Longrightarrow> I s \<Longrightarrow> fst (m s) \<noteq> Undef \<Longrightarrow> I (snd (m s))"
  by (simp add: keeps_def)

lemma keepsI: "(\<And>s. I s \<Longrightarrow> I (snd (m s))) \<Longrightarrow> keeps I m"
  by (simp add: keeps_def)

lemma keeps_return [keeps_intros]: "keeps I (returnM x)" "keeps I (liftO r)" "keeps I getM" "keeps I undefM"
  by (simp_all add: keeps_def returnM_def liftO_def getM_def undefM_def)

lemma keeps_bind [keeps_intros]:
  assumes "keeps I m" "\<And>x. keeps I (f x)"
  shows "keeps I (bindM m f)"
  unfolding keeps_def
proof (intro allI impI)
  fix s assume s: "I s" "fst (bindM m f s) \<noteq> Undef"
  obtain r s' where m: "m s = (r, s')" by force
  show "I (snd (bindM m f s))"
    using keepsD [OF assms(1) s(1)] keepsD [OF assms(2), of s'] s(2) m by (cases r) (auto simp: bindM_def)
qed

lemma keeps_catch [keeps_intros]: "keeps I m \<Longrightarrow> (\<And>x. keeps I (h x)) \<Longrightarrow> keeps I (catchM m h)"
  unfolding keeps_def catchM_def by (fastforce split: prod.splits outcome.splits)

lemma keeps_if [keeps_intros]: "(b \<Longrightarrow> keeps I m) \<Longrightarrow> (\<not> b \<Longrightarrow> keeps I m') \<Longrightarrow> keeps I (if b then m else m')"
  by simp

lemma keeps_option [keeps_intros]: "keeps I m \<Longrightarrow> (\<And>x. keeps I (f x)) \<Longrightarrow> keeps I (case o' of None \<Rightarrow> m | Some x \<Rightarrow> f x)"
  by (simp split: option.splits)

lemma keeps_prod [keeps_intros]: "(\<And>x y. keeps I (f x y)) \<Longrightarrow> keeps I (case p of (x, y) \<Rightarrow> f x y)"
  by (simp split: prod.splits)

lemma keeps_let [keeps_intros]: "(\<And>x. keeps I (f x)) \<Longrightarrow> keeps I (let x = t in f x)"
  by simp

text \<open>A computation that starts by reading its state.\<close>

lemma keeps_self: "(\<And>s. keeps I (f s)) \<Longrightarrow> keeps I (\<lambda>s. f s s)"
  by (simp add: keeps_def)

locale engine_invariant =
  fixes I :: "engine \<Rightarrow> bool"
  assumes keeps_put: "keeps I (engine_put c k v)"
    and keeps_get: "keeps I (engine_get c k)"
    and keeps_remove: "keeps I (engine_remove c k)"
    and keeps_create: "keeps I (engine_createCollection c)"
    and keeps_drop: "keeps I (engine_dropCollection c)"
    and keeps_equal: "keeps I (fetchDocIdsForEqual c pre ids)"
    and keeps_greater: "keeps I (fetchDocIdsForGreater c pre ids)"
    and keeps_lesser: "keeps I (fetchDocIdsForLesser c pre ids)"
    and keeps_order: "keeps I (fetchDocIdsByOrder c dir ids)"
    and keeps_cursor: "keeps I (Cursor_new c)"
begin

lemmas engine_keeps = keeps_put keeps_get keeps_remove keeps_create keeps_drop keeps_equal keeps_greater keeps_lesser
  keeps_order keeps_cursor

lemma keeps_putIndex: "keeps I (engine_putIndex c k v)"
  using keeps_put by (simp add: keeps_def engine_putIndex_run)

lemma keeps_entries: "keeps I (insert_entry name d ix)" "keeps I (delete_entry name d ix)"
  unfolding insert_entry_def delete_entry_def insertIfIndexFieldExists_def deleteIfIndexFieldExists_def
  by (intro keeps_intros keeps_putIndex engine_keeps)+

lemma keeps_each_index: "(\<And>ix. keeps I (f ix)) \<Longrightarrow> keeps I (each_index f ixs)"
  by (induction ixs) (auto intro!: keeps_intros)

lemma keeps_createDocument: "keeps I (createDocument name time rands d)"
  unfolding createDocument_def by (intro keeps_intros keeps_each_index keeps_entries engine_keeps)

lemma keeps_readDocument: "keeps I (readDocument name i d)"
  unfolding readDocument_def by (intro keeps_intros engine_keeps)

lemma keeps_deleteDocument: "keeps I (deleteDocument name i)"
  unfolding deleteDocument_def by (intro keeps_intros keeps_readDocument keeps_each_index keeps_entries engine_keeps)

lemma keeps_updateDocument: "keeps I (updateDocument name time rands i u upsert)"
  unfolding updateDocument_def update_and_store_def by (intro keeps_intros keeps_readDocument keeps_createDocument)

lemma keeps_index_documents: "keeps I (index_documents name ix cur)"
proof (induction name ix cur rule: index_documents.induct)
  case (1 name ix cur)
  show ?case
  proof (cases "cur_ok cur \<and> isValid cur")
    case True
    then have "index_documents name ix cur =
        bindM (liftO (cursor_current cur empty_document)) (\<lambda>(s, doc).
          if ok s then bindM (insert_entry name doc ix) (\<lambda>s'.
              if ok s' then index_documents name ix (cursor_next cur) else returnM (Some s'))
          else returnM (Some s))" by (subst index_documents.simps) simp
    moreover have "keeps I (\<dots>)"
      by (intro keeps_intros keeps_entries) (rule 1 [OF True])
    ultimately show ?thesis by simp
  next
    case False
    then have "index_documents name ix cur = returnM None" by (subst index_documents.simps) (simp only: if_False)
    then show ?thesis by (simp add: keeps_intros)
  qed
qed

lemma keeps_createIndex: "keeps I (createIndex name ix)"
  unfolding createIndex_def by (intro keeps_intros keeps_index_documents engine_keeps)

lemma keeps_deleteIndex: "keeps I (deleteIndex name ix)"
  unfolding deleteIndex_def by (intro engine_keeps)

lemma keeps_getIndex: "keeps I (getIndex name ixs)"
  unfolding getIndex_def by (intro keeps_intros)

lemma keeps_drop_indexes: "keeps I (drop_indexes name ixs)"
  by (induction ixs) (auto intro!: keeps_intros keeps_deleteIndex)

lemma keeps_destroy: "keeps I (Collection_destroy name)"
  unfolding Collection_destroy_def by (intro keeps_intros keeps_drop_indexes)

lemma keeps_readAllDocuments: "keeps I (readAllDocuments name limit docs)"
  unfolding readAllDocuments_def
  by (intro keeps_intros engine_keeps) (auto simp: keeps_intros split: prod.splits outcome.splits)

lemma keeps_queries: "keeps I (findDocumentsUsingEq name q ixs ids)" "keeps I (findDocumentsUsingGt name q ixs ids)"
  "keeps I (findDocumentsUsingLt name q ixs ids)"
  unfolding findDocumentsUsingEq_def findDocumentsUsingGt_def findDocumentsUsingLt_def
  by (intro keeps_intros engine_keeps)+

lemma keeps_find_element: "keeps I (find_element name ixs element)"
  unfolding find_element_def by (intro keeps_intros keeps_queries)

lemma keeps_find_items: "keeps I (find_items combine name ixs items found)"
proof (induction combine name ixs items found rule: find_items.induct)
  case (2 combine name ixs item items found)
  have "keeps I (find_elements combine name ixs elems found)" for elems found
    by (induction combine name ixs elems found rule: find_elements.induct) (auto intro!: keeps_intros keeps_find_element)
  with 2 show ?case by (auto intro!: keeps_intros)
qed (simp add: keeps_intros)

lemma keeps_findDocument: "keeps I (findDocument name filterOption)"
proof -
  have "keeps I (find_op name ixs op ids)" for ixs op ids
    unfolding find_op_def by (cases op, simp only: prod.case) (intro keeps_intros keeps_queries keeps_find_items engine_keeps)
  then have "keeps I (find_ops name ixs ops ids)" for ixs ops ids
    by (induction name ixs ops ids rule: find_ops.induct) (auto intro!: keeps_intros)
  then show ?thesis unfolding findDocument_def by (intro keeps_intros)
qed

lemma keeps_import: "keeps I (importFromJsonFile name env path file)"
proof -
  have "keeps I (import_items name env items a b)" for items a b
    by (induction name env items a b rule: import_items.induct) (auto intro!: keeps_intros keeps_createDocument)
  then show ?thesis unfolding importFromJsonFile_def by (intro keeps_intros)
qed

lemmas collection_keeps = keeps_createDocument keeps_readDocument keeps_deleteDocument keeps_updateDocument keeps_createIndex
  keeps_deleteIndex keeps_getIndex keeps_destroy keeps_drop_indexes keeps_readAllDocuments keeps_findDocument keeps_import

end

lemma keeps_put_inv: "keeps engine_inv (engine_put c k v)" "keeps engine_inv (engine_remove c k)"
  using tables_ok by (auto simp: keeps_def engine_put_run engine_remove_run engine_inv_set_table om_ok_update om_ok_delete split: option.splits)

lemma keeps_families_inv: "keeps engine_inv (engine_createCollection c)" "keeps engine_inv (engine_dropCollection c)"
proof -
  show "keeps engine_inv (engine_createCollection c)"
    by (auto simp: keeps_def engine_createCollection_run engine_inv_add_table)
  have "engine_inv (snd (engine_dropCollection default_family e))" if "engine_inv e" for e
    using that engine_invD(5) [OF that] unfolding engine_dropCollection_def with_handle_def bindM_def dbcall_run [OF that] rocks_drop_def answer_eq
    by (auto simp: store_tick returnM_def)
  then show "keeps engine_inv (engine_dropCollection c)"
    by (cases "c = default_family") (auto simp: keeps_def engine_dropCollection_run engine_inv_drop_table split: option.splits)
qed

lemma keeps_lesser_inv: "keeps engine_inv (fetchDocIdsForLesser c pre ids)"
  unfolding keeps_def
proof (intro allI impI)
  fix e assume e: "engine_inv e"
  show "engine_inv (snd (fetchDocIdsForLesser c pre ids e))"
  proof (cases "tables e c")
    case (Some m)
    then show ?thesis using e
      unfolding fetchDocIdsForLesser_def with_handle_run [OF e] bindM_def
      by (auto simp: rocks_iterator_run [OF e] returnM_def liftO_def split: outcome.splits)
  qed (use e in \<open>simp add: fetchDocIdsForLesser_def with_handle_run\<close>)
qed

lemma keeps_cursor_inv: "keeps engine_inv (Cursor_new c)"
  unfolding keeps_def using Cursor_new_run by (metis engine_inv_tick snd_conv)

lemma keeps_reads_inv: "keeps engine_inv (engine_get c k)" "keeps engine_inv (fetchDocIdsForEqual c pre ids)"
  "keeps engine_inv (fetchDocIdsForGreater c pre ids)" "keeps engine_inv (fetchDocIdsByOrder c dir ids)"
  by (auto simp: keeps_def engine_get_run fetchDocIdsForEqual_run fetchDocIdsForGreater_run fetchDocIdsByOrder_run split: option.splits)

interpretation inv: engine_invariant engine_inv
  by unfold_locales (rule keeps_put_inv keeps_families_inv keeps_lesser_inv keeps_cursor_inv keeps_reads_inv)+

text \<open>A store that works goes on working.\<close>

lemma keeps_healthy:
  assumes "keeps engine_inv m" "\<And>e. engine_inv e \<Longrightarrow> healthy e \<Longrightarrow> healthy (snd (m e))"
  shows "keeps live m"
  using assms by (auto simp: keeps_def live_def)

lemma healthy_lesser:
  assumes "engine_inv e" "healthy e"
  shows "healthy (snd (fetchDocIdsForLesser c pre ids e))"
proof (cases "tables e c")
  case (Some m)
  then show ?thesis using assms
    unfolding fetchDocIdsForLesser_def with_handle_run [OF assms(1)] bindM_def
    by (auto simp: rocks_iterator_run [OF assms(1)] returnM_def liftO_def split: outcome.splits)
qed (use assms in \<open>simp add: fetchDocIdsForLesser_def with_handle_run\<close>)

lemma healthy_drop:
  assumes "engine_inv e" "healthy e"
  shows "healthy (snd (engine_dropCollection c e))"
proof (cases "c = default_family")
  case True
  then show ?thesis
    using assms engine_invD(5) [OF assms(1)]
    unfolding engine_dropCollection_def with_handle_def bindM_def dbcall_run [OF assms(1)] rocks_drop_def answer_eq
    by (auto simp: store_tick returnM_def)
qed (use assms in \<open>auto simp: engine_dropCollection_run split: option.splits\<close>)

lemma healthy_cursor: "engine_inv e \<Longrightarrow> healthy e \<Longrightarrow> healthy (snd (Cursor_new c e))"
  using Cursor_new_run [of e c] by (auto simp: healthy_def tick_def)

interpretation live: engine_invariant live
  by unfold_locales
    (rule keeps_healthy keeps_put_inv keeps_families_inv keeps_lesser_inv keeps_cursor_inv keeps_reads_inv,
     rule keeps_put_inv keeps_families_inv keeps_lesser_inv keeps_cursor_inv keeps_reads_inv,
     auto simp: engine_runs healthy_lesser healthy_drop healthy_cursor split: option.splits)+

end
