(* ===== verification/Anu_Handles.thy ===== *)
theory Anu_Handles
  imports Anu_Keeps
begin

text \<open>
  The engine across \<^verbatim>\<open>open\<close> and \<^verbatim>\<open>close\<close>, whatever the store answers. \<open>engine_inv\<close> of \<open>Anu_Engine\<close> holds of an open
  engine with all its handles; \<open>engine_ok\<close> holds also before the first \<^verbatim>\<open>open\<close>, after \<^verbatim>\<open>close\<close>, and after a \<^verbatim>\<open>close\<close> that
  RocksDB refused (the handles are gone, the database is still open): every handle is that of a family of the
  store, and there are none while the database is not open. A successful \<^verbatim>\<open>open\<close> gives \<open>engine_inv\<close> again.
\<close>

section \<open>The invariant\<close>

definition store_ok :: "rocks \<Rightarrow> bool" where
  "store_ok r = (om_ok (families r) \<and> (\<forall>h c kv. family h r = Some (c, kv) \<longrightarrow> om_ok kv \<and> h < next_family r) \<and>
     (\<forall>h h' c kv kv'. family h r = Some (c, kv) \<longrightarrow> family h' r = Some (c, kv') \<longrightarrow> h = h') \<and>
     (created r \<longrightarrow> map_option fst (family 0 r) = Some default_family))"

definition handles_ok :: "(string, nat) omap \<Rightarrow> rocks \<Rightarrow> bool" where
  "handles_ok m r = (om_ok m \<and> (\<forall>c h. map_of m c = Some h \<longrightarrow> (\<exists>kv. family h r = Some (c, kv))))"

definition engine_ok :: "engine \<Rightarrow> bool" where
  "engine_ok e = (store_ok (store e) \<and> handles_ok (columnFamilies e) (store e) \<and> (db_ptr e = Opened \<longleftrightarrow> locked (store e)) \<and>
     (db_ptr e = Opened \<longrightarrow> created (store e)) \<and> (db_ptr e \<noteq> Opened \<longrightarrow> columnFamilies e = []))"

text \<open>A call of the store that keeps its families, their handles and its locks.\<close>

definition keeps_families :: "rocks \<Rightarrow> rocks \<Rightarrow> bool" where
  "keeps_families r r' = (store_ok r' \<and> created r' = created r \<and> locked r' = locked r \<and>
     (\<forall>h c kv. family h r = Some (c, kv) \<longrightarrow> (\<exists>kv'. family h r' = Some (c, kv'))))"

lemma store_okD:
  assumes "store_ok r"
  shows "om_ok (families r)" "family h r = Some (c, kv) \<Longrightarrow> om_ok kv" "family h r = Some (c, kv) \<Longrightarrow> h < next_family r"
    "family h r = Some (c, kv) \<Longrightarrow> family h' r = Some (c, kv') \<Longrightarrow> h = h'" "created r \<Longrightarrow> \<exists>kv. family 0 r = Some (default_family, kv)"
  using assms unfolding store_ok_def by (blast, blast, blast, blast, auto)

lemma family_fields [simp]:
  "family h (r\<lparr>faults := fs\<rparr>) = family h r" "family h (r\<lparr>locked := b\<rparr>) = family h r" "family h (r\<lparr>created := b\<rparr>) = family h r"
  "family h (r\<lparr>next_family := n\<rparr>) = family h r"
  by (simp_all add: family_def)

lemma store_ok_fields [simp]: "store_ok (r\<lparr>faults := fs\<rparr>) = store_ok r" "store_ok (r\<lparr>locked := b\<rparr>) = store_ok r"
  by (simp_all add: store_ok_def)

lemma handles_ok_fields [simp]: "handles_ok m (r\<lparr>faults := fs\<rparr>) = handles_ok m r" "handles_ok m (r\<lparr>locked := b\<rparr>) = handles_ok m r"
  by (simp_all add: handles_ok_def)

lemma answer_cases: obtains s fs where "answer r = (s, r\<lparr>faults := fs\<rparr>)"
proof (cases "faults r")
  case Nil
  then have "r\<lparr>faults := []\<rparr> = r" by simp
  then show thesis using that [of ROk "[]"] Nil by (simp add: answer_def)
next
  case (Cons s ss)
  then show thesis using that [of s ss] by (simp add: answer_def)
qed

lemma keeps_families_faults: "store_ok r \<Longrightarrow> keeps_families r (r\<lparr>faults := fs\<rparr>)"
  by (simp add: keeps_families_def)

lemma keeps_families_write:
  assumes "store_ok r" "\<And>kv. om_ok kv \<Longrightarrow> om_ok (f kv)"
  shows "keeps_families r (snd (rocks_write h f r))"
proof (rule answer_cases [of r])
  fix s fs assume a: "answer r = (s, r\<lparr>faults := fs\<rparr>)"
  show ?thesis
  proof (cases "s = ROk")
    case True
    show ?thesis
    proof (cases "family h r")
      case (Some p)
      obtain c kv where p: "p = (c, kv)" by force
      let ?r = "r\<lparr>faults := fs\<rparr>"
      let ?r' = "?r\<lparr>families := om_update h (c, f kv) (families r)\<rparr>"
      have "snd (rocks_write h f r) = ?r'" using a True Some p by (simp add: rocks_write_def)
      moreover have fw: "family h' ?r' = (if h' = h then Some (c, f kv) else family h' r)" for h'
        by (simp add: family_def om_lookup_update)
      moreover have "store_ok ?r'"
        using store_okD [OF assms(1)] assms(2) Some p unfolding store_ok_def
        by (auto simp: fw om_ok_update split: if_splits dest: store_okD(4) [OF assms(1)])
      ultimately show ?thesis using Some p by (auto simp: keeps_families_def)
    qed (use a True assms(1) keeps_families_faults in \<open>simp add: rocks_write_def\<close>)
  qed (use a assms(1) keeps_families_faults in \<open>simp add: rocks_write_def\<close>)
qed

lemma keeps_families_read:
  assumes "store_ok r"
  shows "keeps_families r (snd (rocks_get h k r))" "keeps_families r (snd (rocks_iterator h r))"
    "keeps_families r (snd (rocks_flush h r))" "keeps_families r (snd (rocks_sync r))" "keeps_families r (snd (rocks_put h k v r))"
    "keeps_families r (snd (rocks_delete h k r))"
proof -
  obtain s fs where a: "answer r = (s, r\<lparr>faults := fs\<rparr>)" by (rule answer_cases)
  note k = keeps_families_faults [OF assms, of fs]
  show "keeps_families r (snd (rocks_get h k r))"
    using k by (auto simp: rocks_get_def a split: option.split)
  show "keeps_families r (snd (rocks_iterator h r))" "keeps_families r (snd (rocks_flush h r))" "keeps_families r (snd (rocks_sync r))"
    using k by (simp_all add: rocks_iterator_def rocks_flush_def rocks_sync_def a)
  show "keeps_families r (snd (rocks_put h k v r))" "keeps_families r (snd (rocks_delete h k r))"
    using assms by (simp_all add: rocks_put_def rocks_delete_def om_ok_update om_ok_delete keeps_families_write)
qed

section \<open>Operations of the engine\<close>

lemma handles_ok_keeps: "handles_ok m r \<Longrightarrow> keeps_families r r' \<Longrightarrow> handles_ok m r'"
  unfolding handles_ok_def keeps_families_def by blast

lemma keeps_dbcall:
  assumes "\<And>r. store_ok r \<Longrightarrow> keeps_families r (snd (f r))"
  shows "keeps engine_ok (dbcall f)"
  unfolding keeps_def
proof (intro allI impI)
  fix e assume e: "engine_ok e"
  show "engine_ok (snd (dbcall f e))"
  proof (cases "db_ptr e = Opened")
    case True
    have "keeps_families (store e) (snd (f (store e)))" using assms e by (simp add: engine_ok_def)
    then show ?thesis using e True handles_ok_keeps
      by (auto simp: dbcall_def engine_ok_def keeps_families_def split: prod.splits)
  qed (use e in \<open>simp add: dbcall_def\<close>)
qed

lemma keeps_calls [keeps_intros]:
  "keeps engine_ok (dbcall (rocks_get h k))" "keeps engine_ok (dbcall (rocks_iterator h))" "keeps engine_ok (dbcall (rocks_flush h))"
  "keeps engine_ok (dbcall rocks_sync)" "keeps engine_ok (dbcall (rocks_put h k v))" "keeps engine_ok (dbcall (rocks_delete h k))"
  by (rule keeps_dbcall, erule keeps_families_read)+

lemma keeps_with_handle [keeps_intros]: "(\<And>h. keeps I (f h)) \<Longrightarrow> keeps I (with_handle c miss f)"
  by (simp add: keeps_def with_handle_def split: option.splits)

lemma keeps_put_ok: "keeps engine_ok (engine_put c k v)" "keeps engine_ok (engine_get c k)" "keeps engine_ok (engine_remove c k)"
  unfolding engine_put_def engine_get_def engine_remove_def
  by (intro keeps_intros)+

lemma keeps_scans_ok: "keeps engine_ok (fetchDocIdsForEqual c pre ids)" "keeps engine_ok (fetchDocIdsForGreater c pre ids)"
  "keeps engine_ok (fetchDocIdsForLesser c pre ids)" "keeps engine_ok (fetchDocIdsByOrder c dir ids)"
  unfolding fetchDocIdsForEqual_def fetchDocIdsForGreater_def fetchDocIdsForLesser_def fetchDocIdsByOrder_def
  by (intro keeps_intros)+

lemma keeps_cursor_ok: "keeps engine_ok (Cursor_new c)"
  unfolding keeps_def
proof (intro allI impI)
  fix e assume e: "engine_ok e" and u: "fst (Cursor_new c e) \<noteq> Undef"
  have "keeps engine_ok (bindM (dbcall (rocks_iterator h)) (\<lambda>it.
         let it1 = SeekToFirst it in
         returnM \<lparr>cur_collection = c, cur_iter = Some it1, cur_valid = iter_Valid it1\<rparr>))" for h
    by (intro keeps_intros)
  then show "engine_ok (snd (Cursor_new c e))"
    using e u unfolding Cursor_new_def keeps_def by (cases "map_of (columnFamilies e) c") simp_all
qed

text \<open>A new family gets a handle and a name that no family has.\<close>

lemma store_ok_add:
  assumes "store_ok r" "family_named c r = None"
  shows "store_ok (r\<lparr>families := om_update (next_family r) (c, []) (families r), next_family := Suc (next_family r)\<rparr>)"
    (is "store_ok ?r")
proof -
  note o = store_okD [OF assms(1)]
  have f: "family h ?r = (if h = next_family r then Some (c, []) else family h r)" for h
    by (simp add: family_def om_lookup_update)
  have n: "family h r \<noteq> Some (c, kv)" for h kv
    using assms(2) map_of_SomeD [of "families r" h "(c, kv)"]
    by (force simp: family_named_def family_def map_of_eq_None_iff)
  have z: "0 < next_family r" if "created r" using o(5) o(3) that by blast
  show ?thesis
    unfolding store_ok_def f using o n z
    by (auto simp: om_ok_update less_SucI split: if_splits dest: o(4))
qed

lemma keeps_create_ok: "keeps engine_ok (engine_createCollection c)"
  unfolding keeps_def
proof (intro allI impI)
  fix e assume e: "engine_ok e" and u: "fst (engine_createCollection c e) \<noteq> Undef"
  show "engine_ok (snd (engine_createCollection c e))"
  proof (cases "map_of (columnFamilies e) c")
    case None
    have o: "db_ptr e = Opened" using u None by (auto simp: engine_createCollection_def bindM_def dbcall_def split: if_splits)
    obtain s fs where a: "answer (store e) = (s, (store e)\<lparr>faults := fs\<rparr>)" by (rule answer_cases)
    let ?r = "(store e)\<lparr>faults := fs\<rparr>"
    show ?thesis
    proof (cases "s = ROk \<and> family_named c ?r = None")
      case True
      let ?r' = "?r\<lparr>families := om_update (next_family (store e)) (c, []) (families (store e)), next_family := Suc (next_family (store e))\<rparr>"
      have so: "store_ok ?r" using e by (simp add: engine_ok_def)
      have f: "family h ?r' = (if h = next_family (store e) then Some (c, []) else family h (store e))" for h
        by (simp add: family_def om_lookup_update)
      have k: "\<exists>kv. family h ?r' = Some (c', kv)" if "family h (store e) = Some (c', kv')" for h c' kv'
        using that store_okD(3) [OF so, of h c' kv'] unfolding f by auto
      have "\<exists>kv. family h ?r' = Some (c', kv)" if m: "map_of (om_update c (next_family (store e)) (columnFamilies e)) c' = Some h" for c' h
      proof (cases "c' = c")
        case True
        then show ?thesis using m f [of h] by (simp add: om_lookup_update)
      next
        case False
        then have "map_of (columnFamilies e) c' = Some h" using m by (simp add: om_lookup_update)
        then have "\<exists>kv. family h (store e) = Some (c', kv)" using e by (simp add: engine_ok_def handles_ok_def)
        then show ?thesis using k by blast
      qed
      then have h: "handles_ok (om_update c (next_family (store e)) (columnFamilies e)) ?r'"
        using e by (simp add: handles_ok_def engine_ok_def om_ok_update)
      have "snd (engine_createCollection c e) = e\<lparr>store := ?r', columnFamilies := om_update c (next_family (store e)) (columnFamilies e),
          ownedHandles := ownedHandles e @ [next_family (store e)]\<rparr>"
        using True None a o by (simp add: engine_createCollection_def bindM_def dbcall_def rocks_create_def)
      then show ?thesis using h store_ok_add [OF so] True e o by (simp add: engine_ok_def)
    next
      case False
      then have "snd (engine_createCollection c e) = e\<lparr>store := ?r\<rparr>"
        using None a o by (auto simp: engine_createCollection_def bindM_def dbcall_def rocks_create_def returnM_def)
      then show ?thesis using e by (simp add: engine_ok_def)
    qed
  qed (use e in \<open>simp add: engine_createCollection_def\<close>)
qed

lemma keeps_drop_ok: "keeps engine_ok (engine_dropCollection c)"
  unfolding keeps_def
proof (intro allI impI)
  fix e assume e: "engine_ok e" and u: "fst (engine_dropCollection c e) \<noteq> Undef"
  show "engine_ok (snd (engine_dropCollection c e))"
  proof (cases "map_of (columnFamilies e) c")
    case (Some h)
    have o: "db_ptr e = Opened" using e Some by (auto simp: engine_ok_def)
    obtain s fs where a: "answer (store e) = (s, (store e)\<lparr>faults := fs\<rparr>)" by (rule answer_cases)
    let ?r = "(store e)\<lparr>faults := fs\<rparr>"
    show ?thesis
    proof (cases "s = ROk \<and> h \<noteq> 0")
      case True
      let ?r' = "?r\<lparr>families := om_delete h (families (store e))\<rparr>"
      have so: "store_ok (store e)" and ho: "handles_ok (columnFamilies e) (store e)" using e by (simp_all add: engine_ok_def)
      have f: "family h' ?r' = (if h' = h then None else family h' (store e))" for h'
        using store_okD(1) [OF so] by (simp add: family_def om_lookup_delete)
      have "store_ok ?r'"
        unfolding store_ok_def f using so True by (auto simp: store_ok_def om_ok_delete split: if_splits)
      moreover have "c' = c" if "map_of (columnFamilies e) c' = Some h" for c'
        using ho that Some unfolding handles_ok_def by (metis option.inject prod.inject)
      then have "handles_ok (om_delete c (columnFamilies e)) ?r'"
        using ho unfolding handles_ok_def f by (auto simp: om_ok_delete om_lookup_delete)
      moreover have "snd (engine_dropCollection c e) = e\<lparr>store := ?r', columnFamilies := om_delete c (columnFamilies e)\<rparr>"
        using True Some a o by (simp add: engine_dropCollection_def with_handle_def bindM_def dbcall_def rocks_drop_def)
      ultimately show ?thesis using e o by (simp add: engine_ok_def)
    next
      case False
      then have "snd (engine_dropCollection c e) = e\<lparr>store := ?r\<rparr>"
        using Some a o by (auto simp: engine_dropCollection_def with_handle_def bindM_def dbcall_def rocks_drop_def returnM_def)
      then show ?thesis using e by (simp add: engine_ok_def)
    qed
  qed (use e in \<open>simp add: engine_dropCollection_def with_handle_def\<close>)
qed

interpretation ok: engine_invariant engine_ok
  by unfold_locales (rule keeps_put_ok keeps_create_ok keeps_drop_ok keeps_scans_ok keeps_cursor_ok)+

section \<open>Closing and opening\<close>

lemma keeps_forM: "(\<And>x. keeps I (f x)) \<Longrightarrow> keeps I (forM f xs)"
  by (induction xs) (auto intro!: keeps_intros)

lemma engine_ok_new: "engine_ok new_engine"
  by (simp add: engine_ok_def new_engine_def store_ok_def handles_ok_def om_ok_def family_def)

lemma handles_ok_empty: "handles_ok [] r"
  by (simp add: handles_ok_def om_ok_def)

lemma keeps_close_ok: "keeps engine_ok engine_close"
  unfolding keeps_def
proof (intro allI impI)
  fix e assume e: "engine_ok e" and u: "fst (engine_close e) \<noteq> Undef"
  show "engine_ok (snd (engine_close e))"
  proof (cases "db_ptr e")
    case Opened
    let ?last = "\<lambda>e1. bindM (dbcall rocks_close) (\<lambda>s. if s \<noteq> ROk then returnM (IOError (r_to_string s))
            else (\<lambda>e2. (Ret StatusOK, e2\<lparr>db_ptr := Null\<rparr>))) (e1\<lparr>columnFamilies := [], ownedHandles := []\<rparr>)"
    have "engine_ok (snd (?last e1))" if e1: "engine_ok e1" for e1
    proof (cases "db_ptr e1 = Opened")
      case True
      obtain s fs where a: "answer (store e1) = (s, (store e1)\<lparr>faults := fs\<rparr>)" by (rule answer_cases)
      then show ?thesis using e1 True
        by (cases "s = ROk") (simp_all add: bindM_def dbcall_def rocks_close_def returnM_def engine_ok_def handles_ok_empty)
    qed (use e1 in \<open>simp add: bindM_def dbcall_def engine_ok_def handles_ok_empty\<close>)
    then have "keeps engine_ok ?last" by (simp add: keeps_def)
    then have k: "keeps engine_ok (bindM (forM (\<lambda>(n, h). bindM (dbcall (rocks_flush h)) (\<lambda>_. returnM ())) (columnFamilies e)) (\<lambda>_.
        bindM (dbcall rocks_sync) (\<lambda>_. ?last)))"
      by (intro keeps_intros keeps_forM)
    have c: "engine_close e = bindM (forM (\<lambda>(n, h). bindM (dbcall (rocks_flush h)) (\<lambda>_. returnM ())) (columnFamilies e)) (\<lambda>_.
        bindM (dbcall rocks_sync) (\<lambda>_. ?last)) e"
      unfolding engine_close_def Opened by (simp only: db_pointer.case)
    show ?thesis unfolding c by (rule keepsD [OF k e u [unfolded c]])
  qed (use e u in \<open>simp_all add: engine_close_def\<close>)
qed

lemma store_ok_names:
  assumes "store_ok r" shows "distinct (family_names r)"
proof -
  note o = store_okD [OF assms]
  have mem: "(h, n, kv) \<in> set (families r) \<longleftrightarrow> family h r = Some (n, kv)" for h n kv
    using o(1) by (simp add: family_def om_lookup_mem)
  have "inj_on (\<lambda>p. fst (snd p)) (set (families r))"
  proof (rule inj_onI)
    fix p q assume pq: "p \<in> set (families r)" "q \<in> set (families r)" "fst (snd p) = fst (snd q)"
    obtain h n kv h' n' kv' where "p = (h, n, kv)" "q = (h', n', kv')" by (cases p; cases q) auto
    then show "p = q" using pq o(4) [of h n kv h' kv'] mem by (metis fst_conv snd_conv option.inject prod.inject)
  qed
  then show ?thesis using om_ok_distinct [OF o(1)] by (simp add: family_names_def distinct_map)
qed

text \<open>Opening all families of a store that is in order.\<close>

lemma opened_handles:
  assumes "store_ok r" "created r" "distinct names" "set (family_names r) \<subseteq> set names" "list_all (\<lambda>n. family_named n r \<noteq> None) names"
  defines "m \<equiv> fold (\<lambda>(n, h). om_update n h) (zip names (map (\<lambda>n. the (family_named n r)) names)) []"
  shows "om_ok m" "map_of m c = Some h \<longleftrightarrow> (\<exists>kv. family h r = Some (c, kv))"
proof -
  note o = store_okD [OF assms(1)] and d = store_ok_names [OF assms(1)]
  let ?z = "zip names (map (\<lambda>n. the (family_named n r)) names)"
  have z: "?z = map (\<lambda>n. (n, the (family_named n r))) names" by (simp add: zip_map2 zip_same_conv_map)
  have dz: "distinct (map fst ?z)" using assms(3) by simp
  show "om_ok m" unfolding m_def by (rule fold_om_update_ok) simp
  have s: "set names = set (family_names r)" using assms(4,5) family_named_names by (auto simp: list_all_iff)
  have "map_of m c = map_of ?z c"
    unfolding m_def fold_om_update_lookup [OF dz] by (cases "map_of ?z c") (simp_all only: option.case map_of.simps)
  also have "\<dots> = family_named c r"
    unfolding z map_of_map_restrict using family_named_names [of c r] s by (auto simp: restrict_map_def)
  finally show "map_of m c = Some h \<longleftrightarrow> (\<exists>kv. family h r = Some (c, kv))"
    using family_named_iff [OF o(1) d] by simp
qed

lemma engine_inv_opened:
  assumes "store_ok (store e)" "created (store e)" "locked (store e)" "db_ptr e = Opened" "om_ok (columnFamilies e)"
    and "\<And>c h. map_of (columnFamilies e) c = Some h \<longleftrightarrow> (\<exists>kv. family h (store e) = Some (c, kv))"
  shows "engine_inv e"
  using assms store_okD [OF assms(1)] unfolding engine_inv_def by (auto intro!: mirrorsI)

lemma engine_inv_ok: "engine_inv e \<Longrightarrow> engine_ok e"
proof -
  assume e: "engine_inv e"
  note i = engine_invD [OF e] and m = mirrorsD [OF engine_invD(4) [OF e]]
  obtain kv where z: "family 0 (store e) = Some (default_family, kv)" using m(4) [OF i(5)] by blast
  have "h = h'" if "family h (store e) = Some (c, kv)" "family h' (store e) = Some (c, kv')" for h h' c kv kv'
    using m(3) [OF that(1)] m(3) [OF that(2)] by simp
  then have "store_ok (store e)" unfolding store_ok_def using i(3) m(1,2) z by (metis (no_types, lifting) fst_conv option.simps(9))
  moreover have "handles_ok (columnFamilies e) (store e)" using i(2) m(4) by (auto simp: handles_ok_def)
  ultimately show "engine_ok e" using i(1) e by (simp add: engine_ok_def engine_inv_def)
qed

text \<open>\<^verbatim>\<open>DB::Open\<close> fails and keeps the store as it is (or has created it), or opens all families.\<close>

lemma rocks_open_cases:
  assumes "store_ok r1"
  obtains s r where "rocks_open names r1 = ((s, []), r)" "s \<noteq> ROk" "keeps_families r1 r \<or> \<not> locked r1 \<and> store_ok r \<and> \<not> locked r"
  | r where "rocks_open names r1 = ((ROk, map (\<lambda>n. the (family_named n r)) names), r\<lparr>locked := True\<rparr>)" "\<not> locked r1" "store_ok r" "created r"
    "set (family_names r) \<subseteq> set names" "list_all (\<lambda>n. family_named n r \<noteq> None) names"
proof -
  obtain s fs where a: "answer r1 = (s, r1\<lparr>faults := fs\<rparr>)" by (rule answer_cases)
  let ?r2 = "r1\<lparr>faults := fs\<rparr>"
  have k: "keeps_families r1 ?r2" by (rule keeps_families_faults [OF assms])
  show thesis
  proof (cases "s = ROk \<and> \<not> locked r1")
    case False
    then show thesis using that(1) a k by (cases "s = ROk") (auto simp: rocks_open_def)
  next
    case True
    define r where "r = (if created ?r2 then ?r2 else ?r2\<lparr>families := [(0, default_family, [])], next_family := 1, created := True\<rparr>)"
    have r: "store_ok r" "created r" "\<not> locked r"
      using assms True unfolding r_def by (auto simp: store_ok_def family_def om_ok_def split: if_splits)
    have "rocks_open names r1 = (if set (family_names r) \<subseteq> set names \<and> list_all (\<lambda>n. family_named n r \<noteq> None) names
        then ((ROk, map (\<lambda>n. the (family_named n r)) names), r\<lparr>locked := True\<rparr>)
        else ((RError ''Invalid argument: Column families not opened'', []), r))"
      using True a by (simp add: rocks_open_def Let_def r_def)
    then show thesis
      using that(1) [of "RError ''Invalid argument: Column families not opened''" r] that(2) [of r] r True by (simp split: if_splits)
  qed
qed

lemma rocks_list_run:
  "\<exists>names fs. rocks_list r = (names, r\<lparr>faults := fs\<rparr>) \<and> (names = [] \<or> names = family_names r)"
proof -
  obtain s fs where a: "answer r = (s, r\<lparr>faults := fs\<rparr>)" by (rule answer_cases)
  have "family_names (r\<lparr>faults := fs\<rparr>) = family_names r" by (simp add: family_names_def)
  then show ?thesis using a by (auto simp: rocks_list_def)
qed

lemma engine_open_ok:
  assumes "engine_ok e"
  shows "engine_ok (snd (engine_open e)) \<and> (fst (engine_open e) = Ret StatusOK \<longrightarrow> engine_inv (snd (engine_open e)))"
proof -
  have so: "store_ok (store e)" using assms by (simp add: engine_ok_def)
  obtain listed fs where l: "rocks_list (store e) = (listed, (store e)\<lparr>faults := fs\<rparr>)" "listed = [] \<or> listed = family_names (store e)"
    using rocks_list_run by blast
  define names where "names = (if listed = [] then [default_family] else listed)"
  let ?r1 = "(store e)\<lparr>faults := fs\<rparr>"
  have so1: "store_ok ?r1" using so by simp
  have dn: "distinct names" using l(2) store_ok_names [OF so] by (auto simp: names_def)
  show ?thesis
  proof (cases rule: rocks_open_cases [OF so1, of names])
    case (1 s r)
    have n: "IOError m \<noteq> StatusOK" for m by (simp add: status_defs)
    have run: "engine_open e = (Ret (IOError (r_to_string s)), e\<lparr>store := r\<rparr>)"
      using 1(1,2) by (simp add: engine_open_def l(1) names_def Let_def)
    from 1(3) have "engine_ok (e\<lparr>store := r\<rparr>)"
    proof
      assume k: "keeps_families ?r1 r"
      have "handles_ok (columnFamilies e) ?r1" using assms by (simp add: engine_ok_def)
      then show ?thesis using assms k handles_ok_keeps by (simp add: engine_ok_def keeps_families_def)
    next
      assume "\<not> locked ?r1 \<and> store_ok r \<and> \<not> locked r"
      then show ?thesis using assms by (simp add: engine_ok_def handles_ok_empty)
    qed
    then show ?thesis unfolding run by (simp add: n)
  next
    case (2 r)
    have cf: "columnFamilies e = []" using assms 2(2) by (simp add: engine_ok_def)
    note h = opened_handles [OF 2(3,4) dn 2(5,6)]
    let ?e = "e\<lparr>db_ptr := Opened, columnFamilies := fold (\<lambda>(n, h). om_update n h) (zip names (map (\<lambda>n. the (family_named n r)) names)) [],
             ownedHandles := ownedHandles e @ map (\<lambda>n. the (family_named n r)) names, store := r\<lparr>locked := True\<rparr>\<rparr>"
    have "engine_open e = (Ret StatusOK, ?e)"
      using 2(1) by (simp add: engine_open_def l(1) names_def [symmetric] Let_def cf)
    moreover have "engine_inv ?e" by (rule engine_inv_opened) (use 2(3,4) h in simp_all)
    ultimately show ?thesis using engine_inv_ok by simp
  qed
qed

lemma keeps_open_ok: "keeps engine_ok engine_open"
  using engine_open_ok by (simp add: keeps_def)

end
