(* ===== verification/Anu_Database.thy ===== *)
theory Anu_Database
  imports Anu_Handles
begin

text \<open>
  The class \<^verbatim>\<open>anudb::Database\<close> of \<^verbatim>\<open>src/Database.cpp\<close>: the engine and the map \<^verbatim>\<open>collections_\<close> of collection
  objects handed out as raw pointers. An object has an address; a pointer is an address, and a call
  through a pointer whose object was destroyed is undefined behaviour. Destroying an object runs
  \<^verbatim>\<open>~Collection\<close>, which drops the indexes of the collection. The thread an object exports with is the flag
  \<open>obj_exporting\<close> (\<^verbatim>\<open>export_thread_\<close> is joinable); its work is done when it is started. Where the C++
  program calls \<^verbatim>\<open>std::terminate\<close> the outcome is \<open>Undef\<close> too. The \<^verbatim>\<open>unordered_map\<close> is an ordered association list; the order in
  which \<^verbatim>\<open>clear\<close> destroys the objects does not change the result.
\<close>

record collection_object =
  obj_addr :: nat
  obj_exporting :: bool

record database =
  isDbOpen_flag :: "bool option"
  db_engine :: engine
  db_files :: filesystem
  collections :: "(string, collection_object) omap"
  next_object :: nat

definition Database_new :: "engine \<Rightarrow> filesystem \<Rightarrow> database" where
  "Database_new e fs = \<lparr>isDbOpen_flag = None, db_engine = e, db_files = fs, collections = [], next_object = 0\<rparr>"

definition on_engine :: "(engine, 'a) comp \<Rightarrow> (database, 'a) comp" where
  "on_engine m = (\<lambda>d. case m (db_engine d) of (r, e) \<Rightarrow> (r, d\<lparr>db_engine := e\<rparr>))"

definition modifyM :: "('s \<Rightarrow> 's) \<Rightarrow> ('s, unit) comp" where
  "modifyM f = (\<lambda>s. (Ret (), f s))"

section \<open>Opening and closing\<close>

definition Database_open :: "(database, status) comp" where
  "Database_open = bindM (modifyM (isDbOpen_flag_update (\<lambda>_. Some True))) (\<lambda>_. on_engine engine_open)"

text \<open>\<^verbatim>\<open>collections_.clear()\<close> destroys every object.\<close>

definition destroy_objects :: "string list \<Rightarrow> (engine, unit) comp" where
  "destroy_objects = forM Collection_destroy"

definition Database_close :: "(database, status) comp" where
  "Database_close =
     bindM (modifyM (isDbOpen_flag_update (\<lambda>_. Some False))) (\<lambda>_.
     bindM getM (\<lambda>d.
     bindM (on_engine (destroy_objects (map fst (collections d)))) (\<lambda>_.
     bindM (modifyM (collections_update (\<lambda>_. []))) (\<lambda>_.
       on_engine engine_close))))"

definition isDbOpen :: "database \<Rightarrow> bool outcome" where
  "isDbOpen d = (case isDbOpen_flag d of None \<Rightarrow> Undef | Some b \<Rightarrow> Ret b)"

section \<open>Collections\<close>

text \<open>\<^verbatim>\<open>collections_[name] = std::make_unique<Collection>(name, &engine_)\<close>: an object that was there before is
  destroyed when the new one has been stored.\<close>

definition new_collection :: "string \<Rightarrow> (database, nat) comp" where
  "new_collection name = (\<lambda>d.
     bindM (modifyM (\<lambda>d. d\<lparr>collections := om_update name \<lparr>obj_addr = next_object d, obj_exporting = False\<rparr> (collections d),
                          next_object := Suc (next_object d)\<rparr>)) (\<lambda>_.
     bindM (if map_of (collections d) name = None then returnM () else on_engine (Collection_destroy name)) (\<lambda>_.
       returnM (next_object d))) d)"

definition Database_createCollection :: "string \<Rightarrow> (database, status) comp" where
  "Database_createCollection name =
     bindM (on_engine (engine_createCollection name)) (\<lambda>s.
       if \<not> ok s then returnM s
       else bindM (new_collection name) (\<lambda>_. returnM StatusOK))"

definition getCollection :: "string \<Rightarrow> (database, nat option) comp" where
  "getCollection name = (\<lambda>d. case map_of (collections d) name of
       Some ob \<Rightarrow> (Ret (Some (obj_addr ob)), d)
     | None \<Rightarrow>
         if \<not> collectionExists (db_engine d) name then (Ret None, d)
         else bindM (new_collection name) (\<lambda>p. returnM (Some p)) d)"

text \<open>A call of a method on the object a pointer points to; its collection is the key it is stored under.\<close>

definition object_at :: "database \<Rightarrow> nat \<Rightarrow> (string \<times> collection_object) option" where
  "object_at d p = List.find (\<lambda>(n, ob). obj_addr ob = p) (collections d)"

definition on_object :: "nat \<Rightarrow> (string \<Rightarrow> (engine, 'a) comp) \<Rightarrow> (database, 'a) comp" where
  "on_object p f = (\<lambda>d. case object_at d p of None \<Rightarrow> (Undef, d) | Some (n, ob) \<Rightarrow> on_engine (f n) d)"

text \<open>A call through a pointer that may be null.\<close>

definition on_pointer :: "nat option \<Rightarrow> (string \<Rightarrow> (engine, 'a) comp) \<Rightarrow> (database, 'a) comp" where
  "on_pointer p f = (case p of None \<Rightarrow> undefM | Some a \<Rightarrow> on_object a f)"

definition Database_dropCollection :: "string \<Rightarrow> (database, status) comp" where
  "Database_dropCollection name =
     bindM getM (\<lambda>d.
     bindM (case map_of (collections d) name of
         None \<Rightarrow> returnM ()
       | Some _ \<Rightarrow> bindM (modifyM (collections_update (om_delete name))) (\<lambda>_. on_engine (Collection_destroy name))) (\<lambda>_.
     bindM (getCollection name) (\<lambda>col.
     bindM (on_pointer col (\<lambda>n. getIndex n [])) (\<lambda>(s, indexes).
     bindM (on_pointer col (\<lambda>n. drop_indexes n indexes)) (\<lambda>_.
       on_engine (engine_dropCollection name))))))"

section \<open>Operations on the documents of a collection\<close>

text \<open>The operations that start with \<^verbatim>\<open>getCollection\<close> and report a collection that is not there.\<close>

definition with_collection :: "string \<Rightarrow> 'a \<Rightarrow> (nat \<Rightarrow> (database, 'a) comp) \<Rightarrow> (database, 'a) comp" where
  "with_collection name miss f = bindM (getCollection name) (\<lambda>p. case p of None \<Rightarrow> returnM miss | Some a \<Rightarrow> f a)"

definition Database_readDocument :: "string \<Rightarrow> string \<Rightarrow> Document \<Rightarrow> (database, status \<times> Document) comp" where
  "Database_readDocument name i doc =
     with_collection name (collection_not_found name, doc) (\<lambda>a. on_object a (\<lambda>n. readDocument n i doc))"

definition Database_readAllDocuments :: "string \<Rightarrow> Document list \<Rightarrow> (database, status \<times> Document list) comp" where
  "Database_readAllDocuments name docs =
     with_collection name (collection_not_found name, docs) (\<lambda>a. on_object a (\<lambda>n. readAllDocuments n 10 docs))"

definition Database_importFromJsonFile :: "(string \<Rightarrow> json outcome) \<Rightarrow> (nat \<Rightarrow> 32 word \<times> nat list) \<Rightarrow> string \<Rightarrow> string
    \<Rightarrow> (database, status) comp" where
  "Database_importFromJsonFile parse env name importFile =
     with_collection name (collection_not_found name) (\<lambda>a.
     bindM getM (\<lambda>d. on_object a (\<lambda>n.
       importFromJsonFile n env importFile (map_option parse (map_of (fs_files (db_files d)) (c_string importFile))))))"

text \<open>Starting the export of a collection: a second export before the first was waited for ends the program
  (assignment to a joinable \<^verbatim>\<open>std::thread\<close>), as does an exception in the thread.\<close>

definition exportAllToJsonAsync :: "(json \<Rightarrow> string outcome) \<Rightarrow> string \<Rightarrow> nat \<Rightarrow> (database, status) comp" where
  "exportAllToJsonAsync dump exportPath p = (\<lambda>d. case object_at d p of
       None \<Rightarrow> (Undef, d)
     | Some (n, ob) \<Rightarrow>
         if obj_exporting ob then (Undef, d)
         else (case exportAllToJson dump n exportPath (db_engine d, db_files d) of (r, e, fs) \<Rightarrow>
           let d1 = d\<lparr>db_engine := e, db_files := fs, collections := om_update n (ob\<lparr>obj_exporting := True\<rparr>) (collections d)\<rparr>
           in case r of Ret s \<Rightarrow> (Ret StatusOK, d1) | _ \<Rightarrow> (Undef, d1)))"

definition waitForExportOperation :: "nat \<Rightarrow> (database, unit) comp" where
  "waitForExportOperation p = (\<lambda>d. case object_at d p of
       None \<Rightarrow> (Undef, d)
     | Some (n, ob) \<Rightarrow> (Ret (), d\<lparr>collections := om_update n (ob\<lparr>obj_exporting := False\<rparr>) (collections d)\<rparr>))"

definition Database_exportAllToJsonAsync :: "(json \<Rightarrow> string outcome) \<Rightarrow> string \<Rightarrow> string \<Rightarrow> (database, status) comp" where
  "Database_exportAllToJsonAsync dump name exportPath =
     with_collection name (collection_not_found name) (exportAllToJsonAsync dump exportPath)"

definition Database_getCollectionNames :: "database \<Rightarrow> string list" where
  "Database_getCollectionNames d = getCollectionNames (db_engine d)"

section \<open>Lemmas: destroying collection objects\<close>

text \<open>The index families of a collection, as \<^verbatim>\<open>getIndexNames\<close> recognises them.\<close>

definition index_of_collection :: "string \<Rightarrow> string \<Rightarrow> bool" where
  "index_of_collection name n = (\<exists>ix. index_of n = Some (name, ix))"

lemma index_of_collection_plain:
  "plain_name name \<Longrightarrow> index_of_collection name n \<longleftrightarrow> (\<exists>ix. n = index_family name ix)"
  using index_of_Some index_of_family by (auto simp: index_of_collection_def)

lemma index_of_collection_not_default: "index_of_collection name n \<Longrightarrow> n \<noteq> default_family \<and> n \<noteq> name"
  unfolding index_of_collection_def using index_of_Some index_family_not_default index_family_neq by metis

lemma deleteIndex_live:
  assumes "live e"
  shows "\<exists>s e'. deleteIndex name ix e = (Ret s, e') \<and> live e' \<and> tables e' = (tables e)(index_family name ix := None)"
proof (cases "tables e (index_family name ix)")
  case None
  then show ?thesis
    using engine_dropCollection_run [OF liveD(1) [OF assms] index_family_not_default, of name ix] assms
    by (auto simp: deleteIndex_def getIndexCfName_family)
next
  case (Some m)
  let ?e = "drop_table (index_family name ix) e"
  have "deleteIndex name ix e = (Ret StatusOK, ?e)"
    using engine_dropCollection_run [OF liveD(1) [OF assms] index_family_not_default, of name ix] Some liveD(2) [OF assms]
    by (simp add: deleteIndex_def getIndexCfName_family)
  then show ?thesis
    using liveD [OF assms] tables_drop_table by (simp add: live_def engine_inv_drop_table index_family_not_default)
qed

lemma drop_indexes_live:
  "live e \<Longrightarrow> \<exists>e'. drop_indexes name ixs e = (Ret (), e') \<and> live e' \<and>
     tables e' = (\<lambda>n. if n \<in> index_family name ` set ixs then None else tables e n)"
proof (induction ixs arbitrary: e)
  case (Cons ix ixs)
  obtain s e1 where e1: "deleteIndex name ix e = (Ret s, e1)" "live e1" "tables e1 = (tables e)(index_family name ix := None)"
    using deleteIndex_live [OF Cons.prems] by blast
  from Cons.IH [OF e1(2)] obtain e' where "drop_indexes name ixs e1 = (Ret (), e')" "live e'"
    "tables e' = (\<lambda>n. if n \<in> index_family name ` set ixs then None else tables e1 n)" by blast
  with e1 show ?case by (auto simp: bindM_def fun_eq_iff)
qed (auto simp: returnM_def)

lemma index_families:
  assumes "n \<in> fst ` set (columnFamilies e)"
  shows "n \<in> index_family name ` set (getIndexNames e name) \<longleftrightarrow> index_of_collection name n"
proof
  assume "n \<in> index_family name ` set (getIndexNames e name)"
  then obtain ix n' where "n = index_family name ix" "index_of n' = Some (name, ix)" unfolding getIndexNames_set by blast
  then show "index_of_collection name n" using index_of_Some [of n' name ix] by (auto simp: index_of_collection_def)
next
  assume "index_of_collection name n"
  then obtain ix where ix: "index_of n = Some (name, ix)" by (auto simp: index_of_collection_def)
  then have "ix \<in> set (getIndexNames e name)" using assms unfolding getIndexNames_set by blast
  then show "n \<in> index_family name ` set (getIndexNames e name)" using index_of_Some [OF ix] by blast
qed

lemma Collection_destroy_live:
  assumes "live e"
  shows "\<exists>e'. Collection_destroy name e = (Ret (), e') \<and> live e' \<and>
    tables e' = (\<lambda>n. if index_of_collection name n then None else tables e n)"
proof -
  obtain e' where e': "drop_indexes name (getIndexNames e name) e = (Ret (), e')" "live e'"
    "tables e' = (\<lambda>n. if n \<in> index_family name ` set (getIndexNames e name) then None else tables e n)"
    using drop_indexes_live [OF assms] by blast
  have "(if n \<in> index_family name ` set (getIndexNames e name) then None else tables e n) =
      (if index_of_collection name n then None else tables e n)" for n
  proof (cases "tables e n")
    case (Some m)
    then have "n \<in> fst ` set (columnFamilies e)" using mem_columnFamilies [OF liveD(1) [OF assms]] by blast
    then have "n \<in> index_family name ` set (getIndexNames e name) \<longleftrightarrow> index_of_collection name n"
      by (rule index_families)
    then show ?thesis by simp
  qed simp
  then show ?thesis using e' by (simp add: Collection_destroy_def bindM_def getM_def)
qed

lemma destroy_objects_live:
  "live e \<Longrightarrow> \<exists>e'. destroy_objects names e = (Ret (), e') \<and> live e' \<and>
     tables e' = (\<lambda>n. if \<exists>c \<in> set names. index_of_collection c n then None else tables e n)"
proof (induction names arbitrary: e)
  case (Cons c names)
  obtain e1 where e1: "Collection_destroy c e = (Ret (), e1)" "live e1"
    "tables e1 = (\<lambda>n. if index_of_collection c n then None else tables e n)"
    using Collection_destroy_live [OF Cons.prems] by blast
  from Cons.IH [OF e1(2)] obtain e' where "destroy_objects names e1 = (Ret (), e')" "live e'"
    "tables e' = (\<lambda>n. if \<exists>c \<in> set names. index_of_collection c n then None else tables e1 n)" by blast
  with e1 show ?case by (auto simp: destroy_objects_def bindM_def fun_eq_iff)
qed (simp add: destroy_objects_def returnM_def)

section \<open>Lemmas: objects and pointers\<close>

text \<open>Addresses are distinct and below the next one, so a pointer names one object.\<close>

definition objects_ok :: "database \<Rightarrow> bool" where
  "objects_ok d = (om_ok (collections d) \<and> (\<forall>n ob. map_of (collections d) n = Some ob \<longrightarrow> obj_addr ob < next_object d) \<and>
     (\<forall>n n' ob ob'. map_of (collections d) n = Some ob \<and> map_of (collections d) n' = Some ob' \<and> obj_addr ob = obj_addr ob' \<longrightarrow> n = n'))"

lemma object_at_iff:
  assumes "objects_ok d"
  shows "object_at d p = Some (n, ob) \<longleftrightarrow> map_of (collections d) n = Some ob \<and> obj_addr ob = p"
proof -
  have ok: "om_ok (collections d)" using assms by (simp add: objects_ok_def)
  have un: "map_of (collections d) n = Some ob \<Longrightarrow> map_of (collections d) n' = Some ob' \<Longrightarrow> obj_addr ob = obj_addr ob' \<Longrightarrow> n = n'" for n n' ob ob'
    using assms unfolding objects_ok_def by blast
  show ?thesis
  proof
    assume "object_at d p = Some (n, ob)"
    then have "(n, ob) \<in> set (collections d) \<and> obj_addr ob = p"
      by (auto simp: object_at_def find_Some_iff in_set_conv_nth)
    then show "map_of (collections d) n = Some ob \<and> obj_addr ob = p" using om_lookup_mem [OF ok] by simp
  next
    assume m: "map_of (collections d) n = Some ob \<and> obj_addr ob = p"
    then have "(n, ob) \<in> set (collections d)" using om_lookup_mem [OF ok] by simp
    then obtain n' ob' where f: "List.find (\<lambda>(n, ob). obj_addr ob = p) (collections d) = Some (n', ob')"
      using m by (cases "List.find (\<lambda>(n, ob). obj_addr ob = p) (collections d)") (auto simp: find_None_iff)
    then have "(n', ob') \<in> set (collections d)" "obj_addr ob' = p"
      by (auto simp: find_Some_iff in_set_conv_nth)
    then have n': "map_of (collections d) n' = Some ob'" using om_lookup_mem [OF ok] by simp
    then have "n' = n" using un [of n' ob' n ob] m \<open>obj_addr ob' = p\<close> by simp
    with n' m f show "object_at d p = Some (n, ob)" by (simp add: object_at_def)
  qed
qed

lemma objects_ok_new:
  "objects_ok d \<Longrightarrow> objects_ok (d\<lparr>collections := om_update name \<lparr>obj_addr = next_object d, obj_exporting = b\<rparr> (collections d),
     next_object := Suc (next_object d)\<rparr>)"
  unfolding objects_ok_def by (auto simp: om_ok_update om_lookup_update less_Suc_eq split: if_splits) (metis less_irrefl)+

lemma objects_ok_set:
  "objects_ok d \<Longrightarrow> map_of (collections d) n = Some ob \<Longrightarrow> obj_addr ob' = obj_addr ob \<Longrightarrow>
     objects_ok (d\<lparr>collections := om_update n ob' (collections d)\<rparr>)"
  unfolding objects_ok_def by (auto simp: om_ok_update om_lookup_update split: if_splits)

lemma objects_ok_delete: "objects_ok d \<Longrightarrow> objects_ok (d\<lparr>collections := om_delete n (collections d)\<rparr>)"
  unfolding objects_ok_def by (auto simp: om_ok_delete om_lookup_delete split: if_splits)

lemma objects_ok_fields [simp]:
  "objects_ok (d\<lparr>db_engine := e\<rparr>) = objects_ok d" "objects_ok (d\<lparr>isDbOpen_flag := b\<rparr>) = objects_ok d"
  "objects_ok (d\<lparr>db_files := fs\<rparr>) = objects_ok d"
  by (simp_all add: objects_ok_def)

section \<open>Runs of the database\<close>

text \<open>The invariant of a database, open or closed, and the objects of \<open>S\<close> (names with the addresses of their
  objects) are alive.\<close>

definition db_inv :: "(string \<times> nat) set \<Rightarrow> database \<Rightarrow> bool" where
  "db_inv S d = (engine_ok (db_engine d) \<and> objects_ok d \<and>
     (\<forall>n p. (n, p) \<in> S \<longrightarrow> (\<exists>ob. map_of (collections d) n = Some ob \<and> obj_addr ob = p)))"

lemma keeps_on_engine [keeps_intros]: "keeps engine_ok m \<Longrightarrow> keeps (db_inv S) (on_engine m)"
  unfolding keeps_def on_engine_def db_inv_def by (auto split: prod.splits)

lemma keeps_modify: "(\<And>d. db_inv S d \<Longrightarrow> db_inv S (f d)) \<Longrightarrow> keeps (db_inv S) (modifyM f)"
  by (simp add: keeps_def modifyM_def)

lemma keeps_on_object [keeps_intros]: "(\<And>n. keeps engine_ok (f n)) \<Longrightarrow> keeps (db_inv S) (on_object p f)"
proof -
  assume "\<And>n. keeps engine_ok (f n)"
  then have "keeps (db_inv S) (on_engine (f n))" for n by (intro keeps_intros)
  then show ?thesis unfolding on_object_def keeps_def by (auto split: option.splits)
qed

lemma keeps_on_pointer [keeps_intros]: "(\<And>n. keeps engine_ok (f n)) \<Longrightarrow> keeps (db_inv S) (on_pointer p f)"
  unfolding on_pointer_def by (intro keeps_intros)

lemma db_invI:
  "engine_ok (db_engine d) \<Longrightarrow> objects_ok d \<Longrightarrow>
     (\<And>n p. (n, p) \<in> S \<Longrightarrow> \<exists>ob. map_of (collections d) n = Some ob \<and> obj_addr ob = p) \<Longrightarrow> db_inv S d"
  unfolding db_inv_def by blast

lemma db_invD:
  assumes "db_inv S d"
  shows "engine_ok (db_engine d)" "objects_ok d" "(n, p) \<in> S \<Longrightarrow> \<exists>ob. map_of (collections d) n = Some ob \<and> obj_addr ob = p"
  using assms unfolding db_inv_def by blast+

lemma db_inv_new:
  assumes "name \<notin> fst ` S" "db_inv S d"
  shows "db_inv S (d\<lparr>collections := om_update name \<lparr>obj_addr = next_object d, obj_exporting = False\<rparr> (collections d),
    next_object := Suc (next_object d)\<rparr>)" (is "db_inv S ?d")
proof (rule db_invI)
  show "engine_ok (db_engine ?d)" using db_invD(1) [OF assms(2)] by simp
  show "objects_ok ?d" by (rule objects_ok_new [OF db_invD(2) [OF assms(2)]])
  fix n p assume np: "(n, p) \<in> S"
  have "n \<noteq> name" using assms(1) np by force
  then show "\<exists>ob. map_of (collections ?d) n = Some ob \<and> obj_addr ob = p"
    using db_invD(3) [OF assms(2) np] by (simp add: om_lookup_update)
qed

lemma db_inv_delete:
  assumes "name \<notin> fst ` S" "db_inv S d"
  shows "db_inv S (collections_update (om_delete name) d)" (is "db_inv S ?d")
proof (rule db_invI)
  note ok = db_invD(2) [OF assms(2)]
  show "engine_ok (db_engine ?d)" using db_invD(1) [OF assms(2)] by simp
  show "objects_ok ?d" using objects_ok_delete [OF ok, of name] by (simp add: objects_ok_def)
  fix n p assume np: "(n, p) \<in> S"
  have "n \<noteq> name" using assms(1) np by force
  then show "\<exists>ob. map_of (collections ?d) n = Some ob \<and> obj_addr ob = p"
    using db_invD(3) [OF assms(2) np] ok by (simp add: om_lookup_delete objects_ok_def)
qed

lemma keeps_new_collection: "name \<notin> fst ` S \<Longrightarrow> keeps (db_inv S) (new_collection name)"
  unfolding new_collection_def
proof (rule keeps_self [of "db_inv S" "\<lambda>d. bindM (modifyM (\<lambda>d. d\<lparr>collections := om_update name
      \<lparr>obj_addr = next_object d, obj_exporting = False\<rparr> (collections d), next_object := Suc (next_object d)\<rparr>)) (\<lambda>_.
      bindM (if map_of (collections d) name = None then returnM () else on_engine (Collection_destroy name)) (\<lambda>_.
        returnM (next_object d)))"])
qed (intro keeps_intros keeps_modify ok.collection_keeps, rule db_inv_new)

lemma keeps_getCollection [keeps_intros]: "keeps (db_inv S) (getCollection name)"
proof -
  have "db_inv S (snd (getCollection name d))" if d: "db_inv S d" "fst (getCollection name d) \<noteq> Undef" for d
  proof (cases "map_of (collections d) name")
    case None
    then have "name \<notin> fst ` S" using d(1) by (fastforce dest: db_invD(3) [OF d(1)])
    then have "keeps (db_inv S) (bindM (new_collection name) (\<lambda>p. returnM (Some p)))" by (intro keeps_intros keeps_new_collection)
    then show ?thesis using d None by (simp add: getCollection_def keeps_def split: if_splits)
  qed (use d in \<open>simp add: getCollection_def\<close>)
  then show ?thesis by (simp add: keeps_def)
qed

lemma keeps_createCollection: "name \<notin> fst ` S \<Longrightarrow> keeps (db_inv S) (Database_createCollection name)"
  unfolding Database_createCollection_def by (intro keeps_intros keeps_new_collection ok.engine_keeps)

lemma collections_delete: "objects_ok d \<Longrightarrow> objects_ok (collections_update (om_delete n) d)"
  using objects_ok_delete [of d n] by (simp add: objects_ok_def)

lemma keeps_dropCollection: "name \<notin> fst ` S \<Longrightarrow> keeps (db_inv S) (Database_dropCollection name)"
proof -
  assume n: "name \<notin> fst ` S"
  show ?thesis
    unfolding Database_dropCollection_def
    by (intro keeps_intros keeps_modify ok.collection_keeps ok.engine_keeps db_inv_delete n)
qed

text \<open>\<^verbatim>\<open>close\<close> destroys all objects, whatever the store answers.\<close>

lemma keeps_open: "keeps (db_inv S) Database_open"
  unfolding Database_open_def by (intro keeps_intros keeps_modify keeps_open_ok) (simp add: db_inv_def)

lemma keeps_close: "keeps (db_inv {}) Database_close"
  unfolding Database_close_def destroy_objects_def
  by (intro keeps_intros keeps_forM keeps_modify keeps_close_ok ok.collection_keeps) (simp_all add: db_inv_def objects_ok_def)

lemma keeps_with_collection [keeps_intros]: "(\<And>p. keeps (db_inv S) (f p)) \<Longrightarrow> keeps (db_inv S) (with_collection name miss f)"
  unfolding with_collection_def by (intro keeps_intros)

lemma keeps_documents: "keeps (db_inv S) (Database_readDocument name i doc)" "keeps (db_inv S) (Database_readAllDocuments name docs)"
  "keeps (db_inv S) (Database_importFromJsonFile parse env name path)"
  unfolding Database_readDocument_def Database_readAllDocuments_def Database_importFromJsonFile_def
  by (intro keeps_intros ok.collection_keeps)+

lemma keeps_store: "keeps I m \<Longrightarrow> keeps (\<lambda>(e, fs). I e) (on_store m)"
  unfolding keeps_def on_store_def by (auto split: prod.splits)

lemma keeps_files: "keeps (\<lambda>(e, fs). I e) (on_files f)" "keeps (\<lambda>(e, fs). I e) (write_file path t)"
  unfolding keeps_def on_files_def write_file_def by (auto split: prod.splits)

lemma keeps_iterator: "keeps engine_ok (dbcall (rocks_iterator h))" "keeps live (dbcall (rocks_iterator h))"
  by (rule keeps_calls) (auto simp: keeps_def live_def dbcall_run rocks_iterator_def answer_eq store_tick)

lemma keeps_export_entries: "keeps (\<lambda>(e, fs). I e) (export_entries dump path b it)"
proof (induction dump path b it rule: export_entries.induct)
  case (1 dump path b it)
  show ?case
  proof (cases "iter_Valid it")
    case True
    then show ?thesis
      by (subst export_entries.simps, simp only: if_True True) (intro keeps_intros keeps_files 1 [OF True])
  qed (subst export_entries.simps, simp add: keeps_intros)
qed

lemma keeps_exportAllToJson:
  "(\<And>h. keeps I (dbcall (rocks_iterator h))) \<Longrightarrow> keeps (\<lambda>(e, fs). I e) (exportAllToJson dump name path)"
  unfolding exportAllToJson_def prepare_directory_def write_array_def finish_export_def
  by (intro keeps_intros keeps_files keeps_store keeps_export_entries)

text \<open>An object that is written back under its address stays alive.\<close>

lemma db_inv_set:
  assumes "db_inv S d" "object_at d p = Some (n, ob)" "obj_addr ob' = obj_addr ob"
  shows "db_inv S (d\<lparr>collections := om_update n ob' (collections d)\<rparr>)" (is "db_inv S ?d")
proof (rule db_invI)
  have m: "map_of (collections d) n = Some ob" using object_at_iff [OF db_invD(2) [OF assms(1)], of p n ob] assms(2) by simp
  show "engine_ok (db_engine ?d)" using db_invD(1) [OF assms(1)] by simp
  show "objects_ok ?d" by (rule objects_ok_set [OF db_invD(2) [OF assms(1)] m assms(3)])
  fix n' p' assume "(n', p') \<in> S"
  from db_invD(3) [OF assms(1) this] show "\<exists>ob. map_of (collections ?d) n' = Some ob \<and> obj_addr ob = p'"
    using m assms(3) by (auto simp: om_lookup_update)
qed

lemma keeps_export: "keeps (db_inv S) (exportAllToJsonAsync dump path p)" "keeps (db_inv S) (waitForExportOperation p)"
proof -
  have "db_inv S (snd (exportAllToJsonAsync dump path p d))"
    if d: "db_inv S d" "fst (exportAllToJsonAsync dump path p d) \<noteq> Undef" for d
  proof (cases "object_at d p")
    case (Some q)
    obtain n ob where q: "q = (n, ob)" by force
    have ok: "db_inv S (d\<lparr>collections := om_update n (ob\<lparr>obj_exporting := True\<rparr>) (collections d)\<rparr>)"
      by (rule db_inv_set [OF d(1)]) (use Some q in simp_all)
    obtain r e fs where x: "exportAllToJson dump n path (db_engine d, db_files d) = (r, e, fs)" by (metis prod_cases3)
    moreover have "r \<noteq> Undef" using d(2) Some q x by (auto simp: exportAllToJsonAsync_def Let_def split: if_splits)
    ultimately have "engine_ok e"
      using keepsD [OF keeps_exportAllToJson [OF keeps_iterator(1)], of "(db_engine d, db_files d)" dump n path] d by (simp add: db_inv_def)
    with ok show ?thesis
      using d Some q x by (auto simp: exportAllToJsonAsync_def db_inv_def objects_ok_def Let_def split: outcome.splits)
  qed (use d in \<open>simp add: exportAllToJsonAsync_def\<close>)
  then show "keeps (db_inv S) (exportAllToJsonAsync dump path p)" by (simp add: keeps_def)
  have "db_inv S (snd (waitForExportOperation p d))" if d: "db_inv S d" for d
    using d db_inv_set [OF d] by (auto simp: waitForExportOperation_def split: option.splits)
  then show "keeps (db_inv S) (waitForExportOperation p)" by (simp add: keeps_def)
qed

lemma keeps_exports: "keeps (db_inv S) (Database_exportAllToJsonAsync dump name path)"
  unfolding Database_exportAllToJsonAsync_def by (intro keeps_intros keeps_export)

text \<open>One call of a client that returns: of the database, \<^verbatim>\<open>open\<close> and \<^verbatim>\<open>close\<close> included, or of a collection
  through a pointer.\<close>

inductive database_step :: "database \<Rightarrow> database \<Rightarrow> bool" where
  "Database_open d = (Ret s, d') \<Longrightarrow> database_step d d'"
| "Database_close d = (Ret s, d') \<Longrightarrow> database_step d d'"
| "Database_createCollection name d = (Ret s, d') \<Longrightarrow> database_step d d'"
| "Database_dropCollection name d = (Ret s, d') \<Longrightarrow> database_step d d'"
| "getCollection name d = (Ret p, d') \<Longrightarrow> database_step d d'"
| "Database_readDocument name i doc d = (Ret r, d') \<Longrightarrow> database_step d d'"
| "Database_readAllDocuments name docs d = (Ret r', d') \<Longrightarrow> database_step d d'"
| "Database_importFromJsonFile parse env name path d = (Ret s, d') \<Longrightarrow> database_step d d'"
| "Database_exportAllToJsonAsync dump name path d = (Ret s, d') \<Longrightarrow> database_step d d'"
| "exportAllToJsonAsync dump path a d = (Ret s, d') \<Longrightarrow> database_step d d'"
| "waitForExportOperation a d = (Ret u, d') \<Longrightarrow> database_step d d'"
| "on_object a (\<lambda>n. createDocument n time rands doc) d = (Ret r, d') \<Longrightarrow> database_step d d'"
| "on_object a (\<lambda>n. readDocument n i doc) d = (Ret r, d') \<Longrightarrow> database_step d d'"
| "on_object a (\<lambda>n. readAllDocuments n limit docs) d = (Ret r', d') \<Longrightarrow> database_step d d'"
| "on_object a (\<lambda>n. importFromJsonFile n env path contents) d = (Ret s, d') \<Longrightarrow> database_step d d'"
| "on_object a (\<lambda>n. getIndex n ixs) d = (Ret t, d') \<Longrightarrow> database_step d d'"
| "on_object a (\<lambda>n. deleteDocument n i) d = (Ret s, d') \<Longrightarrow> database_step d d'"
| "on_object a (\<lambda>n. updateDocument n time rands i update upsert) d = (Ret s, d') \<Longrightarrow> database_step d d'"
| "on_object a (\<lambda>n. createIndex n ix) d = (Ret s, d') \<Longrightarrow> database_step d d'"
| "on_object a (\<lambda>n. deleteIndex n ix) d = (Ret s, d') \<Longrightarrow> database_step d d'"
| "on_object a (\<lambda>n. findDocument n q) d = (Ret ids, d') \<Longrightarrow> database_step d d'"

lemma keeps_step: "keeps I m \<Longrightarrow> m s = (Ret x, s') \<Longrightarrow> I s \<Longrightarrow> I s'"
  using keepsD [of I m s] by simp

lemma keeps_methods:
  "keeps (db_inv S) (on_object a (\<lambda>n. createDocument n time rands doc))" "keeps (db_inv S) (on_object a (\<lambda>n. deleteDocument n i))"
  "keeps (db_inv S) (on_object a (\<lambda>n. readDocument n i doc))" "keeps (db_inv S) (on_object a (\<lambda>n. readAllDocuments n limit docs))"
  "keeps (db_inv S) (on_object a (\<lambda>n. importFromJsonFile n env path contents))" "keeps (db_inv S) (on_object a (\<lambda>n. getIndex n ixs))"
  "keeps (db_inv S) (on_object a (\<lambda>n. updateDocument n time rands i update upsert))"
  "keeps (db_inv S) (on_object a (\<lambda>n. createIndex n ix))"
  "keeps (db_inv S) (on_object a (\<lambda>n. deleteIndex n ix))" "keeps (db_inv S) (on_object a (\<lambda>n. findDocument n q))"
  by (intro keeps_intros ok.collection_keeps)+

lemmas database_keeps = keeps_open keeps_getCollection keeps_documents keeps_export keeps_exports keeps_methods

lemma step_keeps: "m s = (Ret x, s') \<Longrightarrow> I s \<Longrightarrow> keeps I m \<Longrightarrow> I s'"
  by (rule keeps_step)

lemma keeps_any: "keeps (db_inv {}) (Database_createCollection name)" "keeps (db_inv {}) (Database_dropCollection name)"
  by (simp_all add: keeps_createCollection keeps_dropCollection)

lemma database_step_inv: "database_step d d' \<Longrightarrow> db_inv {} d \<Longrightarrow> db_inv {} d'"
  by (induction rule: database_step.induct)
    (erule step_keeps [where I = "db_inv {}"], assumption, rule database_keeps keeps_close keeps_any)+

lemma database_steps_inv: "database_step\<^sup>*\<^sup>* d d' \<Longrightarrow> db_inv {} d \<Longrightarrow> db_inv {} d'"
  by (induction rule: rtranclp_induct) (auto intro: database_step_inv)

text \<open>An object dies only by a call that names its collection, or by \<^verbatim>\<open>close\<close>.\<close>

lemma database_step_object:
  assumes "database_step d d'" "db_inv {(n, p)} d"
  shows "db_inv {(n, p)} d' \<or> (\<exists>s. Database_createCollection n d = (Ret s, d')) \<or>
    (\<exists>s. Database_dropCollection n d = (Ret s, d')) \<or> (\<exists>s. Database_close d = (Ret s, d'))"
  using assms
proof (induction rule: database_step.induct)
  case (2 d s d')
  then show ?case by blast
next
  case (3 name d s d')
  show ?case
  proof (cases "name = n")
    case False
    then have "keeps (db_inv {(n, p)}) (Database_createCollection name)" by (intro keeps_createCollection) simp
    then show ?thesis using step_keeps [of "Database_createCollection name" d s d' "db_inv {(n, p)}"] 3 by simp
  qed (use 3 in blast)
next
  case (4 name d s d')
  show ?case
  proof (cases "name = n")
    case False
    then have "keeps (db_inv {(n, p)}) (Database_dropCollection name)" by (intro keeps_dropCollection) simp
    then show ?thesis using step_keeps [of "Database_dropCollection name" d s d' "db_inv {(n, p)}"] 4 by simp
  qed (use 4 in blast)
qed (rule disjI1, erule step_keeps [where I = "db_inv {(n, p)}"], assumption, rule database_keeps)+

section \<open>Lemmas: the operations on a working store\<close>

definition working :: "database \<Rightarrow> bool" where
  "working d = (live (db_engine d) \<and> objects_ok d)"

lemma new_collection_live:
  assumes "working d"
  shows "\<exists>d'. new_collection name d = (Ret (next_object d), d') \<and> working d' \<and> next_object d' = Suc (next_object d) \<and>
    collections d' = om_update name \<lparr>obj_addr = next_object d, obj_exporting = False\<rparr> (collections d) \<and>
    tables (db_engine d') = (\<lambda>n. if map_of (collections d) name \<noteq> None \<and> index_of_collection name n then None else tables (db_engine d) n)"
proof -
  have l: "live (db_engine d)" and o: "objects_ok d" using assms by (simp_all add: working_def)
  show ?thesis
    using Collection_destroy_live [OF l, of name] objects_ok_new [OF o, of name False] l
    by (cases "map_of (collections d) name")
      (auto simp: new_collection_def bindM_def modifyM_def returnM_def on_engine_def working_def)
qed

lemma getCollection_live:
  assumes "working d"
  shows "\<exists>p d'. getCollection name d = (Ret p, d') \<and> working d' \<and> tables (db_engine d') = tables (db_engine d) \<and>
    (p = None \<longleftrightarrow> map_of (collections d) name = None \<and> tables (db_engine d) name = None) \<and> (p = None \<longrightarrow> d' = d) \<and>
    (\<forall>a. p = Some a \<longrightarrow> (\<exists>ob. map_of (collections d') name = Some ob \<and> obj_addr ob = a)) \<and>
    (\<forall>n. n \<noteq> name \<longrightarrow> map_of (collections d') n = map_of (collections d) n)"
proof (cases "map_of (collections d) name")
  case None
  have e: "collectionExists (db_engine d) name = (tables (db_engine d) name \<noteq> None)"
    using collectionExists_tables assms by (simp add: working_def live_def)
  from new_collection_live [OF assms, of name] None show ?thesis
    by (cases "tables (db_engine d) name") (use assms e in \<open>auto simp: getCollection_def bindM_def returnM_def om_lookup_update\<close>)
qed (use assms in \<open>auto simp: getCollection_def\<close>)

lemma on_object_run:
  assumes "working d" "map_of (collections d) name = Some ob"
  shows "on_object (obj_addr ob) f d = on_engine (f name) d"
  using object_at_iff [of d "obj_addr ob" name ob] assms by (simp add: on_object_def working_def)

lemma erase_object_live:
  assumes "working d" "map_of (collections d) name = Some ob"
  shows "\<exists>d'. bindM (modifyM (collections_update (om_delete name))) (\<lambda>_. on_engine (Collection_destroy name)) d = (Ret (), d') \<and>
    working d' \<and> map_of (collections d') name = None \<and>
    (\<forall>n. n \<noteq> name \<longrightarrow> map_of (collections d') n = map_of (collections d) n) \<and>
    tables (db_engine d') = (\<lambda>n. if index_of_collection name n then None else tables (db_engine d) n)"
proof -
  have l: "live (db_engine d)" and o: "objects_ok d" using assms by (simp_all add: working_def)
  have "om_ok (collections d)" using o by (simp add: objects_ok_def)
  then show ?thesis
    using Collection_destroy_live [OF l, of name] collections_delete [OF o, of name]
    by (auto simp: bindM_def modifyM_def on_engine_def working_def om_lookup_delete)
qed

text \<open>The first part of \<^verbatim>\<open>dropCollection\<close>: erase the object, look the collection up again.\<close>

lemma drop_first:
  assumes "working d"
  shows "\<exists>d1. (case map_of (collections d) name of
         None \<Rightarrow> returnM ()
       | Some _ \<Rightarrow> bindM (modifyM (collections_update (om_delete name))) (\<lambda>_. on_engine (Collection_destroy name))) d = (Ret (), d1) \<and>
    working d1 \<and> map_of (collections d1) name = None \<and>
    (\<forall>n. n \<noteq> name \<longrightarrow> map_of (collections d1) n = map_of (collections d) n) \<and>
    tables (db_engine d1) = (\<lambda>n. if map_of (collections d) name \<noteq> None \<and> index_of_collection name n then None else tables (db_engine d) n)"
proof (cases "map_of (collections d) name")
  case (Some ob)
  then show ?thesis using erase_object_live [OF assms Some] by simp
qed (use assms in \<open>simp add: returnM_def\<close>)

lemma dropCollection_exists:
  assumes "working d" "name \<noteq> default_family" "tables (db_engine d) name \<noteq> None"
  shows "\<exists>d'. Database_dropCollection name d = (Ret StatusOK, d') \<and> working d' \<and> map_of (collections d') name \<noteq> None \<and>
    (\<forall>n. n \<noteq> name \<longrightarrow> map_of (collections d') n = map_of (collections d) n) \<and>
    tables (db_engine d') = (\<lambda>n. if n = name \<or> index_of_collection name n then None else tables (db_engine d) n)"
proof -
  have ni: "\<not> index_of_collection name name" using index_of_collection_not_default by blast
  obtain d1 where d1: "(case map_of (collections d) name of
         None \<Rightarrow> returnM ()
       | Some _ \<Rightarrow> bindM (modifyM (collections_update (om_delete name))) (\<lambda>_. on_engine (Collection_destroy name))) d = (Ret (), d1)"
    "working d1" "map_of (collections d1) name = None"
    "tables (db_engine d1) = (\<lambda>n. if map_of (collections d) name \<noteq> None \<and> index_of_collection name n then None else tables (db_engine d) n)"
    and o1: "\<And>n. n \<noteq> name \<Longrightarrow> map_of (collections d1) n = map_of (collections d) n"
    using drop_first [OF assms(1)] by blast
  have t1: "tables (db_engine d1) name \<noteq> None" using d1(4) assms(3) ni by simp
  obtain p d2 where g: "getCollection name d1 = (Ret p, d2)" "working d2" "tables (db_engine d2) = tables (db_engine d1)"
    "p \<noteq> None" "\<And>a. p = Some a \<Longrightarrow> \<exists>ob. map_of (collections d2) name = Some ob \<and> obj_addr ob = a"
    and o2: "\<And>n. n \<noteq> name \<Longrightarrow> map_of (collections d2) n = map_of (collections d1) n"
    using getCollection_live [OF d1(2), of name] t1 by auto
  obtain ob where p: "p = Some (obj_addr ob)" "map_of (collections d2) name = Some ob" using g(4,5) by auto
  let ?ixs = "getIndexNames (db_engine d2) name"
  note l2 = g(2) [unfolded working_def, THEN conjunct1]
  obtain e3 where e3: "drop_indexes name ?ixs (db_engine d2) = (Ret (), e3)" "live e3"
    "tables e3 = (\<lambda>n. if index_of_collection name n then None else tables (db_engine d2) n)"
    using Collection_destroy_live [OF l2, of name] by (auto simp: Collection_destroy_def bindM_def getM_def)
  have i: "on_pointer p (\<lambda>n. getIndex n []) d2 = (Ret (StatusOK, ?ixs), d2)"
    using on_object_run [OF g(2) p(2), of "\<lambda>n. getIndex n []"] p(1)
    by (simp add: on_pointer_def on_engine_def getIndex_def bindM_def getM_def returnM_def)
  have dr: "on_pointer p (\<lambda>n. drop_indexes n ?ixs) d2 = (Ret (), d2\<lparr>db_engine := e3\<rparr>)"
    using on_object_run [OF g(2) p(2), of "\<lambda>n. drop_indexes n ?ixs"] p(1) e3(1) by (simp add: on_pointer_def on_engine_def)
  have "tables e3 name \<noteq> None" using e3(3) g(3) t1 ni by simp
  then have fin: "engine_dropCollection name e3 = (Ret StatusOK, drop_table name e3)"
    using engine_dropCollection_run [OF liveD(1) [OF e3(2)] assms(2)] liveD(2) [OF e3(2)] by auto
  have "Database_dropCollection name d = (Ret StatusOK, d2\<lparr>db_engine := drop_table name e3\<rparr>)"
    unfolding Database_dropCollection_def
    by (simp add: bindM_Ret getM_run d1(1) g(1) i dr) (simp add: on_engine_def fin)
  moreover have "live (drop_table name e3)" using e3(2) assms(2) by (simp add: live_def engine_inv_drop_table)
  moreover have "tables (drop_table name e3) = (\<lambda>n. if n = name \<or> index_of_collection name n then None else tables (db_engine d) n)"
    using tables_drop_table [OF liveD(1) [OF e3(2)]] e3(3) g(3) d1(4) by (auto simp: fun_eq_iff)
  ultimately show ?thesis using g(2) p(2) o1 o2 by (auto simp: working_def)
qed

lemma dropCollection_missing:
  assumes "working d" "tables (db_engine d) name = None"
  shows "fst (Database_dropCollection name d) = Undef"
proof -
  obtain d1 where d1: "(case map_of (collections d) name of
         None \<Rightarrow> returnM ()
       | Some _ \<Rightarrow> bindM (modifyM (collections_update (om_delete name))) (\<lambda>_. on_engine (Collection_destroy name))) d = (Ret (), d1)"
    "working d1" "map_of (collections d1) name = None" "tables (db_engine d1) name = None"
    using drop_first [OF assms(1), of name] assms(2) by auto
  have "getCollection name d1 = (Ret None, d1)" using getCollection_live [OF d1(2), of name] d1(3,4) by auto
  then show ?thesis
    unfolding Database_dropCollection_def by (simp add: bindM_Ret getM_run d1(1) on_pointer_def bindM_Undef undefM_run)
qed

lemma Database_reopen:
  assumes "working d"
  shows "\<exists>d1 d2. Database_close d = (Ret StatusOK, d1) \<and> Database_open d1 = (Ret StatusOK, d2) \<and> working d2 \<and> collections d2 = [] \<and>
    isDbOpen d1 = Ret False \<and> isDbOpen d2 = Ret True \<and>
    tables (db_engine d2) = (\<lambda>n. if \<exists>c \<in> fst ` set (collections d). index_of_collection c n then None else tables (db_engine d) n)"
proof -
  have l: "live (db_engine d)" using assms by (simp add: working_def)
  obtain e1 where e1: "destroy_objects (map fst (collections d)) (db_engine d) = (Ret (), e1)" "live e1"
    "tables e1 = (\<lambda>n. if \<exists>c \<in> set (map fst (collections d)). index_of_collection c n then None else tables (db_engine d) n)"
    using destroy_objects_live [OF l] by blast
  obtain e2 e3 where e2: "engine_close e1 = (Ret StatusOK, e2)" and e3: "engine_open e2 = (Ret StatusOK, e3)" "live e3" "tables e3 = tables e1"
    using engine_reopen [OF liveD [OF e1(2)]] by (auto simp: live_def)
  have "Database_close d = (Ret StatusOK, d\<lparr>isDbOpen_flag := Some False, db_engine := e2, collections := []\<rparr>)"
    by (simp add: Database_close_def bindM_def modifyM_def getM_def on_engine_def e1(1) e2)
  then show ?thesis
    using e3 e1(3) by (auto simp: Database_open_def bindM_def modifyM_def on_engine_def working_def objects_ok_def isDbOpen_def)
qed

text \<open>An open database with one collection, its object, an index and a document.\<close>

definition sample_files :: filesystem where
  "sample_files = \<lparr>fs_dirs = [''out''], fs_files = [], fs_may_create = (\<lambda>_. True)\<rparr>"

definition sample_database :: database where
  "sample_database = \<lparr>isDbOpen_flag = Some True, db_engine = indexed_db, db_files = sample_files,
     collections = [(''users'', \<lparr>obj_addr = 0, obj_exporting = False\<rparr>)], next_object = 1\<rparr>"

lemma sample_database: "working sample_database" "tables (db_engine sample_database) ''users'' \<noteq> None"
  "tables (db_engine sample_database) (index_family ''users'' ''age'') \<noteq> None"
proof -
  note v = index_invD [OF indexed_db(2)]
  show "working sample_database" using v(1) by (simp add: working_def sample_database_def objects_ok_def om_ok_def)
  show "tables (db_engine sample_database) ''users'' \<noteq> None" using v(3) by (simp add: sample_database_def)
  show "tables (db_engine sample_database) (index_family ''users'' ''age'') \<noteq> None"
    using getIndexNames_table [OF v(2) indexed_db(3)] by (simp add: sample_database_def)
qed

section \<open>Properties of the database\<close>

text \<open>C17: runs of the database. Start with a database that was constructed over any store, and let any sequence of
  calls of \<^verbatim>\<open>Database\<close> (\<^verbatim>\<open>open\<close> and \<^verbatim>\<open>close\<close> included, in any order) and, through pointers, of \<^verbatim>\<open>Collection\<close>
  return, with whatever failures of the store. Then every handle the engine has is that of a family of the
  store, and there are none while the database is not open; an \<^verbatim>\<open>open\<close> that succeeds gives the full invariant
  of an open engine. A pointer that \<^verbatim>\<open>getCollection\<close> returns points to the live object of that collection, and a
  live object stays alive at its address in every call but \<^verbatim>\<open>createCollection\<close> or \<^verbatim>\<open>dropCollection\<close> of its name and
  \<^verbatim>\<open>close\<close>.\<close>

theorem database_reachable:
  assumes "engine_ok e" "db_ptr e = Uninit" "database_step\<^sup>*\<^sup>* (Database_new e fs) d"
  shows "engine_ok (db_engine d) \<and>
    (\<forall>d'. Database_open d = (Ret StatusOK, d') \<longrightarrow> engine_inv (db_engine d')) \<and>
    (\<forall>name p d'. getCollection name d = (Ret (Some p), d') \<longrightarrow> (\<exists>ob. object_at d' p = Some (name, ob))) \<and>
    (\<forall>n p ob d'. object_at d p = Some (n, ob) \<and> database_step d d' \<longrightarrow> (\<exists>ob'. object_at d' p = Some (n, ob')) \<or>
      (\<exists>s. Database_createCollection n d = (Ret s, d')) \<or> (\<exists>s. Database_dropCollection n d = (Ret s, d')) \<or>
      (\<exists>s. Database_close d = (Ret s, d')))"
proof -
  have "db_inv {} (Database_new e fs)" using assms(1) by (simp add: Database_new_def db_inv_def objects_ok_def)
  then have inv: "db_inv {} d" by (rule database_steps_inv [OF assms(3)])
  have ob: "objects_ok d" using inv by (simp add: db_inv_def)
  have opens: "engine_inv (db_engine d')" if o: "Database_open d = (Ret StatusOK, d')" for d'
  proof -
    have "engine_ok (db_engine d)" using inv by (simp add: db_inv_def)
    from engine_open_ok [OF this] o show ?thesis
      by (cases "engine_open (db_engine d)") (auto simp: Database_open_def bindM_def modifyM_def on_engine_def)
  qed
  have get: "\<exists>ob. object_at d' p = Some (name, ob)" if g: "getCollection name d = (Ret (Some p), d')" for name p d'
  proof -
    have inv': "db_inv {} d'" by (rule keeps_step [OF keeps_getCollection g inv])
    have "\<exists>ob. map_of (collections d') name = Some ob \<and> obj_addr ob = p"
      using g by (auto simp: getCollection_def new_collection_def bindM_def modifyM_def returnM_def om_lookup_update on_engine_def
          split: option.splits if_splits prod.splits outcome.splits)
    then show ?thesis using object_at_iff [of d' p name] inv' by (auto simp: db_inv_def)
  qed
  have "(\<exists>ob'. object_at d' p = Some (n, ob')) \<or> (\<exists>s. Database_createCollection n d = (Ret s, d')) \<or>
      (\<exists>s. Database_dropCollection n d = (Ret s, d')) \<or> (\<exists>s. Database_close d = (Ret s, d'))"
    if s: "object_at d p = Some (n, ob1)" "database_step d d'" for n p ob1 d'
  proof -
    have "db_inv {(n, p)} d" using inv s(1) object_at_iff [OF ob] by (simp add: db_inv_def)
    from database_step_object [OF s(2) this] show ?thesis
      using object_at_iff [of d' p n] by (auto simp: db_inv_def)
  qed
  then show ?thesis using inv opens get unfolding db_inv_def by blast
qed

text \<open>A database that is opened, closed and opened again; then a pointer, and another call.\<close>

theorem database_reachable_witness:
  "\<exists>d0 d1 d2 p d' d''. Database_open (Database_new new_engine sample_files) = (Ret StatusOK, d0) \<and> Database_close d0 = (Ret StatusOK, d1) \<and>
    Database_open d1 = (Ret StatusOK, d2) \<and> engine_inv (db_engine d2) \<and>
    getCollection ''default'' d2 = (Ret (Some p), d') \<and> (\<exists>ob. object_at d' p = Some (''default'', ob))"
proof -
  let ?d = "\<lparr>isDbOpen_flag = Some True, db_engine = opened_engine, db_files = sample_files, collections = [], next_object = 0\<rparr>"
  have o: "Database_open (Database_new new_engine sample_files) = (Ret StatusOK, ?d)"
    using opened_engine(1) by (simp add: Database_open_def Database_new_def bindM_def modifyM_def on_engine_def)
  have w: "working ?d" using opened_engine by (simp add: working_def live_def objects_ok_def)
  obtain d1 d2 where r: "Database_close ?d = (Ret StatusOK, d1)" "Database_open d1 = (Ret StatusOK, d2)" "working d2"
    "tables (db_engine d2) = tables opened_engine"
    using Database_reopen [OF w] by auto
  have n: "engine_ok new_engine" "db_ptr new_engine = Uninit" by (simp_all add: engine_ok_new) (simp add: new_engine_def)
  have st: "database_step (Database_new new_engine sample_files) ?d" "database_step ?d d1" "database_step d1 d2"
    using database_step.intros(1) [OF o] database_step.intros(2) [OF r(1)] database_step.intros(1) [OF r(2)] .
  from st have runs: "database_step\<^sup>*\<^sup>* (Database_new new_engine sample_files) d1" "database_step\<^sup>*\<^sup>* (Database_new new_engine sample_files) d2"
    by (blast intro: rtranclp.rtrancl_into_rtrancl)+
  obtain p d' where g: "getCollection ''default'' d2 = (Ret (Some p), d')"
    using getCollection_live [OF r(3), of "''default''"] r(4) opened_engine(4) by (auto simp: default_family_def)
  have "engine_inv (db_engine d2)" using database_reachable [OF n runs(1)] r(2) by blast
  moreover have "\<exists>ob. object_at d' p = Some (''default'', ob)" using database_reachable [OF n runs(2)] g by blast
  ultimately show ?thesis using o r(1,2) g by blast
qed

text \<open>C32: \<^verbatim>\<open>dropCollection\<close> of an existing collection succeeds on a working store and removes the collection and
  all its indexes, and nothing else. The object it looks the indexes up with stays in \<^verbatim>\<open>collections_\<close>, so
  \<^verbatim>\<open>getCollection\<close> still returns a pointer for the collection that is gone.\<close>

theorem Database_dropCollection_drops:
  assumes "working d" "plain_name name" "name \<noteq> ''default''" "tables (db_engine d) name \<noteq> None"
  shows "\<exists>d'. Database_dropCollection name d = (Ret StatusOK, d') \<and>
    tables (db_engine d') = (\<lambda>n. if n = name \<or> (\<exists>ix. n = name @ ''__index__'' @ ix) then None else tables (db_engine d) n) \<and>
    (\<exists>p d''. getCollection name d' = (Ret (Some p), d''))"
proof -
  have nd: "name \<noteq> default_family" using assms(3) by (simp add: default_family_def)
  obtain d' where d': "Database_dropCollection name d = (Ret StatusOK, d')" "working d'" "map_of (collections d') name \<noteq> None"
    "tables (db_engine d') = (\<lambda>n. if n = name \<or> index_of_collection name n then None else tables (db_engine d) n)"
    using dropCollection_exists [OF assms(1) nd assms(4)] by blast
  have "\<exists>p d''. getCollection name d' = (Ret (Some p), d'')" using d'(3) by (auto simp: getCollection_def)
  then show ?thesis
    using d'(1,4) index_of_collection_plain [OF assms(2)] by (auto simp: index_family_def index_delimiter_def)
qed

theorem Database_dropCollection_drops_witness:
  "\<exists>d'. Database_dropCollection ''users'' sample_database = (Ret StatusOK, d') \<and> tables (db_engine d') ''users'' = None"
  using Database_dropCollection_drops [OF sample_database(1) plain_users _ sample_database(2)] by fastforce

text \<open>\<^verbatim>\<open>dropCollection\<close> of a collection that does not exist calls a method through the null pointer
  \<^verbatim>\<open>getCollection\<close> returned: undefined behaviour, not an error status.\<close>

theorem Database_dropCollection_missing:
  assumes "working d" "tables (db_engine d) name = None"
  shows "fst (Database_dropCollection name d) = Undef"
  by (rule dropCollection_missing [OF assms])

theorem Database_dropCollection_missing_witness:
  "fst (Database_dropCollection ''orders'' (Database_new (engine_with ''users'') sample_files)) = Undef"
proof -
  have "working (Database_new (engine_with ''users'') sample_files)"
    using live_users(1) by (simp add: working_def Database_new_def objects_ok_def)
  moreover have "tables (engine_with ''users'') ''orders'' = None"
    using engine_with(3) [of "''users''"] by (simp add: default_family_def)
  ultimately show ?thesis using Database_dropCollection_missing [of "Database_new (engine_with ''users'') sample_files" "''orders''"]
    by (simp add: Database_new_def)
qed

text \<open>C33: closing and reopening. On a working store both succeed; all documents are kept, but the indexes of
  every collection that was in use (whose object \<^verbatim>\<open>close\<close> destroys) are gone, and no others.\<close>

theorem Database_reopen_drops_indexes:
  assumes "working d"
  shows "\<exists>d1 d2. Database_close d = (Ret StatusOK, d1) \<and> Database_open d1 = (Ret StatusOK, d2) \<and>
    isDbOpen d1 = Ret False \<and> isDbOpen d2 = Ret True \<and>
    (\<forall>c. plain_name c \<longrightarrow> (\<forall>ix. tables (db_engine d2) (c @ ''__index__'' @ ix) =
      (if map_of (collections d) c \<noteq> None then None else tables (db_engine d) (c @ ''__index__'' @ ix)))) \<and>
    (\<forall>c. find_sub ''__index__'' c = None \<longrightarrow> tables (db_engine d2) c = tables (db_engine d) c)"
proof -
  obtain d1 d2 where r: "Database_close d = (Ret StatusOK, d1)" "Database_open d1 = (Ret StatusOK, d2)"
    "isDbOpen d1 = Ret False" "isDbOpen d2 = Ret True"
    "tables (db_engine d2) = (\<lambda>n. if \<exists>c \<in> fst ` set (collections d). index_of_collection c n then None else tables (db_engine d) n)"
    using Database_reopen [OF assms] by blast
  have "tables (db_engine d2) (c @ ''__index__'' @ ix) =
      (if map_of (collections d) c \<noteq> None then None else tables (db_engine d) (c @ ''__index__'' @ ix))" if "plain_name c" for c ix
  proof -
    have "index_of (c @ ''__index__'' @ ix) = Some (c, ix)"
      using index_of_family [OF that, of ix] by (simp add: index_family_def index_delimiter_def)
    then have "index_of_collection c' (c @ ''__index__'' @ ix) \<longleftrightarrow> c' = c" for c' by (auto simp: index_of_collection_def)
    then show ?thesis using map_of_eq_None_iff [of "collections d" c] by (auto simp: r(5))
  qed
  moreover have "tables (db_engine d2) c = tables (db_engine d) c" if "find_sub ''__index__'' c = None" for c
    using that by (auto simp: r(5) index_of_collection_def index_of_def index_delimiter_def)
  ultimately show ?thesis using r(1-4) by blast
qed

theorem Database_reopen_drops_indexes_witness:
  "\<exists>d1 d2. Database_close sample_database = (Ret StatusOK, d1) \<and> Database_open d1 = (Ret StatusOK, d2) \<and>
    tables (db_engine d2) ''users__index__age'' = None \<and> tables (db_engine d2) ''users'' \<noteq> None"
proof -
  obtain d1 d2 where r: "Database_close sample_database = (Ret StatusOK, d1)" "Database_open d1 = (Ret StatusOK, d2)"
    "\<forall>c. plain_name c \<longrightarrow> (\<forall>ix. tables (db_engine d2) (c @ ''__index__'' @ ix) =
      (if map_of (collections sample_database) c \<noteq> None then None else tables (db_engine sample_database) (c @ ''__index__'' @ ix)))"
    "\<forall>c. find_sub ''__index__'' c = None \<longrightarrow> tables (db_engine d2) c = tables (db_engine sample_database) c"
    using Database_reopen_drops_indexes [OF sample_database(1)] by blast
  have "tables (db_engine d2) (''users'' @ ''__index__'' @ ''age'') = None"
    using r(3) plain_users by (simp add: sample_database_def del: append.simps)
  moreover have "tables (db_engine d2) ''users'' = tables (db_engine sample_database) ''users''" using r(4) by simp
  ultimately show ?thesis using r(1,2) sample_database(2) by auto
qed

end
