(* ===== verification/Anu_Mqtt.thy ===== *)
theory Anu_Mqtt
  imports Anu_Database
begin

text \<open>
  The MQTT server of \<^verbatim>\<open>mqtt/AnuDBMqttClient.cpp\<close>: the request handlers, the publication of responses with
  retries, and the callback of a worker. The MQTT library nng (a submodule) is outside: the results of
  its calls are a list of answers in the state (an exhausted list stands for success), and what it is
  asked to do next is the result of the callback. The parser and the serializer of JSON texts, the
  clock and the random numbers are arguments (\<open>server_env\<close>). \<open>owned\<close> counts the nng messages the
  program has to free: those it allocated or received and has neither freed nor handed over.
  The pointer \<^verbatim>\<open>db_\<close> is never null (\<^verbatim>\<open>main\<close> passes a new database). Console output and pauses are left out.
\<close>

datatype nng_rv = NNG_OK | NNG_ETIMEDOUT | NNG_EAGAIN | NNG_OTHER

record server_env =
  env_parse :: "string \<Rightarrow> json outcome"
  env_dump :: "json \<Rightarrow> string outcome"
  env_dump4 :: "json \<Rightarrow> string outcome"
  env_time :: "32 word"
  env_rands :: "nat list"

record mqtt =
  mq_db :: database
  collMap :: "(string, nat option) omap"
  published :: "(string \<times> string) list"
  owned :: nat
  answers :: "nng_rv list"

definition nng_call :: "(mqtt, nng_rv) comp" where
  "nng_call = (\<lambda>q. case answers q of [] \<Rightarrow> (Ret NNG_OK, q) | rv # rvs \<Rightarrow> (Ret rv, q\<lparr>answers := rvs\<rparr>))"

section \<open>Publishing a response\<close>

definition free_message :: "(mqtt, unit) comp" where
  "free_message = modifyM (\<lambda>q. q\<lparr>owned := owned q - 1\<rparr>)"

definition max_retries :: nat where
  "max_retries = 3"

text \<open>The loop of \<^verbatim>\<open>send_response\<close>: a timeout or a full queue is tried again, any other error gives up.\<close>

function send_loop :: "nat \<Rightarrow> string \<Rightarrow> string \<Rightarrow> (mqtt, unit) comp" where
  "send_loop attempt topic payload =
     (if attempt \<le> max_retries then
        bindM nng_call (\<lambda>rv.
          if rv = NNG_OK then
            modifyM (\<lambda>q. q\<lparr>published := published q @ [(c_string topic, payload)], owned := owned q - 1\<rparr>)
          else if rv = NNG_ETIMEDOUT \<or> rv = NNG_EAGAIN then
            (if attempt + 1 \<le> max_retries then send_loop (attempt + 1) topic payload else free_message)
          else free_message)
      else returnM ())"
  by pat_completeness auto
termination by (relation "measure (\<lambda>(attempt, topic, payload). Suc max_retries - attempt)") (auto simp: max_retries_def)

declare send_loop.simps [simp del]

definition send_response :: "string \<Rightarrow> string \<Rightarrow> (mqtt, unit) comp" where
  "send_response payload response_topic =
     bindM nng_call (\<lambda>rv.
       if rv \<noteq> NNG_OK then returnM ()
       else bindM (modifyM (\<lambda>q. q\<lparr>owned := Suc (owned q)\<rparr>)) (\<lambda>_. send_loop 0 response_topic payload))"

section \<open>Handlers\<close>

text \<open>While a request is handled: the server, the topic of the answer (\<^verbatim>\<open>*wrk->requestid\<close>) and the answer.\<close>

record session =
  s_mqtt :: mqtt
  s_topic :: string
  s_resp :: json

definition on_mqtt :: "(mqtt, 'a) comp \<Rightarrow> (session, 'a) comp" where
  "on_mqtt m = (\<lambda>s. case m (s_mqtt s) of (r, q) \<Rightarrow> (r, s\<lparr>s_mqtt := q\<rparr>))"

definition on_db :: "(database, 'a) comp \<Rightarrow> (mqtt, 'a) comp" where
  "on_db m = (\<lambda>q. case m (mq_db q) of (r, d) \<Rightarrow> (r, q\<lparr>mq_db := d\<rparr>))"

definition set_resp :: "string \<Rightarrow> json \<Rightarrow> (session, unit) comp" where
  "set_resp k v = (\<lambda>s. case index_write k v (s_resp s) of
       Ret j \<Rightarrow> (Ret (), s\<lparr>s_resp := j\<rparr>) | Throw ex \<Rightarrow> (Throw ex, s) | Undef \<Rightarrow> (Undef, s))"

definition respond :: "string \<Rightarrow> string \<Rightarrow> (session, unit) comp" where
  "respond st msg = bindM (set_resp ''status'' (JString st)) (\<lambda>_. set_resp ''message'' (JString msg))"

definition req_string :: "json \<Rightarrow> string \<Rightarrow> (session, string) comp" where
  "req_string req k = liftO (bindO (index_read k req) get_string)"

text \<open>Every handler but one catches exceptions.\<close>

definition handling :: "(session, unit) comp \<Rightarrow> (session, unit) comp" where
  "handling m = catchM m (\<lambda>ex. respond ''error'' (''Exception: '' @ what ex))"

text \<open>The pointer kept in \<^verbatim>\<open>collMap_\<close>, or a new one from the database.\<close>

definition with_coll :: "string \<Rightarrow> (nat option \<Rightarrow> (session, unit) comp) \<Rightarrow> (session, unit) comp" where
  "with_coll name f =
     bindM getM (\<lambda>s. case map_of (collMap (s_mqtt s)) name of
         Some p \<Rightarrow> f p
       | None \<Rightarrow>
           bindM (on_mqtt (on_db (getCollection name))) (\<lambda>c. case c of
               Some a \<Rightarrow> bindM (on_mqtt (modifyM (\<lambda>q. q\<lparr>collMap := om_update name (Some a) (collMap q)\<rparr>))) (\<lambda>_. f (Some a))
             | None \<Rightarrow> respond ''error'' (''Collection :'' @ name @ '' is not found'')))"

definition call :: "nat option \<Rightarrow> (string \<Rightarrow> (engine, 'a) comp) \<Rightarrow> (session, 'a) comp" where
  "call p f = on_mqtt (on_db (on_pointer p f))"

definition handle_create_collection :: "json \<Rightarrow> (session, unit) comp" where
  "handle_create_collection req = handling (
     bindM (req_string req ''collection_name'') (\<lambda>name.
     bindM (on_mqtt (on_db (Database_createCollection name))) (\<lambda>st.
       if \<not> ok st then respond ''error while creating collection'' (st_msg st)
       else
         bindM (on_mqtt (on_db (getCollection name))) (\<lambda>p.
         bindM (on_mqtt (modifyM (\<lambda>q. q\<lparr>collMap := om_update name p (collMap q)\<rparr>))) (\<lambda>_.
           respond ''success'' (name @ '' collection created successfully in AnuDB.''))))))"

definition handle_delete_collection :: "json \<Rightarrow> (session, unit) comp" where
  "handle_delete_collection req = handling (
     bindM (req_string req ''collection_name'') (\<lambda>name.
     bindM (on_mqtt (on_db (Database_dropCollection name))) (\<lambda>st.
       if \<not> ok st then respond ''error while deleting collection'' (st_msg st)
       else
         bindM (on_mqtt (modifyM (\<lambda>q. q\<lparr>collMap := om_delete name (collMap q)\<rparr>))) (\<lambda>_.
           respond ''success'' (name @ '' collection deleted successfully in AnuDB.'')))))"

definition handle_create_document :: "server_env \<Rightarrow> json \<Rightarrow> (session, unit) comp" where
  "handle_create_document env req = handling (
     bindM (req_string req ''collection_name'') (\<lambda>name.
     with_coll name (\<lambda>p.
       bindM (if contains req ''document_id'' then req_string req ''document_id'' else returnM []) (\<lambda>docId.
       bindM (liftO (index_read ''content'' req)) (\<lambda>data.
       bindM (call p (\<lambda>n. createDocument n (env_time env) (env_rands env) \<lparr>doc_id = docId, doc_data = data\<rparr>)) (\<lambda>(st, doc).
         if \<not> ok st then respond (''error while adding document in collection '' @ name) (st_msg st)
         else
           bindM (set_resp ''status'' (JString ''success'')) (\<lambda>_.
           bindM (set_resp ''docId'' (JString (doc_id doc))) (\<lambda>_.
             set_resp ''message'' (JString (''Document added in collection '' @ name))))))))))"

text \<open>Each name followed by a comma.\<close>

definition comma_list :: "string list \<Rightarrow> string" where
  "comma_list names = concat (map (\<lambda>n. n @ '','') names)"

definition handle_get_collections :: "(session, unit) comp" where
  "handle_get_collections =
     bindM getM (\<lambda>s. set_resp ''Collections'' (JString (comma_list (Database_getCollectionNames (mq_db (s_mqtt s))))))"

definition handle_export_collection :: "server_env \<Rightarrow> json \<Rightarrow> (session, unit) comp" where
  "handle_export_collection env req = handling (
     bindM (req_string req ''collection_name'') (\<lambda>name.
     with_coll name (\<lambda>p.
       bindM (req_string req ''dest_dir'') (\<lambda>destDir.
       bindM (on_mqtt (on_db (case p of None \<Rightarrow> undefM | Some a \<Rightarrow> exportAllToJsonAsync (env_dump4 env) destDir a))) (\<lambda>st.
         if ok st then
           bindM (on_mqtt (on_db (case p of None \<Rightarrow> undefM | Some a \<Rightarrow> waitForExportOperation a))) (\<lambda>_.
             respond ''success'' (''Collection: '' @ name @ '' exported successfully to '' @ destDir))
         else respond ''error'' (st_msg st))))))"

definition handle_get_indexes :: "json \<Rightarrow> (session, unit) comp" where
  "handle_get_indexes req = handling (
     bindM (req_string req ''collection_name'') (\<lambda>name.
     with_coll name (\<lambda>p.
       bindM (call p (\<lambda>n. getIndex n [])) (\<lambda>(st, indexes).
       bindM (set_resp ''collection'' (JString name)) (\<lambda>_.
         set_resp ''indexList'' (JString (comma_list indexes)))))))"

text \<open>Reading without an identifier publishes every document up to the limit, one message each.\<close>

function send_documents :: "server_env \<Rightarrow> 32 word \<Rightarrow> 64 word \<Rightarrow> cursor \<Rightarrow> (session, unit) comp" where
  "send_documents env limit cnt cur =
     (if cur_ok cur \<and> isValid cur \<and> cnt < ucast limit then
        bindM (liftO (cursor_current cur empty_document)) (\<lambda>(st, doc).
        bindM (if ok st then
                 bindM (liftO (env_dump env (doc_data doc))) (\<lambda>tmp.
                 bindM getM (\<lambda>s. on_mqtt (send_response tmp (s_topic s))))
               else returnM ()) (\<lambda>_.
          send_documents env limit (cnt + 1) (cursor_next cur)))
      else returnM ())"
  by pat_completeness auto
termination by (relation "measure (\<lambda>(env, limit, cnt, cur). cur_left cur)") (auto simp: cur_left_next)

declare send_documents.simps [simp del]

definition handle_read_document :: "server_env \<Rightarrow> json \<Rightarrow> (session, unit) comp" where
  "handle_read_document env req = handling (
     bindM (req_string req ''collection_name'') (\<lambda>name.
     with_coll name (\<lambda>p.
       if contains req ''document_id'' then
         bindM (req_string req ''document_id'') (\<lambda>docId.
         bindM (call p (\<lambda>n. readDocument n docId empty_document)) (\<lambda>(st, doc).
           if \<not> ok st then respond ''failed to read document'' (st_msg st)
           else modifyM (s_resp_update (\<lambda>_. doc_data doc))))
       else
         bindM (if contains req ''limit'' then liftO (bindO (index_read ''limit'' req) get_uint32) else returnM (- 1)) (\<lambda>limit.
         bindM (call p Cursor_new) (\<lambda>cur.
           send_documents env limit 0 cur)))))"

definition handle_delete_document :: "json \<Rightarrow> (session, unit) comp" where
  "handle_delete_document req = handling (
     bindM (req_string req ''collection_name'') (\<lambda>name.
     with_coll name (\<lambda>p.
       if contains req ''document_id'' then
         bindM (req_string req ''document_id'') (\<lambda>docId.
         bindM (call p (\<lambda>n. deleteDocument n docId)) (\<lambda>st.
           if \<not> ok st then respond (''error while deleting document in collection '' @ name) (st_msg st)
           else
             bindM (set_resp ''status'' (JString ''success'')) (\<lambda>_.
             bindM (set_resp ''docId'' (JString docId)) (\<lambda>_.
               set_resp ''message'' (JString (''Document deleted from collection '' @ name))))))
       else returnM ())))"

definition handle_create_index :: "json \<Rightarrow> (session, unit) comp" where
  "handle_create_index req = handling (
     bindM (req_string req ''collection_name'') (\<lambda>name.
     with_coll name (\<lambda>p.
       bindM (req_string req ''field'') (\<lambda>field.
       bindM (call p (\<lambda>n. createIndex n field)) (\<lambda>st.
         if \<not> ok st then respond (''error while creating index in collection '' @ name) (st_msg st)
         else respond ''success'' (''Index created on field name: '' @ field))))))"

text \<open>The handler of \<^verbatim>\<open>delete_index\<close> calls \<^verbatim>\<open>createIndex\<close>.\<close>

definition handle_delete_index :: "json \<Rightarrow> (session, unit) comp" where
  "handle_delete_index req = handling (
     bindM (req_string req ''collection_name'') (\<lambda>name.
     with_coll name (\<lambda>p.
       bindM (req_string req ''field'') (\<lambda>field.
       bindM (call p (\<lambda>n. createIndex n field)) (\<lambda>st.
         if \<not> ok st then respond (''error while deleting index in collection '' @ name) (st_msg st)
         else respond ''success'' (''Index deleted on field name: '' @ field))))))"

definition send_found :: "server_env \<Rightarrow> nat option \<Rightarrow> string \<Rightarrow> (session, unit) comp" where
  "send_found env p docId =
     bindM (call p (\<lambda>n. readDocument n docId empty_document)) (\<lambda>(st, doc).
       if ok st then
         bindM (liftO (env_dump env (doc_data doc))) (\<lambda>tmp.
         bindM getM (\<lambda>s. on_mqtt (send_response tmp (s_topic s))))
       else returnM ())"

definition handle_find_documents :: "server_env \<Rightarrow> json \<Rightarrow> (session, unit) comp" where
  "handle_find_documents env req = handling (
     bindM (req_string req ''collection_name'') (\<lambda>name.
     with_coll name (\<lambda>p.
       bindM (req_string req ''request_id'') (\<lambda>requestId.
       bindM (liftO (index_read ''query'' req)) (\<lambda>query.
       bindM (call p (\<lambda>n. findDocument n query)) (\<lambda>docIds.
         forM (send_found env p) docIds))))))"

section \<open>Dispatch\<close>

definition response_prefix :: string where
  "response_prefix = ''anudb/response/''"

definition dispatch :: "server_env \<Rightarrow> json \<Rightarrow> string \<Rightarrow> (session, unit) comp" where
  "dispatch env req cmd =
     (if cmd = ''create_collection'' then handle_create_collection req
      else if cmd = ''delete_collection'' then handle_delete_collection req
      else if cmd = ''get_collections'' then handle_get_collections
      else if cmd = ''create_document'' then handle_create_document env req
      else if cmd = ''delete_document'' then handle_delete_document req
      else if cmd = ''read_document'' then
        bindM (handle_read_document env req) (\<lambda>_. set_resp ''status'' (JString ''success''))
      else if cmd = ''create_index'' then handle_create_index req
      else if cmd = ''delete_index'' then handle_delete_index req
      else if cmd = ''get_indexes'' then handle_get_indexes req
      else if cmd = ''find_documents'' then
        bindM (handle_find_documents env req) (\<lambda>_. set_resp ''status'' (JString ''success''))
      else if cmd = ''export_collection'' then handle_export_collection env req
      else respond ''error'' (''Unknown command: '' @ cmd))"

text \<open>The reply is what \<^verbatim>\<open>resp.dump()\<close> gives, outside the \<^verbatim>\<open>try\<close> block; the topic is left in the state.\<close>

definition handle_request :: "server_env \<Rightarrow> string \<Rightarrow> mqtt \<Rightarrow> string outcome \<times> string \<times> mqtt" where
  "handle_request env payload q =
     (case catchM
        (bindM (liftO (env_parse env payload)) (\<lambda>req.
         bindM (req_string req ''command'') (\<lambda>cmd.
         bindM (req_string req ''request_id'') (\<lambda>req_id.
         bindM (modifyM (s_topic_update (\<lambda>t. t @ req_id))) (\<lambda>_.
           dispatch env req cmd)))))
        (\<lambda>ex. respond ''error'' (''Exception :'' @ what ex))
        \<lparr>s_mqtt = q, s_topic = response_prefix, s_resp = JNull\<rparr> of
      (Ret _, s) \<Rightarrow> (env_dump env (s_resp s), s_topic s, s_mqtt s)
    | (Throw ex, s) \<Rightarrow> (Throw ex, s_topic s, s_mqtt s)
    | (Undef, s) \<Rightarrow> (Undef, s_topic s, s_mqtt s))"

section \<open>Workers\<close>

datatype work_state = INIT | RECV | WAIT | SEND

record work =
  w_state :: work_state
  w_msg :: "(string \<times> string) option"
  w_requestid :: "string option"
  w_reply :: "string option"

text \<open>What the callback asks nng to do: receive the next message, sleep for no time, send a message.\<close>

datatype aio_action = Receive | Sleep | Send string string

text \<open>The part of the callback that handles a received message.\<close>

definition cb_wait :: "server_env \<Rightarrow> work \<Rightarrow> mqtt \<Rightarrow> aio_action outcome \<times> work \<times> mqtt" where
  "cb_wait env w q =
     (case w_msg w of
        None \<Rightarrow> (Undef, w, q)
      | Some (topic, payload) \<Rightarrow>
          if payload = [] then (Ret Receive, w\<lparr>w_msg := None, w_state := RECV\<rparr>, q\<lparr>owned := owned q - 1\<rparr>)
          else (case handle_request env payload q of
              (Ret r, rid, q1) \<Rightarrow>
                let q2 = q1\<lparr>owned := owned q1 - 1\<rparr> in
                if r \<noteq> [] then (Ret Sleep, w\<lparr>w_msg := None, w_requestid := Some rid, w_reply := Some r, w_state := SEND\<rparr>, q2)
                else (Ret Receive, w\<lparr>w_msg := None, w_requestid := Some rid, w_state := RECV\<rparr>, q2)
            | (Throw ex, rid, q1) \<Rightarrow> (Throw ex, w\<lparr>w_requestid := Some rid\<rparr>, q1)
            | (Undef, rid, q1) \<Rightarrow> (Undef, w\<lparr>w_requestid := Some rid\<rparr>, q1)))"

text \<open>The part that sends the reply; afterwards it is called again with the result of sending. A message
  whose sending failed belongs to the program again.\<close>

definition cb_send :: "nng_rv \<Rightarrow> work \<Rightarrow> mqtt \<Rightarrow> aio_action outcome \<times> work \<times> mqtt" where
  "cb_send rv w q =
     (if rv \<noteq> NNG_OK then
        (Ret Receive, w\<lparr>w_state := RECV\<rparr>, if w_reply w = None then q\<lparr>owned := Suc (owned q)\<rparr> else q)
      else case w_reply w of
          None \<Rightarrow> (Ret Receive, w\<lparr>w_state := RECV\<rparr>, q)
        | Some reply \<Rightarrow> (case nng_call q of (r, q1) \<Rightarrow>
            if r \<noteq> Ret NNG_OK then (Ret Receive, w\<lparr>w_state := RECV\<rparr>, q1)
            else (case w_requestid w of
                None \<Rightarrow> (Undef, w, q1)
              | Some rid \<Rightarrow> (Ret (Send (c_string rid) reply), w\<lparr>w_reply := None, w_requestid := None\<rparr>, q1))))"

definition client_cb :: "server_env \<Rightarrow> nng_rv \<Rightarrow> string \<times> string \<Rightarrow> work \<Rightarrow> mqtt \<Rightarrow> aio_action outcome \<times> work \<times> mqtt" where
  "client_cb env rv received w q =
     (case w_state w of
        INIT \<Rightarrow> (Ret Receive, w\<lparr>w_state := RECV\<rparr>, q)
      | RECV \<Rightarrow>
          if rv \<noteq> NNG_OK then (Ret Receive, w\<lparr>w_state := RECV\<rparr>, q)
          else (Ret Sleep, w\<lparr>w_msg := Some received, w_state := WAIT\<rparr>, q\<lparr>owned := Suc (owned q)\<rparr>)
      | WAIT \<Rightarrow> cb_wait env w q
      | SEND \<Rightarrow> cb_send rv w q)"

text \<open>A worker starts without a message and without a reply (its topic is not set before a request).\<close>

definition new_work :: work where
  "new_work = \<lparr>w_state = INIT, w_msg = None, w_requestid = None, w_reply = None\<rparr>"

section \<open>Lemmas: publishing\<close>

text \<open>The answer to the coming call number \<open>i\<close>.\<close>

definition answer_at :: "mqtt \<Rightarrow> nat \<Rightarrow> nng_rv" where
  "answer_at q i = (if i < length (answers q) then answers q ! i else NNG_OK)"

definition pop_answer :: "mqtt \<Rightarrow> mqtt" where
  "pop_answer q = q\<lparr>answers := tl (answers q)\<rparr>"

definition retriable :: "nng_rv \<Rightarrow> bool" where
  "retriable rv = (rv = NNG_ETIMEDOUT \<or> rv = NNG_EAGAIN)"

lemma nng_call_run: "nng_call q = (Ret (answer_at q 0), pop_answer q)"
  by (cases "answers q") (simp_all add: nng_call_def answer_at_def pop_answer_def)

lemma answer_at_pop [simp]: "answer_at (pop_answer q) i = answer_at q (Suc i)"
  by (cases "answers q") (simp_all add: answer_at_def pop_answer_def)

lemma pop_answer_fields [simp]: "published (pop_answer q) = published q" "owned (pop_answer q) = owned q"
  "mq_db (pop_answer q) = mq_db q" "collMap (pop_answer q) = collMap q" "length (answers (pop_answer q)) = length (answers q) - 1"
  by (simp_all add: pop_answer_def)

text \<open>With \<open>n\<close> more attempts the message goes out when an attempt succeeds after retriable failures only.\<close>

definition gets_through :: "nat \<Rightarrow> mqtt \<Rightarrow> bool" where
  "gets_through n q = (\<exists>k \<le> n. (\<forall>i < k. retriable (answer_at q i)) \<and> answer_at q k = NNG_OK)"

lemma gets_through_0: "gets_through 0 q \<longleftrightarrow> answer_at q 0 = NNG_OK"
  by (simp add: gets_through_def)

lemma gets_through_Suc:
  "gets_through (Suc n) q \<longleftrightarrow> answer_at q 0 = NNG_OK \<or> retriable (answer_at q 0) \<and> gets_through n (pop_answer q)"
proof
  assume "gets_through (Suc n) q"
  then obtain k where k: "k \<le> Suc n" "\<forall>i < k. retriable (answer_at q i)" "answer_at q k = NNG_OK" by (auto simp: gets_through_def)
  show "answer_at q 0 = NNG_OK \<or> retriable (answer_at q 0) \<and> gets_through n (pop_answer q)"
  proof (cases k)
    case (Suc j)
    then have "retriable (answer_at q 0)" "\<forall>i < j. retriable (answer_at (pop_answer q) i)" using k(2) by auto
    then show ?thesis using k Suc by (auto simp: gets_through_def)
  qed (use k in simp)
next
  assume "answer_at q 0 = NNG_OK \<or> retriable (answer_at q 0) \<and> gets_through n (pop_answer q)"
  then show "gets_through (Suc n) q"
  proof
    assume "retriable (answer_at q 0) \<and> gets_through n (pop_answer q)"
    then obtain k where k: "k \<le> n" "\<forall>i < k. retriable (answer_at q (Suc i))" "answer_at q (Suc k) = NNG_OK" "retriable (answer_at q 0)"
      by (auto simp: gets_through_def)
    then have "\<forall>i < Suc k. retriable (answer_at q i)" by (simp add: All_less_Suc2)
    then show ?thesis using k(1,3) unfolding gets_through_def by (meson Suc_le_mono)
  qed (auto simp: gets_through_def)
qed

text \<open>What one call may change: the answers, and at most one message is published.\<close>

definition delivers :: "string \<Rightarrow> string \<Rightarrow> bool \<Rightarrow> mqtt \<Rightarrow> mqtt \<Rightarrow> bool" where
  "delivers topic payload b q q' = (mq_db q' = mq_db q \<and> collMap q' = collMap q \<and>
     published q' = published q @ (if b then [(c_string topic, payload)] else []))"

lemma send_loop_run:
  assumes "attempt + n = max_retries" "owned q = Suc k"
  shows "\<exists>q'. send_loop attempt topic payload q = (Ret (), q') \<and> owned q' = k \<and> delivers topic payload (gets_through n q) q q' \<and>
    length (answers q) \<le> length (answers q') + Suc n"
  using assms
proof (induction n arbitrary: attempt q)
  case 0
  then show ?case
    by (cases "answer_at q 0")
      (auto simp: send_loop.simps [of max_retries] bindM_def nng_call_run modifyM_def free_message_def delivers_def gets_through_0)
next
  case (Suc n)
  have IH: "\<exists>q'. send_loop (attempt + 1) topic payload (pop_answer q) = (Ret (), q') \<and> owned q' = k \<and>
      delivers topic payload (gets_through n (pop_answer q)) (pop_answer q) q' \<and>
      length (answers (pop_answer q)) \<le> length (answers q') + Suc n"
    by (rule Suc.IH) (use Suc.prems in auto)
  have le: "attempt \<le> max_retries" "attempt + 1 \<le> max_retries" using Suc.prems by simp_all
  show ?case
    using IH le Suc.prems(2)
    by (cases "answer_at q 0")
      (auto simp: send_loop.simps [of attempt] bindM_def nng_call_run modifyM_def free_message_def delivers_def
        gets_through_Suc retriable_def)
qed

lemma send_response_run:
  "\<exists>q'. send_response payload topic q = (Ret (), q') \<and> owned q' = owned q \<and>
     delivers topic payload (answer_at q 0 = NNG_OK \<and> gets_through max_retries (pop_answer q)) q q' \<and>
     length (answers q) \<le> length (answers q') + 5"
proof -
  let ?q = "(pop_answer q)\<lparr>owned := Suc (owned q)\<rparr>"
  have "gets_through max_retries ?q = gets_through max_retries (pop_answer q)" by (simp add: gets_through_def answer_at_def)
  moreover have "length (answers q) \<le> length (answers ?q) + 1" by simp
  ultimately show ?thesis
    using send_loop_run [of 0 max_retries ?q "owned q" topic payload]
    by (auto simp: send_response_def bindM_def nng_call_run modifyM_def returnM_def delivers_def max_retries_def)
qed

end
