(* ===== verification/Anu_Server.thy ===== *)
theory Anu_Server
  imports Anu_Mqtt
begin

text \<open>
  What the handlers of the MQTT server keep. The interface \<open>server_invariant\<close> lists what a handler does to
  the server: it calls collections through pointers, publishes messages, and looks collections up. It
  is interpreted on the number of messages the program owns, and on the validity of the pointers in
  \<^verbatim>\<open>collMap_\<close> over a working store.
\<close>

section \<open>The interface of the handlers\<close>

definition names_default :: "json \<Rightarrow> bool" where
  "names_default req = (bindO (index_read ''collection_name'' req) get_string = Ret default_family)"

text \<open>\<open>D\<close> are the requests whose \<^verbatim>\<open>delete_collection\<close> is left out.\<close>

locale handler_invariant =
  fixes S :: "session \<Rightarrow> bool" and D :: "json \<Rightarrow> bool"
  assumes resp: "S (s\<lparr>s_resp := j\<rparr>) = S s"
    and with_coll: "(\<And>p. keeps S (f p)) \<Longrightarrow> keeps S (with_coll name f)"
    and create_collection: "keeps S (handle_create_collection req)"
    and delete_collection: "\<not> D req \<Longrightarrow> keeps S (handle_delete_collection req)"
    and send: "keeps S (on_mqtt (send_response payload response_topic))"
    and engine: "S s \<Longrightarrow> (live (db_engine (mq_db (s_mqtt s))) \<Longrightarrow> live e) \<Longrightarrow>
      S (s\<lparr>s_mqtt := (s_mqtt s)\<lparr>mq_db := (mq_db (s_mqtt s))\<lparr>db_engine := e\<rparr>\<rparr>\<rparr>)"
    and export: "keeps S (on_mqtt (on_db (case p of None \<Rightarrow> undefM | Some a \<Rightarrow> exportAllToJsonAsync dump dir a)))"
    and wait: "keeps S (on_mqtt (on_db (case p of None \<Rightarrow> undefM | Some a \<Rightarrow> waitForExportOperation a)))"
begin

lemma call:
  assumes "\<And>n. keeps live (g n)"
  shows "keeps S (call p g)"
  unfolding keeps_def
proof (intro allI impI)
  fix s assume s: "S s" "fst (call p g s) \<noteq> Undef"
  let ?d = "mq_db (s_mqtt s)"
  obtain n r e where g: "g n (db_engine ?d) = (r, e)" "r \<noteq> Undef"
    "snd (call p g s) = s\<lparr>s_mqtt := (s_mqtt s)\<lparr>mq_db := ?d\<lparr>db_engine := e\<rparr>\<rparr>\<rparr>"
    using s(2) by (auto simp: call_def on_mqtt_def on_db_def on_pointer_def undefM_def on_object_def on_engine_def
        split: option.splits prod.splits)
  have "live (db_engine ?d) \<Longrightarrow> live e" using keepsD [OF assms, of "db_engine ?d" n] g(1,2) by simp
  then show "S (snd (call p g s))" unfolding g(3) by (rule engine [OF s(1)])
qed

lemma keeps_set_resp: "keeps S (set_resp k v)"
  unfolding keeps_def set_resp_def by (auto simp: resp split: outcome.splits)

lemma keeps_respond: "keeps S (respond st msg)"
  unfolding respond_def by (intro keeps_intros keeps_set_resp)

lemma keeps_replace: "keeps S (modifyM (s_resp_update (\<lambda>_. j)))"
  by (simp add: keeps_def modifyM_def resp)

lemma keeps_handling: "keeps S m \<Longrightarrow> keeps S (handling m)"
  unfolding handling_def by (intro keeps_intros keeps_respond)

lemma keeps_req_string: "keeps S (req_string req k)"
  unfolding req_string_def by (intro keeps_intros)

lemmas server_keeps = keeps_set_resp keeps_respond keeps_replace keeps_handling keeps_req_string with_coll call send export wait
  live.collection_keeps live.engine_keeps

lemma keeps_send_documents: "keeps S (send_documents env limit cnt cur)"
proof (induction env limit cnt cur rule: send_documents.induct)
  case (1 env limit cnt cur)
  show ?case
  proof (cases "cur_ok cur \<and> isValid cur \<and> cnt < ucast limit")
    case True
    then show ?thesis
      by (subst send_documents.simps, simp only: if_True True simp_thms) (intro keeps_intros server_keeps 1 [OF True])
  qed (subst send_documents.simps, simp only: if_False, intro keeps_intros)
qed

lemma keeps_find: "keeps S (handle_find_documents env req)"
proof -
  have "keeps S (forM (send_found env p) ids)" for p ids
    by (induction ids) (auto simp: send_found_def intro!: keeps_intros server_keeps)
  then show ?thesis unfolding handle_find_documents_def by (intro keeps_intros server_keeps)
qed

lemma keeps_sending: "keeps S (handle_create_document env req)" "keeps S (handle_delete_document req)"
  "keeps S (handle_read_document env req)"
  unfolding handle_create_document_def handle_delete_document_def handle_read_document_def
  by (intro keeps_intros server_keeps keeps_send_documents)+

lemma keeps_indexes: "keeps S (handle_create_index req)" "keeps S (handle_delete_index req)" "keeps S (handle_get_indexes req)"
  "keeps S (handle_export_collection env req)" "keeps S handle_get_collections"
  unfolding handle_create_index_def handle_delete_index_def handle_get_indexes_def handle_export_collection_def handle_get_collections_def
  by (intro keeps_intros server_keeps)+

lemma keeps_dispatch: "\<not> (cmd = ''delete_collection'' \<and> D req) \<Longrightarrow> keeps S (dispatch env req cmd)"
  unfolding dispatch_def
  by (intro keeps_intros create_collection delete_collection keeps_sending keeps_indexes keeps_find server_keeps) simp

end

text \<open>An invariant that does not depend on the topic is kept by the whole request.\<close>

locale server_invariant = handler_invariant +
  assumes topic: "S (s\<lparr>s_topic := t\<rparr>) = S s"
begin

lemma keeps_topic: "keeps S (modifyM (s_topic_update g))"
proof -
  have t: "s_topic_update g s = s\<lparr>s_topic := g (s_topic s)\<rparr>" for s by simp
  show ?thesis unfolding keeps_def modifyM_def t by (simp add: topic)
qed

lemma keeps_request:
  assumes "handle_request env payload q = (r, t, q')" "r \<noteq> Undef" "S \<lparr>s_mqtt = q, s_topic = response_prefix, s_resp = JNull\<rparr>"
    and "\<And>req. env_parse env payload = Ret req \<Longrightarrow>
      \<not> (bindO (index_read ''command'' req) get_string = Ret ''delete_collection'' \<and> D req)"
  shows "\<exists>j. S \<lparr>s_mqtt = q', s_topic = t, s_resp = j\<rparr>"
proof -
  let ?m = "catchM
        (bindM (liftO (env_parse env payload)) (\<lambda>req.
         bindM (req_string req ''command'') (\<lambda>cmd.
         bindM (req_string req ''request_id'') (\<lambda>req_id.
         bindM (modifyM (s_topic_update (\<lambda>t. t @ req_id))) (\<lambda>_.
           dispatch env req cmd)))))
        (\<lambda>ex. respond ''error'' (''Exception :'' @ what ex))"
  have "keeps S (bindM (req_string req ''command'') (\<lambda>cmd. bindM (req_string req ''request_id'') (\<lambda>req_id.
      bindM (modifyM (s_topic_update (\<lambda>t. t @ req_id))) (\<lambda>_. dispatch env req cmd))))" if "env_parse env payload = Ret req" for req
  proof (cases "bindO (index_read ''command'' req) get_string")
    case (Ret cmd)
    have e: "bindM (req_string req ''command'') f = f cmd" for f :: "string \<Rightarrow> (session, unit) comp"
      by (simp add: req_string_def Ret bindM_def liftO_def fun_eq_iff)
    show ?thesis unfolding e using assms(4) [OF that] Ret by (intro keeps_intros server_keeps keeps_topic keeps_dispatch) simp
  qed (auto simp: keeps_def req_string_def bindM_def liftO_def)
  then have "keeps S (bindM (liftO (env_parse env payload)) (\<lambda>req. bindM (req_string req ''command'') (\<lambda>cmd.
      bindM (req_string req ''request_id'') (\<lambda>req_id. bindM (modifyM (s_topic_update (\<lambda>t. t @ req_id))) (\<lambda>_. dispatch env req cmd)))))"
    by (cases "env_parse env payload") (auto simp: keeps_def bindM_def liftO_def)
  then have k: "keeps S ?m" by (rule keeps_catch) (rule keeps_respond)
  obtain r0 s0 where m: "?m \<lparr>s_mqtt = q, s_topic = response_prefix, s_resp = JNull\<rparr> = (r0, s0)" by force
  then have q': "q' = s_mqtt s0" "t = s_topic s0" "r0 \<noteq> Undef"
    using assms(1,2) by (auto simp: handle_request_def split: outcome.splits)
  then have "S s0" using keepsD [OF k assms(3)] m by simp
  then have "S \<lparr>s_mqtt = q', s_topic = t, s_resp = s_resp s0\<rparr>" using q' by (cases s0) simp
  then show ?thesis by blast
qed

end

section \<open>Messages owned\<close>

text \<open>Handlers leave the number of messages to free as it was: every response that is allocated is handed
  over or freed.\<close>

definition owns :: "nat \<Rightarrow> session \<Rightarrow> bool" where
  "owns k s = (owned (s_mqtt s) = k)"

lemma owns_on_mqtt: "(\<And>q. owned (snd (m q)) = owned q) \<Longrightarrow> keeps (owns k) (on_mqtt m)"
  unfolding keeps_def owns_def on_mqtt_def by (auto split: prod.splits) (metis snd_conv)

lemma owns_on_db: "keeps (owns k) (on_mqtt (on_db m))"
  by (rule owns_on_mqtt) (simp add: on_db_def split: prod.splits)

lemma owns_modify: "(\<And>q. owned (f q) = owned q) \<Longrightarrow> keeps (owns k) (on_mqtt (modifyM f))"
  by (rule owns_on_mqtt) (simp add: modifyM_def)

lemma owns_respond: "keeps (owns k) (respond st msg)"
  unfolding respond_def by (intro keeps_intros) (auto simp: keeps_def set_resp_def owns_def split: outcome.splits)

lemma owns_handling: "keeps (owns k) m \<Longrightarrow> keeps (owns k) (handling m)"
  unfolding handling_def by (intro keeps_intros owns_respond)

interpretation own: server_invariant "owns k" "\<lambda>_. False" for k
proof unfold_locales
  show "keeps (owns k) (on_mqtt (send_response payload response_topic))" for payload response_topic
  proof (rule owns_on_mqtt)
    show "owned (snd (send_response payload response_topic q)) = owned q" for q
      using send_response_run [of payload response_topic q] by auto
  qed
  show "keeps (owns k) (handle_create_collection req)" "keeps (owns k) (handle_delete_collection req)" for req
    unfolding handle_create_collection_def handle_delete_collection_def req_string_def
    by (intro owns_handling keeps_intros owns_on_db owns_respond owns_modify; simp)+
  show "keeps (owns k) (with_coll name f)" if "\<And>p. keeps (owns k) (f p)" for name f
    unfolding with_coll_def by (intro keeps_intros owns_on_db owns_respond owns_modify that) simp
qed (auto simp: owns_def intro: owns_on_db)

section \<open>Pointers to collections\<close>

text \<open>On a working store every pointer in \<^verbatim>\<open>collMap_\<close> points to the live object of its collection.\<close>

definition pointers_ok :: "mqtt \<Rightarrow> bool" where
  "pointers_ok q = (working (mq_db q) \<and> om_ok (collMap q) \<and>
     (\<forall>n p. map_of (collMap q) n = Some p \<longrightarrow> (\<exists>ob. map_of (collections (mq_db q)) n = Some ob \<and> p = Some (obj_addr ob))))"

lemma pointers_okI:
  assumes "working (mq_db q)" "om_ok (collMap q)"
    and "\<And>n p. map_of (collMap q) n = Some p \<Longrightarrow> \<exists>ob. map_of (collections (mq_db q)) n = Some ob \<and> p = Some (obj_addr ob)"
  shows "pointers_ok q"
  using assms by (simp add: pointers_ok_def)

lemma pointers_okD:
  assumes "pointers_ok q"
  shows "working (mq_db q)" "om_ok (collMap q)" "map_of (collMap q) n = Some p \<Longrightarrow> \<exists>ob. map_of (collections (mq_db q)) n = Some ob \<and> p = Some (obj_addr ob)"
  using assms by (simp_all add: pointers_ok_def)

definition safe :: "session \<Rightarrow> bool" where
  "safe s = pointers_ok (s_mqtt s)"

lemma safe_respond: "keeps safe (respond st msg)"
  unfolding respond_def by (intro keeps_intros) (auto simp: keeps_def set_resp_def safe_def split: outcome.splits)

lemma safe_handling: "keeps safe m \<Longrightarrow> keeps safe (handling m)"
  unfolding handling_def by (intro keeps_intros safe_respond)

text \<open>A pointer from \<^verbatim>\<open>getCollection\<close> may be stored under its name.\<close>

definition fetch_pointer :: "string \<Rightarrow> (session, nat option) comp" where
  "fetch_pointer name =
     bindM (on_mqtt (on_db (getCollection name))) (\<lambda>c. case c of
         None \<Rightarrow> returnM None
       | Some a \<Rightarrow> bindM (on_mqtt (modifyM (\<lambda>q. q\<lparr>collMap := om_update name (Some a) (collMap q)\<rparr>))) (\<lambda>_. returnM (Some a)))"

lemma pointers_ok_store:
  assumes "pointers_ok q" "getCollection name (mq_db q) = (Ret p, d)"
  shows "p = None \<Longrightarrow> pointers_ok (q\<lparr>mq_db := d\<rparr>)"
    and "p = Some a \<Longrightarrow> pointers_ok (q\<lparr>mq_db := d, collMap := om_update name (Some a) (collMap q)\<rparr>)"
proof -
  note i = pointers_okD [OF assms(1)]
  from getCollection_live [OF i(1), of name] assms(2)
  have g: "working d" "p = None \<longrightarrow> d = mq_db q" "\<forall>a. p = Some a \<longrightarrow> (\<exists>ob. map_of (collections d) name = Some ob \<and> obj_addr ob = a)"
    "\<forall>n. n \<noteq> name \<longrightarrow> map_of (collections d) n = map_of (collections (mq_db q)) n" by auto
  show "p = None \<Longrightarrow> pointers_ok (q\<lparr>mq_db := d\<rparr>)" using g(2) assms(1) by simp
  assume "p = Some a"
  then obtain ob where "map_of (collections d) name = Some ob" "obj_addr ob = a" using g(3) by blast
  then show "pointers_ok (q\<lparr>mq_db := d, collMap := om_update name (Some a) (collMap q)\<rparr>)"
    using g(1,4) i(2,3) by (intro pointers_okI) (auto simp: om_ok_update om_lookup_update split: if_splits)
qed

lemma safe_fetch_pointer: "keeps safe (fetch_pointer name)"
  unfolding keeps_def
proof (intro allI impI)
  fix s assume s: "safe s" "fst (fetch_pointer name s) \<noteq> Undef"
  have "\<exists>p d. getCollection name (mq_db (s_mqtt s)) = (Ret p, d)"
    using getCollection_live s(1) by (auto simp: safe_def pointers_ok_def) metis
  then obtain p d where g: "getCollection name (mq_db (s_mqtt s)) = (Ret p, d)" by blast
  show "safe (snd (fetch_pointer name s))"
    using pointers_ok_store [OF s(1) [unfolded safe_def] g] g
    by (cases p) (auto simp: fetch_pointer_def bindM_def on_mqtt_def on_db_def returnM_def modifyM_def safe_def)
qed

lemma with_coll_fetch:
  "with_coll name f = bindM getM (\<lambda>s. case map_of (collMap (s_mqtt s)) name of
       Some p \<Rightarrow> f p
     | None \<Rightarrow> bindM (fetch_pointer name) (\<lambda>c. case c of
           Some a \<Rightarrow> f (Some a)
         | None \<Rightarrow> respond ''error'' (''Collection :'' @ name @ '' is not found'')))"
  unfolding with_coll_def fetch_pointer_def bindM_assoc
  by (auto simp: fun_eq_iff bindM_def getM_def returnM_def split: option.splits prod.splits outcome.splits)

lemma safe_with_coll: "(\<And>p. keeps safe (f p)) \<Longrightarrow> keeps safe (with_coll name f)"
  unfolding with_coll_fetch by (intro keeps_intros safe_fetch_pointer safe_respond)

lemma createCollection_live:
  assumes "working d"
  shows "\<exists>st d'. Database_createCollection name d = (Ret st, d') \<and> working d' \<and>
    (\<not> ok st \<longrightarrow> d' = d) \<and> (ok st \<longrightarrow> map_of (collections d') name \<noteq> None) \<and>
    (\<forall>n. n \<noteq> name \<longrightarrow> map_of (collections d') n = map_of (collections d) n)"
proof (cases "tables (db_engine d) name")
  case None
  have l: "live (db_engine d)" and o: "objects_ok d" using assms by (simp_all add: working_def)
  let ?d = "d\<lparr>db_engine := add_table name (db_engine d)\<rparr>"
  have c: "engine_createCollection name (db_engine d) = (Ret StatusOK, add_table name (db_engine d))"
    using None liveD [OF l] by (simp add: engine_createCollection_run)
  have "working ?d" using l o None by (simp add: working_def live_def engine_inv_add_table)
  from new_collection_live [OF this, of name] obtain d' where
    "new_collection name ?d = (Ret (next_object ?d), d')" "working d'"
    "collections d' = om_update name \<lparr>obj_addr = next_object ?d, obj_exporting = False\<rparr> (collections ?d)" by blast
  then show ?thesis using c by (simp add: Database_createCollection_def bindM_def on_engine_def returnM_def om_lookup_update)
next
  case (Some m)
  then have "engine_createCollection name (db_engine d) = (Ret (InvalidArgument (''Collection already exists: '' @ name)), db_engine d)"
    using assms by (simp add: engine_createCollection_run working_def live_def)
  then show ?thesis using assms by (simp add: Database_createCollection_def bindM_def on_engine_def returnM_def)
qed

text \<open>Creating a collection and storing its pointer, and dropping one and erasing its pointer.\<close>

definition create_and_store :: "string \<Rightarrow> (session, status) comp" where
  "create_and_store name =
     bindM (on_mqtt (on_db (Database_createCollection name))) (\<lambda>st.
       if \<not> ok st then returnM st
       else
         bindM (on_mqtt (on_db (getCollection name))) (\<lambda>p.
         bindM (on_mqtt (modifyM (\<lambda>q. q\<lparr>collMap := om_update name p (collMap q)\<rparr>))) (\<lambda>_. returnM st)))"

definition drop_and_erase :: "string \<Rightarrow> (session, status) comp" where
  "drop_and_erase name =
     bindM (on_mqtt (on_db (Database_dropCollection name))) (\<lambda>st.
       if \<not> ok st then returnM st
       else bindM (on_mqtt (modifyM (\<lambda>q. q\<lparr>collMap := om_delete name (collMap q)\<rparr>))) (\<lambda>_. returnM st))"

lemma safe_create_and_store: "keeps safe (create_and_store name)"
proof (rule keepsI)
  fix s assume "safe s"
  then have q: "pointers_ok (s_mqtt s)" by (simp add: safe_def)
  note i = pointers_okD [OF q]
  obtain st d where c: "Database_createCollection name (mq_db (s_mqtt s)) = (Ret st, d)" "working d"
    "\<not> ok st \<longrightarrow> d = mq_db (s_mqtt s)" "ok st \<longrightarrow> map_of (collections d) name \<noteq> None"
    "\<forall>n. n \<noteq> name \<longrightarrow> map_of (collections d) n = map_of (collections (mq_db (s_mqtt s))) n"
    using createCollection_live [OF i(1), of name] by blast
  show "safe (snd (create_and_store name s))"
  proof (cases "ok st")
    case True
    then obtain ob where ob: "map_of (collections d) name = Some ob" using c(4) by blast
    then have "getCollection name d = (Ret (Some (obj_addr ob)), d)" by (simp add: getCollection_def)
    then have e: "create_and_store name s = (Ret st, s\<lparr>s_mqtt := (s_mqtt s)\<lparr>mq_db := d,
        collMap := om_update name (Some (obj_addr ob)) (collMap (s_mqtt s))\<rparr>\<rparr>)"
      using c(1) True by (simp add: create_and_store_def bindM_def on_mqtt_def on_db_def modifyM_def returnM_def)
    show ?thesis
      unfolding e safe_def using c(2,5) i(2,3) ob
      by (auto intro!: pointers_okI simp: om_ok_update om_lookup_update split: if_splits)
  next
    case False
    then show ?thesis using c(1,3) q by (simp add: create_and_store_def bindM_def on_mqtt_def on_db_def returnM_def safe_def)
  qed
qed

lemma safe_drop_and_erase:
  assumes "name \<noteq> default_family"
  shows "keeps safe (drop_and_erase name)"
  unfolding keeps_def
proof (intro allI impI)
  fix s assume s: "safe s" "fst (drop_and_erase name s) \<noteq> Undef"
  then have q: "pointers_ok (s_mqtt s)" by (simp add: safe_def)
  note i = pointers_okD [OF q]
  have "fst (Database_dropCollection name (mq_db (s_mqtt s))) \<noteq> Undef"
    using s(2) by (auto simp: drop_and_erase_def bindM_def on_mqtt_def on_db_def split: prod.splits outcome.splits)
  then have "tables (db_engine (mq_db (s_mqtt s))) name \<noteq> None" using dropCollection_missing [OF i(1)] by blast
  from dropCollection_exists [OF i(1) assms this] obtain d where d: "Database_dropCollection name (mq_db (s_mqtt s)) = (Ret StatusOK, d)"
    "working d" "\<forall>n. n \<noteq> name \<longrightarrow> map_of (collections d) n = map_of (collections (mq_db (s_mqtt s))) n" by blast
  have e: "drop_and_erase name s = (Ret StatusOK, s\<lparr>s_mqtt := (s_mqtt s)\<lparr>mq_db := d, collMap := om_delete name (collMap (s_mqtt s))\<rparr>\<rparr>)"
    using d(1) by (simp add: drop_and_erase_def bindM_def on_mqtt_def on_db_def modifyM_def returnM_def)
  show "safe (snd (drop_and_erase name s))"
    unfolding e safe_def using d(2,3) i(2,3)
    by (auto intro!: pointers_okI simp: om_ok_delete om_lookup_delete split: if_splits)
qed

lemma create_collection_store:
  "handle_create_collection req = handling (bindM (req_string req ''collection_name'') (\<lambda>name.
     bindM (create_and_store name) (\<lambda>st.
       if \<not> ok st then respond ''error while creating collection'' (st_msg st)
       else respond ''success'' (name @ '' collection created successfully in AnuDB.''))))"
  unfolding handle_create_collection_def create_and_store_def bindM_assoc
  by (intro arg_cong [where f = handling] arg_cong [where f = "bindM _"] ext) (auto simp: bindM_return_left bindM_assoc)

lemma delete_collection_erase:
  "handle_delete_collection req = handling (bindM (req_string req ''collection_name'') (\<lambda>name.
     bindM (drop_and_erase name) (\<lambda>st.
       if \<not> ok st then respond ''error while deleting collection'' (st_msg st)
       else respond ''success'' (name @ '' collection deleted successfully in AnuDB.''))))"
  unfolding handle_delete_collection_def drop_and_erase_def bindM_assoc
  by (intro arg_cong [where f = handling] arg_cong [where f = "bindM _"] ext) (auto simp: bindM_return_left bindM_assoc)

text \<open>An export changes no addresses.\<close>

definition same_addresses :: "database \<Rightarrow> database \<Rightarrow> bool" where
  "same_addresses d d' = (working d' \<and> (\<forall>n. map_option obj_addr (map_of (collections d') n) = map_option obj_addr (map_of (collections d) n)))"

lemma pointers_ok_same:
  assumes "pointers_ok q" "same_addresses (mq_db q) d"
  shows "pointers_ok (q\<lparr>mq_db := d\<rparr>)"
proof (rule pointers_okI)
  note i = pointers_okD [OF assms(1)]
  show "working (mq_db (q\<lparr>mq_db := d\<rparr>))" using assms(2) by (simp add: same_addresses_def)
  show "om_ok (collMap (q\<lparr>mq_db := d\<rparr>))" using i(2) by simp
  fix n p assume "map_of (collMap (q\<lparr>mq_db := d\<rparr>)) n = Some p"
  then obtain ob where "map_of (collections (mq_db q)) n = Some ob" "p = Some (obj_addr ob)" using i(3) by auto
  moreover then have "map_option obj_addr (map_of (collections d) n) = Some (obj_addr ob)"
    using assms(2) by (simp add: same_addresses_def)
  ultimately show "\<exists>ob. map_of (collections (mq_db (q\<lparr>mq_db := d\<rparr>))) n = Some ob \<and> p = Some (obj_addr ob)" by auto
qed

lemma objects_ok_cong: "collections d = collections d' \<Longrightarrow> next_object d = next_object d' \<Longrightarrow> objects_ok d = objects_ok d'"
  by (simp add: objects_ok_def)

lemma same_addresses_set:
  assumes "working d" "object_at d a = Some (n, ob)" "obj_addr ob' = obj_addr ob" "live e"
  shows "same_addresses d (d\<lparr>db_engine := e, db_files := fs, collections := om_update n ob' (collections d)\<rparr>)"
proof -
  have o: "objects_ok d" using assms(1) by (simp add: working_def)
  then have m: "map_of (collections d) n = Some ob" using object_at_iff assms(2) by blast
  have "objects_ok (d\<lparr>collections := om_update n ob' (collections d)\<rparr>)" by (rule objects_ok_set [OF o m assms(3)])
  then have "objects_ok (d\<lparr>db_engine := e, db_files := fs, collections := om_update n ob' (collections d)\<rparr>)"
    by (rule objects_ok_cong [THEN iffD1, rotated 2]) simp_all
  then show ?thesis using assms(3,4) m by (simp add: same_addresses_def working_def om_lookup_update)
qed

lemma same_addresses_export:
  assumes "working d" "fst (exportAllToJsonAsync dump dir a d) \<noteq> Undef"
  shows "same_addresses d (snd (exportAllToJsonAsync dump dir a d))"
proof -
  obtain n ob where ob: "object_at d a = Some (n, ob)" "\<not> obj_exporting ob"
    using assms(2) by (auto simp: exportAllToJsonAsync_def split: option.splits if_splits)
  obtain r e fs where x: "exportAllToJson dump n dir (db_engine d, db_files d) = (r, e, fs)" by (metis prod_cases3)
  have r: "r \<noteq> Undef" using assms(2) ob x by (auto simp: exportAllToJsonAsync_def Let_def)
  have "live (db_engine d)" using assms(1) by (simp add: working_def)
  then have "live e" using keepsD [OF keeps_exportAllToJson [OF keeps_iterator(2)], of "(db_engine d, db_files d)" dump n dir] x r by simp
  then have "same_addresses d (d\<lparr>db_engine := e, db_files := fs, collections := om_update n (ob\<lparr>obj_exporting := True\<rparr>) (collections d)\<rparr>)"
    using same_addresses_set [OF assms(1) ob(1)] by simp
  then show ?thesis using ob x by (auto simp: exportAllToJsonAsync_def Let_def split: outcome.splits)
qed

lemma same_addresses_wait:
  assumes "working d" "fst (waitForExportOperation a d) \<noteq> Undef"
  shows "same_addresses d (snd (waitForExportOperation a d))"
proof -
  obtain n ob where ob: "object_at d a = Some (n, ob)" using assms(2) by (auto simp: waitForExportOperation_def split: option.splits)
  have "live (db_engine d)" using assms(1) by (simp add: working_def)
  from same_addresses_set [OF assms(1) ob, of "ob\<lparr>obj_exporting := False\<rparr>" _ "db_files d", OF _ this] ob show ?thesis
    by (simp add: waitForExportOperation_def)
qed

lemma safe_same:
  assumes "\<And>d. working d \<Longrightarrow> fst (m d) \<noteq> Undef \<Longrightarrow> same_addresses d (snd (m d))"
  shows "keeps safe (on_mqtt (on_db m))"
  unfolding keeps_def
proof (intro allI impI)
  fix s assume s: "safe s" "fst (on_mqtt (on_db m) s) \<noteq> Undef"
  obtain r d where m: "m (mq_db (s_mqtt s)) = (r, d)" by force
  have "same_addresses (mq_db (s_mqtt s)) d"
    using assms [of "mq_db (s_mqtt s)"] s m by (auto simp: safe_def pointers_ok_def on_mqtt_def on_db_def)
  then show "safe (snd (on_mqtt (on_db m) s))"
    using pointers_ok_same s(1) m by (simp add: safe_def on_mqtt_def on_db_def)
qed

lemma pointers_ok_delivers: "pointers_ok q \<Longrightarrow> mq_db q' = mq_db q \<Longrightarrow> collMap q' = collMap q \<Longrightarrow> pointers_ok q'"
  by (simp add: pointers_ok_def)

interpretation ptr: server_invariant safe names_default
proof unfold_locales
  show "keeps safe (handle_create_collection req)" for req
    unfolding create_collection_store req_string_def
    by (intro safe_handling keeps_intros safe_create_and_store safe_respond)
  show "keeps safe (handle_delete_collection req)" if "\<not> names_default req" for req
  proof (cases "bindO (index_read ''collection_name'' req) get_string")
    case (Ret name)
    then have e: "bindM (req_string req ''collection_name'') f = f name" for f :: "string \<Rightarrow> (session, unit) comp"
      by (simp add: req_string_def bindM_def liftO_def fun_eq_iff)
    have "name \<noteq> default_family" using that Ret by (simp add: names_default_def)
    then show ?thesis
      unfolding delete_collection_erase e by (intro safe_handling keeps_intros safe_drop_and_erase safe_respond)
  next
    case (Throw ex)
    then have e: "bindM (req_string req ''collection_name'') f = liftO (Throw ex)" for f :: "string \<Rightarrow> (session, unit) comp"
      by (simp add: req_string_def bindM_def liftO_def fun_eq_iff)
    show ?thesis unfolding delete_collection_erase e by (intro safe_handling keeps_intros)
  next
    case Undef
    then have e: "bindM (req_string req ''collection_name'') f = undefM" for f :: "string \<Rightarrow> (session, unit) comp"
      by (simp add: req_string_def bindM_def liftO_def undefM_def fun_eq_iff)
    show ?thesis unfolding delete_collection_erase e by (intro safe_handling keeps_intros)
  qed
  show "keeps safe (on_mqtt (send_response payload response_topic))" for payload response_topic
  proof (rule keepsI)
    fix s assume "safe s"
    then show "safe (snd (on_mqtt (send_response payload response_topic) s))"
      using send_response_run [of payload response_topic "s_mqtt s"]
      by (auto simp: on_mqtt_def safe_def delivers_def intro: pointers_ok_delivers)
  qed
  show "keeps safe (on_mqtt (on_db (case p of None \<Rightarrow> undefM | Some a \<Rightarrow> exportAllToJsonAsync dump dir a)))" for p dump dir
    by (rule safe_same) (auto simp: undefM_def same_addresses_export split: option.splits)
  show "keeps safe (on_mqtt (on_db (case p of None \<Rightarrow> undefM | Some a \<Rightarrow> waitForExportOperation a)))" for p
    by (rule safe_same) (auto simp: undefM_def same_addresses_wait split: option.splits)
  show "safe (s\<lparr>s_mqtt := (s_mqtt s)\<lparr>mq_db := (mq_db (s_mqtt s))\<lparr>db_engine := e\<rparr>\<rparr>\<rparr>)"
    if "safe s" "live (db_engine (mq_db (s_mqtt s))) \<Longrightarrow> live e" for s e
    using that by (simp add: safe_def pointers_ok_def working_def)
qed (auto simp: safe_def intro: safe_with_coll)

section \<open>The topic of the answer\<close>

definition has_topic :: "string \<Rightarrow> session \<Rightarrow> bool" where
  "has_topic t s = (s_topic s = t)"

lemma topic_on_mqtt: "keeps (has_topic t) (on_mqtt m)"
  by (rule keepsI) (simp add: has_topic_def on_mqtt_def split: prod.splits)

lemma topic_respond: "keeps (has_topic t) (respond st msg)"
  unfolding respond_def by (intro keeps_intros) (auto simp: keeps_def set_resp_def has_topic_def split: outcome.splits)

interpretation top: handler_invariant "has_topic t" "\<lambda>_. False" for t
proof unfold_locales
  show "keeps (has_topic t) (handle_create_collection req)" "keeps (has_topic t) (handle_delete_collection req)" for req
    unfolding handle_create_collection_def handle_delete_collection_def handling_def req_string_def
    by (intro keeps_intros topic_on_mqtt topic_respond)+
  show "keeps (has_topic t) (with_coll name f)" if "\<And>p. keeps (has_topic t) (f p)" for name f
    unfolding with_coll_def by (intro keeps_intros topic_on_mqtt topic_respond that)
qed (auto simp: has_topic_def intro: topic_on_mqtt)

text \<open>A request that names a command and an identifier is answered under the identifier's topic.\<close>

lemma handle_request_topic:
  assumes "handle_request env payload q = (r, t, q')" "r \<noteq> Undef" "env_parse env payload = Ret req"
    and "bindO (index_read ''command'' req) get_string = Ret cmd" "bindO (index_read ''request_id'' req) get_string = Ret i"
  shows "t = response_prefix @ i"
proof -
  let ?s = "\<lparr>s_mqtt = q, s_topic = response_prefix @ i, s_resp = JNull\<rparr>"
  let ?m = "catchM (dispatch env req cmd) (\<lambda>ex. respond ''error'' (''Exception :'' @ what ex))"
  have k: "keeps (has_topic (response_prefix @ i)) ?m"
    by (intro keeps_intros top.keeps_dispatch topic_respond) simp
  obtain r0 s0 where m: "?m ?s = (r0, s0)" by force
  have "handle_request env payload q = (case (r0, s0) of
      (Ret _, s) \<Rightarrow> (env_dump env (s_resp s), s_topic s, s_mqtt s)
    | (Throw ex, s) \<Rightarrow> (Throw ex, s_topic s, s_mqtt s)
    | (Undef, s) \<Rightarrow> (Undef, s_topic s, s_mqtt s))"
    using assms(3-5) m by (simp add: handle_request_def catchM_def bindM_def liftO_def req_string_def modifyM_def)
  then have "t = s_topic s0" "r0 \<noteq> Undef" using assms(1,2) by (auto split: outcome.splits)
  moreover have "has_topic (response_prefix @ i) ?s" by (simp add: has_topic_def)
  ultimately show ?thesis using keepsD [OF k, of ?s] m by (simp add: has_topic_def)
qed

section \<open>Workers\<close>

definition work_ok :: "work \<Rightarrow> bool" where
  "work_ok w = ((w_state w = WAIT \<longleftrightarrow> w_msg w \<noteq> None) \<and> (w_reply w \<noteq> None \<longrightarrow> w_requestid w \<noteq> None))"

definition waiting :: "work list \<Rightarrow> nat" where
  "waiting ws = length (filter (\<lambda>w. w_state w = WAIT) ws)"

text \<open>One callback of one of the workers; requests are handled one at a time under the lock \<^verbatim>\<open>mtx_\<close>.\<close>

inductive server_step :: "work list \<times> mqtt \<Rightarrow> work list \<times> mqtt \<Rightarrow> bool" where
  callback: "i < length ws \<Longrightarrow> client_cb env rv received (ws ! i) q = (Ret act, w, q') \<Longrightarrow> server_step (ws, q) (ws[i := w], q')"

inductive_cases server_stepE: "server_step (ws, q) t"

lemma waiting_update:
  "i < length ws \<Longrightarrow> waiting (ws[i := w]) + (if w_state (ws ! i) = WAIT then 1 else 0) = waiting ws + (if w_state w = WAIT then 1 else 0)"
proof (induction ws arbitrary: i)
  case (Cons v ws)
  then show ?case by (cases i) (auto simp: waiting_def)
qed simp

lemma handle_request_owned:
  assumes "handle_request env payload q = (r, t, q')" "r \<noteq> Undef"
  shows "owned q' = owned q"
  using own.keeps_request [OF assms, of "owned q"] by (simp add: owns_def)

lemma client_cb_ok:
  assumes "client_cb env rv received w q = (Ret act, w', q')" "work_ok w" "w_state w = WAIT \<Longrightarrow> 0 < owned q"
  shows "work_ok w'" "owned q + (if w_state w' = WAIT then 1 else 0) \<le> owned q' + (if w_state w = WAIT then 1 else 0)"
proof -
  have "work_ok w' \<and> owned q + (if w_state w' = WAIT then 1 else 0) \<le> owned q' + (if w_state w = WAIT then 1 else 0)"
  proof (cases "w_state w")
    case WAIT
    then obtain t payload where m: "w_msg w = Some (t, payload)" using assms(2) by (auto simp: work_ok_def)
    show ?thesis
    proof (cases "payload = []")
      case False
      obtain r rid q1 where h: "handle_request env payload q = (r, rid, q1)" by (metis prod_cases3)
      then obtain x where r: "r = Ret x" using assms(1) WAIT m False by (cases r) (auto simp: client_cb_def cb_wait_def)
      have "owned q1 = owned q" using handle_request_owned [OF h] r by simp
      then show ?thesis
        using assms WAIT m False h r by (auto simp: client_cb_def cb_wait_def work_ok_def Let_def split: if_splits)
    qed (use assms WAIT m in \<open>auto simp: client_cb_def cb_wait_def work_ok_def\<close>)
  next
    case SEND
    then show ?thesis using assms(1,2)
      by (auto simp: client_cb_def cb_send_def work_ok_def nng_call_run split: if_splits option.splits)
  qed (use assms in \<open>auto simp: client_cb_def work_ok_def split: if_splits\<close>)
  then show "work_ok w'" "owned q + (if w_state w' = WAIT then 1 else 0) \<le> owned q' + (if w_state w = WAIT then 1 else 0)" by simp_all
qed

definition server_ok :: "work list \<times> mqtt \<Rightarrow> bool" where
  "server_ok = (\<lambda>(ws, q). list_all work_ok ws \<and> waiting ws \<le> owned q)"

lemma server_step_ok:
  assumes "server_step c c'" "server_ok c"
  shows "server_ok c'"
  using assms
proof (induction rule: server_step.induct)
  case (callback i ws env rv received q act w q')
  have wi: "work_ok (ws ! i)" using callback by (simp add: server_ok_def list_all_length)
  have "0 < waiting ws" if "w_state (ws ! i) = WAIT"
    using that callback(1) unfolding waiting_def by (metis (mono_tags, lifting) filter_empty_conv length_greater_0_conv nth_mem)
  then have pos: "w_state (ws ! i) = WAIT \<Longrightarrow> 0 < owned q" using callback(3) by (auto simp: server_ok_def)
  note c = client_cb_ok [OF callback(2) wi pos]
  have "waiting (ws[i := w]) \<le> owned q'"
    using waiting_update [OF callback(1), of w] c(2) callback(3) by (auto simp: server_ok_def split: if_splits)
  moreover have "list_all work_ok (ws[i := w])"
    using callback(1,3) c(1) by (auto simp: server_ok_def list_all_length nth_list_update)
  ultimately show ?case by (simp add: server_ok_def)
qed

lemma server_steps_ok: "server_step\<^sup>*\<^sup>* c c' \<Longrightarrow> server_ok c \<Longrightarrow> server_ok c'"
  by (induction rule: rtranclp_induct) (auto intro: server_step_ok)

lemma client_cb_defined:
  assumes "work_ok w" "fst (client_cb env rv received w q) = Undef"
  shows "w_state w = WAIT \<and> (\<exists>t payload. w_msg w = Some (t, payload) \<and> fst (handle_request env payload q) = Undef)"
proof (cases "w_state w")
  case WAIT
  then obtain t payload where m: "w_msg w = Some (t, payload)" using assms(1) by (auto simp: work_ok_def)
  obtain r rid q1 where h: "handle_request env payload q = (r, rid, q1)" by (metis prod_cases3)
  then show ?thesis using assms(2) WAIT m by (cases r) (auto simp: client_cb_def cb_wait_def Let_def split: if_splits)
next
  case SEND
  then show ?thesis using assms by (auto simp: client_cb_def cb_send_def work_ok_def nng_call_run split: if_splits option.splits)
qed (use assms in \<open>auto simp: client_cb_def split: if_splits\<close>)

section \<open>Lemmas: the default collection\<close>

lemma drop_default_status:
  assumes "live e"
  shows "\<exists>st. engine_dropCollection default_family e = (Ret st, e) \<and> \<not> ok st"
proof -
  note i = liveD [OF assms]
  then show ?thesis
    using engine_invD(5) [OF i(1)] unfolding engine_dropCollection_def with_handle_def bindM_def dbcall_run [OF i(1)] rocks_drop_def answer_eq
    by (simp add: returnM_def store_tick)
qed

lemma dropCollection_default:
  assumes "working d" "map_of (collections d) default_family = Some ob"
  shows "\<exists>st d'. Database_dropCollection default_family d = (Ret st, d') \<and> \<not> ok st \<and> object_at d' (obj_addr ob) = None"
proof -
  let ?n = default_family
  obtain d1 where d1: "bindM (modifyM (collections_update (om_delete ?n))) (\<lambda>_. on_engine (Collection_destroy ?n)) d = (Ret (), d1)"
    "working d1" "map_of (collections d1) ?n = None" "\<forall>n. n \<noteq> ?n \<longrightarrow> map_of (collections d1) n = map_of (collections d) n"
    "next_object d1 = next_object d"
    using erase_object_live [OF assms] by (auto simp: bindM_def modifyM_def on_engine_def split: prod.splits outcome.splits)
  have l1: "live (db_engine d1)" using d1(2) by (simp add: working_def)
  then have ex: "collectionExists (db_engine d1) ?n" using engine_invD(5) by (simp add: collectionExists_def live_def)
  obtain d2 where d2: "new_collection ?n d1 = (Ret (next_object d1), d2)" "working d2"
    "collections d2 = om_update ?n \<lparr>obj_addr = next_object d1, obj_exporting = False\<rparr> (collections d1)"
    using new_collection_live [OF d1(2), of ?n] by blast
  let ?ob = "\<lparr>obj_addr = next_object d1, obj_exporting = False\<rparr>"
  have g: "getCollection ?n d1 = (Ret (Some (next_object d1)), d2)"
    using d1(3) ex d2(1) by (simp add: getCollection_def bindM_def returnM_def)
  have m2: "map_of (collections d2) ?n = Some ?ob" using d2(3) by (simp add: om_lookup_update)
  let ?ixs = "getIndexNames (db_engine d2) ?n"
  have l2: "live (db_engine d2)" using d2(2) by (simp add: working_def)
  obtain e3 where e3: "drop_indexes ?n ?ixs (db_engine d2) = (Ret (), e3)" "live e3" using drop_indexes_live [OF l2] by blast
  obtain st where st: "engine_dropCollection ?n e3 = (Ret st, e3)" "\<not> ok st" using drop_default_status [OF e3(2)] by blast
  have i: "on_pointer (Some (next_object d1)) (\<lambda>n. getIndex n []) d2 = (Ret (StatusOK, ?ixs), d2)"
    using on_object_run [OF d2(2) m2, of "\<lambda>n. getIndex n []"]
    by (simp add: on_pointer_def on_engine_def getIndex_def bindM_def getM_def returnM_def)
  have dr: "on_pointer (Some (next_object d1)) (\<lambda>n. drop_indexes n ?ixs) d2 = (Ret (), d2\<lparr>db_engine := e3\<rparr>)"
    using on_object_run [OF d2(2) m2, of "\<lambda>n. drop_indexes n ?ixs"] e3(1) by (simp add: on_pointer_def on_engine_def)
  have run: "Database_dropCollection ?n d = (Ret st, d2\<lparr>db_engine := e3\<rparr>)"
    unfolding Database_dropCollection_def
    by (simp add: bindM_Ret getM_run assms(2) d1(1) g i dr) (simp add: on_engine_def st(1))
  have lt: "obj_addr ob < next_object d1" using assms d1(5) by (auto simp: working_def objects_ok_def)
  have un: "map_of (collections d) n = Some ob' \<Longrightarrow> obj_addr ob' = obj_addr ob \<Longrightarrow> n = ?n" for n ob'
    using assms unfolding working_def objects_ok_def by blast
  have "map_of (collections d2) n \<noteq> Some ob'" if "obj_addr ob' = obj_addr ob" for n ob'
  proof (cases "n = ?n")
    case True
    then show ?thesis using m2 lt that by auto
  next
    case False
    then show ?thesis using d2(3) d1(4) un [of n ob'] that by (auto simp: om_lookup_update)
  qed
  then have "object_at (d2\<lparr>db_engine := e3\<rparr>) (obj_addr ob) = None"
    using object_at_iff [of "d2\<lparr>db_engine := e3\<rparr>" "obj_addr ob"] d2(2)
    by (cases "object_at (d2\<lparr>db_engine := e3\<rparr>) (obj_addr ob)") (auto simp: working_def)
  then show ?thesis using run st(2) by blast
qed

section \<open>Lemmas: handlers that differ in the text of their answer\<close>

definition alike :: "(session, 'a) comp \<Rightarrow> (session, 'a) comp \<Rightarrow> bool" where
  "alike m m' = (\<forall>s. m s = m' s \<or> (\<exists>x t t'. m s = (Ret x, t) \<and> m' s = (Ret x, t') \<and> s_mqtt t = s_mqtt t'))"

named_theorems alike_intros \<open>handlers that differ in the text of their answer\<close>

lemma alikeD: "alike m m' \<Longrightarrow> fst (m s) = fst (m' s) \<and> s_mqtt (snd (m s)) = s_mqtt (snd (m' s))"
  unfolding alike_def by (metis fst_conv snd_conv)

lemma alike_respond [alike_intros]: "alike (respond a b) (respond a' b')"
proof -
  have "respond a b s = respond a' b' s \<or>
      (\<exists>x t t'. respond a b s = (Ret x, t) \<and> respond a' b' s = (Ret x, t') \<and> s_mqtt t = s_mqtt t')" for s
    by (cases "s_resp s") (simp_all add: respond_def bindM_def set_resp_def)
  then show ?thesis by (simp add: alike_def)
qed

lemma alike_bind [alike_intros]: "(\<And>x. alike (f x) (f' x)) \<Longrightarrow> alike (bindM m f) (bindM m f')"
  unfolding alike_def bindM_def by (auto split: prod.splits outcome.splits)

lemma alike_if [alike_intros]: "alike m m' \<Longrightarrow> alike n n' \<Longrightarrow> alike (if b then m else n) (if b then m' else n')"
  by simp

lemma alike_option [alike_intros]:
  "alike m m' \<Longrightarrow> (\<And>x. alike (f x) (f' x)) \<Longrightarrow> alike (case p of None \<Rightarrow> m | Some x \<Rightarrow> f x) (case p of None \<Rightarrow> m' | Some x \<Rightarrow> f' x)"
  by (simp split: option.splits)

lemma alike_handling [alike_intros]:
  assumes "alike m m'"
  shows "alike (handling m) (handling m')"
proof -
  have "handling m s = handling m' s \<or>
      (\<exists>x t t'. handling m s = (Ret x, t) \<and> handling m' s = (Ret x, t') \<and> s_mqtt t = s_mqtt t')" for s
    using assms [unfolded alike_def, rule_format, of s] by (elim disjE exE conjE) (simp_all add: handling_def catchM_def)
  then show ?thesis by (simp add: alike_def)
qed

lemma alike_with_coll [alike_intros]: "(\<And>p. alike (f p) (f' p)) \<Longrightarrow> alike (with_coll name f) (with_coll name f')"
  unfolding with_coll_def by (intro alike_intros)

section \<open>A small server\<close>

definition sample_env :: "json \<Rightarrow> server_env" where
  "sample_env req = \<lparr>env_parse = (\<lambda>_. Ret req), env_dump = (\<lambda>_. Ret ''{}''), env_dump4 = (\<lambda>_. Ret ''{}''), env_time = 0, env_rands = []\<rparr>"

definition sample_mqtt :: mqtt where
  "sample_mqtt = \<lparr>mq_db = sample_database, collMap = [], published = [], owned = 0, answers = []\<rparr>"

definition ping :: json where
  "ping = JObject [(''command'', JString ''ping''), (''request_id'', JString ''7'')]"

lemma ping_run: "handle_request (sample_env ping) payload q = (Ret ''{}'', ''anudb/response/7'', q)"
  by (simp add: handle_request_def sample_env_def ping_def catchM_def bindM_def liftO_def req_string_def modifyM_def
      dispatch_def respond_def set_resp_def response_prefix_def less_char_def)

section \<open>Properties of the server\<close>

text \<open>C21: publishing. \<^verbatim>\<open>send_response\<close> always ends, after at most one allocation and four attempts to send; it
  publishes the message exactly when the allocation succeeds and an attempt succeeds after retriable
  failures only (at most three); and it never leaks a message nor frees one twice: the number of
  messages to free is the same as before.\<close>

theorem send_response_bounded:
  "\<exists>q'. send_response payload topic q = (Ret (), q') \<and> owned q' = owned q \<and> length (answers q) \<le> length (answers q') + 5 \<and>
    published q' = published q @
      (if answer_at q 0 = NNG_OK \<and> (\<exists>k \<le> 3. (\<forall>i < k. retriable (answer_at q (Suc i))) \<and> answer_at q (Suc k) = NNG_OK)
       then [(c_string topic, payload)] else [])"
  using send_response_run [of payload topic q] by (auto simp: delivers_def gets_through_def max_retries_def)

theorem send_response_bounded_witness:
  "published (snd (send_response ''{}'' ''t'' (sample_mqtt\<lparr>answers := [NNG_OK, NNG_EAGAIN, NNG_OK]\<rparr>))) = [(''t'', ''{}'')]"
proof -
  let ?q = "sample_mqtt\<lparr>answers := [NNG_OK, NNG_EAGAIN, NNG_OK]\<rparr>"
  have "answer_at ?q 0 = NNG_OK" "retriable (answer_at ?q (Suc 0))" "answer_at ?q (Suc 1) = NNG_OK"
    by (simp_all add: answer_at_def retriable_def)
  note a = this
  have c: "c_string ''t'' = ''t''" by code_simp
  have "\<exists>k \<le> 3. (\<forall>i < k. retriable (answer_at ?q (Suc i))) \<and> answer_at ?q (Suc k) = NNG_OK" using a by (intro exI [of _ 1]) auto
  then show ?thesis
    using send_response_bounded [of "''{}''" "''t''" ?q] \<open>answer_at ?q 0 = NNG_OK\<close> c by (auto simp: sample_mqtt_def)
qed

text \<open>C19: workers. Start any number of workers and let their callbacks run in any order, with any results of
  the network and any requests. A worker holds a received message exactly while it waits to handle it;
  the program owns at least the messages its workers hold; and a callback never runs into undefined
  behaviour of its own (a reply without a topic, a state without a message): only the handling of the
  request itself can.\<close>

theorem workers_safe:
  assumes "server_step\<^sup>*\<^sup>* (replicate n new_work, q0) (ws, q)" "i < length ws"
  shows "(w_state (ws ! i) = WAIT \<longleftrightarrow> w_msg (ws ! i) \<noteq> None) \<and> waiting ws \<le> owned q \<and>
    (fst (client_cb env rv received (ws ! i) q) = Undef \<longrightarrow>
      (\<exists>t payload. w_msg (ws ! i) = Some (t, payload) \<and> fst (handle_request env payload q) = Undef))"
proof -
  have "server_ok (replicate n new_work, q0)" by (simp add: server_ok_def new_work_def work_ok_def waiting_def list_all_iff)
  from server_steps_ok [OF assms(1) this] have ok: "list_all work_ok ws" "waiting ws \<le> owned q" by (simp_all add: server_ok_def)
  then have "work_ok (ws ! i)" using assms(2) by (simp add: list_all_length)
  then show ?thesis using ok(2) client_cb_defined [of "ws ! i" env rv received q] by (auto simp: work_ok_def)
qed

theorem workers_safe_witness:
  "\<exists>ws q. server_step\<^sup>*\<^sup>* (replicate 2 new_work, sample_mqtt) (ws, q) \<and> w_state (ws ! 1) = RECV \<and> w_msg (ws ! 1) = None"
proof -
  let ?ws = "(replicate 2 new_work)[1 := new_work\<lparr>w_state := RECV\<rparr>]"
  have "client_cb (sample_env ping) NNG_OK ([], []) (replicate 2 new_work ! 1) sample_mqtt = (Ret Receive, new_work\<lparr>w_state := RECV\<rparr>, sample_mqtt)"
    by (simp add: client_cb_def new_work_def)
  then have st: "server_step\<^sup>*\<^sup>* (replicate 2 new_work, sample_mqtt) (?ws, sample_mqtt)"
    by (intro r_into_rtranclp callback) simp_all
  have r: "w_state (?ws ! 1) = RECV" by simp
  have "w_msg (?ws ! 1) = None" using r conjunct1 [OF workers_safe [OF st, of 1 "sample_env ping" NNG_OK "([], [])"]] by (cases "w_msg new_work") auto
  with st r show ?thesis by blast
qed

text \<open>C20: a request is answered. A worker that receives a non-empty payload with a command and an identifier,
  and whose request is handled with a non-empty reply, goes through handling and sending while the
  network works: its third callback publishes the reply under the topic of the identifier, its fourth
  receives again, and nothing is left behind.\<close>

theorem request_answered:
  assumes "w_state w = RECV" "payload \<noteq> []" "env_parse env payload = Ret req"
    and "bindO (index_read ''command'' req) get_string = Ret cmd" "bindO (index_read ''request_id'' req) get_string = Ret i"
    and "handle_request env payload (q\<lparr>owned := Suc (owned q)\<rparr>) = (Ret r, t, q')" "r \<noteq> []" "answers q' = []"
  shows "\<exists>w1 q1 w2 q2 w3 q3 w4 q4.
    client_cb env NNG_OK (topic, payload) w q = (Ret Sleep, w1, q1) \<and>
    client_cb env NNG_OK x w1 q1 = (Ret Sleep, w2, q2) \<and>
    client_cb env NNG_OK x w2 q2 = (Ret (Send (c_string (''anudb/response/'' @ i)) r), w3, q3) \<and>
    client_cb env NNG_OK x w3 q3 = (Ret Receive, w4, q4) \<and>
    w4 = \<lparr>w_state = RECV, w_msg = None, w_requestid = None, w_reply = None\<rparr> \<and> owned q4 = owned q"
proof -
  have t: "t = ''anudb/response/'' @ i"
    using handle_request_topic [OF assms(6) _ assms(3-5)] by (simp add: response_prefix_def)
  have "owned q' = Suc (owned q)" using handle_request_owned [OF assms(6)] by simp
  then show ?thesis
    using assms t by (cases w) (auto simp: client_cb_def cb_wait_def cb_send_def Let_def nng_call_def)
qed

theorem request_answered_witness:
  "\<exists>w1 q1 w2 q2 w3 q3.
    client_cb (sample_env ping) NNG_OK (''anudb/request'', ''x'') (new_work\<lparr>w_state := RECV\<rparr>) sample_mqtt = (Ret Sleep, w1, q1) \<and>
    client_cb (sample_env ping) NNG_OK ([], []) w1 q1 = (Ret Sleep, w2, q2) \<and>
    client_cb (sample_env ping) NNG_OK ([], []) w2 q2 = (Ret (Send (c_string (''anudb/response/'' @ ''7'')) ''{}''), w3, q3)"
  using request_answered [of "new_work\<lparr>w_state := RECV\<rparr>" "''x''" "sample_env ping" ping "''ping''" "''7''" sample_mqtt "''{}''"
      "''anudb/response/7''" "sample_mqtt\<lparr>owned := Suc (owned sample_mqtt)\<rparr>" "''anudb/request''" "([], [])"] ping_run
  by (fastforce simp: sample_env_def ping_def sample_mqtt_def)

text \<open>One request that is answered or ends in an exception, and does not ask to delete the default collection.\<close>

inductive request_step :: "mqtt \<Rightarrow> mqtt \<Rightarrow> bool" where
  request: "handle_request env payload q = (r, t, q') \<Longrightarrow> r \<noteq> Undef \<Longrightarrow>
    (\<And>req. env_parse env payload = Ret req \<Longrightarrow>
      \<not> (bindO (index_read ''command'' req) get_string = Ret ''delete_collection'' \<and> names_default req)) \<Longrightarrow>
    request_step q q'"

lemma request_step_pointers: "request_step q q' \<Longrightarrow> pointers_ok q \<Longrightarrow> pointers_ok q'"
proof (induction rule: request_step.induct)
  case (request env payload q r t q')
  then show ?case using ptr.keeps_request [OF request(1,2)] by (auto simp: safe_def)
qed

text \<open>\<^verbatim>\<open>getCollection\<close> over a working store finds no collection, or gives the pointer to a live object.\<close>

lemma getCollection_object:
  assumes "working d"
  obtains d' where "getCollection name d = (Ret None, d')"
  | a ob d' where "getCollection name d = (Ret (Some a), d')" "object_at d' a = Some (name, ob)"
proof -
  obtain p d' where g: "getCollection name d = (Ret p, d')" "working d'"
    "\<forall>a. p = Some a \<longrightarrow> (\<exists>ob. map_of (collections d') name = Some ob \<and> obj_addr ob = a)"
    using getCollection_live [OF assms, of name] by blast
  have "objects_ok d'" using g(2) by (simp add: working_def)
  then show thesis using that g object_at_iff [of d' _ name] by (cases p) blast+
qed

text \<open>A lookup hands its handler live pointers only: it cannot tell two handlers apart that agree on them.\<close>

lemma with_coll_live:
  assumes "pointers_ok (s_mqtt s)"
    and "\<And>a ob s'. object_at (mq_db (s_mqtt s')) a = Some (name, ob) \<Longrightarrow> f (Some a) s' = f' (Some a) s'"
  shows "with_coll name f s = with_coll name f' s"
proof (cases "map_of (collMap (s_mqtt s)) name")
  case None
  have "working (mq_db (s_mqtt s))" by (rule pointers_okD(1) [OF assms(1)])
  then show ?thesis
  proof (cases rule: getCollection_object [of _ name])
    case (1 d')
    then show ?thesis using None by (simp add: with_coll_def bindM_def getM_def on_mqtt_def on_db_def)
  next
    case (2 a ob d')
    let ?s = "s\<lparr>s_mqtt := (s_mqtt s)\<lparr>mq_db := d', collMap := om_update name (Some a) (collMap (s_mqtt s))\<rparr>\<rparr>"
    have "object_at (mq_db (s_mqtt ?s)) a = Some (name, ob)" using 2(2) by simp
    from assms(2) [OF this] show ?thesis
      using None 2(1) by (simp add: with_coll_def bindM_def getM_def on_mqtt_def on_db_def modifyM_def)
  qed
next
  case (Some p)
  then obtain ob where ob: "map_of (collections (mq_db (s_mqtt s))) name = Some ob" "p = Some (obj_addr ob)"
    using pointers_okD(3) [OF assms(1)] by blast
  then have "object_at (mq_db (s_mqtt s)) (obj_addr ob) = Some (name, ob)"
    using pointers_okD(1) [OF assms(1)] object_at_iff [of "mq_db (s_mqtt s)" "obj_addr ob" name ob] by (simp add: working_def)
  from assms(2) [OF this] show ?thesis using Some ob(2) by (simp add: with_coll_def bindM_def getM_def)
qed

lemma call_live:
  "object_at (mq_db (s_mqtt s)) a = Some (name, ob) \<Longrightarrow> fst (call (Some a) g s) = fst (g name (db_engine (mq_db (s_mqtt s)))) \<and>
     collections (mq_db (s_mqtt (snd (call (Some a) g s)))) = collections (mq_db (s_mqtt s))"
  by (simp add: call_def on_mqtt_def on_db_def on_pointer_def on_object_def on_engine_def split: prod.split)

text \<open>C18: pointers to collections. Start with a server that has just been started on a working store, and let it
  answer any sequence of requests (or end them with an exception) that do not delete the collection \<^verbatim>\<open>default\<close>.
  Then every pointer in \<^verbatim>\<open>collMap_\<close> points to the live object of the collection it is stored under. The lookup
  that starts the handlers of the next request hands them a pointer to a live object of that collection or
  answers itself: what they would do with a null or a dangling pointer does not matter. And a call through a
  pointer to a live object is the call of the method on its collection, and leaves all objects where they are.\<close>

theorem pointers_stay_valid:
  assumes "working (mq_db q0)" "collMap q0 = []" "request_step\<^sup>*\<^sup>* q0 q"
  shows "(\<forall>p. map_of (collMap q) name = Some p \<longrightarrow> (\<exists>a ob. p = Some a \<and> object_at (mq_db q) a = Some (name, ob))) \<and>
    (\<forall>s f f'. s_mqtt s = q \<and> (\<forall>a ob s'. object_at (mq_db (s_mqtt s')) a = Some (name, ob) \<longrightarrow> f (Some a) s' = f' (Some a) s') \<longrightarrow>
      with_coll name f s = with_coll name f' s) \<and>
    (\<forall>a ob s. object_at (mq_db (s_mqtt s)) a = Some (name, ob) \<longrightarrow>
      fst (call (Some a) g s) = fst (g name (db_engine (mq_db (s_mqtt s)))) \<and>
      collections (mq_db (s_mqtt (snd (call (Some a) g s)))) = collections (mq_db (s_mqtt s)))"
proof (intro conjI allI impI)
  have "pointers_ok q0" using assms(1,2) by (simp add: pointers_ok_def)
  with assms(3) have q: "pointers_ok q" by (induction rule: rtranclp_induct) (auto intro: request_step_pointers)
  show "\<exists>a ob. p = Some a \<and> object_at (mq_db q) a = Some (name, ob)" if "map_of (collMap q) name = Some p" for p
  proof -
    from pointers_okD(3) [OF q that] obtain ob where "map_of (collections (mq_db q)) name = Some ob" "p = Some (obj_addr ob)" by blast
    then show ?thesis using object_at_iff [of "mq_db q" "obj_addr ob" name ob] pointers_okD(1) [OF q] by (auto simp: working_def)
  qed
  show "with_coll name f s = with_coll name f' s"
    if "s_mqtt s = q \<and> (\<forall>a ob s'. object_at (mq_db (s_mqtt s')) a = Some (name, ob) \<longrightarrow> f (Some a) s' = f' (Some a) s')" for s f f'
    by (rule with_coll_live) (use q that in auto)
qed (use call_live in blast)+

definition list_indexes :: json where
  "list_indexes = JObject [(''collection_name'', JString ''users''), (''command'', JString ''get_indexes''), (''request_id'', JString ''8'')]"

lemma users_pointer: "getCollection ''users'' sample_database = (Ret (Some 0), sample_database)"
  "on_pointer (Some 0) f sample_database = on_engine (f ''users'') sample_database"
  by (simp_all add: getCollection_def sample_database_def on_pointer_def on_object_def object_at_def)

lemma list_indexes_run:
  "\<exists>r t. handle_request (sample_env list_indexes) ''x'' sample_mqtt = (Ret r, t, sample_mqtt\<lparr>collMap := [(''users'', Some 0)]\<rparr>)"
  by (simp add: handle_request_def sample_env_def list_indexes_def catchM_def bindM_def liftO_def req_string_def modifyM_def
      dispatch_def handle_get_indexes_def handling_def with_coll_def getM_def sample_mqtt_def on_mqtt_def on_db_def
      users_pointer call_def on_engine_def getIndex_def returnM_def set_resp_def less_char_def)

theorem pointers_stay_valid_witness:
  "\<exists>q a ob. request_step\<^sup>*\<^sup>* sample_mqtt q \<and> map_of (collMap q) ''users'' = Some (Some a) \<and> object_at (mq_db q) a = Some (''users'', ob) \<and>
     with_coll ''orders'' (\<lambda>p. case p of None \<Rightarrow> undefM | Some a \<Rightarrow> returnM ()) \<lparr>s_mqtt = q, s_topic = [], s_resp = JNull\<rparr> =
     with_coll ''orders'' (\<lambda>p. returnM ()) \<lparr>s_mqtt = q, s_topic = [], s_resp = JNull\<rparr>"
proof -
  let ?q = "sample_mqtt\<lparr>collMap := [(''users'', Some 0)]\<rparr>"
  obtain r t where h: "handle_request (sample_env list_indexes) ''x'' sample_mqtt = (Ret r, t, ?q)" using list_indexes_run by blast
  have "request_step sample_mqtt ?q" by (rule request [OF h]) (auto simp: sample_env_def list_indexes_def)
  then have st: "request_step\<^sup>*\<^sup>* sample_mqtt ?q" by blast
  have w: "working (mq_db sample_mqtt)" "collMap sample_mqtt = []" using sample_database(1) by (simp_all add: sample_mqtt_def)
  have "\<exists>a ob. Some 0 = Some a \<and> object_at (mq_db ?q) a = Some (''users'', ob)"
    using conjunct1 [OF pointers_stay_valid [OF w st, of "''users''"]] by simp
  moreover have "with_coll ''orders'' (\<lambda>p. case p of None \<Rightarrow> undefM | Some a \<Rightarrow> returnM ()) \<lparr>s_mqtt = ?q, s_topic = [], s_resp = JNull\<rparr> =
     with_coll ''orders'' (\<lambda>p. returnM ()) \<lparr>s_mqtt = ?q, s_topic = [], s_resp = JNull\<rparr>"
    using conjunct1 [OF conjunct2 [OF pointers_stay_valid [OF w st, of "''orders''"]]] by simp
  ultimately show ?thesis using st by auto
qed

text \<open>C40: deleting the default collection. The store refuses to drop it, but by then its object has been
  destroyed: the request ends with an error and \<^verbatim>\<open>collMap_\<close> still holds the pointer, now dangling.\<close>

theorem delete_default_dangles:
  assumes "pointers_ok q" "map_of (collMap q) ''default'' = Some (Some a)"
    and "bindO (index_read ''collection_name'' req) get_string = Ret ''default''"
  shows "\<exists>s. handle_delete_collection req \<lparr>s_mqtt = q, s_topic = t, s_resp = JNull\<rparr> = (Ret (), s) \<and>
    map_of (collMap (s_mqtt s)) ''default'' = Some (Some a) \<and> object_at (mq_db (s_mqtt s)) a = None"
proof -
  note i = pointers_okD [OF assms(1)]
  obtain ob where ob: "map_of (collections (mq_db q)) default_family = Some ob" "a = obj_addr ob"
    using i(3) [OF assms(2)] by (auto simp: default_family_def)
  obtain st d' where d: "Database_dropCollection default_family (mq_db q) = (Ret st, d')" "\<not> ok st" "object_at d' (obj_addr ob) = None"
    using dropCollection_default [OF i(1) ob(1)] by blast
  have n: "default_family = ''default''" by (simp add: default_family_def)
  show ?thesis
    using assms(2,3) ob(2) d [unfolded n]
    by (simp add: handle_delete_collection_def handling_def catchM_def bindM_def liftO_def req_string_def on_mqtt_def on_db_def
        respond_def set_resp_def)
qed

definition default_mqtt :: mqtt where
  "default_mqtt = sample_mqtt\<lparr>mq_db := sample_database\<lparr>collections := [(''default'', \<lparr>obj_addr = 0, obj_exporting = False\<rparr>)]\<rparr>,
     collMap := [(''default'', Some 0)]\<rparr>"

theorem delete_default_dangles_witness:
  "\<exists>s. handle_delete_collection (JObject [(''collection_name'', JString ''default'')]) \<lparr>s_mqtt = default_mqtt, s_topic = [], s_resp = JNull\<rparr> = (Ret (), s) \<and>
    map_of (collMap (s_mqtt s)) ''default'' = Some (Some 0) \<and> object_at (mq_db (s_mqtt s)) 0 = None"
proof -
  have "live (db_engine sample_database)" using sample_database(1) by (simp add: working_def)
  then have "pointers_ok default_mqtt"
    by (simp add: pointers_ok_def default_mqtt_def sample_mqtt_def sample_database_def working_def objects_ok_def om_ok_def)
  then show ?thesis using delete_default_dangles [of default_mqtt 0 "JObject [(''collection_name'', JString ''default'')]" "[]"]
    by (simp add: default_mqtt_def)
qed

text \<open>\<^verbatim>\<open>delete_index\<close> does to the database exactly what \<^verbatim>\<open>create_index\<close> does; only the text of the answer
  differs.\<close>

theorem delete_index_creates:
  "fst (handle_delete_index req s) = fst (handle_create_index req s) \<and>
   s_mqtt (snd (handle_delete_index req s)) = s_mqtt (snd (handle_create_index req s))"
proof -
  have "alike (handle_delete_index req) (handle_create_index req)"
    unfolding handle_delete_index_def handle_create_index_def by (intro alike_intros)
  then show ?thesis by (rule alikeD)
qed

text \<open>Requests that cannot be served. A payload that is not JSON, and an unknown command, change nothing
  and are answered with the status \<^verbatim>\<open>error\<close> and a message that says why.\<close>

theorem bad_requests:
  "(\<forall>ex. env_parse env payload = Throw ex \<longrightarrow> handle_request env payload q =
      (env_dump env (JObject [(''message'', JString (''Exception :'' @ what ex)), (''status'', JString ''error'')]), ''anudb/response/'', q)) \<and>
   (\<forall>req cmd i. env_parse env payload = Ret req \<and> bindO (index_read ''command'' req) get_string = Ret cmd \<and>
      bindO (index_read ''request_id'' req) get_string = Ret i \<and>
      cmd \<notin> {''create_collection'', ''delete_collection'', ''get_collections'', ''create_document'', ''delete_document'', ''read_document'',
        ''create_index'', ''delete_index'', ''get_indexes'', ''find_documents'', ''export_collection''} \<longrightarrow>
      handle_request env payload q = (env_dump env (JObject [(''message'', JString (''Unknown command: '' @ cmd)),
        (''status'', JString ''error'')]), ''anudb/response/'' @ i, q))"
  by (auto simp: handle_request_def catchM_def bindM_def liftO_def req_string_def modifyM_def dispatch_def respond_def set_resp_def
      response_prefix_def less_char_def)

theorem bad_requests_witness:
  "handle_request (sample_env ping) ''x'' sample_mqtt =
    (Ret ''{}'', ''anudb/response/7'', sample_mqtt)"
  using bad_requests [of "sample_env ping" "''x''" sample_mqtt] by (auto simp: sample_env_def ping_def)

end
