(* ===== verification/Anu_Loadfile.thy ===== *)
theory Anu_Loadfile
  imports Anu_Prelude
begin

text \<open>
  The command line and the certificate files of the server (\<^verbatim>\<open>main\<close> and \<^verbatim>\<open>loadfile\<close> of
  \<^verbatim>\<open>mqtt/AnuDBMqttClient.cpp\<close>). A stream of the C library is the sequence of what reading it gives, byte by
  byte, with the errors that interrupt it, and the flags \<^verbatim>\<open>feof\<close>, \<^verbatim>\<open>ferror\<close> and \<^verbatim>\<open>errno\<close>; which allocations
  succeed is the argument \<open>fits\<close>. The reading loop need not end, hence \<^verbatim>\<open>None\<close> as a result. Messages on
  the console are left out.
\<close>

section \<open>The command line\<close>

record options =
  broker_url :: string
  database_name :: string
  username :: string
  password :: string
  opt_cert :: string
  opt_key :: string
  opt_pass :: string
  opt_cacert :: string
  tls_enabled :: bool

definition no_options :: options where
  "no_options = \<lparr>broker_url = [], database_name = [], username = [], password = [],
     opt_cert = [], opt_key = [], opt_pass = [], opt_cacert = [], tls_enabled = False\<rparr>"

text \<open>The loop over the arguments after the program's name; \<^verbatim>\<open>None\<close>: the usage is printed and 1 returned.\<close>

fun parse_args :: "string list \<Rightarrow> options \<Rightarrow> options option" where
  "parse_args [] opts = Some opts"
| "parse_args [arg] opts = None"
| "parse_args (arg # v # rest) opts =
     (if arg = ''--broker_url'' then parse_args rest (opts\<lparr>broker_url := v\<rparr>)
      else if arg = ''--database_name'' then parse_args rest (opts\<lparr>database_name := v\<rparr>)
      else if arg = ''--username'' then parse_args rest (opts\<lparr>username := v\<rparr>)
      else if arg = ''--password'' then parse_args rest (opts\<lparr>password := v\<rparr>)
      else if arg = ''--tls_cacert'' then parse_args rest (opts\<lparr>opt_cacert := v, tls_enabled := True\<rparr>)
      else if arg = ''--tls_cert'' then parse_args rest (opts\<lparr>opt_cert := v, tls_enabled := True\<rparr>)
      else if arg = ''--tls_key'' then parse_args rest (opts\<lparr>opt_key := v, tls_enabled := True\<rparr>)
      else if arg = ''--tls_pass'' then parse_args rest (opts\<lparr>opt_pass := v, tls_enabled := True\<rparr>)
      else None)"

definition main_options :: "string list \<Rightarrow> options option" where
  "main_options args =
     (if args = [] then None
      else case parse_args args no_options of
          None \<Rightarrow> None
        | Some opts \<Rightarrow> if broker_url opts = [] \<or> database_name opts = [] then None else Some opts)"

section \<open>Reading a file\<close>

datatype errno = EINTR | EIO

datatype stream_item = Byte char | Fault errno

record stream =
  st_items :: "stream_item list"
  st_error :: bool
  st_errno :: "errno option"
  st_eof :: bool

definition stream_of :: "stream_item list \<Rightarrow> stream" where
  "stream_of items = \<lparr>st_items = items, st_error = False, st_errno = None, st_eof = False\<rparr>"

text \<open>\<^verbatim>\<open>fread\<close> with elements of size 1: it ends early only at the end of the file or at an error. The flags
  stay set.\<close>

fun fread :: "nat \<Rightarrow> stream \<Rightarrow> string \<times> stream" where
  "fread 0 f = ([], f)"
| "fread (Suc n) f =
     (case st_items f of
        [] \<Rightarrow> ([], f\<lparr>st_eof := True\<rparr>)
      | Byte c # items \<Rightarrow> (case fread n (f\<lparr>st_items := items\<rparr>) of (s, f') \<Rightarrow> (c # s, f'))
      | Fault e # items \<Rightarrow> ([], f\<lparr>st_items := items, st_error := True, st_errno := Some e\<rparr>))"

definition size_max :: nat where
  "size_max = 2 ^ 64 - 1"

text \<open>\<open>Exited\<close>: the program is ended with \<^verbatim>\<open>exit(1)\<close>. \<open>Wild\<close>: it writes outside its buffer.\<close>

datatype load_result = Loaded string | Exited | Wild

text \<open>The loop of \<^verbatim>\<open>loadfile\<close>: \<open>data\<close> are the bytes read so far. A doubled size that has wrapped around cuts
  the buffer below its contents, and the terminating zero is written outside it.\<close>

partial_function (option) load_loop :: "(nat \<Rightarrow> bool) \<Rightarrow> nat \<Rightarrow> string \<Rightarrow> stream \<Rightarrow> (load_result \<times> stream) option" where
  "load_loop fits allocation_size data f =
     (case fread (allocation_size - length data) f of (s, f') \<Rightarrow>
        if st_error f' then
          (if st_errno f' = Some EINTR then load_loop fits allocation_size (data @ s) f' else Some (Exited, f'))
        else if st_eof f' then Some (Loaded (data @ s), f')
        else if length (data @ s) = allocation_size then
          (if \<not> fits (2 * allocation_size mod (size_max + 1) + 1) then Some (Exited, f')
           else if allocation_size > size_max div 2 then Some (Wild, f')
           else load_loop fits (2 * allocation_size) (data @ s) f')
        else load_loop fits allocation_size (data @ s) f')"

text \<open>The name \<^verbatim>\<open>-\<close> stands for the standard input, which is left open; a failed first allocation is reported
  and the null pointer used all the same.\<close>

definition loadfile :: "nat \<Rightarrow> (nat \<Rightarrow> bool) \<Rightarrow> (string \<Rightarrow> stream option) \<Rightarrow> string \<Rightarrow> stream \<Rightarrow> (load_result \<times> stream) option" where
  "loadfile bufsiz fits fopen path stdin =
     (if path = ''-'' then
        (if \<not> fits (bufsiz + 1) then Some (Wild, stdin) else load_loop fits bufsiz [] stdin)
      else case fopen path of
          None \<Rightarrow> Some (Exited, stdin)
        | Some f \<Rightarrow>
            if \<not> fits (bufsiz + 1) then Some (Wild, stdin)
            else map_option (\<lambda>(r, _). (r, stdin)) (load_loop fits bufsiz [] f))"

section \<open>Lemmas: the command line\<close>

text \<open>The value given last for an option, \<open>old\<close> if there is none; the options that exist.\<close>

definition override :: "(string \<times> string) list \<Rightarrow> string \<Rightarrow> string \<Rightarrow> string" where
  "override ps k old = (case map_of (rev ps) k of None \<Rightarrow> old | Some v \<Rightarrow> v)"

definition tls_options :: "string list" where
  "tls_options = [''--tls_cacert'', ''--tls_cert'', ''--tls_key'', ''--tls_pass'']"

definition known_options :: "string list" where
  "known_options = [''--broker_url'', ''--database_name'', ''--username'', ''--password''] @ tls_options"

definition args_of :: "(string \<times> string) list \<Rightarrow> string list" where
  "args_of ps = concat (map (\<lambda>(k, v). [k, v]) ps)"

lemma args_of_simps [simp]: "args_of [] = []" "args_of ((k, v) # ps) = k # v # args_of ps"
  by (simp_all add: args_of_def)

lemma args_of_pairs: "even (length args) \<Longrightarrow> \<exists>ps. args = args_of ps"
proof (induction args rule: induct_list012)
  case (3 k v args)
  then obtain ps where "args = args_of ps" by auto
  then show ?case by (intro exI [of _ "(k, v) # ps"]) simp
qed (auto intro: exI [of _ "[]"])

lemma parse_args_odd: "odd (length args) \<Longrightarrow> parse_args args opts = None"
  by (induction args opts rule: parse_args.induct) auto

lemma override_Nil [simp]: "override [] k old = old"
  by (simp add: override_def)

lemma override_Cons [simp]: "override ((k', v) # ps) k old = override ps k (if k = k' then v else old)"
  by (auto simp: override_def map_add_def split: option.splits)

lemma parse_args_pairs:
  "parse_args (args_of ps) opts =
    (if \<forall>p \<in> set ps. fst p \<in> set known_options then
       Some \<lparr>broker_url = override ps ''--broker_url'' (broker_url opts),
         database_name = override ps ''--database_name'' (database_name opts),
         username = override ps ''--username'' (username opts), password = override ps ''--password'' (password opts),
         opt_cert = override ps ''--tls_cert'' (opt_cert opts), opt_key = override ps ''--tls_key'' (opt_key opts),
         opt_pass = override ps ''--tls_pass'' (opt_pass opts), opt_cacert = override ps ''--tls_cacert'' (opt_cacert opts),
         tls_enabled = (tls_enabled opts \<or> (\<exists>p \<in> set ps. fst p \<in> set tls_options))\<rparr>
     else None)"
proof (induction ps arbitrary: opts)
  case (Cons p ps)
  obtain k v where p: "p = (k, v)" by force
  consider "k \<notin> set known_options" | "k \<in> set known_options" by blast
  then show ?case
  proof cases
    case 1
    then show ?thesis by (auto simp: p known_options_def tls_options_def)
  next
    case 2
    then have "k = ''--broker_url'' \<or> k = ''--database_name'' \<or> k = ''--username'' \<or> k = ''--password'' \<or>
        k = ''--tls_cacert'' \<or> k = ''--tls_cert'' \<or> k = ''--tls_key'' \<or> k = ''--tls_pass''"
      by (auto simp: known_options_def tls_options_def)
    then show ?thesis by (elim disjE) (simp_all add: p Cons.IH, simp_all add: known_options_def tls_options_def)
  qed
qed simp

section \<open>Lemmas: reading\<close>

lemma fread_bytes:
  "st_items f = map Byte bs @ items \<Longrightarrow> n \<le> length bs \<Longrightarrow>
    fread n f = (take n bs, f\<lparr>st_items := map Byte (drop n bs) @ items\<rparr>)"
proof (induction n arbitrary: bs f)
  case (Suc n)
  then show ?case by (cases bs) auto
qed (cases f, simp)

lemma fread_end:
  "st_items f = map Byte bs \<Longrightarrow> length bs < n \<Longrightarrow> fread n f = (bs, f\<lparr>st_items := [], st_eof := True\<rparr>)"
proof (induction n arbitrary: bs f)
  case (Suc n)
  then show ?case by (cases bs; cases f) auto
qed simp

lemma fread_fault:
  "st_items f = map Byte bs @ Fault e # items \<Longrightarrow> length bs < n \<Longrightarrow>
    fread n f = (bs, f\<lparr>st_items := items, st_error := True, st_errno := Some e\<rparr>)"
proof (induction n arbitrary: bs f)
  case (Suc n)
  then show ?case by (cases bs) auto
qed simp

text \<open>Once interrupted, with no other error to come, the loop never leaves.\<close>

definition interrupted :: "stream \<Rightarrow> bool" where
  "interrupted f = (st_error f \<and> st_errno f = Some EINTR \<and> Fault EIO \<notin> set (st_items f))"

lemma fread_interrupted: "interrupted f \<Longrightarrow> interrupted (snd (fread n f))"
proof (induction n f rule: fread.induct)
  case (2 n f)
  then show ?case
    by (cases "st_items f"; cases "hd (st_items f)")
      (auto simp: interrupted_def split: prod.splits errno.splits intro: errno.exhaust)
qed simp

lemma load_loop_interrupted:
  assumes "interrupted f"
  shows "load_loop fits n data f = None"
proof (rule ccontr)
  assume "load_loop fits n data f \<noteq> None"
  then obtain r where ret: "load_loop fits n data f = Some r" by blast
  have "\<not> interrupted f"
  proof (rule load_loop.raw_induct [where P = "\<lambda>fits n data f r. \<not> interrupted f", OF _ ret])
    fix g fits n data f r
    assume IH: "\<And>fits n data f r. g fits n data f = Some r \<Longrightarrow> \<not> interrupted f"
      and eq: "(case fread (n - length data) f of (s, f') \<Rightarrow>
        if st_error f' then (if st_errno f' = Some EINTR then g fits n (data @ s) f' else Some (Exited, f'))
        else if st_eof f' then Some (Loaded (data @ s), f')
        else if length (data @ s) = n then
          (if \<not> fits (2 * n mod (size_max + 1) + 1) then Some (Exited, f')
           else if n > size_max div 2 then Some (Wild, f')
           else g fits (2 * n) (data @ s) f')
        else g fits n (data @ s) f') = Some r"
    show "\<not> interrupted f"
    proof
      assume i: "interrupted f"
      obtain s f' where f': "fread (n - length data) f = (s, f')" by force
      then have "interrupted f'" using fread_interrupted [OF i, of "n - length data"] by simp
      moreover from this have "g fits n (data @ s) f' = Some r" using eq f' by (simp add: interrupted_def)
      ultimately show False using IH by blast
    qed
  qed
  with assms show False by simp
qed

text \<open>One full buffer more.\<close>

lemma load_loop_full:
  assumes "length data < n" "n - length data \<le> length bs" "n \<le> size_max div 2" "fits (2 * n + 1)"
    and "\<not> st_error f" "\<not> st_eof f" "st_items f = map Byte bs @ items"
  shows "load_loop fits n data f =
    load_loop fits (2 * n) (data @ take (n - length data) bs) (f\<lparr>st_items := map Byte (drop (n - length data) bs) @ items\<rparr>)"
proof -
  have "fread (n - length data) f = (take (n - length data) bs, f\<lparr>st_items := map Byte (drop (n - length data) bs) @ items\<rparr>)"
    by (rule fread_bytes [OF assms(7,2)])
  moreover have "2 * n mod (size_max + 1) = 2 * n" using assms(3) by (simp add: size_max_def)
  ultimately show ?thesis using assms(1-6) by (subst load_loop.simps) simp
qed

text \<open>The bytes up to the end of the file or to the first error; the memory they need.\<close>

definition enough :: "(nat \<Rightarrow> bool) \<Rightarrow> nat \<Rightarrow> bool" where
  "enough fits n = (\<forall>i \<le> 2 * n + 1. fits i)"

lemma load_loop_reads:
  assumes "length data < n" "length (data @ bs) \<le> size_max div 2" "enough fits (length (data @ bs))"
    and "\<not> st_error f" "\<not> st_eof f" "st_items f = map Byte bs"
  shows "\<exists>f'. load_loop fits n data f = Some (Loaded (data @ bs), f')"
  using assms
proof (induction bs arbitrary: n data f rule: length_induct)
  case (1 bs)
  show ?case
  proof (cases "length bs < n - length data")
    case True
    show ?thesis using 1 fread_end [OF 1(7) True] by (subst load_loop.simps) simp
  next
    case False
    let ?k = "n - length data"
    let ?f = "f\<lparr>st_items := map Byte (drop ?k bs)\<rparr>"
    have n: "n \<le> length (data @ bs)" "length (data @ take ?k bs) = n" using False 1(2) by auto
    then have "load_loop fits n data f = load_loop fits (2 * n) (data @ take ?k bs) ?f"
      using load_loop_full [of data n bs fits f "[]"] 1 False by (auto simp: enough_def)
    moreover have "\<exists>f'. load_loop fits (2 * n) (data @ take ?k bs) ?f = Some (Loaded ((data @ take ?k bs) @ drop ?k bs), f')"
      using 1(2-) n False by (intro 1(1) [rule_format]) auto
    ultimately show ?thesis by simp
  qed
qed

lemma load_loop_hangs:
  assumes "length data < n" "length (data @ bs) \<le> size_max div 2" "enough fits (length (data @ bs))"
    and "\<not> st_error f" "\<not> st_eof f" "st_items f = map Byte bs @ Fault EINTR # items" "Fault EIO \<notin> set items"
  shows "load_loop fits n data f = None"
  using assms
proof (induction bs arbitrary: n data f rule: length_induct)
  case (1 bs)
  show ?case
  proof (cases "length bs < n - length data")
    case True
    have "interrupted (f\<lparr>st_items := items, st_error := True, st_errno := Some EINTR\<rparr>)"
      using 1 by (simp add: interrupted_def)
    then show ?thesis using load_loop_interrupted fread_fault [OF 1(7) True] by (subst load_loop.simps) simp
  next
    case False
    let ?k = "n - length data"
    let ?f = "f\<lparr>st_items := map Byte (drop ?k bs) @ Fault EINTR # items\<rparr>"
    have n: "n \<le> length (data @ bs)" "length (data @ take ?k bs) = n" using False 1(2) by auto
    then have "load_loop fits n data f = load_loop fits (2 * n) (data @ take ?k bs) ?f"
      using load_loop_full [of data n bs fits f "Fault EINTR # items"] 1 False by (auto simp: enough_def)
    moreover have "load_loop fits (2 * n) (data @ take ?k bs) ?f = None"
      using 1(2-) n False by (intro 1(1) [rule_format]) auto
    ultimately show ?thesis by simp
  qed
qed

section \<open>Properties of the command line and of the certificate files\<close>

text \<open>C37: the command line. The arguments are accepted exactly when they are pairs of a known option and a value
  and give a non-empty broker address and database name. Then every setting is the value given last for
  its option, an option not given leaves it empty, and TLS is on exactly when one of its options is
  given.\<close>

theorem main_options_spec:
  "main_options args = Some opts \<longleftrightarrow>
    (\<exists>ps. args = args_of ps \<and> (\<forall>p \<in> set ps. fst p \<in> set known_options) \<and>
      override ps ''--broker_url'' [] \<noteq> [] \<and> override ps ''--database_name'' [] \<noteq> [] \<and>
      opts = \<lparr>broker_url = override ps ''--broker_url'' [], database_name = override ps ''--database_name'' [],
        username = override ps ''--username'' [], password = override ps ''--password'' [],
        opt_cert = override ps ''--tls_cert'' [], opt_key = override ps ''--tls_key'' [],
        opt_pass = override ps ''--tls_pass'' [], opt_cacert = override ps ''--tls_cacert'' [],
        tls_enabled = (\<exists>p \<in> set ps. fst p \<in> set tls_options)\<rparr>)" (is "?l = ?r")
proof
  assume l: ?l
  then have "even (length args)" using parse_args_odd [of args no_options] by (auto simp: main_options_def split: if_splits option.splits)
  then obtain ps where "args = args_of ps" using args_of_pairs by blast
  with l show ?r
    by (intro exI [of _ ps]) (auto simp: main_options_def parse_args_pairs no_options_def split: if_splits option.splits)
next
  assume ?r
  then obtain ps where ps: "args = args_of ps" "\<forall>p \<in> set ps. fst p \<in> set known_options"
    "override ps ''--broker_url'' [] \<noteq> []" "override ps ''--database_name'' [] \<noteq> []"
    "opts = \<lparr>broker_url = override ps ''--broker_url'' [], database_name = override ps ''--database_name'' [],
        username = override ps ''--username'' [], password = override ps ''--password'' [],
        opt_cert = override ps ''--tls_cert'' [], opt_key = override ps ''--tls_key'' [],
        opt_pass = override ps ''--tls_pass'' [], opt_cacert = override ps ''--tls_cacert'' [],
        tls_enabled = (\<exists>p \<in> set ps. fst p \<in> set tls_options)\<rparr>" by blast
  then have "args \<noteq> []" by (cases ps) auto
  with ps show ?l by (simp add: main_options_def parse_args_pairs no_options_def)
qed

theorem main_options_spec_witness:
  "\<exists>opts. main_options [''--tls_cert'', ''c'', ''--broker_url'', ''u'', ''--database_name'', ''d'', ''--broker_url'', ''w''] = Some opts \<and>
    broker_url opts = ''w'' \<and> tls_enabled opts"
proof -
  let ?ps = "[(''--tls_cert'', ''c''), (''--broker_url'', ''u''), (''--database_name'', ''d''), (''--broker_url'', ''w'')]"
  let ?opts = "\<lparr>broker_url = ''w'', database_name = ''d'', username = [], password = [], opt_cert = ''c'', opt_key = [],
    opt_pass = [], opt_cacert = [], tls_enabled = True\<rparr>"
  have "main_options (args_of ?ps) = Some ?opts"
    by (rule main_options_spec [THEN iffD2], intro exI [of _ ?ps] conjI) (simp_all add: known_options_def tls_options_def)
  then show ?thesis by (intro exI [of _ ?opts]) simp
qed

text \<open>C36: \<^verbatim>\<open>loadfile\<close>. With memory for twice the file (and less than 2^63 bytes) it ends for a file that can be read
  and gives exactly its bytes, whatever the size of the first buffer. A read interrupted by a signal, with
  no other error later, makes it loop for ever: the error flag of the stream stays set and the code tries
  again as long as it is.\<close>

theorem loadfile_reads:
  assumes "0 < bufsiz" "path \<noteq> ''-''" "fopen path = Some (stream_of items)"
    and "length bs \<le> size_max div 2" "\<forall>n \<le> max bufsiz (2 * length bs) + 1. fits n"
  shows "(items = map Byte bs \<longrightarrow> loadfile bufsiz fits fopen path stdin = Some (Loaded bs, stdin)) \<and>
    (items = map Byte bs @ Fault EINTR # rest \<and> Fault EIO \<notin> set rest \<longrightarrow> loadfile bufsiz fits fopen path stdin = None)"
proof -
  have f: "fits (bufsiz + 1)" "enough fits (length bs)" using assms(5) by (auto simp: enough_def)
  have "\<exists>f'. load_loop fits bufsiz [] (stream_of items) = Some (Loaded bs, f')" if "items = map Byte bs"
    using load_loop_reads [of "[]" bufsiz bs fits "stream_of items"] that assms f by (simp add: stream_of_def)
  moreover have "load_loop fits bufsiz [] (stream_of items) = None"
    if "items = map Byte bs @ Fault EINTR # rest" "Fault EIO \<notin> set rest"
    using load_loop_hangs [of "[]" bufsiz bs fits "stream_of items" rest] that assms f by (simp add: stream_of_def)
  ultimately show ?thesis using assms(2,3) f(1) by (auto simp: loadfile_def)
qed

theorem loadfile_reads_witness:
  "loadfile 2 (\<lambda>n. n < 100) (\<lambda>_. Some (stream_of (map Byte ''abcde''))) ''ca.pem'' (stream_of []) = Some (Loaded ''abcde'', stream_of []) \<and>
   loadfile 2 (\<lambda>n. n < 100) (\<lambda>_. Some (stream_of (map Byte ''abcde'' @ [Fault EINTR]))) ''ca.pem'' (stream_of []) = None"
  using loadfile_reads [of 2 "''ca.pem''" "\<lambda>_. Some (stream_of (map Byte ''abcde''))" "map Byte ''abcde''" "''abcde''" "\<lambda>n. n < 100" "stream_of []" "[]"]
    loadfile_reads [of 2 "''ca.pem''" "\<lambda>_. Some (stream_of (map Byte ''abcde'' @ [Fault EINTR]))" "map Byte ''abcde'' @ [Fault EINTR]" "''abcde''" "\<lambda>n. n < 100" "stream_of []" "[]"]
  by (simp add: size_max_def)

end
