(* ===== verification/Anu_Lifecycle.thy ===== *)
theory Anu_Lifecycle
  imports Anu_Server Anu_Loadfile
begin

text \<open>
  The life of the MQTT server: construction, \<^verbatim>\<open>start\<close>, the subscription, the TLS configuration, \<^verbatim>\<open>stop\<close>, and
  \<^verbatim>\<open>main\<close> around them (\<^verbatim>\<open>mqtt/AnuDBMqttClient.cpp\<close>). The results of the nng calls come from the list of answers
  as before; \<open>trace\<close> records the calls that took effect. The callbacks the network may run while \<^verbatim>\<open>start\<close> is
  still in its last loop are not interleaved here (the interleavings of callbacks are in \<open>Anu_Server\<close>).
  \<^verbatim>\<open>delete\<close> applied to memory that \<^verbatim>\<open>malloc\<close> or \<^verbatim>\<open>nng_alloc\<close> returned is undefined behaviour in C++.
\<close>

datatype nng_event =
    Client_open
  | Connect_message "(string \<times> string) option"
  | Dialer_create string
  | Auth_required
  | Auth_optional
  | Own_cert string string string
  | Ca_chain string
  | Set_tls_config
  | Set_connect_message
  | Dialer_start
  | Callback nat aio_action
  | Subscribe string nat
  | Aio_stop nat
  | Aio_free nat
  | Ctx_close nat

record server =
  srv_mqtt :: mqtt
  running :: bool
  workers :: "work list"
  cacertp :: "string option"
  certp :: "string option"
  keyp :: "string option"
  tls_configs :: nat
  trace :: "nng_event list"

definition on_server :: "(mqtt, 'a) comp \<Rightarrow> (server, 'a) comp" where
  "on_server m = (\<lambda>s. case m (srv_mqtt s) of (r, q) \<Rightarrow> (r, s\<lparr>srv_mqtt := q\<rparr>))"

definition note_event :: "nng_event \<Rightarrow> (server, unit) comp" where
  "note_event ev = modifyM (trace_update (\<lambda>tr. tr @ [ev]))"

text \<open>A call of nng that takes effect when it succeeds.\<close>

definition nng_do :: "nng_event \<Rightarrow> (server, nng_rv) comp" where
  "nng_do ev = bindM (on_server nng_call) (\<lambda>rv.
     if rv = NNG_OK then bindM (note_event ev) (\<lambda>_. returnM rv) else returnM rv)"

section \<open>Workers\<close>

text \<open>\<^verbatim>\<open>alloc_work\<close>: the memory, the aio and the context. When one of the last two fails the memory, which came
  from \<^verbatim>\<open>nng_alloc\<close>, is given to \<^verbatim>\<open>delete\<close>. The result is the place of the worker in \<^verbatim>\<open>workers_\<close>.\<close>

definition alloc_work :: "(server, nat option) comp" where
  "alloc_work =
     bindM (on_server nng_call) (\<lambda>r1. if r1 \<noteq> NNG_OK then returnM None else
     bindM (on_server nng_call) (\<lambda>r2. if r2 \<noteq> NNG_OK then undefM else
     bindM (on_server nng_call) (\<lambda>r3. if r3 \<noteq> NNG_OK then undefM else
       (\<lambda>s. (Ret (Some (length (workers s))), s\<lparr>workers := workers s @ [new_work]\<rparr>)))))"

definition concurrent_threads :: nat where
  "concurrent_threads = 32"

fun alloc_works :: "nat \<Rightarrow> (server, nat option list) comp" where
  "alloc_works 0 = returnM []"
| "alloc_works (Suc n) = bindM alloc_work (\<lambda>w. bindM (alloc_works n) (\<lambda>ws. returnM (w # ws)))"

text \<open>\<^verbatim>\<open>client_cb(works[i])\<close>, for a worker that has just been allocated.\<close>

definition call_work :: "server_env \<Rightarrow> nat option \<Rightarrow> (server, unit) comp" where
  "call_work env p = (case p of
       None \<Rightarrow> undefM
     | Some i \<Rightarrow> (\<lambda>s. case client_cb env NNG_OK ([], []) (workers s ! i) (srv_mqtt s) of
           (Ret act, w, q) \<Rightarrow> note_event (Callback i act) (s\<lparr>workers := (workers s)[i := w], srv_mqtt := q\<rparr>)
         | (Throw ex, w, q) \<Rightarrow> (Throw ex, s\<lparr>workers := (workers s)[i := w], srv_mqtt := q\<rparr>)
         | (Undef, w, q) \<Rightarrow> (Undef, s\<lparr>workers := (workers s)[i := w], srv_mqtt := q\<rparr>)))"

section \<open>The network\<close>

datatype pipe_event = PIPE_ADD_PRE | PIPE_ADD_POST | PIPE_REM_POST

definition connect_cb :: "pipe_event \<Rightarrow> (server, unit) comp" where
  "connect_cb ev = (if ev = PIPE_ADD_POST then note_event (Subscribe ''anudb/request'' 1) else returnM ())"

definition tls_config_free :: "(server, unit) comp" where
  "tls_config_free = modifyM (\<lambda>s. s\<lparr>tls_configs := tls_configs s - 1\<rparr>)"

text \<open>The comparisons of \<^verbatim>\<open>cert\<close>, \<^verbatim>\<open>key\<close> and \<^verbatim>\<open>cacert\<close> with \<^verbatim>\<open>""\<close> compare pointers and never find the contents of a file
  there. The results of setting the mode are ignored.\<close>

definition init_dialer_tls :: "string option \<Rightarrow> string option \<Rightarrow> string option \<Rightarrow> string \<Rightarrow> (server, nng_rv) comp" where
  "init_dialer_tls cacert cert key pass =
     bindM (on_server nng_call) (\<lambda>rv.
       if rv \<noteq> NNG_OK then returnM rv
       else
         bindM (modifyM (tls_configs_update Suc)) (\<lambda>_.
         bindM (case cert of
                  Some c \<Rightarrow> (case key of
                      Some k \<Rightarrow> bindM (nng_do Auth_required) (\<lambda>_. nng_do (Own_cert (c_string c) (c_string k) (c_string pass)))
                    | None \<Rightarrow> bindM (nng_do Auth_optional) (\<lambda>_. returnM NNG_OK))
                | None \<Rightarrow> bindM (nng_do Auth_optional) (\<lambda>_. returnM NNG_OK)) (\<lambda>rv.
           if rv \<noteq> NNG_OK then bindM tls_config_free (\<lambda>_. returnM rv)
           else
             bindM (case cacert of Some c \<Rightarrow> nng_do (Ca_chain (c_string c)) | None \<Rightarrow> returnM NNG_OK) (\<lambda>rv.
               if rv \<noteq> NNG_OK then bindM tls_config_free (\<lambda>_. returnM rv)
               else
                 bindM (nng_do Set_tls_config) (\<lambda>rv.
                 bindM tls_config_free (\<lambda>_. returnM rv))))))"

section \<open>Start and stop\<close>

definition start_tls :: "options \<Rightarrow> (server, nng_rv) comp" where
  "start_tls opts = (if tls_enabled opts
     then bindM getM (\<lambda>s. init_dialer_tls (cacertp s) (certp s) (keyp s) (opt_pass opts))
     else returnM NNG_OK)"

definition connect_message :: "options \<Rightarrow> nng_event" where
  "connect_message opts = Connect_message (if username opts \<noteq> [] \<and> password opts \<noteq> []
     then Some (c_string (username opts), c_string (password opts)) else None)"

text \<open>\<^verbatim>\<open>start\<close> after the database has been opened. The result of allocating the connect message is not looked
  at.\<close>

definition start_network :: "server_env \<Rightarrow> options \<Rightarrow> (server, bool) comp" where
  "start_network env opts =
     bindM (nng_do Client_open) (\<lambda>rv. if rv \<noteq> NNG_OK then returnM False else
     bindM (alloc_works concurrent_threads) (\<lambda>works.
     bindM (on_server nng_call) (\<lambda>rv. if rv \<noteq> NNG_OK then undefM else
     bindM (note_event (connect_message opts)) (\<lambda>_.
     bindM (nng_do (Dialer_create (c_string (broker_url opts)))) (\<lambda>rv. if rv \<noteq> NNG_OK then returnM False else
     bindM (start_tls opts) (\<lambda>rv. if rv \<noteq> NNG_OK then returnM False else
     bindM (nng_do Set_connect_message) (\<lambda>_.
     bindM (nng_do Dialer_start) (\<lambda>rv. if rv \<noteq> NNG_OK then returnM False else
     bindM (forM (call_work env) works) (\<lambda>_.
     bindM (modifyM (running_update (\<lambda>_. True))) (\<lambda>_.
       returnM True))))))))))"

text \<open>A failed opening of the database ends with \<^verbatim>\<open>return 1\<close>, which is true.\<close>

definition start :: "server_env \<Rightarrow> options \<Rightarrow> (server, bool) comp" where
  "start env opts =
     bindM getM (\<lambda>s. if running s then returnM True else
     bindM (on_server (on_db Database_open)) (\<lambda>st. if \<not> ok st then returnM True else
       start_network env opts))"

text \<open>\<^verbatim>\<open>delete\<close> on a file's contents, which \<^verbatim>\<open>loadfile\<close> allocates with \<^verbatim>\<open>malloc\<close>.\<close>

definition delete_file :: "(server \<Rightarrow> string option) \<Rightarrow> (server, unit) comp" where
  "delete_file p = bindM getM (\<lambda>s. if p s = None then returnM () else undefM)"

definition stop :: "(server, unit) comp" where
  "stop =
     bindM getM (\<lambda>s. if \<not> running s then returnM () else
     bindM (modifyM (running_update (\<lambda>_. False))) (\<lambda>_.
     bindM (on_server (modifyM (collMap_update (\<lambda>_. [])))) (\<lambda>_.
     bindM (on_server (on_db Database_close)) (\<lambda>_.
     bindM (delete_file cacertp) (\<lambda>_.
     bindM (delete_file keyp) (\<lambda>_.
     bindM (delete_file certp) (\<lambda>_.
     bindM (forM (\<lambda>i. note_event (Aio_stop i)) [0..<length (workers s)]) (\<lambda>_.
     bindM (forM (\<lambda>i. bindM (note_event (Aio_free i)) (\<lambda>_. note_event (Ctx_close i))) [0..<length (workers s)]) (\<lambda>_.
       modifyM (workers_update (\<lambda>_. [])))))))))))"

section \<open>The program\<close>

text \<open>The constructor loads the files that are named, in this order: authority, certificate, key.\<close>

definition load_named :: "(string \<Rightarrow> stream \<Rightarrow> (load_result \<times> stream) option) \<Rightarrow> string \<Rightarrow> stream \<Rightarrow>
    ((load_result + string option) \<times> stream) option" where
  "load_named load path stdin =
     (if path = [] then Some (Inr None, stdin)
      else map_option (\<lambda>(r, stdin'). (case r of Loaded bytes \<Rightarrow> Inr (Some bytes) | _ \<Rightarrow> Inl r, stdin')) (load (c_string path) stdin))"

datatype main_result = Finished int | Serving server | Undefined

definition after_load :: "((load_result + string option) \<times> stream) option \<Rightarrow>
    (string option \<Rightarrow> stream \<Rightarrow> main_result option) \<Rightarrow> main_result option" where
  "after_load r f = (case r of
       None \<Rightarrow> None
     | Some (Inl Exited, _) \<Rightarrow> Some (Finished 1)
     | Some (Inl _, _) \<Rightarrow> Some Undefined
     | Some (Inr p, stdin) \<Rightarrow> f p stdin)"

text \<open>\<^verbatim>\<open>main\<close> up to its waiting loop, with a new database in the state \<open>q\<close>, and from the end of that loop.\<close>

definition main_start :: "(string \<Rightarrow> stream \<Rightarrow> (load_result \<times> stream) option) \<Rightarrow> server_env \<Rightarrow> string list \<Rightarrow> mqtt \<Rightarrow>
    stream \<Rightarrow> main_result option" where
  "main_start load env args q stdin =
     (case main_options args of
        None \<Rightarrow> Some (Finished 1)
      | Some opts \<Rightarrow>
          after_load (load_named load (opt_cacert opts) stdin) (\<lambda>ca stdin.
          after_load (load_named load (opt_cert opts) stdin) (\<lambda>cert stdin.
          after_load (load_named load (opt_key opts) stdin) (\<lambda>key stdin.
            Some (case start env opts \<lparr>srv_mqtt = q, running = False, workers = [], cacertp = ca, certp = cert, keyp = key,
                     tls_configs = 0, trace = []\<rparr> of
                (Ret b, s) \<Rightarrow> if b then Serving s else Finished 1
              | (Throw ex, s) \<Rightarrow> Finished 1
              | (Undef, s) \<Rightarrow> Undefined)))))"

definition main_stop :: "server \<Rightarrow> main_result" where
  "main_stop s = (case stop s of (Ret _, _) \<Rightarrow> Finished 0 | (Throw ex, _) \<Rightarrow> Finished 1 | (Undef, _) \<Rightarrow> Undefined)"

section \<open>Lemmas: the network\<close>

lemma on_server_call: "on_server nng_call s = (Ret (answer_at (srv_mqtt s) 0), s\<lparr>srv_mqtt := pop_answer (srv_mqtt s)\<rparr>)"
  by (simp add: on_server_def nng_call_run)

lemma nng_do_run:
  "nng_do ev s = (Ret (answer_at (srv_mqtt s) 0), s\<lparr>srv_mqtt := pop_answer (srv_mqtt s),
     trace := trace s @ (if answer_at (srv_mqtt s) 0 = NNG_OK then [ev] else [])\<rparr>)"
  by (simp add: nng_do_def bindM_def on_server_call note_event_def modifyM_def returnM_def)

text \<open>A step of the TLS set-up that gives \<open>rv\<close>, and on success has recorded the events of \<open>evs\<close>.\<close>

definition sets_up :: "nng_event set \<Rightarrow> nng_event list \<Rightarrow> server \<Rightarrow> nng_rv outcome \<times> server \<Rightarrow> bool" where
  "sets_up evs final s res = (\<exists>rv s' tr. res = (Ret rv, s') \<and> tls_configs s' = tls_configs s \<and> running s' = running s \<and> workers s' = workers s \<and>
     mq_db (srv_mqtt s') = mq_db (srv_mqtt s) \<and> collMap (srv_mqtt s') = collMap (srv_mqtt s) \<and> owned (srv_mqtt s') = owned (srv_mqtt s) \<and>
     (rv = NNG_OK \<longrightarrow> trace s' = trace s @ tr @ final \<and> evs \<subseteq> set tr))"

definition credentials :: "string option \<Rightarrow> string option \<Rightarrow> string option \<Rightarrow> string \<Rightarrow> nng_event set" where
  "credentials cacert cert key pass =
     (case (cert, key) of (Some c, Some k) \<Rightarrow> {Own_cert (c_string c) (c_string k) (c_string pass)} | _ \<Rightarrow> {}) \<union>
     (case cacert of Some a \<Rightarrow> {Ca_chain (c_string a)} | None \<Rightarrow> {})"

lemma init_dialer_tls_sets_up:
  "sets_up (credentials cacert cert key pass) [Set_tls_config] s (init_dialer_tls cacert cert key pass s)"
  unfolding sets_up_def init_dialer_tls_def
  by (cases cacert; cases cert; cases key)
    (auto simp: bindM_def on_server_call nng_do_run returnM_def modifyM_def tls_config_free_def credentials_def pop_answer_def)

text \<open>The credentials that are applied when it reports success, and no others.\<close>

lemma init_dialer_tls_trace:
  "init_dialer_tls cacert cert key pass s = (Ret NNG_OK, s') \<Longrightarrow>
     \<exists>tr. trace s' = trace s @ tr @ [Set_tls_config] \<and>
       {ev \<in> set tr. ev \<noteq> Auth_required \<and> ev \<noteq> Auth_optional} = credentials cacert cert key pass \<and> set tr \<inter> {Auth_required, Auth_optional} \<subseteq>
         {if cert \<noteq> None \<and> key \<noteq> None then Auth_required else Auth_optional}"
  unfolding init_dialer_tls_def
  by (cases cacert; cases cert; cases key)
    (auto simp: bindM_def on_server_call nng_do_run returnM_def modifyM_def tls_config_free_def credentials_def pop_answer_def
      split: if_splits)

section \<open>Lemmas: what start reports\<close>

abbreviation idle :: "server \<Rightarrow> bool" where
  "idle s \<equiv> \<not> running s"

lemma idle_steps: "keeps idle (on_server m)" "keeps idle (nng_do ev)" "keeps idle (note_event ev)"
  by (auto simp: keeps_def on_server_def nng_do_run note_event_def modifyM_def split: prod.splits)

lemma idle_alloc: "keeps idle alloc_work"
  unfolding alloc_work_def by (intro keeps_intros idle_steps) (auto simp: keeps_def)

lemma idle_allocs: "keeps idle (alloc_works n)"
  by (induction n) (auto intro!: keeps_intros idle_alloc)

lemma idle_tls: "keeps idle (init_dialer_tls cacert cert key pass)"
  using init_dialer_tls_sets_up [of cacert cert key pass] by (fastforce simp: keeps_def sets_up_def)

lemma idle_call_work: "keeps idle (call_work env p)"
  by (auto simp: keeps_def call_work_def undefM_def note_event_def modifyM_def split: option.splits prod.splits outcome.splits)

lemma idle_call_works: "keeps idle (forM (call_work env) ps)"
  by (induction ps) (auto intro!: keeps_intros idle_call_work)

text \<open>A last part of \<^verbatim>\<open>start\<close> that returns true exactly when the server runs.\<close>

definition reports :: "(server, bool) comp \<Rightarrow> bool" where
  "reports m = (\<forall>s b s'. idle s \<and> m s = (Ret b, s') \<longrightarrow> b = running s')"

named_theorems reports_intros \<open>parts of start that report the truth\<close>

lemma reports_False [reports_intros]: "reports (returnM False)"
  by (simp add: reports_def returnM_def)

lemma reports_undef [reports_intros]: "reports undefM"
  by (simp add: reports_def undefM_def)

lemma reports_if [reports_intros]: "reports m \<Longrightarrow> reports m' \<Longrightarrow> reports (if b then m else m')"
  by simp

lemma reports_run [reports_intros]: "reports (bindM (modifyM (running_update (\<lambda>_. True))) (\<lambda>_. returnM True))"
  by (simp add: reports_def bindM_def modifyM_def returnM_def)

lemma reports_bind [reports_intros]:
  assumes "keeps idle m" "\<And>x. reports (f x)"
  shows "reports (bindM m f)"
  unfolding reports_def
proof (intro allI impI)
  fix s b s' assume "idle s \<and> bindM m f s = (Ret b, s')"
  moreover from this obtain x s1 where "m s = (Ret x, s1)" "f x s1 = (Ret b, s')"
    by (auto simp: bindM_def split: prod.splits outcome.splits)
  ultimately show "b = running s'" using keepsD [OF assms(1), of s] assms(2) [of x] by (auto simp: reports_def)
qed

lemma on_db_open:
  "on_server (on_db Database_open) s = (case Database_open (mq_db (srv_mqtt s)) of (r, d) \<Rightarrow>
    (r, s\<lparr>srv_mqtt := (srv_mqtt s)\<lparr>mq_db := d\<rparr>\<rparr>))"
  by (simp add: on_server_def on_db_def split: prod.splits)

lemma start_network_reports: "reports (start_network env opts)"
  unfolding start_network_def start_tls_def by (intro reports_intros keeps_intros idle_steps idle_allocs idle_tls idle_call_works)

lemma start_opened:
  assumes "idle s" "Database_open (mq_db (srv_mqtt s)) = (Ret st, d)"
  shows "start env opts s = (let s' = s\<lparr>srv_mqtt := (srv_mqtt s)\<lparr>mq_db := d\<rparr>\<rparr> in
    if ok st then start_network env opts s' else (Ret True, s'))"
  using assms by (simp add: start_def bindM_def getM_def on_db_open returnM_def Let_def)

lemma start_not_opened:
  assumes "idle s" "start env opts s = (Ret b, s')"
  shows "\<exists>st d. Database_open (mq_db (srv_mqtt s)) = (Ret st, d)"
  using assms by (auto simp: start_def bindM_def getM_def on_db_open split: prod.splits outcome.splits)

section \<open>Lemmas: a network that works\<close>

lemma calm_call: "answers (srv_mqtt s) = [] \<Longrightarrow> on_server nng_call s = (Ret NNG_OK, s)"
  by (cases s) (simp add: on_server_def nng_call_def)

lemma calm_do: "answers (srv_mqtt s) = [] \<Longrightarrow> nng_do ev s = (Ret NNG_OK, s\<lparr>trace := trace s @ [ev]\<rparr>)"
  by (simp add: nng_do_def bindM_Ret calm_call note_event_def modifyM_def returnM_def)

lemma calm_alloc:
  "answers (srv_mqtt s) = [] \<Longrightarrow> alloc_work s = (Ret (Some (length (workers s))), s\<lparr>workers := workers s @ [new_work]\<rparr>)"
  by (simp add: alloc_work_def bindM_Ret calm_call)

lemma calm_allocs:
  "answers (srv_mqtt s) = [] \<Longrightarrow> alloc_works n s =
    (Ret (map Some [length (workers s)..<length (workers s) + n]), s\<lparr>workers := workers s @ replicate n new_work\<rparr>)"
proof (induction n arbitrary: s)
  case (Suc n)
  then show ?case
    by (simp add: bindM_Ret calm_alloc returnM_def upt_conv_Cons del: upt_Suc)
qed (simp add: returnM_def)

abbreviation ready_work :: work where
  "ready_work \<equiv> new_work\<lparr>w_state := RECV\<rparr>"

lemma call_new_work:
  assumes "i < length (workers s)" "workers s ! i = new_work"
  shows "call_work env (Some i) s = (Ret (), s\<lparr>workers := (workers s)[i := ready_work], trace := trace s @ [Callback i Receive]\<rparr>)"
  using assms by (simp add: call_work_def client_cb_def new_work_def note_event_def modifyM_def)

text \<open>The workers from number \<open>k\<close> on are called one after the other.\<close>

lemma call_new_works:
  "workers s = replicate k ready_work @ replicate n new_work \<Longrightarrow>
    forM (call_work env) (map Some [k..<k + n]) s =
      (Ret (), s\<lparr>workers := replicate (k + n) ready_work, trace := trace s @ map (\<lambda>i. Callback i Receive) [k..<k + n]\<rparr>)"
proof (induction n arbitrary: s k)
  case (Suc n)
  let ?s = "s\<lparr>workers := replicate (Suc k) ready_work @ replicate n new_work, trace := trace s @ [Callback k Receive]\<rparr>"
  have "(workers s)[k := ready_work] = replicate (Suc k) ready_work @ replicate n new_work"
    using Suc(2) by (simp add: list_update_append replicate_append_same)
  then have "call_work env (Some k) s = (Ret (), ?s)" using call_new_work [of k s env] Suc(2) by (simp add: nth_append)
  moreover have "[k..<k + Suc n] = k # [Suc k..<Suc k + n]" by (simp add: upt_conv_Cons del: upt_Suc)
  ultimately show ?case using Suc(1) [of ?s "Suc k"] by (simp add: bindM_Ret)
qed (simp add: returnM_def)

lemma calm_tls:
  assumes "answers (srv_mqtt s) = []"
  shows "\<exists>tr. init_dialer_tls cacert cert key pass s = (Ret NNG_OK, s\<lparr>trace := trace s @ tr\<rparr>)"
proof -
  let ?tr = "(case cert of Some c \<Rightarrow> (case key of Some k \<Rightarrow> [Auth_required, Own_cert (c_string c) (c_string k) (c_string pass)]
      | None \<Rightarrow> [Auth_optional]) | None \<Rightarrow> [Auth_optional]) @
    (case cacert of Some a \<Rightarrow> [Ca_chain (c_string a)] | None \<Rightarrow> []) @ [Set_tls_config]"
  have t: "s\<lparr>tls_configs := tls_configs s, trace := tr\<rparr> = s\<lparr>trace := tr\<rparr>" for tr by (cases s) simp
  have "init_dialer_tls cacert cert key pass s = (Ret NNG_OK, s\<lparr>trace := trace s @ ?tr\<rparr>)"
    unfolding init_dialer_tls_def using assms
    by (cases cacert; cases cert; cases key)
      (simp_all add: bindM_def calm_call calm_do returnM_def modifyM_def tls_config_free_def t)
  then show ?thesis by blast
qed

lemma calm_start_tls:
  "answers (srv_mqtt s) = [] \<Longrightarrow> \<exists>tr. start_tls opts s = (Ret NNG_OK, s\<lparr>trace := trace s @ tr\<rparr>)"
  using calm_tls [of s] by (cases s) (auto simp: start_tls_def bindM_Ret getM_run returnM_def)

lemma start_network_serves:
  assumes "answers (srv_mqtt s) = []" "workers s = []"
  shows "\<exists>tr. start_network env opts s = (Ret True, s\<lparr>running := True, workers := replicate concurrent_threads ready_work,
    trace := trace s @ tr @ [Dialer_start] @ map (\<lambda>i. Callback i Receive) [0..<concurrent_threads]\<rparr>)"
proof -
  let ?tr = "[Client_open, connect_message opts, Dialer_create (c_string (broker_url opts))]"
  let ?s = "\<lambda>tr. s\<lparr>workers := replicate concurrent_threads new_work, trace := trace s @ tr\<rparr>"
  obtain t where t: "start_tls opts (?s ?tr) = (Ret NNG_OK, ?s (?tr @ t))"
    using calm_start_tls [of "?s ?tr" opts] assms by auto
  have c: "forM (call_work env) (map Some [0..<concurrent_threads]) (?s tr) =
      (Ret (), s\<lparr>workers := replicate concurrent_threads ready_work, trace := trace s @ tr @ map (\<lambda>i. Callback i Receive) [0..<concurrent_threads]\<rparr>)" for tr
    using call_new_works [of "?s tr" 0 concurrent_threads env] by simp
  have "start_network env opts s = (Ret True, s\<lparr>running := True, workers := replicate concurrent_threads ready_work,
    trace := trace s @ (?tr @ t @ [Set_connect_message]) @ [Dialer_start] @ map (\<lambda>i. Callback i Receive) [0..<concurrent_threads]\<rparr>)"
    unfolding start_network_def using assms c [of "?tr @ t @ [Set_connect_message, Dialer_start]"] t
    by (simp add: bindM_Ret calm_call calm_do calm_allocs note_event_def modifyM_def returnM_def)
  then show ?thesis by blast
qed

section \<open>Lemmas: stopping\<close>

lemma forM_note: "forM (\<lambda>i. note_event (f i)) is s = (Ret (), s\<lparr>trace := trace s @ map f is\<rparr>)"
  by (induction "is" arbitrary: s) (simp_all add: bindM_Ret note_event_def modifyM_def returnM_def)

lemma forM_note2:
  "forM (\<lambda>i. bindM (note_event (f i)) (\<lambda>_. note_event (g i))) is s = (Ret (), s\<lparr>trace := trace s @ concat (map (\<lambda>i. [f i, g i]) is)\<rparr>)"
  by (induction "is" arbitrary: s) (simp_all add: bindM_Ret note_event_def modifyM_def returnM_def)

lemma stop_run:
  assumes "running s" "cacertp s = None" "keyp s = None" "certp s = None" "Database_close (mq_db (srv_mqtt s)) = (Ret st, d)"
  shows "stop s = (Ret (), s\<lparr>running := False, workers := [], srv_mqtt := (srv_mqtt s)\<lparr>collMap := [], mq_db := d\<rparr>,
    trace := trace s @ map Aio_stop [0..<length (workers s)] @ concat (map (\<lambda>i. [Aio_free i, Ctx_close i]) [0..<length (workers s)])\<rparr>)"
  using assms by (simp add: stop_def bindM_Ret getM_run modifyM_def on_server_def on_db_def delete_file_def returnM_def forM_note forM_note2)

lemma stop_files:
  assumes "running s" "cacertp s \<noteq> None \<or> keyp s \<noteq> None \<or> certp s \<noteq> None" "Database_close (mq_db (srv_mqtt s)) = (Ret st, d)"
  shows "fst (stop s) = Undef"
  using assms by (auto simp: stop_def bindM_Ret getM_run modifyM_def on_server_def on_db_def delete_file_def returnM_def undefM_def bindM_def getM_def)

lemma stop_working:
  assumes "running t \<and> working (mq_db (srv_mqtt t))"
  shows "if cacertp t = None \<and> certp t = None \<and> keyp t = None then
        \<exists>t'. stop t = (Ret (), t') \<and> \<not> running t' \<and> workers t' = [] \<and> collMap (srv_mqtt t') = [] \<and>
          isDbOpen (mq_db (srv_mqtt t')) = Ret False \<and>
          trace t' = trace t @ map Aio_stop [0..<length (workers t)] @ concat (map (\<lambda>i. [Aio_free i, Ctx_close i]) [0..<length (workers t)])
      else fst (stop t) = Undef"
proof -
  obtain d1 where c: "Database_close (mq_db (srv_mqtt t)) = (Ret StatusOK, d1)" "isDbOpen d1 = Ret False"
    using assms Database_reopen by blast
  show ?thesis using assms stop_run [OF _ _ _ _ c(1)] stop_files [OF _ _ c(1)] c(2) by auto
qed

text \<open>The started workers are workers of the step relation.\<close>

lemma ready_steps: "server_step\<^sup>*\<^sup>* (replicate k ready_work @ replicate n new_work, q) (replicate (k + n) ready_work, q)"
proof (induction n arbitrary: k)
  case (Suc n)
  let ?ws = "replicate k ready_work @ replicate (Suc n) new_work"
  have "client_cb env NNG_OK ([], []) (?ws ! k) q = (Ret Receive, ready_work, q)" for env
    by (simp add: nth_append client_cb_def new_work_def)
  then have "server_step (?ws, q) (?ws[k := ready_work], q)" by (intro callback) simp_all
  moreover have "?ws[k := ready_work] = replicate (Suc k) ready_work @ replicate n new_work"
    by (simp add: list_update_append replicate_append_same)
  ultimately show ?case using Suc [of "Suc k"] by (simp add: converse_rtranclp_into_rtranclp)
qed simp

section \<open>A small server\<close>

definition idle_server :: "database \<Rightarrow> server" where
  "idle_server d = \<lparr>srv_mqtt = sample_mqtt\<lparr>mq_db := d\<rparr>, running = False, workers = [], cacertp = Some ''ca'', certp = None, keyp = None,
     tls_configs = 0, trace = []\<rparr>"

definition held_database :: database where
  "held_database = Database_new (new_engine\<lparr>store := (store new_engine)\<lparr>locked := True\<rparr>\<rparr>) sample_files"

lemma held_open: "\<exists>st d. Database_open held_database = (Ret st, d) \<and> \<not> ok st"
  by (simp add: held_database_def Database_new_def Database_open_def bindM_def modifyM_def on_engine_def engine_open_def new_engine_def
      rocks_list_def rocks_open_def answer_def Let_def)

lemma new_open: "Database_open (Database_new new_engine sample_files) =
    (Ret StatusOK, (Database_new opened_engine sample_files)\<lparr>isDbOpen_flag := Some True\<rparr>)"
  by (simp add: Database_new_def Database_open_def bindM_def modifyM_def on_engine_def opened_engine)

section \<open>Properties of the server's life\<close>

text \<open>What \<^verbatim>\<open>start\<close> reports. Whatever the network answers, a server that runs has reported true; but true is
  also reported, with nothing asked of the network and no worker, exactly when the database could not be
  opened (and \<^verbatim>\<open>main\<close> then waits for ever).\<close>

theorem start_reports:
  assumes "\<not> running s" "start env opts s = (Ret b, s')"
  shows "(running s' \<longrightarrow> b) \<and> (b \<and> \<not> running s' \<longleftrightarrow> (\<exists>st d. Database_open (mq_db (srv_mqtt s)) = (Ret st, d) \<and> \<not> ok st)) \<and>
    (b \<and> \<not> running s' \<longrightarrow> trace s' = trace s \<and> workers s' = workers s)"
proof -
  obtain st d where o: "Database_open (mq_db (srv_mqtt s)) = (Ret st, d)" using start_not_opened [OF assms] by blast
  note r = start_opened [OF assms(1) o, of env opts]
  show ?thesis
  proof (cases "ok st")
    case True
    then have "b = running s'"
      using r assms start_network_reports [of env opts, unfolded reports_def, rule_format, of "s\<lparr>srv_mqtt := (srv_mqtt s)\<lparr>mq_db := d\<rparr>\<rparr>" b s']
      by (simp add: Let_def)
    then show ?thesis using o True by auto
  next
    case False
    then show ?thesis using r assms o by (auto simp: Let_def)
  qed
qed

theorem start_reports_witness:
  "\<exists>s'. start (sample_env ping) no_options (idle_server held_database) = (Ret True, s') \<and> \<not> running s' \<and> workers s' = []"
proof -
  obtain st d where o: "Database_open held_database = (Ret st, d)" "\<not> ok st" using held_open by blast
  have i: "\<not> running (idle_server held_database)" "mq_db (srv_mqtt (idle_server held_database)) = held_database"
    "workers (idle_server held_database) = []" by (simp_all add: idle_server_def)
  obtain s' where s': "start (sample_env ping) no_options (idle_server held_database) = (Ret True, s')"
    using start_opened [of "idle_server held_database" st d "sample_env ping" no_options] o i by (auto simp: Let_def)
  then show ?thesis using start_reports [OF i(1) s'] o i by auto
qed

text \<open>C35: start and stop. With a network and a disk that work, \<^verbatim>\<open>start\<close> opens the database, starts the connection and
  leaves 32 workers that each have asked for one message, in a state the step relation of the workers
  reaches. \<^verbatim>\<open>stop\<close> of a running server over a working database closes it and forgets every collection pointer and
  worker, if no certificate file was loaded: for each worker, in order, it calls \<^verbatim>\<open>nng_aio_stop\<close> once, and after all
  are stopped it frees its aio and closes its context, once each, and calls nothing else (the memory of the
  workers themselves is never freed). If a certificate file was loaded, it is undefined behaviour.\<close>

theorem start_stop:
  assumes "\<not> running s" "workers s = []" "answers (srv_mqtt s) = []" "Database_open (mq_db (srv_mqtt s)) = (Ret StatusOK, d)"
  shows "(\<exists>s' tr. start env opts s = (Ret True, s') \<and> running s' \<and> srv_mqtt s' = (srv_mqtt s)\<lparr>mq_db := d\<rparr> \<and> length (workers s') = 32 \<and>
      server_step\<^sup>*\<^sup>* (replicate 32 new_work, srv_mqtt s') (workers s', srv_mqtt s') \<and>
      trace s' = trace s @ tr @ [Dialer_start] @ map (\<lambda>i. Callback i Receive) [0..<32]) \<and>
    (\<forall>t. running t \<and> working (mq_db (srv_mqtt t)) \<longrightarrow>
      (if cacertp t = None \<and> certp t = None \<and> keyp t = None then
        \<exists>t'. stop t = (Ret (), t') \<and> \<not> running t' \<and> workers t' = [] \<and> collMap (srv_mqtt t') = [] \<and>
          isDbOpen (mq_db (srv_mqtt t')) = Ret False \<and>
          trace t' = trace t @ map Aio_stop [0..<length (workers t)] @ concat (map (\<lambda>i. [Aio_free i, Ctx_close i]) [0..<length (workers t)])
      else fst (stop t) = Undef))"
proof (intro conjI allI impI)
  let ?s = "s\<lparr>srv_mqtt := (srv_mqtt s)\<lparr>mq_db := d\<rparr>\<rparr>"
  obtain tr where "start env opts s = (Ret True, ?s\<lparr>running := True, workers := replicate 32 ready_work,
      trace := trace s @ tr @ [Dialer_start] @ map (\<lambda>i. Callback i Receive) [0..<32]\<rparr>)"
    using start_opened [OF assms(1,4), of env opts] start_network_serves [of ?s env opts] assms(2,3)
    by (auto simp: concurrent_threads_def simp del: upt.simps upt_Suc)
  then show "\<exists>s' tr. start env opts s = (Ret True, s') \<and> running s' \<and> srv_mqtt s' = (srv_mqtt s)\<lparr>mq_db := d\<rparr> \<and> length (workers s') = 32 \<and>
      server_step\<^sup>*\<^sup>* (replicate 32 new_work, srv_mqtt s') (workers s', srv_mqtt s') \<and>
      trace s' = trace s @ tr @ [Dialer_start] @ map (\<lambda>i. Callback i Receive) [0..<32]"
    using ready_steps [of 0 32 "(srv_mqtt s)\<lparr>mq_db := d\<rparr>"] by (intro exI conjI) (assumption, simp_all)
next
  fix t :: server assume "running t \<and> working (mq_db (srv_mqtt t))"
  then show "if cacertp t = None \<and> certp t = None \<and> keyp t = None then
        \<exists>t'. stop t = (Ret (), t') \<and> \<not> running t' \<and> workers t' = [] \<and> collMap (srv_mqtt t') = [] \<and>
          isDbOpen (mq_db (srv_mqtt t')) = Ret False \<and>
          trace t' = trace t @ map Aio_stop [0..<length (workers t)] @ concat (map (\<lambda>i. [Aio_free i, Ctx_close i]) [0..<length (workers t)])
      else fst (stop t) = Undef"
    using stop_working by blast
qed

text \<open>A server that has been started over the new database, with two workers and without certificates.\<close>

definition started_server :: server where
  "started_server = (idle_server ((Database_new opened_engine sample_files)\<lparr>isDbOpen_flag := Some True\<rparr>))
     \<lparr>running := True, workers := [ready_work, ready_work], cacertp := None\<rparr>"

theorem start_stop_witness:
  "(\<exists>s'. start (sample_env ping) no_options (idle_server (Database_new new_engine sample_files)) = (Ret True, s') \<and> running s' \<and>
     length (workers s') = 32) \<and>
   (\<exists>t'. stop started_server = (Ret (), t') \<and> workers t' = [] \<and>
     trace t' = [Aio_stop 0, Aio_stop 1, Aio_free 0, Ctx_close 0, Aio_free 1, Ctx_close 1])"
proof -
  have w: "working (mq_db (srv_mqtt started_server))"
    using opened_engine(2,3) by (simp add: working_def live_def started_server_def idle_server_def Database_new_def objects_ok_def)
  note st = start_stop [of "idle_server (Database_new new_engine sample_files)"
      "(Database_new opened_engine sample_files)\<lparr>isDbOpen_flag := Some True\<rparr>" "sample_env ping" no_options]
  have i: "\<not> running (idle_server (Database_new new_engine sample_files))" "workers (idle_server (Database_new new_engine sample_files)) = []"
    "answers (srv_mqtt (idle_server (Database_new new_engine sample_files))) = []"
    "Database_open (mq_db (srv_mqtt (idle_server (Database_new new_engine sample_files)))) =
       (Ret StatusOK, (Database_new opened_engine sample_files)\<lparr>isDbOpen_flag := Some True\<rparr>)"
    using new_open by (simp_all add: idle_server_def sample_mqtt_def)
  have "running started_server \<and> working (mq_db (srv_mqtt started_server))" using w by (simp add: started_server_def)
  from conjunct2 [OF st [OF i], rule_format, OF this]
  obtain t' where "stop started_server = (Ret (), t')" "workers t' = []"
    "trace t' = trace started_server @ map Aio_stop [0..<length (workers started_server)] @
       concat (map (\<lambda>i. [Aio_free i, Ctx_close i]) [0..<length (workers started_server)])"
    by (auto simp: started_server_def idle_server_def)
  moreover have "trace started_server = []" "length (workers started_server) = 2" by (simp_all add: started_server_def idle_server_def)
  ultimately show ?thesis using conjunct1 [OF st [OF i]] by (auto simp: upt_rec)
qed

text \<open>C38: TLS. \<^verbatim>\<open>init_dialer_tls\<close> always ends and frees the configuration it allocates exactly once, whichever call
  fails. When it reports success, the configuration given to the dialer carries the authority if and only if
  its file was loaded, and the own certificate, with its key and pass phrase, if and only if both files were
  loaded: a certificate that was loaded without a key (as in the TLS example of the README) is left out, and
  success is reported all the same.\<close>

theorem init_dialer_tls_configures:
  "\<exists>rv s'. init_dialer_tls cacert cert key pass s = (Ret rv, s') \<and> tls_configs s' = tls_configs s \<and>
    (rv = NNG_OK \<longrightarrow> (\<exists>tr. trace s' = trace s @ tr @ [Set_tls_config] \<and>
      (\<forall>c k p. Own_cert c k p \<in> set tr \<longleftrightarrow> (\<exists>c' k'. cert = Some c' \<and> key = Some k' \<and> c = c_string c' \<and> k = c_string k' \<and> p = c_string pass)) \<and>
      (\<forall>a. Ca_chain a \<in> set tr \<longleftrightarrow> (\<exists>a'. cacert = Some a' \<and> a = c_string a'))))"
proof -
  obtain rv s' where r: "init_dialer_tls cacert cert key pass s = (Ret rv, s')" "tls_configs s' = tls_configs s"
    using init_dialer_tls_sets_up [of cacert cert key pass s] by (auto simp: sets_up_def)
  have "\<exists>tr. trace s' = trace s @ tr @ [Set_tls_config] \<and>
      (\<forall>c k p. Own_cert c k p \<in> set tr \<longleftrightarrow> (\<exists>c' k'. cert = Some c' \<and> key = Some k' \<and> c = c_string c' \<and> k = c_string k' \<and> p = c_string pass)) \<and>
      (\<forall>a. Ca_chain a \<in> set tr \<longleftrightarrow> (\<exists>a'. cacert = Some a' \<and> a = c_string a'))" if ok: "rv = NNG_OK"
  proof -
    obtain tr where tr: "trace s' = trace s @ tr @ [Set_tls_config]"
      "{ev \<in> set tr. ev \<noteq> Auth_required \<and> ev \<noteq> Auth_optional} = credentials cacert cert key pass"
      using init_dialer_tls_trace [OF r(1) [unfolded ok]] by blast
    have "Own_cert c k p \<in> set tr \<longleftrightarrow> Own_cert c k p \<in> credentials cacert cert key pass" "Ca_chain a \<in> set tr \<longleftrightarrow> Ca_chain a \<in> credentials cacert cert key pass"
      for c k p a unfolding tr(2) [symmetric] by simp_all
    then show ?thesis using tr(1) by (intro exI [of _ tr]) (auto simp: credentials_def split: option.splits)
  qed
  then show ?thesis using r by blast
qed

theorem init_dialer_tls_configures_witness:
  "\<exists>s'. init_dialer_tls (Some ''ca'') (Some ''cert'') None [] (idle_server held_database) = (Ret NNG_OK, s') \<and>
     Ca_chain (c_string ''ca'') \<in> set (trace s') \<and> (\<forall>c k p. Own_cert c k p \<notin> set (trace s'))"
proof -
  have "answers (srv_mqtt (idle_server held_database)) = []" by (simp add: idle_server_def sample_mqtt_def)
  from calm_tls [OF this] obtain tr where
    r: "init_dialer_tls (Some ''ca'') (Some ''cert'') None [] (idle_server held_database) = (Ret NNG_OK, (idle_server held_database)\<lparr>trace := trace (idle_server held_database) @ tr\<rparr>)"
    by blast
  have "trace (idle_server held_database) = []" by (simp add: idle_server_def)
  then show ?thesis using init_dialer_tls_configures [of "Some ''ca''" "Some ''cert''" None "[]" "idle_server held_database"] by (auto simp: r)
qed

end
