(* ===== verification/Anu_Options.thy ===== *)
theory Anu_Options
  imports Anu_Prelude
begin

text \<open>
  The configuration of RocksDB: \<^verbatim>\<open>RocksDBOptimizer\<close> of \<^verbatim>\<open>storage_engine/StorageEngine.h\<close> and the options
  \<^verbatim>\<open>StorageEngine::open\<close> assembles from it, with \<^verbatim>\<open>OptimizeForSmallDb\<close> of \<^verbatim>\<open>rocksdb/options/options.cc\<close>, which it
  calls last. The options that are constructed by default are arguments, and so is whether the build has
  Zstandard (the macro \<^verbatim>\<open>ZSTD\<close>). A block cache is its capacity, a bloom filter its number of bits per key.
\<close>

datatype compression_type = NoCompression | ZSTD_compression

record embedded_config =
  write_buffer_size :: "64 word"
  block_cache_size :: "64 word"
  max_open_files :: "64 word"
  min_write_buffer_number :: "64 word"
  max_write_buffer_number :: "64 word"
  level0_file_num_compaction_trigger :: "64 word"
  block_size :: "64 word"
  bloom_filter_bits_per_key :: "32 word"
  cache_index_and_filter_blocks :: bool
  compression :: compression_type
  bottommost_compression :: compression_type
  max_background_jobs :: "32 word"
  max_background_compactions :: "32 word"
  enable_pipelined_write :: bool
  enable_direct_io :: bool
  prefix_length :: "32 word"

definition default_config :: "bool \<Rightarrow> embedded_config" where
  "default_config zstd = \<lparr>
     write_buffer_size = push_bit 20 4,
     block_cache_size = push_bit 20 8,
     max_open_files = 256,
     min_write_buffer_number = 2,
     max_write_buffer_number = 3,
     level0_file_num_compaction_trigger = 2,
     block_size = 16 * 1024,
     bloom_filter_bits_per_key = 8,
     cache_index_and_filter_blocks = True,
     compression = (if zstd then ZSTD_compression else NoCompression),
     bottommost_compression = (if zstd then ZSTD_compression else NoCompression),
     max_background_jobs = 2,
     max_background_compactions = 1,
     enable_pipelined_write = True,
     enable_direct_io = True,
     prefix_length = 8\<rparr>"

record table_options =
  to_block_cache :: "64 word option"
  to_block_size :: "64 word"
  to_filter_bits :: "32 word option"
  to_cache_index_and_filter_blocks :: bool
  to_pin_l0 :: bool
  to_pin_top_level :: bool
  to_format_version :: "32 word"
  to_partition_filters :: bool
  to_two_level_index :: bool
  to_whole_key_filtering :: bool

record db_options =
  create_if_missing :: bool
  paranoid_checks :: bool
  max_log_file_size :: "64 word"
  keep_log_file_num :: "64 word"
  o_write_buffer_size :: "64 word"
  min_write_buffer_number_to_merge :: "32 word"
  o_max_write_buffer_number :: "32 word"
  o_level0_file_num_compaction_trigger :: "32 word"
  hash_skip_list_memtable :: bool
  prefix_extractor :: "64 word option"
  table_factory :: table_options
  compression_level :: "32 word"
  o_compression :: compression_type
  o_bottommost_compression :: compression_type
  o_max_background_jobs :: "32 word"
  o_max_background_compactions :: "32 word"
  num_levels :: "32 word"
  target_file_size_base :: "64 word"
  target_file_size_multiplier :: "32 word"
  o_enable_pipelined_write :: bool
  use_direct_io_for_flush_and_compaction :: bool
  skip_stats_update_on_db_open :: bool
  skip_checking_sst_file_sizes_on_db_open :: bool
  optimize_filters_for_hits :: bool
  report_bg_io_stats :: bool
  allow_concurrent_memtable_write :: bool
  enable_write_thread_adaptive_yield :: bool
  avoid_flush_during_shutdown :: bool
  level_compaction_dynamic_level_bytes :: bool
  max_bytes_for_level_base :: "64 word"
  max_bytes_for_level_multiplier :: nat
  use_adaptive_mutex :: bool
  new_table_reader_for_compaction_inputs :: bool
  max_file_opening_threads :: "32 word"
  o_max_open_files :: "32 word"
  soft_pending_compaction_bytes_limit :: "64 word"
  hard_pending_compaction_bytes_limit :: "64 word"
  write_buffer_cache :: "64 word option"

definition getOptimizedOptions :: "db_options \<Rightarrow> table_options \<Rightarrow> embedded_config \<Rightarrow> db_options" where
  "getOptimizedOptions defaults table_defaults config = defaults\<lparr>
     create_if_missing := True,
     paranoid_checks := False,
     max_log_file_size := 10 * 1024 * 1024,
     keep_log_file_num := 1,
     o_write_buffer_size := write_buffer_size config,
     min_write_buffer_number_to_merge := ucast (min_write_buffer_number config),
     o_max_write_buffer_number := ucast (max_write_buffer_number config),
     o_level0_file_num_compaction_trigger := ucast (level0_file_num_compaction_trigger config),
     hash_skip_list_memtable := True,
     prefix_extractor := Some (scast (prefix_length config)),
     table_factory := table_defaults\<lparr>
       to_block_cache := Some (block_cache_size config),
       to_block_size := block_size config,
       to_filter_bits := Some (bloom_filter_bits_per_key config),
       to_cache_index_and_filter_blocks := cache_index_and_filter_blocks config,
       to_pin_l0 := True,
       to_pin_top_level := True,
       to_format_version := 5,
       to_partition_filters := True,
       to_two_level_index := True,
       to_whole_key_filtering := False\<rparr>,
     compression_level := 5,
     o_compression := compression config,
     o_bottommost_compression := bottommost_compression config,
     o_max_background_jobs := max_background_jobs config,
     o_max_background_compactions := max_background_compactions config,
     num_levels := 4,
     target_file_size_base := 16 * 1024 * 1024,
     target_file_size_multiplier := 2,
     o_enable_pipelined_write := enable_pipelined_write config,
     use_direct_io_for_flush_and_compaction := enable_direct_io config,
     skip_stats_update_on_db_open := True,
     skip_checking_sst_file_sizes_on_db_open := True,
     optimize_filters_for_hits := True,
     report_bg_io_stats := False\<rparr>"

definition estimateMemoryUsage :: "embedded_config \<Rightarrow> 64 word" where
  "estimateMemoryUsage config =
     write_buffer_size config * max_write_buffer_number config + block_cache_size config + push_bit 20 1"

text \<open>\<^verbatim>\<open>Options::OptimizeForSmallDb\<close>: the options of the table are built anew.\<close>

definition OptimizeForSmallDb :: "table_options \<Rightarrow> db_options \<Rightarrow> db_options" where
  "OptimizeForSmallDb table_defaults opts = opts\<lparr>
     o_write_buffer_size := push_bit 20 2,
     target_file_size_base := 2 * 1048576,
     max_bytes_for_level_base := 10 * 1048576,
     soft_pending_compaction_bytes_limit := 256 * 1048576,
     hard_pending_compaction_bytes_limit := 1073741824,
     table_factory := table_defaults\<lparr>
       to_block_cache := Some (push_bit 20 16),
       to_cache_index_and_filter_blocks := True,
       to_two_level_index := True\<rparr>,
     max_file_opening_threads := 1,
     o_max_open_files := 5000,
     write_buffer_cache := Some (push_bit 20 16)\<rparr>"

text \<open>The configuration of \<^verbatim>\<open>open\<close>, and the options it passes to RocksDB.\<close>

definition open_config :: "bool \<Rightarrow> embedded_config" where
  "open_config zstd = (default_config zstd)\<lparr>
     max_open_files := 64,
     max_write_buffer_number := 2,
     min_write_buffer_number := 1,
     level0_file_num_compaction_trigger := 2,
     block_size := 4 * 1024,
     bloom_filter_bits_per_key := 10,
     cache_index_and_filter_blocks := True,
     max_background_jobs := 2,
     max_background_compactions := 1,
     enable_pipelined_write := True,
     enable_direct_io := False,
     prefix_length := 8\<rparr>"

definition adjust_options :: "table_options \<Rightarrow> db_options \<Rightarrow> db_options" where
  "adjust_options table_defaults opts = OptimizeForSmallDb table_defaults (opts\<lparr>
     allow_concurrent_memtable_write := False,
     enable_write_thread_adaptive_yield := True,
     avoid_flush_during_shutdown := True,
     level_compaction_dynamic_level_bytes := False,
     max_bytes_for_level_base := 16 * 1024 * 1024,
     max_bytes_for_level_multiplier := 8,
     optimize_filters_for_hits := True,
     report_bg_io_stats := False,
     skip_stats_update_on_db_open := True,
     skip_checking_sst_file_sizes_on_db_open := True,
     use_adaptive_mutex := True,
     new_table_reader_for_compaction_inputs := False\<rparr>)"

definition open_options :: "db_options \<Rightarrow> table_options \<Rightarrow> bool \<Rightarrow> db_options" where
  "open_options defaults table_defaults zstd =
     adjust_options table_defaults (getOptimizedOptions defaults table_defaults (open_config zstd))"

section \<open>Properties of the configuration\<close>

lemma unat_numerals: "unat (push_bit 20 1 :: 64 word) = 1048576"
  by (simp add: push_bit_eq_mult)

text \<open>The configuration. \<^verbatim>\<open>estimateMemoryUsage\<close> is the sum of the write buffers, the block cache and one megabyte
  as long as that fits 64 bits, and 17 megabytes for the configuration of \<^verbatim>\<open>open\<close>. The last step of \<^verbatim>\<open>open\<close>
  replaces what the configuration says of tables and write buffers: whatever it is, there is no bloom
  filter, the block size is RocksDB's own, the cache has 16 megabytes, write buffers 2 megabytes, files
  2 megabytes, the base level 10 megabytes and up to 5000 files are open. (Of these, RocksDB uses only those
  of the whole database: \<^verbatim>\<open>open\<close> gives every column family the options RocksDB constructs by default.)\<close>

theorem open_configuration:
  assumes "to_filter_bits table_defaults = None"
  shows "estimateMemoryUsage (open_config zstd) = 17 * 1048576 \<and>
    (unat (write_buffer_size c) * unat (max_write_buffer_number c) + unat (block_cache_size c) + 1048576 < 2 ^ 64 \<longrightarrow>
      unat (estimateMemoryUsage c) =
        unat (write_buffer_size c) * unat (max_write_buffer_number c) + unat (block_cache_size c) + 1048576) \<and>
    (let opts = adjust_options table_defaults (getOptimizedOptions defaults table_defaults c) in
      to_filter_bits (table_factory opts) = None \<and> to_block_size (table_factory opts) = to_block_size table_defaults \<and>
      to_block_cache (table_factory opts) = Some (16 * 1048576) \<and> o_write_buffer_size opts = 2 * 1048576 \<and>
      target_file_size_base opts = 2 * 1048576 \<and> max_bytes_for_level_base opts = 10 * 1048576 \<and> o_max_open_files opts = 5000)"
proof (intro conjI impI)
  show "estimateMemoryUsage (open_config zstd) = 17 * 1048576"
    by (simp add: estimateMemoryUsage_def open_config_def default_config_def push_bit_eq_mult)
next
  assume b: "unat (write_buffer_size c) * unat (max_write_buffer_number c) + unat (block_cache_size c) + 1048576 < 2 ^ 64"
  then show "unat (estimateMemoryUsage c) =
      unat (write_buffer_size c) * unat (max_write_buffer_number c) + unat (block_cache_size c) + 1048576"
    by (simp add: estimateMemoryUsage_def unat_word_ariths unat_numerals)
next
  show "let opts = adjust_options table_defaults (getOptimizedOptions defaults table_defaults c) in
      to_filter_bits (table_factory opts) = None \<and> to_block_size (table_factory opts) = to_block_size table_defaults \<and>
      to_block_cache (table_factory opts) = Some (16 * 1048576) \<and> o_write_buffer_size opts = 2 * 1048576 \<and>
      target_file_size_base opts = 2 * 1048576 \<and> max_bytes_for_level_base opts = 10 * 1048576 \<and> o_max_open_files opts = 5000"
    using assms by (simp add: adjust_options_def OptimizeForSmallDb_def Let_def push_bit_eq_mult)
qed

text \<open>The default options of a table in RocksDB, as far as they are modelled.\<close>

definition rocksdb_table_defaults :: table_options where
  "rocksdb_table_defaults = \<lparr>to_block_cache = None, to_block_size = 4 * 1024, to_filter_bits = None,
     to_cache_index_and_filter_blocks = False, to_pin_l0 = False, to_pin_top_level = True, to_format_version = 5,
     to_partition_filters = False, to_two_level_index = False, to_whole_key_filtering = True\<rparr>"

theorem open_configuration_witness:
  "(\<forall>defaults :: db_options. to_filter_bits (table_factory (open_options defaults rocksdb_table_defaults True)) = None) \<and>
   unat (estimateMemoryUsage (open_config True)) = 17825792"
  using open_configuration [of rocksdb_table_defaults True "open_config True"]
  by (simp add: rocksdb_table_defaults_def open_options_def Let_def)

end
