(* ===== verification/Anu_Queries.thy ===== *)
theory Anu_Queries
  imports Anu_Index
begin

text \<open>
  The queries of \<^verbatim>\<open>findDocument\<close>. An index is read through a kind of values: the JSON values that stand
  for a number or a text, and the key \<^verbatim>\<open>parseValue\<close> makes of it. The locale \<open>index_keys\<close> is the contract
  a kind of values has to keep for \<^verbatim>\<open>$eq\<close>, \<open>ordered_keys\<close> the one for the comparisons and \<^verbatim>\<open>$orderBy\<close>;
  keys of one length (\<open>fixed_keys\<close>) and keys without \<^verbatim>\<open>#\<close> (\<open>text_keys\<close>) satisfy both. The integers that fit
  an \<^verbatim>\<open>int\<close>, the doubles, the strings and the Booleans are their interpretations.
\<close>

section \<open>Evaluating a single operator\<close>

lemma find_single:
  "findDocument name (JObject [(op, v)]) e =
     bindM (find_op name (getIndexNames e name) (op, v) []) (\<lambda>r. returnM (case r of None \<Rightarrow> [] | Some ids \<Rightarrow> ids)) e"
  by (simp add: findDocument_def bindM_def getM_def liftO_def returnM_def split: prod.splits outcome.splits option.splits)

lemma c_string_ops: "c_string ''$eq'' = ''$eq''" "c_string ''$gt'' = ''$gt''" "c_string ''$lt'' = ''$lt''"
  by code_simp+

text \<open>What the four operators with one operand return for a field.\<close>

definition answers :: "string \<Rightarrow> string \<Rightarrow> json \<Rightarrow> engine \<Rightarrow> string list \<Rightarrow> string list \<Rightarrow> string list \<Rightarrow> string list \<Rightarrow> bool" where
  "answers name ix q e eq gt lt ord =
    (findDocument name (JObject [(''$eq'', JObject [(ix, q)])]) e = (Ret eq, e) \<and>
     findDocument name (JObject [(''$gt'', JObject [(ix, q)])]) e = (Ret gt, e) \<and>
     findDocument name (JObject [(''$lt'', JObject [(ix, q)])]) e = (Ret lt, e) \<and>
     (\<forall>dir. findDocument name (JObject [(''$orderBy'', JObject [(ix, JString dir)])]) e =
       (Ret (if dir = ''asc'' then ord else rev ord), e)))"

text \<open>An operand of \<^verbatim>\<open>$and\<close> and \<^verbatim>\<open>$or\<close> that is a single comparison, with the identifiers it finds.\<close>

definition finds :: "engine \<Rightarrow> string \<Rightarrow> json \<Rightarrow> string list \<Rightarrow> bool" where
  "finds e name item ids = (\<exists>op v. item = JObject [(op, v)] \<and>
     find_element name (getIndexNames e name) (op, v) e = (Ret (StatusOK, ids), e))"

lemma append_le: "(xs :: string) \<le> xs @ ys"
  by (induction xs) simp_all

section \<open>Kinds of values\<close>

locale index_keys =
  fixes stands :: "json \<Rightarrow> 'b \<Rightarrow> bool" and code :: "'b \<Rightarrow> string"
  assumes stands_scalar: "stands v b \<Longrightarrow> scalar v"
    and stands_key: "stands v b \<Longrightarrow> key_of v = code b"
    and code_nonempty: "stands v b \<Longrightarrow> code b \<noteq> []"
    and code_prefix: "stands v a \<Longrightarrow> stands w b \<Longrightarrow> prefix (code a @ ''#'') (code b @ ''#'' @ i) \<longleftrightarrow> a = b"
begin

text \<open>The entry of a document with a value, and the tables that consist of such entries.\<close>

definition ent :: "string \<times> 'b \<Rightarrow> string \<times> string" where
  "ent p = (code (snd p) @ ''#'' @ fst p, fst p)"

definition lists :: "(string \<Rightarrow> 'b \<Rightarrow> bool) \<Rightarrow> kv \<Rightarrow> bool" where
  "lists R m = (om_ok m \<and> (\<forall>i b. R i b \<longrightarrow> (\<exists>v. stands v b)) \<and> set m = {ent (i, b) |i b. R i b})"

definition holds :: "engine \<Rightarrow> string \<Rightarrow> string \<Rightarrow> (string \<times> 'b) list \<Rightarrow> bool" where
  "holds e name ix ps = (live e \<and> plain_name name \<and> (\<forall>p \<in> set ps. \<exists>v. stands v (snd p)) \<and>
     tables e (index_family name ix) = Some (map ent ps))"

lemma stands_parse: "stands v b \<Longrightarrow> parseValue v = Ret (code b)"
  using parseValue_scalar stands_scalar stands_key by simp

lemma ent_inject:
  assumes "stands v (snd p)" "stands w (snd p')" "ent p = ent p'"
  shows "p = p'"
proof -
  have i: "fst p = fst p'" and k: "code (snd p) @ ''#'' @ fst p = code (snd p') @ ''#'' @ fst p"
    using assms(3) by (auto simp: ent_def)
  have "prefix (code (snd p) @ ''#'') (code (snd p') @ ''#'' @ fst p)"
    unfolding k [symmetric] by (simp add: prefix_def)
  with code_prefix [OF assms(1,2)] i show ?thesis by (simp add: prod_eq_iff)
qed

lemma lists_pairs:
  assumes "lists R m"
  shows "\<exists>ps. m = map ent ps \<and> set ps = {(i, b). R i b} \<and> distinct ps"
proof -
  have s: "set m = {ent (i, b) |i b. R i b}" and st: "\<And>i b. R i b \<Longrightarrow> \<exists>v. stands v b" and om: "om_ok m"
    using assms by (auto simp: lists_def)
  have "\<forall>p \<in> set m. \<exists>q. p = ent q \<and> R (fst q) (snd q)" unfolding s by fastforce
  from bchoice [OF this] obtain f where f: "\<forall>p \<in> set m. p = ent (f p) \<and> R (fst (f p)) (snd (f p))" by blast
  then have m: "map ent (map f m) = m" by (simp add: map_idI)
  have "f (ent (i, b)) = (i, b)" if rb: "R i b" for i b
  proof -
    have "ent (i, b) \<in> set m" using that s by blast
    then have f': "ent (i, b) = ent (f (ent (i, b)))" "R (fst (f (ent (i, b)))) (snd (f (ent (i, b))))" using f by blast+
    obtain v w where "stands v (snd (f (ent (i, b))))" "stands w (snd (i, b))" using st [OF f'(2)] st [OF rb] by auto
    then show ?thesis using ent_inject f'(1) by metis
  qed
  then have "(i, b) \<in> f ` set m" if "R i b" for i b using that s by (intro image_eqI [of _ _ "ent (i, b)"]) auto
  moreover have "R (fst q) (snd q)" if "q \<in> f ` set m" for q using that f by blast
  ultimately have "set (map f m) = {(i, b). R i b}" by (auto simp: split_beta)
  moreover have "distinct (map f m)" using om_ok_distinct [OF om] m by (metis distinct_map)
  ultimately show ?thesis using m by metis
qed

lemma holds_cases:
  assumes "holds e name ix ps"
  shows "live e" "engine_inv e" "visible e (map ent ps) = map ent ps" "tick e = e" "om_ok (map ent ps)"
    "tables e (index_family name ix) = Some (map ent ps)" "ix \<in> set (getIndexNames e name)"
    "p \<in> set ps \<Longrightarrow> \<exists>v. stands v (snd p)"
proof -
  show h: "live e" "tables e (index_family name ix) = Some (map ent ps)" using assms by (simp_all add: holds_def)
  show "engine_inv e" "visible e (map ent ps) = map ent ps" "tick e = e" using h liveD by (simp_all add: visible_healthy)
  then show "om_ok (map ent ps)" using tables_ok h(2) by blast
  show "ix \<in> set (getIndexNames e name)"
    using assms h getIndexNames_iff [OF liveD(1) [OF h(1)]] by (simp add: holds_def)
  show "p \<in> set ps \<Longrightarrow> \<exists>v. stands v (snd p)" using assms by (auto simp: holds_def)
qed

lemma map_ent: "map snd (map ent ps) = map fst ps" "map snd (filter P (map ent ps)) = map fst (filter (\<lambda>p. P (ent p)) ps)"
  by (simp_all add: ent_def filter_map comp_def)

lemma eq_ids:
  assumes "holds e name ix ps" "stands q n"
  shows "findDocumentsUsingEq name (JObject [(ix, q)]) (getIndexNames e name) ids e =
      (Ret (StatusOK, ids @ map fst (filter (\<lambda>p. snd p = n) ps)), e)"
proof -
  note h = holds_cases [OF assms(1)]
  have f: "filter (\<lambda>p. prefix (code n @ ''#'') (fst (ent p))) ps = filter (\<lambda>p. snd p = n) ps"
    by (rule filter_cong) (use code_prefix [OF assms(2)] h(8) in \<open>fastforce simp: ent_def\<close>)+
  show ?thesis
    using h(3,4,6,7) by (simp add: findDocumentsUsingEq_def bindM_def liftO_def getIndexCfName_family
        stands_parse [OF assms(2)] fetchDocIdsForEqual_run [OF h(2)] map_ent f del: map_map)
qed

lemma order_ids:
  assumes "holds e name ix ps"
  shows "fetchDocIdsByOrder (getIndexCfName name ix) dir ids e =
      (Ret (StatusOK, ids @ (if dir = ''asc'' then map fst ps else rev (map fst ps))), e)"
  using holds_cases(3,4,6) [OF assms]
  by (simp add: getIndexCfName_family fetchDocIdsByOrder_run [OF holds_cases(2) [OF assms]] map_ent(1) del: map_map)

lemma finds_eq:
  "holds e name ix ps \<Longrightarrow> stands q n \<Longrightarrow>
     finds e name (JObject [(''$eq'', JObject [(ix, q)])]) (map fst (filter (\<lambda>p. snd p = n) ps))"
  using eq_ids [of e name ix ps q n "[]"] by (simp add: finds_def find_element_def c_string_ops)

text \<open>The table of an exact index whose values are of this kind.\<close>

lemma exact_lists:
  assumes "index_inv name e" "plain_name name" "ix \<in> set (getIndexNames e name)"
    and "\<And>i v. has_value (tables e) name ix i v \<Longrightarrow> stands v (val i)"
  shows "\<exists>ps. holds e name ix ps \<and> set ps = {(i, val i) |i. i \<in> with_field (tables e) name ix} \<and> distinct ps"
proof -
  note v = index_invD [OF assms(1)]
  obtain m where m: "tables e (index_family name ix) = Some m"
    "\<And>k i. map_of m k = Some i \<longleftrightarrow> (\<exists>w. has_value (tables e) name ix i w \<and> k = key_of w @ ''#'' @ i)"
    using v(5) [OF assms(3)] by (auto simp: exact_def)
  have om: "om_ok m" by (rule tables_ok [OF v(2) m(1)])
  let ?R = "\<lambda>i b. i \<in> with_field (tables e) name ix \<and> b = val i"
  have "(k, i) \<in> set m \<longleftrightarrow> i \<in> with_field (tables e) name ix \<and> k = code (val i) @ ''#'' @ i" for k i
  proof -
    have key: "key_of w = code (val i)" if "has_value (tables e) name ix i w" for w using assms(4) [OF that] stands_key by blast
    have "(k, i) \<in> set m \<longleftrightarrow> (\<exists>w. has_value (tables e) name ix i w \<and> k = key_of w @ ''#'' @ i)"
      using m(2) [of k i] om_lookup_mem [OF om, of k i] by simp
    then show ?thesis using key by (auto simp: with_field_def)
  qed
  then have "set m = {ent (i, b) |i b. ?R i b}" by (auto simp: ent_def)
  moreover have st: "\<exists>w. stands w b" if "?R i b" for i b using that assms(4) unfolding with_field_def by blast
  ultimately have "lists ?R m" using om by (auto simp: lists_def)
  then obtain ps where ps: "m = map ent ps" "set ps = {(i, b). ?R i b}" "distinct ps" using lists_pairs by blast
  moreover have "set ps = {(i, val i) |i. i \<in> with_field (tables e) name ix}" using ps(2) by auto
  ultimately show ?thesis using v(1) assms(2) m(1) st by (auto simp: holds_def intro!: exI [of _ ps])
qed

end

locale ordered_keys = index_keys stands code
  for stands :: "json \<Rightarrow> 'b \<Rightarrow> bool" and code :: "'b \<Rightarrow> string" +
  fixes rank :: "'b \<Rightarrow> 'n::linorder"
  assumes code_less: "stands v a \<Longrightarrow> stands w b \<Longrightarrow> code b @ ''#'' @ i < code a @ ''#'' \<longleftrightarrow> rank b < rank a"
    and rank_inject: "stands v a \<Longrightarrow> stands w b \<Longrightarrow> rank a = rank b \<Longrightarrow> a = b"
begin

text \<open>The order of the entries: by value, then by identifier.\<close>

definition before :: "string \<times> 'b \<Rightarrow> string \<times> 'b \<Rightarrow> bool" where
  "before p p' = (rank (snd p) < rank (snd p') \<or> rank (snd p) = rank (snd p') \<and> fst p < fst p')"

lemma holds_sorted:
  assumes "holds e name ix ps"
  shows "sorted_wrt before ps"
proof -
  note h = holds_cases [OF assms]
  have le: "before p q" if pq: "p \<in> set ps" "q \<in> set ps" and l: "fst (ent p) < fst (ent q)" for p q
  proof -
    obtain v w where s: "stands v (snd p)" "stands w (snd q)" using h(8) pq by blast
    have "\<not> rank (snd q) < rank (snd p)"
    proof
      assume "rank (snd q) < rank (snd p)"
      then have "code (snd q) @ ''#'' @ fst q < code (snd p) @ ''#''" using code_less [OF s] by simp
      also have "\<dots> \<le> (code (snd p) @ ''#'') @ fst p" by (rule append_le)
      finally show False using l by (simp add: ent_def)
    qed
    moreover have "fst p < fst q" if r: "rank (snd p) = rank (snd q)"
    proof -
      have "snd p = snd q" using rank_inject [OF s r] .
      with l have "code (snd p) @ ''#'' @ fst p < code (snd p) @ ''#'' @ fst q" by (simp add: ent_def)
      then show ?thesis by (simp add: less_append_same_length)
    qed
    ultimately show ?thesis by (auto simp: before_def)
  qed
  have "sorted_wrt (\<lambda>p q. fst (ent p) < fst (ent q)) ps"
    using h(5) by (simp add: om_ok_def sorted_wrt_map comp_def)
  then show ?thesis by (rule sorted_wrt_mono_rel [rotated]) (rule le)
qed

lemma gt_ids:
  assumes "holds e name ix ps" "stands q n"
  shows "findDocumentsUsingGt name (JObject [(ix, q)]) (getIndexNames e name) ids e =
      (Ret (StatusOK, ids @ map fst (filter (\<lambda>p. rank n < rank (snd p)) ps)), e)"
proof -
  note h = holds_cases [OF assms(1)]
  have "(code n @ ''#'' \<le> fst (ent p) \<and> \<not> prefix (code n @ ''#'') (fst (ent p))) \<longleftrightarrow> rank n < rank (snd p)"
    if p: "p \<in> set ps" for p
  proof -
    obtain v where v: "stands v (snd p)" using h(8) [OF p] by blast
    have "prefix (code n @ ''#'') (fst (ent p)) \<longleftrightarrow> n = snd p" "fst (ent p) < code n @ ''#'' \<longleftrightarrow> rank (snd p) < rank n"
      using code_prefix [OF assms(2) v] code_less [OF assms(2) v] by (simp_all add: ent_def)
    then show ?thesis using rank_inject [OF assms(2) v] by (metis leD leI less_le)
  qed
  then have f: "filter (\<lambda>p. code n @ ''#'' \<le> fst (ent p) \<and> \<not> prefix (code n @ ''#'') (fst (ent p))) ps =
      filter (\<lambda>p. rank n < rank (snd p)) ps" by (blast intro!: filter_cong)
  show ?thesis
    using h(3,4,6) code_nonempty [OF assms(2)]
    by (simp add: findDocumentsUsingGt_def bindM_def liftO_def getIndexCfName_family
        stands_parse [OF assms(2)] fetchDocIdsForGreater_run [OF h(2)] map_ent f del: map_map)
qed

lemma lt_ids:
  assumes "holds e name ix ps" "stands q n"
  shows "findDocumentsUsingLt name (JObject [(ix, q)]) (getIndexNames e name) ids e =
      (Ret (StatusOK, ids @ rev (map fst (filter (\<lambda>p. rank (snd p) < rank n) ps))), e)"
proof -
  note h = holds_cases [OF assms(1)]
  have "fst (ent p) < code n @ ''#'' \<longleftrightarrow> rank (snd p) < rank n" if p: "p \<in> set ps" for p
  proof -
    obtain v where "stands v (snd p)" using h(8) [OF p] by blast
    then show ?thesis using code_less [OF assms(2)] by (simp add: ent_def)
  qed
  then have f: "filter (\<lambda>p. fst (ent p) < code n @ ''#'') ps = filter (\<lambda>p. rank (snd p) < rank n) ps"
    by (blast intro!: filter_cong)
  have "fetchDocIdsForLesser (index_family name ix) (code n @ ''#'') ids e =
      (Ret (StatusOK, ids @ rev (map snd (filter (\<lambda>p. fst p < code n @ ''#'') (map ent ps)))), e)"
    by (subst fetchDocIdsForLesser_run [OF h(2)]) (use h(3,4,6) in \<open>auto simp: ent_def list_all_iff\<close>)
  then show ?thesis
    using code_nonempty [OF assms(2)]
    by (simp add: findDocumentsUsingLt_def bindM_def liftO_def getIndexCfName_family
        stands_parse [OF assms(2)] map_ent f del: map_map)
qed

lemma finds_order:
  assumes "holds e name ix ps" "stands q n"
  shows "finds e name (JObject [(''$gt'', JObject [(ix, q)])]) (map fst (filter (\<lambda>p. rank n < rank (snd p)) ps))"
    "finds e name (JObject [(''$lt'', JObject [(ix, q)])]) (rev (map fst (filter (\<lambda>p. rank (snd p) < rank n) ps)))"
  using gt_ids [OF assms, of "[]"] lt_ids [OF assms, of "[]"] by (simp_all add: finds_def find_element_def c_string_ops)

lemma answers_run:
  assumes "holds e name ix ps" "stands q n"
  shows "answers name ix q e (map fst (filter (\<lambda>p. snd p = n) ps)) (map fst (filter (\<lambda>p. rank n < rank (snd p)) ps))
     (rev (map fst (filter (\<lambda>p. rank (snd p) < rank n) ps))) (map fst ps)"
  unfolding answers_def find_single find_op_def
  by (simp add: bindM_def liftO_def returnM_def eq_ids [OF assms] gt_ids [OF assms] lt_ids [OF assms] order_ids [OF assms(1)])

lemma queries_exact:
  assumes "index_inv name e" "plain_name name" "ix \<in> set (getIndexNames e name)"
    and "\<And>i v. has_value (tables e) name ix i v \<Longrightarrow> stands v (val i)" and "stands q n"
  shows "\<exists>eq gt lt ord. answers name ix q e eq gt lt ord \<and>
    set eq = {i \<in> with_field (tables e) name ix. val i = n} \<and> sorted_wrt (<) eq \<and>
    set gt = {i \<in> with_field (tables e) name ix. rank n < rank (val i)} \<and>
    sorted_wrt (\<lambda>i j. rank (val i) < rank (val j) \<or> rank (val i) = rank (val j) \<and> i < j) gt \<and>
    set lt = {i \<in> with_field (tables e) name ix. rank (val i) < rank n} \<and>
    sorted_wrt (\<lambda>i j. rank (val i) < rank (val j) \<or> rank (val i) = rank (val j) \<and> i < j) (rev lt) \<and>
    set ord = with_field (tables e) name ix \<and>
    sorted_wrt (\<lambda>i j. rank (val i) < rank (val j) \<or> rank (val i) = rank (val j) \<and> i < j) ord"
proof -
  let ?less = "\<lambda>i j. rank (val i) < rank (val j) \<or> rank (val i) = rank (val j) \<and> i < j"
  obtain ps where ps: "holds e name ix ps" "set ps = {(i, val i) |i. i \<in> with_field (tables e) name ix}" "distinct ps"
    using exact_lists [where val = val, OF assms(1-4)] by blast
  have val: "snd p = val (fst p)" if "p \<in> set ps" for p using that ps(2) by auto
  have sel: "set (map fst (filter P ps)) = {i \<in> with_field (tables e) name ix. P (i, val i)}" for P
    using ps(2) by (auto simp: image_iff)
  have "sorted_wrt (\<lambda>p q. ?less (fst p) (fst q)) ps"
    by (rule sorted_wrt_mono_rel [OF _ holds_sorted [OF ps(1)]]) (simp add: before_def val)
  then have s: "sorted_wrt ?less (map fst (filter P ps))" for P
    unfolding sorted_wrt_map by (rule sorted_wrt_filter)
  have "sorted_wrt (<) (map fst (filter (\<lambda>p. snd p = n) ps))"
    by (rule sorted_wrt_mono_rel [OF _ s]) (auto simp: ps(2))
  moreover have all: "filter (\<lambda>p. True) ps = ps" by simp
  ultimately show ?thesis
    using answers_run [OF ps(1) assms(5)] sel [of "\<lambda>p. snd p = n"] sel [of "\<lambda>p. rank n < rank (snd p)"]
      sel [of "\<lambda>p. rank (snd p) < rank n"] sel [of "\<lambda>p. True"] s [of "\<lambda>p. rank n < rank (snd p)"]
      s [of "\<lambda>p. rank (snd p) < rank n"] s [of "\<lambda>p. True"]
    unfolding all
    by (intro exI [of _ "map fst (filter (\<lambda>p. snd p = n) ps)"] exI [of _ "map fst (filter (\<lambda>p. rank n < rank (snd p)) ps)"]
        exI [of _ "rev (map fst (filter (\<lambda>p. rank (snd p) < rank n) ps))"] exI [of _ "map fst ps"]) simp
qed

end

text \<open>Keys of one length.\<close>

lemma entry_compare:
  assumes "length a = length b"
  shows "prefix (a @ ''#'') (b @ ''#'' @ i) \<longleftrightarrow> a = b" "(b @ ''#'' @ i < a @ ''#'') \<longleftrightarrow> b < a"
proof -
  show "prefix (a @ ''#'') (b @ ''#'' @ i) \<longleftrightarrow> a = b"
    using assms by (auto simp: prefix_def)
  have h: "\<not> ''#'' @ i < ''#''" by simp
  show "(b @ ''#'' @ i < a @ ''#'') \<longleftrightarrow> b < a"
    using less_append_same_length [of b a "''#'' @ i" "''#''"] assms h by simp
qed

locale fixed_keys =
  fixes stands :: "json \<Rightarrow> 'b \<Rightarrow> bool" and code :: "'b \<Rightarrow> string" and rank :: "'b \<Rightarrow> 'n::linorder"
  assumes fixed_scalar: "stands v b \<Longrightarrow> scalar v" and fixed_key: "stands v b \<Longrightarrow> key_of v = code b"
    and fixed_length: "length (code b) = 8"
    and fixed_less: "stands v a \<Longrightarrow> stands w b \<Longrightarrow> code b < code a \<longleftrightarrow> rank b < rank a"
    and fixed_rank: "stands v a \<Longrightarrow> stands w b \<Longrightarrow> rank a = rank b \<Longrightarrow> a = b"
begin

lemma fixed_code: "stands v a \<Longrightarrow> stands w b \<Longrightarrow> code a = code b \<longleftrightarrow> a = b"
  using fixed_less fixed_rank by (metis less_irrefl linorder_neqE)

end

sublocale fixed_keys \<subseteq> ordered_keys
proof unfold_locales
  fix v w a b i
  note len = fixed_length [of a, unfolded fixed_length [of b, symmetric]]
  show "stands v b \<Longrightarrow> scalar v" "stands v b \<Longrightarrow> key_of v = code b" by (rule fixed_scalar fixed_key, assumption)+
  show "code b \<noteq> []" using fixed_length [of b] by auto
  show "stands v a \<Longrightarrow> stands w b \<Longrightarrow> prefix (code a @ ''#'') (code b @ ''#'' @ i) \<longleftrightarrow> a = b"
    unfolding entry_compare(1) [OF len] by (rule fixed_code)
  show "stands v a \<Longrightarrow> stands w b \<Longrightarrow> code b @ ''#'' @ i < code a @ ''#'' \<longleftrightarrow> rank b < rank a"
    unfolding entry_compare(2) [OF len] by (rule fixed_less)
  show "stands v a \<Longrightarrow> stands w b \<Longrightarrow> rank a = rank b \<Longrightarrow> a = b" by (rule fixed_rank)
qed

text \<open>Keys without \<^verbatim>\<open>#\<close>: their order is the lexicographic order in which the end of a text counts as \<^verbatim>\<open>#\<close>.\<close>

lemma hash_split:
  assumes "hash_free a" "hash_free b"
  shows "prefix (a @ ''#'') (b @ ''#'' @ i) \<longleftrightarrow> a = b" "b @ ''#'' @ i < a @ ''#'' \<longleftrightarrow> b @ ''#'' < a @ ''#''"
  using assms by (induction a b rule: list_induct2') (auto simp: hash_free_def)

locale text_keys =
  fixes stands :: "json \<Rightarrow> 'b \<Rightarrow> bool" and code :: "'b \<Rightarrow> string"
  assumes text_scalar: "stands v b \<Longrightarrow> scalar v" and text_key: "stands v b \<Longrightarrow> key_of v = code b"
    and text_code: "stands v b \<Longrightarrow> hash_free (code b) \<and> code b \<noteq> []"
    and text_inject: "stands v a \<Longrightarrow> stands w b \<Longrightarrow> code a = code b \<Longrightarrow> a = b"

sublocale text_keys \<subseteq> ordered_keys stands code "\<lambda>b. code b @ ''#''"
proof unfold_locales
  fix v w a b i
  show "stands v b \<Longrightarrow> scalar v" "stands v b \<Longrightarrow> key_of v = code b" "stands v b \<Longrightarrow> code b \<noteq> []"
    using text_scalar text_key text_code by blast+
  show "stands v a \<Longrightarrow> stands w b \<Longrightarrow> prefix (code a @ ''#'') (code b @ ''#'' @ i) \<longleftrightarrow> a = b"
    using hash_split(1) [of "code a" "code b" i] text_code text_inject by blast
  show "stands v a \<Longrightarrow> stands w b \<Longrightarrow> code b @ ''#'' @ i < code a @ ''#'' \<longleftrightarrow> code b @ ''#'' < code a @ ''#''"
    using hash_split(2) [of "code a" "code b" i] text_code by blast
  show "stands v a \<Longrightarrow> stands w b \<Longrightarrow> code a @ ''#'' = code b @ ''#'' \<Longrightarrow> a = b" using text_inject by simp
qed

section \<open>Integers, doubles, strings and Booleans\<close>

text \<open>A JSON integer that fits an \<^verbatim>\<open>int\<close>, and the number it stands for.\<close>

definition int_value :: "json \<Rightarrow> int \<Rightarrow> bool" where
  "int_value v n = (- (2 ^ 31) \<le> n \<and> n < 2 ^ 31 \<and> (v = JInteger (word_of_int n) \<or> 0 \<le> n \<and> v = JUnsigned (word_of_int n)))"

definition num_key :: "int \<Rightarrow> string" where
  "num_key n = encodeIntKey (word_of_int n)"

text \<open>A double that is not a NaN and not the negative zero, a non-empty text without \<^verbatim>\<open>#\<close>, a Boolean.\<close>

definition double_value :: "json \<Rightarrow> double \<Rightarrow> bool" where
  "double_value v d = (v = JFloat d \<and> \<not> fp_nan d \<and> d \<noteq> 0x8000000000000000)"

definition text_value :: "json \<Rightarrow> string \<Rightarrow> bool" where
  "text_value v s = (v = JString s \<and> hash_free s \<and> s \<noteq> [])"

definition bool_value :: "json \<Rightarrow> bool \<Rightarrow> bool" where
  "bool_value v b = (v = JBoolean b)"

definition bool_key :: "bool \<Rightarrow> string" where
  "bool_key b = (if b then ''true'' else ''false'')"

lemma narrow_word: "(ucast (word_of_int n :: 64 word) :: 32 word) = word_of_int n"
  by transfer simp

lemma key_of_int: "int_value v n \<Longrightarrow> key_of v = num_key n"
  unfolding int_value_def num_key_def by (elim conjE disjE) (simp_all add: key_of_def narrow_word)

lemma sint_word_of_int32: "- (2 ^ 31) \<le> n \<Longrightarrow> n < 2 ^ 31 \<Longrightarrow> sint (word_of_int n :: 32 word) = n"
  by (transfer, simp add: signed_take_bit_int_eq_self)

lemma num_key_less: "int_value v n \<Longrightarrow> int_value w n' \<Longrightarrow> num_key n' < num_key n \<longleftrightarrow> n' < n"
  by (simp only: int_value_def num_key_def encodeIntKey_less sint_word_of_int32)

lemma length_num_key [simp]: "length (num_key n) = 8"
  by (simp add: num_key_def)

lemma double_value_units: "double_value v a \<Longrightarrow> double_value w b \<Longrightarrow> fp_units a = fp_units b \<Longrightarrow> a = b"
  using fp_signmag_inject [of a b] fp_mag_0 [of a] fp_mag_0 [of b] by (auto simp: double_value_def fp_units_eq_iff)

lemma double_key_less:
  assumes "double_value v a" "double_value w b"
  shows "encodeDoubleKey b < encodeDoubleKey a \<longleftrightarrow> fp_units b < fp_units a"
  using double_value_units [OF assms] by (auto simp: encodeDoubleKey_less)

interpretation ints: fixed_keys int_value num_key "\<lambda>n. n"
  by unfold_locales (simp_all add: num_key_less key_of_int, auto simp: int_value_def scalar_def)

interpretation doubles: fixed_keys double_value encodeDoubleKey fp_units
  by unfold_locales (simp_all add: double_key_less double_value_units, auto simp: double_value_def scalar_def key_of_def)

interpretation texts: text_keys text_value "\<lambda>s. s"
  by unfold_locales (auto simp: text_value_def scalar_def key_of_def)

interpretation bools: text_keys bool_value bool_key
  by unfold_locales (auto simp: bool_value_def scalar_def key_of_def bool_key_def hash_free_def split: if_splits)

section \<open>Lemmas: compound queries\<close>

lemma find_items_run:
  "list_all2 (finds e name) items idss \<Longrightarrow>
     find_items combine name (getIndexNames e name) items found e = (Ret (Some (foldl combine found idss)), e)"
proof (induction items idss arbitrary: found rule: list_all2_induct)
  case (Cons item items ids idss)
  then obtain op v where "item = JObject [(op, v)]"
    "find_element name (getIndexNames e name) (op, v) e = (Ret (StatusOK, ids), e)" by (auto simp: finds_def)
  with Cons show ?case by (simp add: bindM_def liftO_def returnM_def)
qed (simp add: returnM_def)

lemma or_combine_set: "set (or_combine found ids) = set found \<union> set ids"
proof -
  have "set (fold (\<lambda>d ids. if d \<in> set ids then ids else ids @ [d]) ids found) = set found \<union> set ids"
    by (induction ids arbitrary: found) auto
  then show ?thesis by (simp add: or_combine_def)
qed

lemma or_combine_distinct: "distinct found \<Longrightarrow> distinct (or_combine found ids)"
proof -
  have "distinct found \<Longrightarrow> distinct (fold (\<lambda>d ids. if d \<in> set ids then ids else ids @ [d]) ids found)"
    by (induction ids arbitrary: found) auto
  then show "distinct found \<Longrightarrow> ?thesis" by (simp add: or_combine_def)
qed

lemma foldl_or: "set (foldl or_combine found idss) = set found \<union> \<Union> (set ` set idss)" "distinct found \<Longrightarrow> distinct (foldl or_combine found idss)"
  by (induction idss arbitrary: found) (auto simp: or_combine_set or_combine_distinct)

lemma and_combine_set: "found \<noteq> [] \<Longrightarrow> set (and_combine found ids) = set found \<inter> set ids" "set (and_combine [] ids) = set ids"
  by (auto simp: and_combine_def)

lemma and_combine_distinct: "distinct found \<Longrightarrow> distinct (and_combine found ids)"
  by (simp add: and_combine_def)

lemma foldl_and:
  "d \<in> set found \<Longrightarrow> (\<And>ids. ids \<in> set idss \<Longrightarrow> d \<in> set ids) \<Longrightarrow> set (foldl and_combine found idss) = set found \<inter> (\<Inter>ids \<in> set idss. set ids)"
proof (induction idss arbitrary: found)
  case (Cons ids idss)
  have s: "set (and_combine found ids) = set found \<inter> set ids" using Cons.prems(1) by (intro and_combine_set) auto
  then have "d \<in> set (and_combine found ids)" using Cons.prems by simp
  from Cons.IH [OF this] Cons.prems(2) s show ?case by auto
qed simp

lemma foldl_and_distinct: "distinct found \<Longrightarrow> distinct (foldl and_combine found idss)"
  by (induction idss arbitrary: found) (simp_all add: and_combine_distinct)

lemma foldl_and_start:
  assumes "idss \<noteq> []" "\<And>ids. ids \<in> set idss \<Longrightarrow> d \<in> set ids"
  shows "set (foldl and_combine [] idss) = (\<Inter>ids \<in> set idss. set ids)"
proof -
  obtain ids rest where i: "idss = ids # rest" using assms(1) by (cases idss) auto
  then have "d \<in> set (and_combine [] ids)" using assms(2) and_combine_set(2) by simp
  from foldl_and [OF this, of rest] assms(2) i show ?thesis by (simp add: and_combine_set(2))
qed
section \<open>Properties of queries\<close>

text \<open>C3: queries over an index on integers (those that fit the 32 bits \<^verbatim>\<open>encodeIntKey\<close> takes). With exact
  indexes, \<^verbatim>\<open>$eq\<close>, \<^verbatim>\<open>$gt\<close> and \<^verbatim>\<open>$lt\<close> return each document whose value compares so, once, in the order of the
  values (\<^verbatim>\<open>$lt\<close> in descending order) and among equal values of the identifiers, and \<^verbatim>\<open>$orderBy\<close> returns all
  documents that have the field, in ascending order for \<^verbatim>\<open>asc\<close> and in descending order for every other
  direction.\<close>

theorem int_queries_exact:
  assumes "index_inv name e" "plain_name name" "ix \<in> set (getIndexNames e name)"
    and "\<forall>i v. has_value (tables e) name ix i v \<longrightarrow> int_value v (val i)" and "int_value q n"
  shows "\<exists>eq gt lt ord.
    findDocument name (JObject [(''$eq'', JObject [(ix, q)])]) e = (Ret eq, e) \<and>
    findDocument name (JObject [(''$gt'', JObject [(ix, q)])]) e = (Ret gt, e) \<and>
    findDocument name (JObject [(''$lt'', JObject [(ix, q)])]) e = (Ret lt, e) \<and>
    (\<forall>dir. findDocument name (JObject [(''$orderBy'', JObject [(ix, JString dir)])]) e =
      (Ret (if dir = ''asc'' then ord else rev ord), e)) \<and>
    set eq = {i \<in> with_field (tables e) name ix. val i = n} \<and> sorted_wrt (<) eq \<and>
    set gt = {i \<in> with_field (tables e) name ix. n < val i} \<and>
    sorted_wrt (\<lambda>i j. val i < val j \<or> val i = val j \<and> i < j) gt \<and>
    set lt = {i \<in> with_field (tables e) name ix. val i < n} \<and>
    sorted_wrt (\<lambda>i j. val i < val j \<or> val i = val j \<and> i < j) (rev lt) \<and>
    set ord = with_field (tables e) name ix \<and> sorted_wrt (\<lambda>i j. val i < val j \<or> val i = val j \<and> i < j) ord"
  using ints.queries_exact [of name e ix val q n, unfolded answers_def] assms by (simp only: conj_assoc)

lemma users_value: "\<forall>i v. has_value (tables indexed_db) ''users'' ''age'' i v \<longrightarrow> int_value v ((\<lambda>_. 5) i)"
  by (simp add: indexed_db_value int_value_def)

lemma sorted_singleton: "set ids = {i} \<Longrightarrow> sorted_wrt (<) ids \<Longrightarrow> ids = [i]" for i :: string
  by (cases ids; cases "tl ids") auto

theorem int_queries_exact_witness:
  "findDocument ''users'' (JObject [(''$eq'', JObject [(''age'', JInteger 5)])]) indexed_db = (Ret [''d1''], indexed_db)"
proof -
  have q: "int_value (JInteger 5) 5" by (simp add: int_value_def)
  obtain ids where r: "findDocument ''users'' (JObject [(''$eq'', JObject [(''age'', JInteger 5)])]) indexed_db = (Ret ids, indexed_db)"
    "set ids = {i \<in> with_field (tables indexed_db) ''users'' ''age''. (\<lambda>_. 5 :: int) i = 5}" "sorted_wrt (<) ids"
    using int_queries_exact [OF indexed_db(2) plain_users indexed_db(3) users_value q] by blast
  then have "set ids = {''d1''}" by (auto simp: with_field_def indexed_db_value)
  then have "ids = [''d1'']" using r(3) by (rule sorted_singleton)
  then show ?thesis using r(1) by simp
qed

text \<open>C10: queries over an index on doubles. With exact indexes and values that are no NaN and not the negative
  zero, \<^verbatim>\<open>$eq\<close>, \<^verbatim>\<open>$gt\<close> and \<^verbatim>\<open>$lt\<close> return each document whose value compares so as C++ compares doubles, once, in
  the order of the numbers (\<^verbatim>\<open>$lt\<close> in descending order); \<^verbatim>\<open>$orderBy\<close> returns all documents that have the
  field in that order.\<close>

theorem double_queries_exact:
  assumes "index_inv name e" "plain_name name" "ix \<in> set (getIndexNames e name)"
    and "\<forall>i v. has_value (tables e) name ix i v \<longrightarrow> v = JFloat (val i) \<and> \<not> fp_nan (val i) \<and> val i \<noteq> 0x8000000000000000"
    and "\<not> fp_nan q" "q \<noteq> 0x8000000000000000"
  shows "\<exists>eq gt lt ord. answers name ix (JFloat q) e eq gt lt ord \<and>
    set eq = {i \<in> with_field (tables e) name ix. fp_eq (val i) q} \<and> sorted_wrt (<) eq \<and>
    set gt = {i \<in> with_field (tables e) name ix. fp_lt q (val i)} \<and>
    sorted_wrt (\<lambda>i j. fp_lt (val i) (val j) \<or> fp_eq (val i) (val j) \<and> i < j) gt \<and>
    set lt = {i \<in> with_field (tables e) name ix. fp_lt (val i) q} \<and>
    sorted_wrt (\<lambda>i j. fp_lt (val i) (val j) \<or> fp_eq (val i) (val j) \<and> i < j) (rev lt) \<and>
    set ord = with_field (tables e) name ix \<and>
    sorted_wrt (\<lambda>i j. fp_lt (val i) (val j) \<or> fp_eq (val i) (val j) \<and> i < j) ord"
proof -
  let ?W = "with_field (tables e) name ix"
  have v: "double_value (JFloat (val i)) (val i)" if "i \<in> ?W" for i
    using that assms(4) by (auto simp: with_field_def double_value_def)
  have q: "double_value (JFloat q) q" using assms(5,6) by (simp add: double_value_def)
  have nan: "\<not> fp_nan (val i)" if "i \<in> ?W" for i using v [OF that] by (simp add: double_value_def)
  have eq: "{i \<in> ?W. val i = q} = {i \<in> ?W. fp_eq (val i) q}"
    using nan assms(5) double_value_units [OF v q] by (auto simp: fp_eq_def)
  have gt: "{i \<in> ?W. fp_units q < fp_units (val i)} = {i \<in> ?W. fp_lt q (val i)}"
    and lt: "{i \<in> ?W. fp_units (val i) < fp_units q} = {i \<in> ?W. fp_lt (val i) q}"
    using nan assms(5) by (auto simp: fp_lt_def)
  let ?less = "\<lambda>i j. fp_units (val i) < fp_units (val j) \<or> fp_units (val i) = fp_units (val j) \<and> i < j"
  let ?fless = "\<lambda>i j. fp_lt (val i) (val j) \<or> fp_eq (val i) (val j) \<and> i < j"
  have ord: "sorted_wrt ?fless xs" if "sorted_wrt ?less xs" "set xs \<subseteq> ?W" for xs
    by (rule sorted_wrt_mono_rel [OF _ that(1)]) (use that(2) nan in \<open>auto simp: fp_lt_def fp_eq_def\<close>)
  have st: "double_value v (val i)" if "has_value (tables e) name ix i v" for i v
    using that assms(4) by (auto simp: double_value_def)
  obtain eqs gts lts ords where r: "answers name ix (JFloat q) e eqs gts lts ords" "set eqs = {i \<in> ?W. val i = q}"
    "sorted_wrt (<) eqs" "set gts = {i \<in> ?W. fp_units q < fp_units (val i)}" "sorted_wrt ?less gts"
    "set lts = {i \<in> ?W. fp_units (val i) < fp_units q}" "sorted_wrt ?less (rev lts)" "set ords = ?W" "sorted_wrt ?less ords"
    using doubles.queries_exact [where val = val, OF assms(1-3) st q] by blast
  have "sorted_wrt ?fless gts" "sorted_wrt ?fless (rev lts)" "sorted_wrt ?fless ords" by (rule ord, use r in auto)+
  with r show ?thesis unfolding eq gt lt by blast
qed

text \<open>A document with one field in the indexed collection of the example.\<close>

definition one_doc :: "json \<Rightarrow> Document" where
  "one_doc v = \<lparr>doc_id = ''d1'', doc_data = JObject [(''age'', v)]\<rparr>"

definition one_db :: "json \<Rightarrow> engine" where
  "one_db v = snd (createDocument ''users'' 0 [] (one_doc v) users_index)"

lemma one_db:
  assumes "scalar v" "wf_json v" "mp_ok v"
  shows "index_inv ''users'' (one_db v)" "''age'' \<in> set (getIndexNames (one_db v) ''users'')"
    "has_value (tables (one_db v)) ''users'' ''age'' i w \<longleftrightarrow> i = ''d1'' \<and> w = norm v"
proof -
  have p: "prepared 0 [] (one_doc v) = \<lparr>doc_id = ''d1'', doc_data = JObject [(''_id'', JString ''d1''), (''age'', v)]\<rparr>"
    by (simp add: prepared_def prepare_def one_doc_def hasField_def setValue_def less_char_def)
  have st: "storable (prepared 0 [] (one_doc v))" using assms by (simp add: p storable_def om_ok_def less_char_def)
  have ib: "indexable (getIndexNames users_index ''users'') (doc_data (prepared 0 [] (one_doc v)))"
    and hf: "hash_free (doc_id (prepared 0 [] (one_doc v)))"
    using assms(1) by (auto simp: p indexable_def hash_free_def scalar_def split: if_splits)
  have ob: "is_object (doc_data (one_doc v))" by (simp add: one_doc_def)
  obtain m where m: "tables users_index ''users'' = Some m" using index_invD(3) [OF users_index(2)] by blast
  obtain e' where e': "createDocument ''users'' 0 [] (one_doc v) users_index = (Ret (StatusOK, prepared 0 [] (one_doc v)), e')"
    "columnFamilies e' = columnFamilies users_index"
    "tables e' = stored_tables ''users'' (getIndexNames users_index ''users'') (prepared 0 [] (one_doc v)) (tables users_index)"
    using createDocument_effects [OF index_invD(1) [OF users_index(2)] m ob ib] by blast
  then have d: "one_db v = e'" by (simp add: one_db_def)
  show "index_inv ''users'' (one_db v)"
    using index_inv_createDocument [OF users_index(2) ob st ib hf keeps_keys_new] users_index(4) e'(1) d by auto
  show "''age'' \<in> set (getIndexNames (one_db v) ''users'')" using users_index(3) getIndexNames_cong [OF e'(2)] d by simp
  show "has_value (tables (one_db v)) ''users'' ''age'' i w \<longleftrightarrow> i = ''d1'' \<and> w = norm v"
    using e'(3) d stored_stored [of "tables users_index" "''users''"] m storable_round [OF st] users_index(4)
    by (auto simp: has_value_def p normal_def)
qed

theorem double_queries_exact_witness:
  "\<exists>eq gt lt ord. answers ''users'' ''age'' (JFloat 0x3FF0000000000000) (one_db (JFloat 0x4000000000000000)) eq gt lt ord \<and>
    eq = [] \<and> gt = [''d1''] \<and> lt = []"
proof -
  let ?e = "one_db (JFloat 0x4000000000000000)" and ?val = "\<lambda>_. 0x4000000000000000 :: double"
  note d = one_db [of "JFloat 0x4000000000000000"]
  have j: "scalar (JFloat 0x4000000000000000)" "wf_json (JFloat 0x4000000000000000)" "mp_ok (JFloat 0x4000000000000000)"
    by (simp_all add: scalar_def)
  have n: "\<not> fp_nan 0x4000000000000000" "\<not> fp_nan 0x3FF0000000000000" by (simp_all add: fp_nan_def fp_mag_def)
  have lt: "fp_lt 0x3FF0000000000000 0x4000000000000000"
    unfolding fp_lt_def fp_units_less_iff using n by (simp add: fp_signmag_def fp_neg_def fp_mag_def)
  have v: "\<forall>i v. has_value (tables ?e) ''users'' ''age'' i v \<longrightarrow> v = JFloat (?val i) \<and> \<not> fp_nan (?val i) \<and> ?val i \<noteq> 0x8000000000000000"
    using d(3) [OF j] n by simp
  have w: "with_field (tables ?e) ''users'' ''age'' = {''d1''}" using d(3) [OF j] by (auto simp: with_field_def)
  obtain eq gt lt ord where r: "answers ''users'' ''age'' (JFloat 0x3FF0000000000000) ?e eq gt lt ord"
    "set eq = {i \<in> {''d1''}. fp_eq (?val i) 0x3FF0000000000000}" "set gt = {i \<in> {''d1''}. fp_lt 0x3FF0000000000000 (?val i)}"
    "set lt = {i \<in> {''d1''}. fp_lt (?val i) 0x3FF0000000000000}"
    "sorted_wrt (\<lambda>i j. fp_lt (?val i) (?val j) \<or> fp_eq (?val i) (?val j) \<and> i < j) gt"
    using double_queries_exact [OF d(1) [OF j] plain_users d(2) [OF j] v n(2)] unfolding w by auto
  have "eq = []" "lt = []" using r(2,4) lt by (auto simp: fp_eq_def fp_lt_def)
  moreover have "sorted_wrt (<) gt" by (rule sorted_wrt_mono_rel [OF _ r(5)]) (simp add: fp_lt_def)
  then have "gt = [''d1'']" using r(3) lt by (intro sorted_singleton) auto
  ultimately show ?thesis using r(1) by blast
qed

text \<open>The order of the entries of texts: the lexicographic one when all characters come after \<^verbatim>\<open>#\<close>.\<close>

lemma text_order: "list_all (\<lambda>c. CHR ''#'' < c) a \<Longrightarrow> list_all (\<lambda>c. CHR ''#'' < c) b \<Longrightarrow> a @ ''#'' < b @ ''#'' \<longleftrightarrow> a < b"
  by (induction a b rule: list_induct2') auto

text \<open>C11: queries over an index on non-empty strings without \<^verbatim>\<open>#\<close>. With exact indexes, \<^verbatim>\<open>$eq\<close> returns exactly
  the documents with that string, and \<^verbatim>\<open>$gt\<close>, \<^verbatim>\<open>$lt\<close> and \<^verbatim>\<open>$orderBy\<close> use the lexicographic order of the strings
  with a \<^verbatim>\<open>#\<close> at their end. That is the lexicographic order itself when all characters come after \<^verbatim>\<open>#\<close>;
  a string followed by a blank, however, comes before the string alone.\<close>

theorem text_queries_exact:
  assumes "index_inv name e" "plain_name name" "ix \<in> set (getIndexNames e name)"
    and "\<forall>i v. has_value (tables e) name ix i v \<longrightarrow> v = JString (val i) \<and> val i \<noteq> [] \<and> CHR ''#'' \<notin> set (val i)"
    and "q \<noteq> []" "CHR ''#'' \<notin> set q"
  shows "(\<exists>eq gt lt ord. answers name ix (JString q) e eq gt lt ord \<and>
    set eq = {i \<in> with_field (tables e) name ix. val i = q} \<and> sorted_wrt (<) eq \<and>
    set gt = {i \<in> with_field (tables e) name ix. q @ ''#'' < val i @ ''#''} \<and>
    sorted_wrt (\<lambda>i j. val i @ ''#'' < val j @ ''#'' \<or> val i = val j \<and> i < j) gt \<and>
    set lt = {i \<in> with_field (tables e) name ix. val i @ ''#'' < q @ ''#''} \<and>
    sorted_wrt (\<lambda>i j. val i @ ''#'' < val j @ ''#'' \<or> val i = val j \<and> i < j) (rev lt) \<and>
    set ord = with_field (tables e) name ix \<and>
    sorted_wrt (\<lambda>i j. val i @ ''#'' < val j @ ''#'' \<or> val i = val j \<and> i < j) ord) \<and>
    (list_all (\<lambda>c. CHR ''#'' < c) a \<and> list_all (\<lambda>c. CHR ''#'' < c) b \<longrightarrow> a @ ''#'' < b @ ''#'' \<longleftrightarrow> a < b) \<and>
    (a @ '' '' @ b) @ ''#'' < a @ ''#''"
proof -
  have st: "text_value v (val i)" if "has_value (tables e) name ix i v" for i v
    using that assms(4) by (auto simp: text_value_def hash_free_def)
  have q: "text_value (JString q) q" using assms(5,6) by (simp add: text_value_def hash_free_def)
  have "(a @ '' '' @ b) @ ''#'' < a @ ''#''" by (induction a) (simp_all add: less_char_def)
  then show ?thesis
    using texts.queries_exact [where val = val, OF assms(1-3) st q] text_order [of a b] by simp
qed

theorem text_queries_exact_witness:
  "\<exists>eq gt lt ord. answers ''users'' ''age'' (JString ''young'') (one_db (JString ''young'')) eq gt lt ord \<and> eq = [''d1''] \<and> gt = []"
proof -
  let ?e = "one_db (JString ''young'')" and ?val = "\<lambda>_. ''young''"
  note d = one_db [of "JString ''young''"]
  have j: "scalar (JString ''young'')" "wf_json (JString ''young'')" "mp_ok (JString ''young'')" by (simp_all add: scalar_def)
  have v: "\<forall>i v. has_value (tables ?e) ''users'' ''age'' i v \<longrightarrow> v = JString (?val i) \<and> ?val i \<noteq> [] \<and> CHR ''#'' \<notin> set (?val i)"
    using d(3) [OF j] by simp
  have w: "with_field (tables ?e) ''users'' ''age'' = {''d1''}" using d(3) [OF j] by (auto simp: with_field_def)
  obtain eq gt lt ord where r: "answers ''users'' ''age'' (JString ''young'') ?e eq gt lt ord" "set eq = {''d1''}" "sorted_wrt (<) eq" "set gt = {}"
    using text_queries_exact [OF d(1) [OF j] plain_users d(2) [OF j] v, of "''young''" "[]" "[]"] unfolding w by auto
  have "eq = [''d1'']" using r(2,3) by (rule sorted_singleton)
  with r show ?thesis by auto
qed

text \<open>C23: compound queries. When the operands are single comparisons that find \<open>idss\<close>, \<^verbatim>\<open>$or\<close> returns the
  documents found by at least one of them, each once. \<^verbatim>\<open>$and\<close> returns the documents found by all of
  them, each once, provided there is one.\<close>

theorem compound_queries:
  assumes "list_all2 (finds e name) items idss"
  shows "(\<exists>ids. findDocument name (JObject [(''$or'', JArray items)]) e = (Ret ids, e) \<and>
      distinct ids \<and> set ids = (\<Union>xs \<in> set idss. set xs)) \<and>
    (\<forall>i. items \<noteq> [] \<and> (\<forall>xs \<in> set idss. i \<in> set xs) \<longrightarrow>
      (\<exists>ids. findDocument name (JObject [(''$and'', JArray items)]) e = (Ret ids, e) \<and>
        distinct ids \<and> set ids = (\<Inter>xs \<in> set idss. set xs)))"
proof (intro conjI allI impI)
  have "findDocument name (JObject [(''$or'', JArray items)]) e = (Ret (foldl or_combine [] idss), e)"
    unfolding find_single find_op_def by (simp add: bindM_def find_items_run [OF assms] returnM_def)
  then show "\<exists>ids. findDocument name (JObject [(''$or'', JArray items)]) e = (Ret ids, e) \<and>
      distinct ids \<and> set ids = (\<Union>xs \<in> set idss. set xs)"
    using foldl_or [of "[]" idss] by auto
next
  fix i assume i: "items \<noteq> [] \<and> (\<forall>xs \<in> set idss. i \<in> set xs)"
  have "idss \<noteq> []" using i assms by auto
  then have s: "set (foldl and_combine [] idss) = (\<Inter>xs \<in> set idss. set xs)" using i by (intro foldl_and_start) auto
  have "findDocument name (JObject [(''$and'', JArray items)]) e = (Ret (foldl and_combine [] idss), e)"
    unfolding find_single find_op_def by (simp add: bindM_def find_items_run [OF assms] returnM_def)
  then show "\<exists>ids. findDocument name (JObject [(''$and'', JArray items)]) e = (Ret ids, e) \<and>
        distinct ids \<and> set ids = (\<Inter>xs \<in> set idss. set xs)"
    using s foldl_and_distinct [of "[]" idss] by auto
qed

lemma users_finds:
  assumes "int_value q n"
  shows "finds indexed_db ''users'' (JObject [(''$eq'', JObject [(''age'', q)])]) (if n = 5 then [''d1''] else [])"
proof -
  obtain ps where ps: "ints.holds indexed_db ''users'' ''age'' ps"
    "set ps = {(i, 5) |i. i \<in> with_field (tables indexed_db) ''users'' ''age''}" "distinct ps"
    using ints.exact_lists [where val = "\<lambda>_. 5", OF indexed_db(2) plain_users indexed_db(3)] users_value by blast
  then have "set ps = {(''d1'', 5)}" by (auto simp: with_field_def indexed_db_value)
  then have "ps = [(''d1'', 5)]" using ps(3) by (cases ps; cases "tl ps") auto
  then show ?thesis using ints.finds_eq [OF ps(1) assms] by (simp split: if_splits)
qed

theorem compound_queries_witness:
  "\<exists>ids. findDocument ''users'' (JObject [(''$or'', JArray [JObject [(''$eq'', JObject [(''age'', JInteger 7)])],
      JObject [(''$eq'', JObject [(''age'', JInteger 5)])]])]) indexed_db = (Ret ids, indexed_db) \<and> set ids = {''d1''}"
proof -
  have "int_value (JInteger 5) 5" "int_value (JInteger 7) 7" by (simp_all add: int_value_def)
  from users_finds [OF this(1)] users_finds [OF this(2)]
  have "list_all2 (finds indexed_db ''users'') [JObject [(''$eq'', JObject [(''age'', JInteger 7)])],
      JObject [(''$eq'', JObject [(''age'', JInteger 5)])]] [[], [''d1'']]" by simp
  from compound_queries [OF this] show ?thesis by auto
qed

text \<open>C39: an \<^verbatim>\<open>$and\<close> that has become empty starts again: when no document is found by the first and by the
  second operand, the result of three operands is what the third finds, not the empty set.\<close>

theorem and_starts_again:
  assumes "list_all2 (finds e name) [item1, item2, item3] [ids1, ids2, ids3]" and "set ids1 \<inter> set ids2 = {}" "ids1 \<noteq> []"
  shows "\<exists>ids. findDocument name (JObject [(''$and'', JArray [item1, item2, item3])]) e = (Ret ids, e) \<and> set ids = set ids3"
proof -
  have "findDocument name (JObject [(''$and'', JArray [item1, item2, item3])]) e =
      (Ret (foldl and_combine [] [ids1, ids2, ids3]), e)"
    unfolding find_single find_op_def by (simp add: bindM_def find_items_run [OF assms(1)] returnM_def del: find_items.simps)
  moreover have "and_combine (and_combine [] ids1) ids2 = []" using assms(2,3) by (auto simp: and_combine_def filter_empty_conv)
  ultimately show ?thesis using and_combine_set(2) [of ids3] by simp
qed

theorem and_starts_again_witness:
  "\<exists>ids. findDocument ''users'' (JObject [(''$and'', JArray [JObject [(''$eq'', JObject [(''age'', JInteger 5)])],
      JObject [(''$eq'', JObject [(''age'', JInteger 7)])], JObject [(''$eq'', JObject [(''age'', JInteger 5)])]])]) indexed_db =
    (Ret ids, indexed_db) \<and> set ids = {''d1''}"
proof -
  have "int_value (JInteger 5) 5" "int_value (JInteger 7) 7" by (simp_all add: int_value_def)
  from users_finds [OF this(1)] users_finds [OF this(2)]
  have "list_all2 (finds indexed_db ''users'') [JObject [(''$eq'', JObject [(''age'', JInteger 5)])],
      JObject [(''$eq'', JObject [(''age'', JInteger 7)])], JObject [(''$eq'', JObject [(''age'', JInteger 5)])]]
      [[''d1''], [], [''d1'']]" by simp
  from and_starts_again [OF this] show ?thesis by simp
qed

end
