(* ===== verification/Anu_Abstract.thy ===== *)
theory Anu_Abstract
  imports Anu_Queries
begin

text \<open>
  What a collection promises, without bytes, column families and handles: its documents by identifier and
  the entries of its indexes (\<open>acoll\<close>), with one function per operation and a query language of its own.
  \<open>implements\<close> relates an engine to such a collection; every operation of \<^verbatim>\<open>Collection\<close> on a working engine
  does to the tables what the function does to the abstract collection.
\<close>

section \<open>Abstract collections\<close>

record acoll =
  a_docs :: "(string, json) omap"
  a_index :: "(string, kv) omap"

definition a_empty :: acoll where
  "a_empty = \<lparr>a_docs = [], a_index = []\<rparr>"

definition a_doc :: "string \<Rightarrow> json \<Rightarrow> Document" where
  "a_doc i j = \<lparr>doc_id = i, doc_data = j\<rparr>"

definition a_store :: "Document \<Rightarrow> acoll \<Rightarrow> acoll" where
  "a_store d A = \<lparr>a_docs = om_update (doc_id d) (norm (doc_data d)) (a_docs A),
     a_index = map (\<lambda>(f, t). (f, with_entry d f t)) (a_index A)\<rparr>"

definition a_erase :: "string \<Rightarrow> acoll \<Rightarrow> acoll" where
  "a_erase i A = (case map_of (a_docs A) i of
       None \<Rightarrow> A
     | Some j \<Rightarrow> \<lparr>a_docs = om_delete i (a_docs A), a_index = map (\<lambda>(f, t). (f, without_entry (a_doc i j) f t)) (a_index A)\<rparr>)"

definition a_createIndex :: "string \<Rightarrow> acoll \<Rightarrow> acoll" where
  "a_createIndex f A = A\<lparr>a_index := om_update f
     (fold (\<lambda>(i, j). with_entry (a_doc i j) f) (a_docs A) (case map_of (a_index A) f of None \<Rightarrow> [] | Some t \<Rightarrow> t)) (a_index A)\<rparr>"

definition a_deleteIndex :: "string \<Rightarrow> acoll \<Rightarrow> acoll" where
  "a_deleteIndex f A = A\<lparr>a_index := om_delete f (a_index A)\<rparr>"

section \<open>Queries\<close>

datatype comparison = Equal | Greater | Less

datatype query =
    Compare comparison string json
  | OrderBy string string
  | AllOf "(comparison \<times> string \<times> json) list"
  | AnyOf "(comparison \<times> string \<times> json) list"

fun comparison_op :: "comparison \<Rightarrow> string" where
  "comparison_op Equal = ''$eq''"
| "comparison_op Greater = ''$gt''"
| "comparison_op Less = ''$lt''"

definition comparison_json :: "comparison \<times> string \<times> json \<Rightarrow> json" where
  "comparison_json = (\<lambda>(c, f, v). JObject [(comparison_op c, JObject [(f, v)])])"

fun query_json :: "query \<Rightarrow> json" where
  "query_json (Compare c f v) = comparison_json (c, f, v)"
| "query_json (OrderBy f dir) = JObject [(''$orderBy'', JObject [(f, JString dir)])]"
| "query_json (AllOf cs) = JObject [(''$and'', JArray (map comparison_json cs))]"
| "query_json (AnyOf cs) = JObject [(''$or'', JArray (map comparison_json cs))]"

text \<open>The identifiers in the entries of an index that compare so with a key.\<close>

fun a_select :: "comparison \<Rightarrow> string \<Rightarrow> kv \<Rightarrow> string list" where
  "a_select Equal k t = map snd (filter (\<lambda>p. prefix (k @ ''#'') (fst p)) t)"
| "a_select Greater k t = map snd (filter (\<lambda>p. k @ ''#'' \<le> fst p \<and> \<not> prefix (k @ ''#'') (fst p)) t)"
| "a_select Less k t = rev (map snd (filter (\<lambda>p. fst p < k @ ''#'') t))"

text \<open>\<open>None\<close> when the field has no index, or nothing can be compared with the value.\<close>

definition a_lookup :: "(string, kv) omap \<Rightarrow> comparison \<times> string \<times> json \<Rightarrow> string list option" where
  "a_lookup X = (\<lambda>(c, f, v). if c \<noteq> Equal \<and> key_of v = [] then None else map_option (a_select c (key_of v)) (map_of X f))"

fun a_lookups :: "(string list \<Rightarrow> string list \<Rightarrow> string list) \<Rightarrow> (string, kv) omap \<Rightarrow> (comparison \<times> string \<times> json) list
    \<Rightarrow> string list \<Rightarrow> string list option" where
  "a_lookups combine X [] found = Some found"
| "a_lookups combine X (c # cs) found = (case a_lookup X c of None \<Rightarrow> None | Some ids \<Rightarrow> a_lookups combine X cs (combine found ids))"

definition or_none :: "string list option \<Rightarrow> string list" where
  "or_none r = (case r of None \<Rightarrow> [] | Some ids \<Rightarrow> ids)"

fun a_find :: "(string, kv) omap \<Rightarrow> query \<Rightarrow> string list" where
  "a_find X (Compare c f v) = or_none (a_lookup X (c, f, v))"
| "a_find X (OrderBy f dir) = or_none (map_option (\<lambda>t. if dir = ''asc'' then map snd t else rev (map snd t)) (map_of X f))"
| "a_find X (AllOf cs) = or_none (a_lookups and_combine X cs [])"
| "a_find X (AnyOf cs) = or_none (a_lookups or_combine X cs [])"

fun query_ok :: "query \<Rightarrow> bool" where
  "query_ok (Compare c f v) = scalar v"
| "query_ok (OrderBy f dir) = True"
| "query_ok (AllOf cs) = list_all (\<lambda>(c, f, v). scalar v) cs"
| "query_ok (AnyOf cs) = list_all (\<lambda>(c, f, v). scalar v) cs"

section \<open>Implementation\<close>

definition decodes :: "string \<times> string \<Rightarrow> string \<times> json \<Rightarrow> bool" where
  "decodes p q = (fst p = fst q \<and> Document_from_msgpack (snd p) = Ret (a_doc (fst q) (snd q)))"

definition implements :: "engine \<Rightarrow> string \<Rightarrow> acoll \<Rightarrow> bool" where
  "implements e name A = (live e \<and> plain_name name \<and> om_ok (a_docs A) \<and> om_ok (a_index A) \<and>
     (\<exists>m. tables e name = Some m \<and> list_all2 decodes m (a_docs A)) \<and>
     (\<forall>f. tables e (index_family name f) = map_of (a_index A) f) \<and>
     (\<forall>(f, t) \<in> set (a_index A). list_all (\<lambda>p. CHR ''#'' \<in> set (fst p)) t))"

lemma implementsI:
  assumes "live e" "plain_name name" "om_ok (a_docs A)" "om_ok (a_index A)" "tables e name = Some m" "list_all2 decodes m (a_docs A)"
    and "\<And>f. tables e (index_family name f) = map_of (a_index A) f"
    and "\<And>f t. (f, t) \<in> set (a_index A) \<Longrightarrow> list_all (\<lambda>p. CHR ''#'' \<in> set (fst p)) t"
  shows "implements e name A"
  using assms by (auto simp: implements_def)

lemma implementsD:
  assumes "implements e name A"
  shows "live e" "engine_inv e" "plain_name name" "om_ok (a_docs A)" "om_ok (a_index A)"
    "\<exists>m. tables e name = Some m \<and> om_ok m \<and> list_all2 decodes m (a_docs A)"
    "tables e (index_family name f) = map_of (a_index A) f"
    "map_of (a_index A) f = Some t \<Longrightarrow> list_all (\<lambda>p. CHR ''#'' \<in> set (fst p)) t"
  using assms tables_ok [of e name] by (auto simp: implements_def live_def dest: map_of_SomeD)

lemma decodes_Pair [simp]: "decodes (i, bs) (i', j) \<longleftrightarrow> i = i' \<and> Document_from_msgpack bs = Ret (a_doc i j)"
  by (auto simp: decodes_def)

lemma list_all2_update: "list_all2 decodes m ds \<Longrightarrow> Document_from_msgpack bs = Ret (a_doc i j) \<Longrightarrow>
    list_all2 decodes (om_update i bs m) (om_update i j ds)"
  by (induction m ds rule: list_all2_induct) auto

lemma list_all2_delete: "list_all2 decodes m ds \<Longrightarrow> list_all2 decodes (om_delete i m) (om_delete i ds)"
  by (induction m ds rule: list_all2_induct) auto

lemma list_all2_lookup: "list_all2 decodes m ds \<Longrightarrow>
    map_option Document_from_msgpack (map_of m i) = map_option (\<lambda>j. Ret (a_doc i j)) (map_of ds i)"
  by (induction m ds rule: list_all2_induct) auto

lemma implements_empty:
  assumes "live e" "plain_name name" "tables e name = Some []" "getIndexNames e name = []"
  shows "implements e name a_empty"
proof (rule implementsI [where m = "[]"])
  have "tables e (index_family name f) = None" for f
    using getIndexNames_iff [OF liveD(1) [OF assms(1)] assms(2), of f] assms(4) by simp
  then show "tables e (index_family name f) = map_of (a_index a_empty) f" for f by (simp add: a_empty_def)
qed (use assms in \<open>simp_all add: a_empty_def\<close>)

lemma implements_stored:
  assumes "implements e name A"
  shows "stored (tables e) name i = map_option (\<lambda>j. Ret (a_doc i j)) (map_of (a_docs A) i)"
  using implementsD(6) [OF assms] list_all2_lookup by (auto simp: stored_def)

lemma implements_indexes:
  assumes "implements e name A"
  shows "getIndexNames e name = map fst (a_index A)"
proof (rule sorted_distinct_set_unique)
  note i = implementsD [OF assms]
  show "sorted (getIndexNames e name)" "distinct (getIndexNames e name)" by (rule getIndexNames_sorted)+
  show "sorted (map fst (a_index A))" "distinct (map fst (a_index A))" using i(5) by (simp_all add: om_ok_def strict_sorted_iff)
  have "ix \<in> set (getIndexNames e name) \<longleftrightarrow> ix \<in> fst ` set (a_index A)" for ix
    using getIndexNames_iff [OF i(2,3), of ix] map_of_eq_None_iff [of "a_index A" ix] i(7) by metis
  then show "set (getIndexNames e name) = set (map fst (a_index A))" by auto
qed

lemma implements_read:
  assumes "implements e name A"
  shows "readDocument name i x e =
    (Ret (case map_of (a_docs A) i of None \<Rightarrow> (NotFound (''Key not found: '' @ i), x) | Some j \<Rightarrow> (StatusOK, a_doc i j)), e)"
  using readDocument_run [OF implementsD(1) [OF assms]] implements_stored [OF assms, of i] implementsD(6) [OF assms]
  by (auto split: option.splits)

lemma map_of_map_index: "map_of (map (\<lambda>(f, t). (f, g f t)) X) f = map_option (g f) (map_of X f)"
  by (induction X) auto

lemma om_ok_map_index: "om_ok (map (\<lambda>(f, t). (f, g f t)) X) = om_ok X"
  by (simp add: om_ok_def comp_def split_def)

text \<open>The tables of the indexes after the entries of all of them were changed.\<close>

lemma implements_change:
  assumes "implements e name A"
  shows "change_all name g (getIndexNames e name) (tables e) (index_family name f) = map_option (g f) (map_of (a_index A) f)"
proof (cases "f \<in> set (getIndexNames e name)")
  case True
  then show ?thesis using change_all_index [OF getIndexNames_sorted(2)] implementsD(7) [OF assms] by simp
next
  case False
  then have "change_all name g (getIndexNames e name) (tables e) (index_family name f) = tables e (index_family name f)"
    by (intro change_all_other) auto
  moreover have "map_of (a_index A) f = None"
    using False implements_indexes [OF assms] map_of_eq_None_iff [of "a_index A" f] by simp
  ultimately show ?thesis using implementsD(7) [OF assms] by simp
qed

lemma with_entry_hash: "list_all (\<lambda>p. CHR ''#'' \<in> set (fst p)) t \<Longrightarrow> list_all (\<lambda>p. CHR ''#'' \<in> set (fst p)) (with_entry d f t)"
  by (auto simp: with_entry_def entry_of_def list_all_om_update split: option.splits)

lemma without_entry_hash: "list_all (\<lambda>p. CHR ''#'' \<in> set (fst p)) t \<Longrightarrow> list_all (\<lambda>p. CHR ''#'' \<in> set (fst p)) (without_entry d f t)"
  by (auto simp: without_entry_def list_all_om_delete split: option.splits)

text \<open>A call on a collection leaves the column families of others as they are.\<close>

definition elsewhere :: "string \<Rightarrow> engine \<Rightarrow> engine \<Rightarrow> bool" where
  "elsewhere name e e' = (\<forall>c. c \<noteq> name \<longrightarrow> (\<forall>f. c \<noteq> index_family name f) \<longrightarrow> tables e' c = tables e c)"

lemma elsewhere_stored: "tables e' = stored_tables name ixs d (tables e) \<Longrightarrow> elsewhere name e e'"
  by (simp add: elsewhere_def stored_tables_def change_all_other)

lemma elsewhere_erased: "tables e' = erased_tables name ixs d (tables e) \<Longrightarrow> elsewhere name e e'"
  by (simp add: elsewhere_def erased_tables_def change_all_other)

lemma elsewhere_refl [simp]: "elsewhere name e e"
  by (simp add: elsewhere_def)

section \<open>Documents\<close>

lemma implements_tables:
  assumes "implements e name A" "live e'" "tables e' = stored_tables name (getIndexNames e name) d (tables e)" "storable d"
  shows "implements e' name (a_store d A)"
proof -
  note i = implementsD [OF assms(1)]
  obtain m where m: "tables e name = Some m" "om_ok m" "list_all2 decodes m (a_docs A)" using i(6) by blast
  show ?thesis
  proof (rule implementsI)
    show "live e'" by (rule assms(2))
    show "plain_name name" by (rule i(3))
    show "om_ok (a_docs (a_store d A))" using i(4) by (simp add: a_store_def om_ok_update)
    show "om_ok (a_index (a_store d A))" using i(5) by (simp add: a_store_def om_ok_map_index)
    show "tables e' name = Some (om_update (doc_id d) (Document_to_msgpack d) m)" using m by (simp add: assms(3) stored_tables_def)
    show "list_all2 decodes (om_update (doc_id d) (Document_to_msgpack d) m) (a_docs (a_store d A))"
      using list_all2_update [OF m(3)] storable_round [OF assms(4)] by (simp add: a_store_def a_doc_def normal_def)
    show "tables e' (index_family name f) = map_of (a_index (a_store d A)) f" for f
      using implements_change [OF assms(1)] by (simp add: assms(3) stored_tables_def a_store_def map_of_map_index)
    show "list_all (\<lambda>p. CHR ''#'' \<in> set (fst p)) t" if ft: "(f, t) \<in> set (a_index (a_store d A))" for f t
      using ft i(8) i(5) with_entry_hash by (fastforce simp: a_store_def om_lookup_mem)
  qed
qed

definition can_index :: "acoll \<Rightarrow> json \<Rightarrow> bool" where
  "can_index A j = indexable (map fst (a_index A)) j"

lemma implements_create_prepared:
  assumes "implements e name A" "fst (prepare time rands d) = Ret ()" "storable (prepared time rands d)" "can_index A (doc_data (prepared time rands d))"
  shows "\<exists>e'. createDocument name time rands d e = (Ret (StatusOK, prepared time rands d), e') \<and>
    implements e' name (a_store (prepared time rands d) A) \<and> elsewhere name e e'"
proof -
  note i = implementsD [OF assms(1)]
  obtain m where m: "tables e name = Some m" using i(6) by blast
  show ?thesis
    using createDocument_prepared [OF i(1) m assms(2)] implements_tables [OF assms(1) _ _ assms(3)] assms(4) elsewhere_stored
    by (fastforce simp: can_index_def implements_indexes [OF assms(1)])
qed

lemma implements_create:
  assumes "implements e name A" "is_object (doc_data d)" "storable (prepared time rands d)" "can_index A (doc_data (prepared time rands d))"
  shows "\<exists>e'. createDocument name time rands d e = (Ret (StatusOK, prepared time rands d), e') \<and>
    implements e' name (a_store (prepared time rands d) A) \<and> elsewhere name e e'"
  by (rule implements_create_prepared [OF assms(1) _ assms(3,4)]) (use prepared_facts(1) [OF assms(2), of time rands] in simp)

lemma implements_update:
  assumes "implements e name A" "map_of (a_docs A) i = Some j0" "applyUpdate u j0 = (Ret (), j)" "is_object j"
    and "storable (prepared time rands (a_doc i j))" "can_index A (doc_data (prepared time rands (a_doc i j)))"
  shows "\<exists>e'. updateDocument name time rands i u upsert e = (Ret StatusOK, e') \<and> implements e' name (a_store (prepared time rands (a_doc i j)) A) \<and>
    elsewhere name e e'"
proof -
  note i = implementsD [OF assms(1)]
  have s: "stored (tables e) name i = Some (Ret (a_doc i j0))" using implements_stored [OF assms(1)] assms(2) by simp
  have d: "(a_doc i j0)\<lparr>doc_data := j\<rparr> = a_doc i j" "doc_id (a_doc i j0) = i" "doc_data (a_doc i j0) = j0" by (simp_all add: a_doc_def)
  show ?thesis
    using updateDocument_stored [OF i(1) s, of u j time rands upsert] implements_tables [OF assms(1) _ _ assms(5)] assms(3,4,6) elsewhere_stored
    by (fastforce simp: can_index_def implements_indexes [OF assms(1)] d)
qed

lemma implements_update_throws:
  assumes "implements e name A" "map_of (a_docs A) i = Some j0" "applyUpdate u j0 = (Throw ex, j)"
  shows "updateDocument name time rands i u upsert e = (Throw ex, e)"
  using implements_read [OF assms(1)] assms(2,3) by (simp add: updateDocument_def update_and_store_def bindM_def liftO_def a_doc_def)

lemma implements_delete:
  assumes "implements e name A" "map_of (a_docs A) i = Some j" "can_index A j"
  shows "\<exists>e'. deleteDocument name i e = (Ret StatusOK, e') \<and> implements e' name (a_erase i A) \<and> elsewhere name e e'"
proof -
  note i = implementsD [OF assms(1)]
  obtain m where m: "tables e name = Some m" "om_ok m" "list_all2 decodes m (a_docs A)" using i(6) by blast
  have s: "stored (tables e) name i = Some (Ret (a_doc i j))" using implements_stored [OF assms(1)] assms(2) by simp
  obtain e' where e': "deleteDocument name i e = (Ret StatusOK, e')" "live e'"
    "tables e' = erased_tables name (getIndexNames e name) (a_doc i j) (tables e)"
    using deleteDocument_effects [OF i(1) s] assms(3) by (auto simp: can_index_def implements_indexes [OF assms(1)] a_doc_def)
  have a: "a_erase i A = \<lparr>a_docs = om_delete i (a_docs A), a_index = map (\<lambda>(f, t). (f, without_entry (a_doc i j) f t)) (a_index A)\<rparr>"
    using assms(2) by (simp add: a_erase_def)
  have "implements e' name (a_erase i A)"
  proof (rule implementsI)
    show "live e'" by (rule e'(2))
    show "plain_name name" by (rule i(3))
    show "om_ok (a_docs (a_erase i A))" using i(4) by (simp add: a om_ok_delete)
    show "om_ok (a_index (a_erase i A))" using i(5) by (simp add: a om_ok_map_index)
    show "tables e' name = Some (om_delete i m)" using m by (simp add: e'(3) erased_tables_def a_doc_def)
    show "list_all2 decodes (om_delete i m) (a_docs (a_erase i A))" using list_all2_delete [OF m(3)] by (simp add: a)
    show "tables e' (index_family name f) = map_of (a_index (a_erase i A)) f" for f
      using implements_change [OF assms(1)] by (simp add: e'(3) erased_tables_def a map_of_map_index)
    show "list_all (\<lambda>p. CHR ''#'' \<in> set (fst p)) t" if ft: "(f, t) \<in> set (a_index (a_erase i A))" for f t
      using ft i(8) i(5) without_entry_hash by (fastforce simp: a om_lookup_mem)
  qed
  then show ?thesis using e'(1) elsewhere_erased [OF e'(3)] by blast
qed

section \<open>Indexes\<close>

lemma decodes_decoded: "decodes p (i, j) \<Longrightarrow> fst p = i \<and> Document_from_msgpack (snd p) = Ret (decoded (snd p)) \<and> decoded (snd p) = a_doc i j"
  by (auto simp: decodes_def decoded_def)

lemma decodes_member: "list_all2 decodes m ds \<Longrightarrow> p \<in> set m \<Longrightarrow> \<exists>i j. (i, j) \<in> set ds \<and> decodes p (i, j)"
  by (induction m ds rule: list_all2_induct) auto

lemma decoded_docs: "list_all2 decodes m ds \<Longrightarrow> map (\<lambda>p. decoded (snd p)) m = map (\<lambda>(i, j). a_doc i j) ds"
  by (induction m ds rule: list_all2_induct) (auto simp: decoded_def)

lemma fold_decoded: "list_all2 decodes m ds \<Longrightarrow> fold (add_doc f) m t = fold (\<lambda>(i, j). with_entry (a_doc i j) f) ds t"
proof (induction m ds arbitrary: t rule: list_all2_induct)
  case (Cons p m q ds)
  obtain i j where "q = (i, j)" by force
  with Cons decodes_decoded [of p i j] show ?case by (simp add: add_doc_def)
qed simp

lemma fold_hash: "list_all (\<lambda>p. CHR ''#'' \<in> set (fst p)) t \<Longrightarrow>
    list_all (\<lambda>p. CHR ''#'' \<in> set (fst p)) (fold (\<lambda>(i, j). with_entry (a_doc i j) f) ds t)"
  by (induction ds arbitrary: t) (auto simp: with_entry_hash)

lemma implements_createIndex:
  assumes "implements e name A" "\<And>i j. (i, j) \<in> set (a_docs A) \<Longrightarrow> indexable [f] j"
  shows "\<exists>e'. createIndex name f e = (Ret StatusOK, e') \<and> implements e' name (a_createIndex f A) \<and> elsewhere name e e'"
proof -
  note i = implementsD [OF assms(1)]
  let ?f = "index_family name f" and ?t = "case map_of (a_index A) f of None \<Rightarrow> [] | Some t \<Rightarrow> t"
  obtain m where m: "tables e name = Some m" "om_ok m" "list_all2 decodes m (a_docs A)" using i(6) by blast
  have "\<exists>s e1. engine_createCollection ?f e = (Ret s, e1) \<and> live e1 \<and> tables e1 = (tables e)(?f \<mapsto> ?t)"
  proof (cases "map_of (a_index A) f")
    case None
    then have "engine_createCollection ?f e = (Ret StatusOK, add_table ?f e)"
      using engine_createCollection_run [OF i(2)] i(7) liveD(2) [OF i(1)] by simp
    then show ?thesis
      using None i(1,2,7) index_family_not_default by (auto simp: live_def engine_inv_add_table tables_add_table)
  next
    case (Some t)
    then have "tables e ?f = Some t" using i(7) by simp
    then have "(tables e)(?f \<mapsto> t) = tables e" by auto
    moreover have "\<exists>s. engine_createCollection ?f e = (Ret s, e)" using engine_createCollection_run [OF i(2)] \<open>tables e ?f = Some t\<close> by simp
    ultimately show ?thesis using Some i(1) by auto
  qed
  then obtain s e1 where e1: "engine_createCollection ?f e = (Ret s, e1)" "live e1" "tables e1 = (tables e)(?f \<mapsto> ?t)" by blast
  obtain cur where cur: "Cursor_new name e1 = (Ret cur, e1)" "cur_ok cur" "cur_ahead cur = m"
    using Cursor_new_run [OF liveD(1) [OF e1(2)], of name] liveD(2) [OF e1(2)] e1(3) m(1) by (auto simp: visible_healthy)
  have dec: "Document_from_msgpack (snd p) = Ret (decoded (snd p)) \<and> indexable [f] (doc_data (decoded (snd p)))"
    if p: "p \<in> set (cur_ahead cur)" for p
  proof -
    obtain i j where "(i, j) \<in> set (a_docs A)" "decodes p (i, j)"
      using decodes_member [OF m(3)] p cur(3) by blast
    then show ?thesis using decodes_decoded [of p i j] assms(2) by (simp add: a_doc_def)
  qed
  have tf: "tables e1 ?f = Some ?t" using e1(3) by simp
  obtain e' where e': "index_documents name f cur e1 = (Ret None, e')" "live e'"
    "tables e' = (tables e1)(?f \<mapsto> fold (add_doc f) m ?t)"
    using index_documents_effects [OF e1(2) tf cur(2)] cur(3) dec by auto
  have c: "createIndex name f e = (Ret StatusOK, e')"
    using e1(1) cur(1) e'(1) by (simp add: createIndex_def getIndexCfName_family bindM_def catchM_def returnM_def)
  have ht: "list_all (\<lambda>p. CHR ''#'' \<in> set (fst p)) ?t" using i(8) [of f] by (cases "map_of (a_index A) f") simp_all
  have "implements e' name (a_createIndex f A)"
  proof (rule implementsI)
    show "live e'" "plain_name name" by (rule e'(2), rule i(3))
    show "om_ok (a_docs (a_createIndex f A))" "om_ok (a_index (a_createIndex f A))"
      using i(4,5) by (simp_all add: a_createIndex_def om_ok_update)
    show "tables e' name = Some m" using m(1) by (simp add: e'(3) e1(3))
    show "list_all2 decodes m (a_docs (a_createIndex f A))" using m(3) by (simp add: a_createIndex_def)
    show "tables e' (index_family name g) = map_of (a_index (a_createIndex f A)) g" for g
      using i(7) by (simp add: e'(3) e1(3) a_createIndex_def om_lookup_update fold_decoded [OF m(3)])
    show "list_all (\<lambda>p. CHR ''#'' \<in> set (fst p)) t" if "(g, t) \<in> set (a_index (a_createIndex f A))" for g t
    proof -
      have "map_of (a_index (a_createIndex f A)) g = Some t"
        using that i(5) by (simp add: om_lookup_mem a_createIndex_def om_ok_update)
      then show ?thesis using i(8) [of g t] fold_hash [OF ht] by (auto simp: a_createIndex_def om_lookup_update split: if_splits)
    qed
  qed
  moreover have "elsewhere name e e'" by (simp add: elsewhere_def e'(3) e1(3))
  ultimately show ?thesis using c by blast
qed

lemma implements_deleteIndex:
  assumes "implements e name A"
  shows "\<exists>s e'. deleteIndex name f e = (Ret s, e') \<and> implements e' name (a_deleteIndex f A) \<and> elsewhere name e e' \<and>
    (map_of (a_index A) f \<noteq> None \<longrightarrow> s = StatusOK)"
proof -
  note i = implementsD [OF assms]
  obtain m where m: "tables e name = Some m" "om_ok m" "list_all2 decodes m (a_docs A)" using i(6) by blast
  let ?f = "index_family name f"
  have "\<exists>s e'. deleteIndex name f e = (Ret s, e') \<and> live e' \<and> tables e' = (tables e)(?f := None) \<and> (tables e ?f \<noteq> None \<longrightarrow> s = StatusOK)"
  proof (cases "tables e ?f")
    case None
    then show ?thesis
      using engine_dropCollection_run [OF i(2) index_family_not_default, of name f] i(1)
      by (auto simp: deleteIndex_def getIndexCfName_family)
  next
    case (Some t)
    have "deleteIndex name f e = (Ret StatusOK, drop_table ?f e)"
      using engine_dropCollection_run [OF i(2) index_family_not_default, of name f] Some liveD(2) [OF i(1)]
      by (simp add: deleteIndex_def getIndexCfName_family)
    then show ?thesis using i(1,2) tables_drop_table by (simp add: live_def engine_inv_drop_table index_family_not_default)
  qed
  then obtain s e' where e': "deleteIndex name f e = (Ret s, e')" "live e'" "tables e' = (tables e)(?f := None)"
    "tables e ?f \<noteq> None \<longrightarrow> s = StatusOK" by blast
  have "implements e' name (a_deleteIndex f A)"
  proof (rule implementsI)
    show "live e'" "plain_name name" by (rule e'(2), rule i(3))
    show "om_ok (a_docs (a_deleteIndex f A))" "om_ok (a_index (a_deleteIndex f A))"
      using i(4,5) by (simp_all add: a_deleteIndex_def om_ok_delete)
    show "tables e' name = Some m" using m(1) by (simp add: e'(3))
    show "list_all2 decodes m (a_docs (a_deleteIndex f A))" using m(3) by (simp add: a_deleteIndex_def)
    show "tables e' (index_family name g) = map_of (a_index (a_deleteIndex f A)) g" for g
      using i(5,7) by (simp add: e'(3) a_deleteIndex_def om_lookup_delete)
    show "list_all (\<lambda>p. CHR ''#'' \<in> set (fst p)) t" if "(g, t) \<in> set (a_index (a_deleteIndex f A))" for g t
    proof -
      have "map_of (a_index (a_deleteIndex f A)) g = Some t"
        using that i(5) by (simp add: om_lookup_mem a_deleteIndex_def om_ok_delete)
      then show ?thesis using i(5) i(8) [of g t] by (simp add: a_deleteIndex_def om_lookup_delete split: if_splits)
    qed
  qed
  moreover have "elsewhere name e e'" by (simp add: elsewhere_def e'(3))
  ultimately show ?thesis using e' i(7) [of f] by auto
qed

section \<open>Queries over an implemented collection\<close>

definition reports :: "string list option \<Rightarrow> status \<Rightarrow> bool" where
  "reports r s = (ok s = (r \<noteq> None))"

lemma implements_visible:
  assumes "implements e name A"
  shows "visible e m = m" "tick e = e"
  using liveD(2) [OF implementsD(1) [OF assms]] by (simp_all add: visible_healthy)

lemma implements_compare:
  assumes "implements e name A" "scalar v"
  shows "\<exists>s. find_element name (getIndexNames e name) (comparison_op c, JObject [(f, v)]) e =
      (Ret (s, or_none (a_lookup (a_index A) (c, f, v))), e) \<and> reports (a_lookup (a_index A) (c, f, v)) s"
    and "\<exists>s. find_op name (getIndexNames e name) (comparison_op c, JObject [(f, v)]) [] e =
      (Ret (Some (or_none (a_lookup (a_index A) (c, f, v)))), e)"
proof -
  note i = implementsD [OF assms(1)] and p = parseValue_scalar [OF assms(2)]
  note d = findDocumentsUsingEq_def findDocumentsUsingGt_def findDocumentsUsingLt_def bindM_def liftO_def returnM_def getIndexCfName_family
    a_lookup_def or_none_def reports_def
  have mem: "f \<in> set (getIndexNames e name) \<longleftrightarrow> map_of (a_index A) f \<noteq> None"
    unfolding implements_indexes [OF assms(1)] using map_of_eq_None_iff [of "a_index A" f] by simp
  have h: "tables e (index_family name f) = Some m \<Longrightarrow> list_all (\<lambda>p. CHR ''#'' \<in> set (fst p)) m" for m using i(7,8) by simp
  have eq: "\<exists>s. findDocumentsUsingEq name (JObject [(f, v)]) (getIndexNames e name) [] e =
      (Ret (s, or_none (a_lookup (a_index A) (Equal, f, v))), e) \<and> reports (a_lookup (a_index A) (Equal, f, v)) s"
    using mem i(7) [of f] implements_visible [OF assms(1)]
    by (cases "map_of (a_index A) f") (simp_all add: d p fetchDocIdsForEqual_run [OF i(2)])
  have gt: "\<exists>s. findDocumentsUsingGt name (JObject [(f, v)]) (getIndexNames e name) [] e =
      (Ret (s, or_none (a_lookup (a_index A) (Greater, f, v))), e) \<and> reports (a_lookup (a_index A) (Greater, f, v)) s"
    using i(7) [of f] implements_visible [OF assms(1)]
    by (cases "map_of (a_index A) f") (simp_all add: d p fetchDocIdsForGreater_run [OF i(2)])
  have less: "fetchDocIdsForLesser (index_family name f) pre [] e = (case map_of (a_index A) f of
      None \<Rightarrow> (Ret (collection_not_found (index_family name f), []), e)
    | Some t \<Rightarrow> (Ret (StatusOK, rev (map snd (filter (\<lambda>p. fst p < pre) t))), e))" for pre
    using fetchDocIdsForLesser_run [OF i(2) h, where ids = "[]" and pre = pre and c = "index_family name f"] i(7) [of f] implements_visible [OF assms(1)]
    by (simp split: option.splits)
  have lt: "\<exists>s. findDocumentsUsingLt name (JObject [(f, v)]) (getIndexNames e name) [] e =
      (Ret (s, or_none (a_lookup (a_index A) (Less, f, v))), e) \<and> reports (a_lookup (a_index A) (Less, f, v)) s"
    by (cases "map_of (a_index A) f") (simp_all add: d p less collection_not_found_def)
  show "\<exists>s. find_element name (getIndexNames e name) (comparison_op c, JObject [(f, v)]) e =
      (Ret (s, or_none (a_lookup (a_index A) (c, f, v))), e) \<and> reports (a_lookup (a_index A) (c, f, v)) s"
    using eq gt lt by (cases c) (simp_all add: find_element_def c_string_ops)
  show "\<exists>s. find_op name (getIndexNames e name) (comparison_op c, JObject [(f, v)]) [] e =
      (Ret (Some (or_none (a_lookup (a_index A) (c, f, v)))), e)"
    using eq gt lt by (cases c) (auto simp: find_op_def bindM_def returnM_def)
qed

lemma implements_lookups:
  "implements e name A \<Longrightarrow> list_all (\<lambda>(c, f, v). scalar v) cs \<Longrightarrow>
     find_items combine name (getIndexNames e name) (map comparison_json cs) found e = (Ret (a_lookups combine (a_index A) cs found), e)"
proof (induction cs arbitrary: found)
  case (Cons q cs)
  obtain c f v where q: "q = (c, f, v)" by (metis prod_cases3)
  with Cons.prems have v: "scalar v" by simp
  obtain s where s: "find_element name (getIndexNames e name) (comparison_op c, JObject [(f, v)]) e =
      (Ret (s, or_none (a_lookup (a_index A) (c, f, v))), e)" "reports (a_lookup (a_index A) (c, f, v)) s"
    using implements_compare(1) [OF Cons.prems(1) v] by blast
  show ?case
  proof (cases "a_lookup (a_index A) q")
    case None
    then show ?thesis
      using s q by (simp add: comparison_json_def bindM_def liftO_def returnM_def reports_def)
  next
    case (Some ids)
    then show ?thesis
      using s q Cons.IH [OF Cons.prems(1), of "combine found ids"] Cons.prems(2)
      by (simp add: comparison_json_def bindM_def liftO_def returnM_def reports_def or_none_def)
  qed
qed (simp add: returnM_def)

lemma implements_find:
  assumes "implements e name A" "query_ok q"
  shows "findDocument name (query_json q) e = (Ret (a_find (a_index A) q), e)"
proof (cases q)
  case (Compare c f v)
  then show ?thesis
    using implements_compare(2) [OF assms(1), of v c f] assms(2)
    by (auto simp: comparison_json_def find_single bindM_def returnM_def)
next
  case (OrderBy f dir)
  note i = implementsD [OF assms(1)]
  show ?thesis
    unfolding OrderBy query_json.simps find_single find_op_def
    using i(7) [of f] implements_visible [OF assms(1)]
    by (cases "map_of (a_index A) f")
      (simp_all add: bindM_def liftO_def returnM_def getIndexCfName_family fetchDocIdsByOrder_run [OF i(2)] or_none_def)
next
  case (AllOf cs)
  then show ?thesis
    using implements_lookups [OF assms(1), of cs and_combine "[]"] assms(2)
    by (simp add: find_single find_op_def bindM_def returnM_def or_none_def split: option.splits)
next
  case (AnyOf cs)
  then show ?thesis
    using implements_lookups [OF assms(1), of cs or_combine "[]"] assms(2)
    by (simp add: find_single find_op_def bindM_def returnM_def or_none_def split: option.splits)
qed

lemma implements_readAll:
  assumes "implements e name A"
  shows "readAllDocuments name limit ds e =
    (Ret (StatusOK, ds @ map (\<lambda>(i, j). a_doc i j) (take (unat limit) (a_docs A))), e)"
proof -
  note i = implementsD [OF assms]
  obtain m where m: "tables e name = Some m" "om_ok m" "list_all2 decodes m (a_docs A)" using i(6) by blast
  obtain cur where cur: "Cursor_new name e = (Ret cur, e)" "cur_ok cur" "cur_ahead cur = m"
    using Cursor_new_run [OF i(2), of name] liveD(2) [OF i(1)] m(1) by (auto simp: visible_healthy)
  have d: "map (\<lambda>p. decoded (snd p)) m = map (\<lambda>(i, j). a_doc i j) (a_docs A)" by (rule decoded_docs [OF m(3)])
  have dec: "Document_from_msgpack (snd p) = Ret (decoded (snd p))" if p: "p \<in> set (cur_ahead cur)" for p
    using decodes_member [OF m(3)] p cur(3) decodes_decoded by blast
  show ?thesis
    using read_documents_run [OF cur(2) dec, of limit 0 ds] cur(1,3) d
    by (simp add: readAllDocuments_def bindM_def returnM_def take_map [symmetric])
qed

end
