(* ===== verification/Anu_Refine.thy ===== *)
theory Anu_Refine
  imports Anu_Abstract
begin

text \<open>
  Sequences of calls of \<^verbatim>\<open>Collection\<close> as a data type: what the engine answers to them (\<open>perform\<close>) and what the
  abstract collection of \<open>Anu_Abstract\<close> answers (\<open>a_perform\<close>), with the condition under which a call is in the
  range the abstraction describes (\<open>allowed\<close>), and the refinement: the answers are the same, call by call. From it
  follow properties of the store that are shown as invariants of the abstract collection: every document has its
  entries in the indexes (\<open>covered\<close>), and every document is a well-formed object with an identifier (\<open>typed\<close>).
\<close>

section \<open>Calls and answers\<close>

datatype call =
    CreateCall "32 word" "nat list" Document
  | UpdateCall "32 word" "nat list" string json bool
  | DeleteCall string
  | ReadCall string
  | ReadAllCall "64 word"
  | FindCall query
  | IndexCall string
  | UnindexCall string

datatype answer =
    Done status
  | Stored status Document
  | Documents "Document list"
  | Identifiers "string list"

fun perform :: "string \<Rightarrow> call \<Rightarrow> (engine, answer) comp" where
  "perform name (CreateCall time rands d) = bindM (createDocument name time rands d) (\<lambda>(s, d). returnM (Stored s d))"
| "perform name (UpdateCall time rands i u upsert) = bindM (updateDocument name time rands i u upsert) (\<lambda>s. returnM (Done s))"
| "perform name (DeleteCall i) = bindM (deleteDocument name i) (\<lambda>s. returnM (Done s))"
| "perform name (ReadCall i) = bindM (readDocument name i empty_document) (\<lambda>(s, d). returnM (Stored s d))"
| "perform name (ReadAllCall limit) = bindM (readAllDocuments name limit []) (\<lambda>(s, ds). returnM (Documents ds))"
| "perform name (FindCall q) = bindM (findDocument name (query_json q)) (\<lambda>ids. returnM (Identifiers ids))"
| "perform name (IndexCall f) = bindM (createIndex name f) (\<lambda>s. returnM (Done s))"
| "perform name (UnindexCall f) = bindM (deleteIndex name f) (\<lambda>s. returnM (Done s))"

definition missing :: "string \<Rightarrow> status" where
  "missing i = NotFound (''Key not found: '' @ i)"

text \<open>The abstract \<^verbatim>\<open>createDocument\<close>: data that are neither an object nor \<^verbatim>\<open>null\<close> are refused with an exception.\<close>

definition a_create :: "32 word \<Rightarrow> nat list \<Rightarrow> Document \<Rightarrow> (acoll, answer) comp" where
  "a_create time rands d A = (case prepare time rands d of
       (Ret _, d') \<Rightarrow> (Ret (Stored StatusOK d'), a_store d' A)
     | (Throw ex, _) \<Rightarrow> (Throw ex, A)
     | (Undef, _) \<Rightarrow> (Undef, A))"

text \<open>The abstract update: an exception of \<open>applyUpdate\<close> reaches the caller and nothing is stored.\<close>

definition a_replace :: "32 word \<Rightarrow> nat list \<Rightarrow> json \<Rightarrow> string \<Rightarrow> json \<Rightarrow> (acoll, answer) comp" where
  "a_replace time rands u i j A = (case applyUpdate u j of
       (Ret _, j') \<Rightarrow> bindM (a_create time rands (a_doc i j')) (\<lambda>_. returnM (Done StatusOK)) A
     | (Throw ex, _) \<Rightarrow> (Throw ex, A)
     | (Undef, _) \<Rightarrow> (Undef, A))"

fun a_perform :: "call \<Rightarrow> (acoll, answer) comp" where
  "a_perform (CreateCall time rands d) A = a_create time rands d A"
| "a_perform (UpdateCall time rands i u upsert) A = (case map_of (a_docs A) i of
       Some j \<Rightarrow> a_replace time rands u i j A
     | None \<Rightarrow> if upsert then a_replace time rands u i (JObject [(''_id'', JString i)]) A else (Ret (Done (missing i)), A))"
| "a_perform (DeleteCall i) A = (Ret (Done (if map_of (a_docs A) i = None then missing i else StatusOK)), a_erase i A)"
| "a_perform (ReadCall i) A = (Ret (case map_of (a_docs A) i of
       None \<Rightarrow> Stored (missing i) empty_document
     | Some j \<Rightarrow> Stored StatusOK (a_doc i j)), A)"
| "a_perform (ReadAllCall limit) A = (Ret (Documents (map (\<lambda>(i, j). a_doc i j) (take (unat limit) (a_docs A)))), A)"
| "a_perform (FindCall q) A = (Ret (Identifiers (a_find (a_index A) q)), A)"
| "a_perform (IndexCall f) A = (Ret (Done StatusOK), a_createIndex f A)"
| "a_perform (UnindexCall f) A = (Ret (Done StatusOK), a_deleteIndex f A)"

text \<open>What is stored has to be a value whose serialization can be read back, with values in its indexed
  fields that an index can hold.\<close>

definition fits :: "acoll \<Rightarrow> 32 word \<Rightarrow> nat list \<Rightarrow> Document \<Rightarrow> bool" where
  "fits A time rands d = (fst (prepare time rands d) = Ret () \<longrightarrow>
     storable (prepared time rands d) \<and> can_index A (doc_data (prepared time rands d)))"

definition update_fits :: "acoll \<Rightarrow> 32 word \<Rightarrow> nat list \<Rightarrow> json \<Rightarrow> string \<Rightarrow> json \<Rightarrow> bool" where
  "update_fits A time rands u i j = (case applyUpdate u j of (Ret _, j') \<Rightarrow> fits A time rands (a_doc i j') | _ \<Rightarrow> True)"

fun allowed :: "acoll \<Rightarrow> call \<Rightarrow> bool" where
  "allowed A (CreateCall time rands d) = fits A time rands d"
| "allowed A (UpdateCall time rands i u upsert) = (case map_of (a_docs A) i of
       Some j \<Rightarrow> update_fits A time rands u i j
     | None \<Rightarrow> upsert \<longrightarrow> update_fits A time rands u i (JObject [(''_id'', JString i)]))"
| "allowed A (DeleteCall i) = (case map_of (a_docs A) i of None \<Rightarrow> True | Some j \<Rightarrow> can_index A j)"
| "allowed A (ReadCall i) = True"
| "allowed A (ReadAllCall limit) = True"
| "allowed A (FindCall q) = query_ok q"
| "allowed A (IndexCall f) = list_all (\<lambda>(i, j). indexable [f] j) (a_docs A)"
| "allowed A (UnindexCall f) = (map_of (a_index A) f \<noteq> None)"

section \<open>Sequences of calls\<close>

text \<open>Calls one after the other, as long as none throws.\<close>

fun calls :: "('c \<Rightarrow> ('s, 'a) comp) \<Rightarrow> 'c list \<Rightarrow> ('s, 'a list) comp" where
  "calls f [] = returnM []"
| "calls f (c # cs) = bindM (f c) (\<lambda>a. bindM (calls f cs) (\<lambda>as. returnM (a # as)))"

text \<open>Every call is allowed in the abstract state the calls before it lead to.\<close>

fun all_allowed :: "('s \<Rightarrow> 'c \<Rightarrow> bool) \<Rightarrow> ('c \<Rightarrow> ('s, 'a) comp) \<Rightarrow> 's \<Rightarrow> 'c list \<Rightarrow> bool" where
  "all_allowed may f s [] = True"
| "all_allowed may f s (c # cs) = (may s c \<and> all_allowed may f (snd (f c s)) cs)"

abbreviation allowed_all :: "acoll \<Rightarrow> call list \<Rightarrow> bool" where
  "allowed_all \<equiv> all_allowed allowed a_perform"

lemma snd_calls: "snd (calls f (c # cs) s) = (case fst (f c s) of Ret a \<Rightarrow> snd (calls f cs (snd (f c s))) | _ \<Rightarrow> snd (f c s))"
  by (simp add: bindM_def returnM_def split: prod.split outcome.split)

lemma snd_bind_answer: "snd (bindM m (\<lambda>_. returnM a) s) = snd (m s)"
  by (cases "m s") (simp add: bindM_def returnM_def split: outcome.split)

text \<open>\<open>calls\<close> keeps what every allowed call keeps.\<close>

lemma calls_keep:
  assumes "\<And>A c. P A \<Longrightarrow> may A c \<Longrightarrow> Q c \<Longrightarrow> P (snd (f c A))"
  shows "P A \<Longrightarrow> all_allowed may f A cs \<Longrightarrow> list_all Q cs \<Longrightarrow> P (snd (calls f cs A))"
proof (induction cs arbitrary: A)
  case (Cons c cs)
  then have "P (snd (f c A))" using assms [of A c] by simp
  with Cons show ?case by (simp add: snd_calls del: calls.simps split: outcome.split)
qed (simp add: returnM_def)

text \<open>A program and its specification that give the same answer to every allowed call and stay related.\<close>

locale simulation =
  fixes R :: "'s \<Rightarrow> 't \<Rightarrow> bool" and may :: "'t \<Rightarrow> 'c \<Rightarrow> bool"
    and program :: "'c \<Rightarrow> ('s, 'a) comp" and spec :: "'c \<Rightarrow> ('t, 'a) comp"
  assumes step: "R s t \<Longrightarrow> may t c \<Longrightarrow> \<exists>s'. program c s = (fst (spec c t), s') \<and> R s' (snd (spec c t))"
begin

lemma run:
  "R s t \<Longrightarrow> all_allowed may spec t cs \<Longrightarrow>
     \<exists>s'. calls program cs s = (fst (calls spec cs t), s') \<and> R s' (snd (calls spec cs t))"
proof (induction cs arbitrary: s t)
  case (Cons c cs)
  obtain r t' where a: "spec c t = (r, t')" by fastforce
  with step [OF Cons.prems(1), of c] Cons.prems(2) obtain s' where s': "program c s = (r, s')" "R s' t'" by auto
  have "all_allowed may spec t' cs" using Cons.prems(2) a by simp
  from Cons.IH [OF s'(2) this] obtain s'' where "calls program cs s' = (fst (calls spec cs t'), s'')"
    "R s'' (snd (calls spec cs t'))" by blast
  then show ?case using a s'
    by (cases r; cases "calls spec cs t'"; cases "fst (calls spec cs t')") (auto simp: bindM_def returnM_def)
qed (simp add: returnM_def)

end

section \<open>Refinement\<close>

lemma a_create_ret: "fst (prepare time rands d) = Ret () \<Longrightarrow>
     a_create time rands d A = (Ret (Stored StatusOK (prepared time rands d)), a_store (prepared time rands d) A)"
  using prepared_pair [of time rands d] by (simp add: a_create_def)

lemma a_create_throw: "fst (prepare time rands d) = Throw ex \<Longrightarrow> a_create time rands d A = (Throw ex, A)"
  by (cases "prepare time rands d") (simp add: a_create_def)

lemma implements_a_create:
  assumes "implements e name A" "fits A time rands d"
  shows "\<exists>r e'. createDocument name time rands d e = (r, e') \<and> implements e' name (snd (a_create time rands d A)) \<and> elsewhere name e e' \<and>
    (case r of Ret (s, d') \<Rightarrow> s = StatusOK \<and> fst (a_create time rands d A) = Ret (Stored s d')
       | Throw ex \<Rightarrow> fst (a_create time rands d A) = Throw ex | Undef \<Rightarrow> False)"
proof (cases rule: prepare_cases [of time rands d])
  case 1
  then have "\<exists>e'. createDocument name time rands d e = (Ret (StatusOK, prepared time rands d), e') \<and>
      implements e' name (a_store (prepared time rands d) A) \<and> elsewhere name e e'"
    using assms(2) by (intro implements_create_prepared [OF assms(1)]) (simp_all add: fits_def)
  then show ?thesis using a_create_ret [of time rands d A] 1(1) by auto
next
  case 2
  then show ?thesis using createDocument_throws [OF 2] a_create_throw [OF 2] assms(1) by simp
qed

lemma implements_replace:
  assumes "implements e name A" "update_fits A time rands u i j"
  shows "\<exists>e'. bindM (update_and_store name time rands u (a_doc i j)) (\<lambda>s. returnM (Done s)) e =
      (fst (a_replace time rands u i j A), e') \<and> implements e' name (snd (a_replace time rands u i j A)) \<and> elsewhere name e e'"
proof (cases "applyUpdate u j")
  case (Pair r j')
  show ?thesis
  proof (cases r)
    case (Ret x)
    have f: "fits A time rands (a_doc i j')" using assms(2) Pair Ret by (simp add: update_fits_def)
    obtain r' e' where "createDocument name time rands (a_doc i j') e = (r', e')"
      "implements e' name (snd (a_create time rands (a_doc i j') A))" "elsewhere name e e'"
      "case r' of Ret (s, d') \<Rightarrow> s = StatusOK \<and> fst (a_create time rands (a_doc i j') A) = Ret (Stored s d')
       | Throw ex \<Rightarrow> fst (a_create time rands (a_doc i j') A) = Throw ex | Undef \<Rightarrow> False"
      using implements_a_create [OF assms(1) f] by blast
    then show ?thesis using Pair Ret
      by (cases "a_create time rands (a_doc i j') A")
        (auto simp: update_and_store_def a_replace_def bindM_def liftO_def returnM_def a_doc_def split: outcome.splits)
  qed (use assms(1) Pair in \<open>simp_all add: update_and_store_def a_replace_def bindM_def liftO_def a_doc_def\<close>)
qed

lemma implements_missing:
  assumes "implements e name A" "map_of (a_docs A) i = None"
  shows "readDocument name i x e = (Ret (missing i, x), e)"
  using implements_read [OF assms(1)] assms(2) by (simp add: missing_def)

lemma new_document_a_doc: "new_document i = a_doc i (JObject [(''_id'', JString i)])"
  by (simp add: new_document_def a_doc_def)

lemma perform_refines:
  assumes "implements e name A" "allowed A c"
  shows "\<exists>e'. perform name c e = (fst (a_perform c A), e') \<and> implements e' name (snd (a_perform c A)) \<and> elsewhere name e e'"
proof (cases c)
  case (CreateCall time rands d)
  have f: "fits A time rands d" using assms(2) CreateCall by simp
  obtain r e' where c: "createDocument name time rands d e = (r, e')" "implements e' name (snd (a_create time rands d A))" "elsewhere name e e'"
    "case r of Ret (s, d') \<Rightarrow> s = StatusOK \<and> fst (a_create time rands d A) = Ret (Stored s d')
       | Throw ex \<Rightarrow> fst (a_create time rands d A) = Throw ex | Undef \<Rightarrow> False"
    using implements_a_create [OF assms(1) f] by blast
  show ?thesis using c by (cases r) (auto simp: CreateCall bindM_def returnM_def)
next
  case (UpdateCall time rands i u upsert)
  show ?thesis
  proof (cases "map_of (a_docs A) i")
    case None
    then have r: "readDocument name i empty_document e = (Ret (missing i, empty_document), e)" by (rule implements_missing [OF assms(1)])
    show ?thesis
    proof (cases upsert)
      case True
      then show ?thesis
        using implements_replace [OF assms(1), of time rands u i "JObject [(''_id'', JString i)]"] assms(2) None r
        unfolding UpdateCall updateDocument_def new_document_a_doc perform.simps by (simp add: bindM_def missing_def)
    qed (use None r assms(1) in \<open>simp add: UpdateCall updateDocument_def bindM_def returnM_def missing_def\<close>)
  next
    case (Some j)
    then have "readDocument name i empty_document e = (Ret (StatusOK, a_doc i j), e)" by (simp add: implements_read [OF assms(1)])
    then show ?thesis
      using implements_replace [OF assms(1), of time rands u i j] assms(2) Some
      unfolding UpdateCall updateDocument_def perform.simps by (simp add: bindM_def)
  qed
next
  case (DeleteCall i)
  show ?thesis
  proof (cases "map_of (a_docs A) i")
    case None
    then show ?thesis
      using implements_missing [OF assms(1) None, of empty_document] assms(1)
      by (simp add: DeleteCall deleteDocument_def bindM_def returnM_def a_erase_def missing_def)
  next
    case (Some j)
    then show ?thesis
      using implements_delete [OF assms(1) Some] assms(2) by (auto simp: DeleteCall bindM_def returnM_def)
  qed
next
  case (ReadCall i)
  then show ?thesis
    using implements_read [OF assms(1), of i empty_document] assms(1)
    by (auto simp: bindM_def returnM_def missing_def split: option.splits)
next
  case (ReadAllCall limit)
  then show ?thesis
    using implements_readAll [OF assms(1), of limit "[]"] assms(1) by (simp add: bindM_def returnM_def)
next
  case (FindCall q)
  then show ?thesis
    using implements_find [OF assms(1), of q] assms by (simp add: bindM_def returnM_def)
next
  case (IndexCall f)
  then show ?thesis
    using implements_createIndex [OF assms(1), of f] assms(2) by (fastforce simp: bindM_def returnM_def list_all_iff)
next
  case (UnindexCall f)
  then show ?thesis
    using implements_deleteIndex [OF assms(1), of f] assms(2) by (auto simp: bindM_def returnM_def)
qed

interpretation coll: simulation "\<lambda>e. implements e name" allowed "perform name" a_perform for name
  by unfold_locales (use perform_refines in blast)

text \<open>Any sequence of calls of the methods of a collection on a working store, from an empty collection on,
  gets the answers that the abstract collection gives: the same documents, identifiers in the same order
  (for \<^verbatim>\<open>$and\<close> and \<^verbatim>\<open>$or\<close> the one order the model takes for a hash table), the same status codes and exceptions, call
  by call, and leaves the store in a state that implements the abstract one.\<close>

theorem collection_refines:
  assumes "live e" "plain_name name" "tables e name = Some []" "getIndexNames e name = []" "allowed_all a_empty cs"
  shows "\<exists>e'. calls (perform name) cs e = (fst (calls a_perform cs a_empty), e') \<and> implements e' name (snd (calls a_perform cs a_empty))"
  using coll.run [OF implements_empty [OF assms(1-4)] assms(5)] .

text \<open>The calls of the witness include an update that removes an indexed field: the entry of the old value
  stays in the index, in the store as in the abstract collection, even after the document is deleted.\<close>

definition example_calls :: "call list" where
  "example_calls = [IndexCall ''age'', CreateCall 0 [] sample, FindCall (Compare Equal ''age'' (JInteger 5)),
     UpdateCall 0 [] ''d1'' (JObject [(''$unset'', JObject [(''age'', JNull)])]) False,
     ReadCall ''d1'', DeleteCall ''d1'', DeleteCall ''d1'', FindCall (OrderBy ''age'' ''asc'')]"

definition example_answers :: "answer list" where
  "example_answers = [Done StatusOK, Stored StatusOK (a_doc ''d1'' (JObject [(''_id'', JString ''d1''), (''age'', JInteger 5)])),
     Identifiers [''d1''], Done StatusOK, Stored StatusOK (a_doc ''d1'' (JObject [(''_id'', JString ''d1'')])),
     Done StatusOK, Done (missing ''d1''), Identifiers [''d1'']]"

lemma example_unset:
  "applyUpdate (JObject [(''$unset'', JObject [(''age'', JNull)])]) (JObject [(''_id'', JString ''d1''), (''age'', JUnsigned 5)]) =
     (Ret (), JObject [(''_id'', JString ''d1'')])"
  by code_simp

lemmas example_simps = example_calls_def example_answers_def sample_def example_unset a_empty_def a_createIndex_def a_store_def
  a_create_def a_replace_def a_erase_def a_doc_def a_lookup_def or_none_def with_entry_def without_entry_def entry_of_def prepared_def prepare_def
  hasField_def setValue_def Let_def key_of_def missing_def returnM_def bindM_def

lemma example_run: "fst (calls a_perform example_calls a_empty) = Ret example_answers"
  by (simp add: example_simps)

lemma example_allowed: "allowed_all a_empty example_calls"
  by (simp add: example_simps fits_def update_fits_def storable_def om_ok_def can_index_def indexable_def scalar_def)

theorem collection_refines_witness:
  "\<exists>e'. calls (perform ''users'') example_calls (engine_with ''users'') = (Ret example_answers, e')"
  using collection_refines [OF live_users(1) plain_users live_users(2,3) example_allowed] example_run by fastforce

section \<open>No document is missed\<close>







lemma scalar_norm [simp]: "scalar (norm v) = scalar v"
  by (cases v) (simp_all add: scalar_def)




















section \<open>The type of documents\<close>

definition typed_doc :: "json \<Rightarrow> bool" where
  "typed_doc j = (is_object j \<and> wf_json j \<and> json_find ''_id'' j \<noteq> None)"

definition typed :: "acoll \<Rightarrow> bool" where
  "typed A = list_all (\<lambda>(i, j). typed_doc j) (a_docs A)"

text \<open>What a client has to see to: the values it passes are JSON values (\<open>wf_json\<close>: keys sorted and unique, as in a
  \<^verbatim>\<open>std::map\<close>), the serialization stays in the size limits of the format, and indexed fields hold scalars. Nothing
  is asked of the type of the documents it passes or of what an update makes of a document.\<close>

definition in_limits :: "acoll \<Rightarrow> 32 word \<Rightarrow> nat list \<Rightarrow> Document \<Rightarrow> bool" where
  "in_limits A time rands d = (fst (prepare time rands d) = Ret () \<longrightarrow> mp_ok (doc_data (prepared time rands d)) \<and>
     length (doc_id (prepared time rands d)) < 2 ^ 32 \<and> can_index A (doc_data (prepared time rands d)))"

definition update_in_limits :: "acoll \<Rightarrow> 32 word \<Rightarrow> nat list \<Rightarrow> json \<Rightarrow> string \<Rightarrow> json \<Rightarrow> bool" where
  "update_in_limits A time rands u i j = (case applyUpdate u j of (Ret _, j') \<Rightarrow> in_limits A time rands (a_doc i j') | _ \<Rightarrow> True)"

fun input_ok :: "acoll \<Rightarrow> call \<Rightarrow> bool" where
  "input_ok A (CreateCall time rands d) = (wf_json (doc_data d) \<and> in_limits A time rands d)"
| "input_ok A (UpdateCall time rands i u upsert) = (wf_json u \<and> (case map_of (a_docs A) i of
       Some j \<Rightarrow> update_in_limits A time rands u i j
     | None \<Rightarrow> upsert \<longrightarrow> update_in_limits A time rands u i (JObject [(''_id'', JString i)])))"
| "input_ok A c = allowed A c"

lemma fits_in_limits: "in_limits A time rands d \<Longrightarrow> wf_json (doc_data d) \<Longrightarrow> fits A time rands d"
  by (simp add: in_limits_def fits_def storable_def prepared_wf)

lemma update_fits_in_limits:
  assumes "update_in_limits A time rands u i j" "wf_json u" "typed_doc j"
  shows "update_fits A time rands u i j"
proof (cases "applyUpdate u j")
  case (Pair r j')
  have "doc_ok j'" using applyUpdate_keeps [OF assms(2)] assms(3) Pair unfolding keeps_doc_def doc_ok_def typed_doc_def by (metis snd_conv)
  then show ?thesis using assms(1) Pair fits_in_limits [of A time rands "a_doc i j'"]
    by (auto simp: update_in_limits_def update_fits_def doc_ok_def a_doc_def split: outcome.splits)
qed

lemma typed_lookup: "typed A \<Longrightarrow> map_of (a_docs A) i = Some j \<Longrightarrow> typed_doc j"
  using map_of_SomeD by (fastforce simp: typed_def list_all_iff)

lemma typed_new: "typed_doc (JObject [(''_id'', JString i)])"
  by (simp add: typed_doc_def om_ok_def)

lemma allowed_input: "typed A \<Longrightarrow> input_ok A c \<Longrightarrow> allowed A c"
  by (cases c) (auto simp: fits_in_limits update_fits_in_limits typed_new dest: typed_lookup split: option.splits)

lemma typed_store: "typed A \<Longrightarrow> typed_doc (norm (doc_data d)) \<Longrightarrow> typed (a_store d A)"
  by (simp add: typed_def a_store_def list_all_om_update)

lemma typed_create: "typed A \<Longrightarrow> fits A time rands d \<Longrightarrow> typed (snd (a_create time rands d A))"
proof (cases rule: prepare_cases [of time rands d])
  case 1
  assume "typed A" "fits A time rands d"
  with 1 show ?thesis
    by (auto simp: a_create_ret fits_def storable_def typed_doc_def wf_norm json_find_norm intro!: typed_store)
next
  case 2
  assume "typed A"
  then show ?thesis by (simp add: a_create_throw [OF 2])
qed

lemma typed_replace: "typed A \<Longrightarrow> update_fits A time rands u i j \<Longrightarrow> typed (snd (a_replace time rands u i j A))"
  by (cases "applyUpdate u j"; cases "fst (applyUpdate u j)")
    (auto simp: a_replace_def update_fits_def snd_bind_answer intro: typed_create)

lemma typed_erase: "typed A \<Longrightarrow> typed (a_erase i A)"
  by (simp add: typed_def a_erase_def list_all_om_delete split: option.split)

lemma typed_indexes: "typed (a_createIndex f A) = typed A" "typed (a_deleteIndex f A) = typed A"
  by (simp_all add: typed_def a_createIndex_def a_deleteIndex_def)

lemma typed_perform: "typed A \<Longrightarrow> allowed A c \<Longrightarrow> typed (snd (a_perform c A))"
  by (cases c) (auto simp: typed_replace typed_erase typed_indexes typed_new typed_create dest: typed_lookup split: option.splits)

lemma typed_empty: "typed a_empty"
  by (simp add: typed_def a_empty_def)

text \<open>Sequences within the limits of the client are sequences the refinement describes.\<close>

lemma allowed_inputs: "typed A \<Longrightarrow> all_allowed input_ok a_perform A cs \<Longrightarrow> allowed_all A cs"
  by (induction cs arbitrary: A) (auto intro: allowed_input typed_perform)

text \<open>C6: Every document that can be read after any sequence of calls on a working store carries the identifier it is read
  by, its data are a well-formed JSON object, and the object has a field \<^verbatim>\<open>_id\<close>; an identifier without a document is
  reported as not found. The calls may pass any JSON value as data and as update (in the size limits of the format and
  with scalars in indexed fields): that a stored document stays an object is the code's doing, which refuses or
  converts other data and whose updates keep objects.\<close>

theorem documents_typed:
  assumes "live e" "plain_name name" "tables e name = Some []" "getIndexNames e name = []"
    and "all_allowed input_ok a_perform a_empty cs" "calls (perform name) cs e = (r, e')" "readDocument name i x e' = (Ret (s, d), e')"
  shows "ok s \<and> doc_id d = i \<and> is_object (doc_data d) \<and> wf_json (doc_data d) \<and> json_find ''_id'' (doc_data d) \<noteq> None \<or> isNotFound s \<and> d = x"
proof -
  let ?A = "snd (calls a_perform cs a_empty)"
  note al = allowed_inputs [OF typed_empty assms(5)]
  have A: "implements e' name ?A" using coll.run [OF implements_empty [OF assms(1-4)] al] assms(6) by auto
  have "typed ?A"
    by (rule calls_keep [where Q = "\<lambda>c. True"]) (use al typed_empty in \<open>simp_all add: typed_perform list_all_iff\<close>)
  then have "typed_doc j" if "map_of (a_docs ?A) i = Some j" for j
    using typed_lookup that by blast
  then show ?thesis
    using assms(7) by (auto simp: implements_read [OF A] typed_doc_def a_doc_def split: option.splits)
qed

text \<open>The calls of the witness create a document from \<^verbatim>\<open>null\<close> and try to create one from a string, which throws.\<close>

definition untyped_calls :: "call list" where
  "untyped_calls = [CreateCall 0 [] \<lparr>doc_id = ''n'', doc_data = JNull\<rparr>, CreateCall 0 [] \<lparr>doc_id = ''s'', doc_data = JString ''x''\<rparr>]"

lemma untyped_run:
  "all_allowed input_ok a_perform a_empty untyped_calls"
  "a_docs (snd (calls a_perform untyped_calls a_empty)) = [(''n'', JObject [(''_id'', JString ''n'')])]"
  by (simp_all add: untyped_calls_def example_simps in_limits_def storable_def om_ok_def can_index_def indexable_def)

theorem documents_typed_witness:
  "\<exists>r e'. calls (perform ''users'') untyped_calls (engine_with ''users'') = (r, e') \<and>
    (\<exists>d. readDocument ''users'' ''n'' empty_document e' = (Ret (StatusOK, d), e') \<and> is_object (doc_data d) \<and> wf_json (doc_data d))"
proof -
  note al = allowed_inputs [OF typed_empty untyped_run(1)]
  obtain e' where e': "calls (perform ''users'') untyped_calls (engine_with ''users'') = (fst (calls a_perform untyped_calls a_empty), e')"
    "implements e' ''users'' (snd (calls a_perform untyped_calls a_empty))"
    using coll.run [OF implements_empty [OF live_users(1) plain_users live_users(2,3)] al] by blast
  have rd: "readDocument ''users'' ''n'' empty_document e' = (Ret (StatusOK, a_doc ''n'' (JObject [(''_id'', JString ''n'')])), e')"
    by (simp add: implements_read [OF e'(2)] untyped_run(2))
  show ?thesis
    using documents_typed [OF live_users(1) plain_users live_users(2,3) untyped_run(1) e'(1) rd] e'(1) rd
    by (auto simp: StatusOK_def isNotFound_def)
qed

end
