(* ===== verification/Anu_Store.thy ===== *)
theory Anu_Store
  imports Anu_Database Anu_Refine
begin

text \<open>
  What a database promises as a whole: its collections by name, each an abstract collection of \<open>Anu_Abstract\<close>, and
  the names of the collections in use (those with an object in \<^verbatim>\<open>collections_\<close>, whose indexes \<^verbatim>\<open>close\<close> drops). The
  calls of \<^verbatim>\<open>Database\<close>, and those of \<^verbatim>\<open>Collection\<close> through the pointer that \<^verbatim>\<open>getCollection\<close> returns, are a data type as
  in \<open>Anu_Refine\<close>; \<open>represents\<close> relates a database to an abstract store, and every call is a step of the simulation.
\<close>

section \<open>Calls of a database\<close>

datatype store_call =
    CreateCollection string
  | DropCollection string
  | CollectionNames
  | Through string call
  | ReadFrom string string
  | Reopen

datatype store_answer =
    Reported status
  | Names "string list"
  | NoCollection
  | Answered answer

fun perform_store :: "store_call \<Rightarrow> (database, store_answer) comp" where
  "perform_store (CreateCollection n) = bindM (Database_createCollection n) (\<lambda>s. returnM (Reported s))"
| "perform_store (DropCollection n) = bindM (Database_dropCollection n) (\<lambda>s. returnM (Reported s))"
| "perform_store CollectionNames = bindM getM (\<lambda>d. returnM (Names (Database_getCollectionNames d)))"
| "perform_store (Through n c) = with_collection n NoCollection (\<lambda>a. bindM (on_object a (\<lambda>n. perform n c)) (\<lambda>r. returnM (Answered r)))"
| "perform_store (ReadFrom n i) = bindM (Database_readDocument n i empty_document) (\<lambda>(s, d). returnM (Answered (Stored s d)))"
| "perform_store Reopen = bindM Database_close (\<lambda>_. bindM Database_open (\<lambda>s. returnM (Reported s)))"

section \<open>Abstract stores\<close>

record astore =
  s_colls :: "(string, acoll) omap"
  s_used :: "string set"

definition s_new :: astore where
  "s_new = \<lparr>s_colls = [(''default'', a_empty)], s_used = {}\<rparr>"

text \<open>A call on a collection: the others are as they were.\<close>

definition s_through :: "string \<Rightarrow> call \<Rightarrow> acoll \<Rightarrow> (astore, store_answer) comp" where
  "s_through n c A S = (case a_perform c A of (r, A') \<Rightarrow>
     (case r of Ret a \<Rightarrow> Ret (Answered a) | Throw ex \<Rightarrow> Throw ex | Undef \<Rightarrow> Undef,
      S\<lparr>s_colls := om_update n A' (s_colls S), s_used := insert n (s_used S)\<rparr>))"

definition unindexed :: "string set \<Rightarrow> string \<times> acoll \<Rightarrow> string \<times> acoll" where
  "unindexed N = (\<lambda>(n, A). (n, if n \<in> N then A\<lparr>a_index := []\<rparr> else A))"

fun a_perform_store :: "store_call \<Rightarrow> (astore, store_answer) comp" where
  "a_perform_store (CreateCollection n) S = (case map_of (s_colls S) n of
       Some _ \<Rightarrow> (Ret (Reported (InvalidArgument (''Collection already exists: '' @ n))), S)
     | None \<Rightarrow> (Ret (Reported StatusOK), S\<lparr>s_colls := om_update n a_empty (s_colls S), s_used := insert n (s_used S)\<rparr>))"
| "a_perform_store (DropCollection n) S = (case map_of (s_colls S) n of
       None \<Rightarrow> (Undef, S)
     | Some _ \<Rightarrow> (Ret (Reported StatusOK), S\<lparr>s_colls := om_delete n (s_colls S), s_used := insert n (s_used S)\<rparr>))"
| "a_perform_store CollectionNames S = (Ret (Names (filter (\<lambda>n. n \<noteq> ''default'') (map fst (s_colls S)))), S)"
| "a_perform_store (Through n c) S = (case map_of (s_colls S) n of None \<Rightarrow> (Ret NoCollection, S) | Some A \<Rightarrow> s_through n c A S)"
| "a_perform_store (ReadFrom n i) S = (case map_of (s_colls S) n of
       None \<Rightarrow> (Ret (Answered (Stored (collection_not_found n) empty_document)), S)
     | Some A \<Rightarrow> s_through n (ReadCall i) A S)"
| "a_perform_store Reopen S = (Ret (Reported StatusOK), \<lparr>s_colls = map (unindexed (s_used S)) (s_colls S), s_used = {}\<rparr>)"

text \<open>Names are plain; a collection is dropped only while it exists, and never the default one; no method is called
  through the object that \<^verbatim>\<open>dropCollection\<close> leaves behind.\<close>

fun store_allowed :: "astore \<Rightarrow> store_call \<Rightarrow> bool" where
  "store_allowed S (CreateCollection n) = plain_name n"
| "store_allowed S (DropCollection n) = (n \<noteq> ''default'' \<and> map_of (s_colls S) n \<noteq> None)"
| "store_allowed S CollectionNames = True"
| "store_allowed S (Through n c) = (plain_name n \<and> (case map_of (s_colls S) n of None \<Rightarrow> n \<notin> s_used S | Some A \<Rightarrow> allowed A c))"
| "store_allowed S (ReadFrom n i) = plain_name n"
| "store_allowed S Reopen = True"

section \<open>Collections do not share column families\<close>

lemma plain_no_delimiter: "plain_name n \<Longrightarrow> find_sub index_delimiter n = None"
proof (rule ccontr)
  assume p: "plain_name n" and "find_sub index_delimiter n \<noteq> None"
  then obtain k where k: "prefix index_delimiter (drop k n)" using find_sub_Some by blast
  then have l: "k < length n" by (cases "k < length n") (simp_all add: index_delimiter_def)
  have "prefix index_delimiter (drop k (n @ index_delimiter))"
    using prefix_prefix [OF k] l by simp
  then show False using p l find_sub_Some [of index_delimiter "n @ index_delimiter" "length n"] by (auto simp: plain_name_def)
qed

lemma plain_family_inject:
  "plain_name n \<Longrightarrow> plain_name n' \<Longrightarrow> index_family n f = index_family n' f' \<longleftrightarrow> n = n' \<and> f = f'"
  using index_of_family by (metis option.inject prod.inject)

lemma index_family_not_plain: "plain_name n \<Longrightarrow> plain_name n' \<Longrightarrow> index_family n f \<noteq> n'"
  using plain_no_delimiter find_index_family by fastforce

lemma implements_cong:
  assumes "implements e n A" "live e'" "tables e' n = tables e n" "\<And>f. tables e' (index_family n f) = tables e (index_family n f)"
  shows "implements e' n A"
  using assms by (auto simp: implements_def)

lemma implements_fresh:
  assumes "live e" "plain_name n" "tables e n = Some []" "\<And>f. tables e (index_family n f) = None"
  shows "implements e n a_empty"
  by (rule implementsI [where m = "[]"]) (use assms in \<open>simp_all add: a_empty_def\<close>)

lemma implements_elsewhere:
  assumes "implements e n' A" "elsewhere n e e'" "live e'" "plain_name n" "n \<noteq> n'"
  shows "implements e' n' A"
proof -
  have p: "plain_name n'" by (rule implementsD(3) [OF assms(1)])
  show ?thesis
    by (rule implements_cong [OF assms(1,3)])
      (use assms(2,4,5) p index_family_neq in \<open>auto simp: elsewhere_def plain_family_inject dest: index_family_not_plain\<close>)
qed

section \<open>Databases that represent an abstract store\<close>

text \<open>Every column family belongs to a collection or to one of its indexes.\<close>

definition represents :: "database \<Rightarrow> astore \<Rightarrow> bool" where
  "represents d S = (working d \<and> om_ok (s_colls S) \<and>
     (\<forall>n. map_of (collections d) n \<noteq> None \<longleftrightarrow> n \<in> s_used S) \<and> (\<forall>n \<in> s_used S. plain_name n) \<and>
     (\<forall>n A. map_of (s_colls S) n = Some A \<longrightarrow> implements (db_engine d) n A) \<and>
     (\<forall>c. tables (db_engine d) c \<noteq> None \<longrightarrow> (\<exists>n. map_of (s_colls S) n \<noteq> None \<and> (c = n \<or> (\<exists>f. c = index_family n f)))))"

lemma representsI:
  assumes "working d" "om_ok (s_colls S)" "\<And>n. map_of (collections d) n \<noteq> None \<longleftrightarrow> n \<in> s_used S" "\<And>n. n \<in> s_used S \<Longrightarrow> plain_name n"
    and "\<And>n A. map_of (s_colls S) n = Some A \<Longrightarrow> implements (db_engine d) n A"
    and "\<And>c. tables (db_engine d) c \<noteq> None \<Longrightarrow> \<exists>n. map_of (s_colls S) n \<noteq> None \<and> (c = n \<or> (\<exists>f. c = index_family n f))"
  shows "represents d S"
  using assms unfolding represents_def by blast

lemma representsD:
  assumes "represents d S"
  shows "working d" "om_ok (s_colls S)" "map_of (collections d) n \<noteq> None \<longleftrightarrow> n \<in> s_used S" "n \<in> s_used S \<Longrightarrow> plain_name n"
    and "map_of (s_colls S) n = Some A \<Longrightarrow> implements (db_engine d) n A"
    and "tables (db_engine d) c \<noteq> None \<Longrightarrow> \<exists>n. map_of (s_colls S) n \<noteq> None \<and> (c = n \<or> (\<exists>f. c = index_family n f))"
  using assms unfolding represents_def by blast+

lemma represents_plain: "represents d S \<Longrightarrow> map_of (s_colls S) n \<noteq> None \<Longrightarrow> plain_name n"
  using representsD(5) implementsD(3) by blast

lemma represents_table:
  assumes "represents d S" "plain_name n"
  shows "tables (db_engine d) n \<noteq> None \<longleftrightarrow> map_of (s_colls S) n \<noteq> None"
    and "map_of (s_colls S) n = None \<Longrightarrow> tables (db_engine d) (index_family n f) = None"
proof -
  have *: "map_of (s_colls S) n \<noteq> None" if c: "tables (db_engine d) c \<noteq> None" "c = n \<or> c = index_family n f" for c f
  proof -
    obtain n' where n': "map_of (s_colls S) n' \<noteq> None" "c = n' \<or> (\<exists>f. c = index_family n' f)"
      using representsD(6) [OF assms(1) c(1)] by blast
    moreover have "n = n'"
      using n'(2) c(2) assms(2) represents_plain [OF assms(1) n'(1)] plain_family_inject index_family_not_plain by metis
    ultimately show ?thesis by simp
  qed
  then show "map_of (s_colls S) n = None \<Longrightarrow> tables (db_engine d) (index_family n f) = None" by blast
  have "tables (db_engine d) n \<noteq> None" if "map_of (s_colls S) n \<noteq> None"
    using that representsD(5) [OF assms(1)] implementsD(6) by blast
  then show "tables (db_engine d) n \<noteq> None \<longleftrightarrow> map_of (s_colls S) n \<noteq> None" using * by blast
qed

lemma represents_new: "working d \<Longrightarrow> collections d = [] \<Longrightarrow> tables (db_engine d) = [default_family \<mapsto> []] \<Longrightarrow> represents d s_new"
proof (rule representsI)
  assume d: "working d" "collections d = []" "tables (db_engine d) = [default_family \<mapsto> []]"
  have p: "plain_name ''default''" by code_simp
  show "implements (db_engine d) n A" if "map_of (s_colls s_new) n = Some A" for n A
  proof -
    have n: "n = ''default''" "A = a_empty" using that by (auto simp: s_new_def split: if_splits)
    have l: "live (db_engine d)" using d(1) by (simp add: working_def)
    show ?thesis
      by (unfold n, rule implements_fresh [OF l p]) (use d(3) index_family_not_default in \<open>auto simp: default_family_def\<close>)
  qed
qed (auto simp: s_new_def default_family_def om_ok_def split: if_splits)

section \<open>Every call is a step of the simulation\<close>

text \<open>What a call on one collection does to the store: \<open>A\<close> is the collection afterwards, if there still is one.\<close>

lemma represents_change:
  assumes "represents d S" "plain_name n" "working d'"
    and "\<And>m. map_of (collections d') m \<noteq> None \<longleftrightarrow> m = n \<or> map_of (collections d) m \<noteq> None"
    and "elsewhere n (db_engine d) (db_engine d')"
    and "case A of Some B \<Rightarrow> implements (db_engine d') n B | None \<Rightarrow> tables (db_engine d') n = None \<and> (\<forall>f. tables (db_engine d') (index_family n f) = None)"
  shows "represents d' (S\<lparr>s_colls := (case A of Some B \<Rightarrow> om_update n B (s_colls S) | None \<Rightarrow> om_delete n (s_colls S)), s_used := insert n (s_used S)\<rparr>)"
proof (rule representsI)
  note r = representsD [OF assms(1)]
  let ?T = "S\<lparr>s_colls := (case A of Some B \<Rightarrow> om_update n B (s_colls S) | None \<Rightarrow> om_delete n (s_colls S)), s_used := insert n (s_used S)\<rparr>"
  have t: "map_of (s_colls ?T) m = (if m = n then A else map_of (s_colls S) m)" for m
    using r(2) by (simp add: om_lookup_update om_lookup_delete split: option.split)
  show "working d'" by (rule assms(3))
  show "om_ok (s_colls ?T)" using r(2) by (simp add: om_ok_update om_ok_delete split: option.split)
  show "map_of (collections d') m \<noteq> None \<longleftrightarrow> m \<in> s_used ?T" for m using assms(4) r(3) by simp
  show "m \<in> s_used ?T \<Longrightarrow> plain_name m" for m using assms(2) r(4) by auto
  show "implements (db_engine d') m B" if "map_of (s_colls ?T) m = Some B" for m B
  proof (cases "m = n")
    case True
    then show ?thesis using that t assms(6) by simp
  next
    case False
    then have "implements (db_engine d) m B" using that t r(5) by simp
    then show ?thesis using implements_elsewhere [OF _ assms(5) _ assms(2)] assms(3) False by (simp add: working_def)
  qed
  show "\<exists>m. map_of (s_colls ?T) m \<noteq> None \<and> (c = m \<or> (\<exists>f. c = index_family m f))" if c: "tables (db_engine d') c \<noteq> None" for c
  proof (cases "c = n \<or> (\<exists>f. c = index_family n f)")
    case True
    then have "A \<noteq> None" using assms(6) c by (cases A) auto
    then show ?thesis using True t by metis
  next
    case False
    then have "tables (db_engine d) c \<noteq> None" using c assms(5) by (simp add: elsewhere_def)
    then obtain m where m: "map_of (s_colls S) m \<noteq> None" "c = m \<or> (\<exists>f. c = index_family m f)" using r(6) by blast
    then have "m \<noteq> n" using False by blast
    then show ?thesis using m t by metis
  qed
qed

lemma represents_through:
  assumes "represents d S" "map_of (s_colls S) n = Some A" "allowed A c"
  shows "\<exists>d'. perform_store (Through n c) d = (fst (s_through n c A S), d') \<and> represents d' (snd (s_through n c A S))"
proof -
  note r = representsD [OF assms(1)]
  have p: "plain_name n" by (rule represents_plain [OF assms(1)]) (simp add: assms(2))
  have "tables (db_engine d) n \<noteq> None" using represents_table(1) [OF assms(1) p] assms(2) by simp
  then obtain a d1 ob where g: "getCollection n d = (Ret (Some a), d1)" "working d1" "tables (db_engine d1) = tables (db_engine d)"
    "map_of (collections d1) n = Some ob" "obj_addr ob = a" "\<And>m. m \<noteq> n \<Longrightarrow> map_of (collections d1) m = map_of (collections d) m"
    using getCollection_live [OF r(1), of n] by auto
  have i: "implements (db_engine d1) n A"
    by (rule implements_cong [OF r(5) [OF assms(2)]]) (use g(2,3) in \<open>simp_all add: working_def\<close>)
  obtain e' where e': "perform n c (db_engine d1) = (fst (a_perform c A), e')" "implements e' n (snd (a_perform c A))" "elsewhere n (db_engine d1) e'"
    using perform_refines [OF i assms(3)] by blast
  let ?d = "d1\<lparr>db_engine := e'\<rparr>"
  have o: "on_object a (\<lambda>n. perform n c) d1 = (fst (a_perform c A), ?d)"
    using on_object_run [OF g(2,4), of "\<lambda>n. perform n c"] g(5) e'(1) by (simp add: on_engine_def)
  have "represents ?d (S\<lparr>s_colls := (case Some (snd (a_perform c A)) of Some B \<Rightarrow> om_update n B (s_colls S) | None \<Rightarrow> om_delete n (s_colls S)),
      s_used := insert n (s_used S)\<rparr>)"
  proof (rule represents_change [OF assms(1) p])
    show "working ?d" using g(2) implementsD(1) [OF e'(2)] by (simp add: working_def)
    show "map_of (collections ?d) m \<noteq> None \<longleftrightarrow> m = n \<or> map_of (collections d) m \<noteq> None" for m using g(4,6) by (cases "m = n") simp_all
    show "elsewhere n (db_engine d) (db_engine ?d)" using e'(3) g(3) by (simp add: elsewhere_def)
  qed (use e'(2) in simp)
  then show ?thesis
    using g(1) o by (cases "a_perform c A"; cases "fst (a_perform c A)")
      (auto simp: s_through_def with_collection_def bindM_def returnM_def)
qed

lemma represents_create:
  assumes "represents d S" "plain_name n"
  shows "\<exists>d'. perform_store (CreateCollection n) d = (fst (a_perform_store (CreateCollection n) S), d') \<and>
    represents d' (snd (a_perform_store (CreateCollection n) S))"
proof (cases "map_of (s_colls S) n")
  case (Some A)
  note r = representsD [OF assms(1)]
  have "tables (db_engine d) n \<noteq> None" using represents_table(1) [OF assms] Some by simp
  then show ?thesis
    using engine_createCollection_run [of "db_engine d" n] r(1) Some assms(1)
    by (auto simp: Database_createCollection_def on_engine_def bindM_def returnM_def working_def live_def InvalidArgument_def ok_def)
next
  case None
  note r = representsD [OF assms(1)]
  have t: "tables (db_engine d) n = None" "\<And>f. tables (db_engine d) (index_family n f) = None"
    using represents_table [OF assms] None by simp_all
  have l: "engine_inv (db_engine d)" "healthy (db_engine d)" using r(1) by (simp_all add: working_def live_def)
  let ?e = "add_table n (db_engine d)"
  let ?d = "d\<lparr>db_engine := ?e\<rparr>"
  have c: "engine_createCollection n (db_engine d) = (Ret StatusOK, ?e)"
    using engine_createCollection_run [OF l(1), of n] t(1) l(2) by simp
  have e: "live ?e" "tables ?e = (tables (db_engine d))(n \<mapsto> [])" using l t(1) by (simp_all add: live_def engine_inv_add_table tables_add_table)
  have "working ?d" using e(1) r(1) by (simp add: working_def)
  from new_collection_live [OF this, of n] obtain d' where d': "new_collection n ?d = (Ret (next_object ?d), d')" "working d'"
    "collections d' = om_update n \<lparr>obj_addr = next_object ?d, obj_exporting = False\<rparr> (collections ?d)"
    "tables (db_engine d') = (\<lambda>c. if map_of (collections ?d) n \<noteq> None \<and> index_of_collection n c then None else tables (db_engine ?d) c)"
    by blast
  have t': "tables (db_engine d') = (tables (db_engine d))(n \<mapsto> [])"
    using t(2) d'(4) e(2) index_of_collection_plain [OF assms(2)] by (auto simp: fun_eq_iff)
  have "represents d' (S\<lparr>s_colls := (case Some a_empty of Some B \<Rightarrow> om_update n B (s_colls S) | None \<Rightarrow> om_delete n (s_colls S)),
      s_used := insert n (s_used S)\<rparr>)"
  proof (rule represents_change [OF assms d'(2)])
    show "map_of (collections d') m \<noteq> None \<longleftrightarrow> m = n \<or> map_of (collections d) m \<noteq> None" for m
      by (simp add: d'(3) om_lookup_update)
    show "elsewhere n (db_engine d) (db_engine d')" by (simp add: t' elsewhere_def)
    have "live (db_engine d')" using d'(2) by (simp add: working_def)
    then show "case Some a_empty of Some B \<Rightarrow> implements (db_engine d') n B
        | None \<Rightarrow> tables (db_engine d') n = None \<and> (\<forall>f. tables (db_engine d') (index_family n f) = None)"
      using implements_fresh [OF _ assms(2), of "db_engine d'"] t t' by simp
  qed
  moreover have "perform_store (CreateCollection n) d = (Ret (Reported StatusOK), d')"
    using c d'(1) by (simp add: Database_createCollection_def on_engine_def bindM_def returnM_def)
  ultimately show ?thesis using None by simp
qed

lemma represents_drop:
  assumes "represents d S" "map_of (s_colls S) n = Some A" "n \<noteq> ''default''"
  shows "\<exists>d'. perform_store (DropCollection n) d = (Ret (Reported StatusOK), d') \<and>
    represents d' (S\<lparr>s_colls := om_delete n (s_colls S), s_used := insert n (s_used S)\<rparr>)"
proof -
  have p: "plain_name n" by (rule represents_plain [OF assms(1)]) (simp add: assms(2))
  have t: "tables (db_engine d) n \<noteq> None" using represents_table(1) [OF assms(1) p] assms(2) by simp
  have nd: "n \<noteq> default_family" using assms(3) by (simp add: default_family_def)
  obtain d' where d': "Database_dropCollection n d = (Ret StatusOK, d')" "working d'" "map_of (collections d') n \<noteq> None"
    "\<And>m. m \<noteq> n \<Longrightarrow> map_of (collections d') m = map_of (collections d) m"
    "tables (db_engine d') = (\<lambda>c. if c = n \<or> index_of_collection n c then None else tables (db_engine d) c)"
    using dropCollection_exists [OF representsD(1) [OF assms(1)] nd t] by blast
  note i = index_of_collection_plain [OF p]
  have "represents d' (S\<lparr>s_colls := (case None of Some B \<Rightarrow> om_update n B (s_colls S) | None \<Rightarrow> om_delete n (s_colls S)),
      s_used := insert n (s_used S)\<rparr>)"
  proof (rule represents_change [OF assms(1) p d'(2)])
    show "map_of (collections d') m \<noteq> None \<longleftrightarrow> m = n \<or> map_of (collections d) m \<noteq> None" for m
      using d'(3,4) by (cases "m = n") simp_all
  qed (use i in \<open>auto simp: d'(5) elsewhere_def\<close>)
  then show ?thesis using d'(1) by (simp add: bindM_def returnM_def)
qed

text \<open>Collections that are not there: \<^verbatim>\<open>getCollection\<close> finds none, and the object that \<^verbatim>\<open>dropCollection\<close> leaves behind reads nothing.\<close>

lemma represents_absent:
  assumes "represents d S" "plain_name n" "map_of (s_colls S) n = None"
  shows "n \<notin> s_used S \<Longrightarrow> with_collection n miss f d = (Ret miss, d)"
    and "Database_readDocument n i x d = (Ret (collection_not_found n, x), d)"
proof -
  note r = representsD [OF assms(1)]
  have t: "tables (db_engine d) n = None" using represents_table(1) [OF assms(1,2)] assms(3) by simp
  show w: "with_collection n miss f d = (Ret miss, d)" if "n \<notin> s_used S" for miss :: 'b and f
    using getCollection_live [OF r(1), of n] t r(3) [of n] that by (auto simp: with_collection_def bindM_def returnM_def)
  show "Database_readDocument n i x d = (Ret (collection_not_found n, x), d)"
  proof (cases "map_of (collections d) n")
    case None
    then show ?thesis using w r(3) [of n] by (simp add: Database_readDocument_def)
  next
    case (Some ob)
    have "readDocument n i x (db_engine d) = (Ret (collection_not_found n, x), db_engine d)"
      using readDocument_run [of "db_engine d" n i x] t r(1) by (simp add: working_def stored_def)
    then show ?thesis
      using Some on_object_run [OF r(1) Some, of "\<lambda>n. readDocument n i x"]
      by (simp add: Database_readDocument_def with_collection_def bindM_def getCollection_def on_engine_def)
  qed
qed

text \<open>\<^verbatim>\<open>Database::readDocument\<close> is \<^verbatim>\<open>readDocument\<close> through the pointer.\<close>

lemma perform_ReadFrom:
  assumes "represents d S" "map_of (s_colls S) n = Some A"
  shows "perform_store (ReadFrom n i) d = perform_store (Through n (ReadCall i)) d"
proof -
  have p: "plain_name n" by (rule represents_plain [OF assms(1)]) (simp add: assms(2))
  obtain a d1 where "getCollection n d = (Ret (Some a), d1)"
    using getCollection_live [OF representsD(1) [OF assms(1)], of n] represents_table(1) [OF assms(1) p] assms(2) by auto
  then show ?thesis
    by (auto simp: Database_readDocument_def with_collection_def on_object_def on_engine_def bindM_def returnM_def split: option.split prod.split outcome.split)
qed

lemma getCollectionNames_sorted: "engine_inv e \<Longrightarrow> sorted (getCollectionNames e) \<and> distinct (getCollectionNames e)"
  using engine_invD(2) [of e] by (simp add: getCollectionNames_def om_ok_def strict_sorted_iff sorted_wrt_filter)

lemma represents_names:
  assumes "represents d S"
  shows "Database_getCollectionNames d = filter (\<lambda>n. n \<noteq> ''default'') (map fst (s_colls S))"
proof -
  note r = representsD [OF assms]
  have e: "engine_inv (db_engine d)" using r(1) by (simp add: working_def live_def)
  let ?xs = "filter (\<lambda>n. n \<noteq> ''default'') (map fst (s_colls S))"
  have m: "c \<in> set (getCollectionNames (db_engine d)) \<longleftrightarrow> c \<in> set ?xs" for c
  proof -
    have "map_of (s_colls S) c \<noteq> None" if c: "tables (db_engine d) c \<noteq> None" "find_sub index_delimiter c = None"
    proof -
      obtain n where n: "map_of (s_colls S) n \<noteq> None" "c = n \<or> (\<exists>f. c = index_family n f)" using r(6) c(1) by blast
      then show ?thesis using find_index_family [OF represents_plain [OF assms n(1)]] c(2) by auto
    qed
    moreover have "tables (db_engine d) c \<noteq> None \<and> find_sub index_delimiter c = None" if "map_of (s_colls S) c \<noteq> None"
      using that represents_plain [OF assms that] represents_table(1) [OF assms] plain_no_delimiter by blast
    ultimately show ?thesis
      using mem_columnFamilies [OF e, of c] map_of_eq_None_iff [of "s_colls S" c]
      by (auto simp: getCollectionNames_def default_family_def)
  qed
  have "sorted ?xs" "distinct ?xs" using r(2) by (simp_all add: om_ok_def strict_sorted_iff sorted_wrt_filter)
  then show ?thesis
    unfolding Database_getCollectionNames_def using getCollectionNames_sorted [OF e] m by (intro sorted_distinct_set_unique) auto
qed

lemma map_of_unindexed: "map_of (map (unindexed N) X) n = map_option (\<lambda>A. if n \<in> N then A\<lparr>a_index := []\<rparr> else A) (map_of X n)"
  by (induction X) (auto simp: unindexed_def)

lemma om_ok_unindexed: "om_ok (map (unindexed N) X) = om_ok X"
  by (simp add: om_ok_def unindexed_def comp_def split_def)

lemma represents_reopen:
  assumes "represents d S"
  shows "\<exists>d'. perform_store Reopen d = (fst (a_perform_store Reopen S), d') \<and> represents d' (snd (a_perform_store Reopen S))"
proof -
  note r = representsD [OF assms]
  let ?T = "\<lparr>s_colls = map (unindexed (s_used S)) (s_colls S), s_used = {}\<rparr>"
  obtain d1 d2 where d: "Database_close d = (Ret StatusOK, d1)" "Database_open d1 = (Ret StatusOK, d2)" "working d2" "collections d2 = []"
    "tables (db_engine d2) = (\<lambda>n. if \<exists>c \<in> fst ` set (collections d). index_of_collection c n then None else tables (db_engine d) n)"
    using Database_reopen [OF r(1)] by blast
  have u: "c \<in> fst ` set (collections d) \<longleftrightarrow> c \<in> s_used S" for c using r(3) [of c] map_of_eq_None_iff [of "collections d" c] by simp
  have ix: "index_of_collection c n \<longleftrightarrow> (\<exists>f. n = index_family c f)" if "c \<in> s_used S" for c n
    by (rule index_of_collection_plain [OF r(4) [OF that]])
  have "(\<exists>c \<in> fst ` set (collections d). index_of_collection c n) \<longleftrightarrow> (\<exists>c \<in> s_used S. \<exists>f. n = index_family c f)" for n
    using u ix by blast
  then have t: "tables (db_engine d2) n = (if \<exists>c \<in> s_used S. \<exists>f. n = index_family c f then None else tables (db_engine d) n)" for n
    by (simp add: d(5))
  have tn: "tables (db_engine d2) n = tables (db_engine d) n" if "plain_name n" for n
    using that r(4) index_family_not_plain by (auto simp: t)
  have ti: "tables (db_engine d2) (index_family n f) = (if n \<in> s_used S then None else tables (db_engine d) (index_family n f))"
    if "plain_name n" for n f
    using that r(4) by (auto simp: t plain_family_inject)
  have "represents d2 ?T"
  proof (rule representsI)
    show "implements (db_engine d2) n B" if "map_of (s_colls ?T) n = Some B" for n B
    proof -
      obtain A where A: "map_of (s_colls S) n = Some A" "B = (if n \<in> s_used S then A\<lparr>a_index := []\<rparr> else A)"
        using \<open>map_of (s_colls ?T) n = Some B\<close> by (auto simp: map_of_unindexed)
      note i = implementsD [OF r(5) [OF A(1)]]
      have l: "live (db_engine d2)" using d(3) by (simp add: working_def)
      show ?thesis
      proof (cases "n \<in> s_used S")
        case True
        obtain m where m: "tables (db_engine d) n = Some m" "list_all2 decodes m (a_docs A)" using i(6) by blast
        show ?thesis
          by (rule implementsI [OF l i(3), where m = m]) (use True A(2) i(3,4) m tn ti in \<open>simp_all add: om_ok_def\<close>)
      next
        case False
        then show ?thesis
          unfolding A(2) using implements_cong [OF r(5) [OF A(1)] l] tn [OF i(3)] ti [OF i(3)] by simp
      qed
    qed
    show "\<exists>n. map_of (s_colls ?T) n \<noteq> None \<and> (c = n \<or> (\<exists>f. c = index_family n f))" if "tables (db_engine d2) c \<noteq> None" for c
      using that r(6) [of c] by (auto simp: t map_of_unindexed split: if_splits)
  qed (use d(3,4) r(2) in \<open>simp_all add: om_ok_unindexed\<close>)
  then show ?thesis using d(1,2) by (simp add: bindM_def returnM_def)
qed

lemma perform_store_refines:
  assumes "represents d S" "store_allowed S c"
  shows "\<exists>d'. perform_store c d = (fst (a_perform_store c S), d') \<and> represents d' (snd (a_perform_store c S))"
proof (cases c)
  case (CreateCollection n)
  then show ?thesis using represents_create [OF assms(1), of n] assms(2) by simp
next
  case (DropCollection n)
  then obtain A where "map_of (s_colls S) n = Some A" "n \<noteq> ''default''" using assms(2) by auto
  then show ?thesis using represents_drop [OF assms(1)] DropCollection by simp
next
  case CollectionNames
  then show ?thesis using represents_names [OF assms(1)] assms(1) by (simp add: bindM_def getM_def returnM_def)
next
  case (Through n c')
  then show ?thesis
    using represents_absent(1) [OF assms(1), of n NoCollection] represents_through [OF assms(1), of n _ c'] assms
    by (cases "map_of (s_colls S) n") simp_all
next
  case (ReadFrom n i)
  show ?thesis
  proof (cases "map_of (s_colls S) n")
    case None
    then show ?thesis
      using represents_absent(2) [OF assms(1), of n i empty_document] assms by (simp add: ReadFrom bindM_def returnM_def)
  next
    case (Some A)
    then show ?thesis
      unfolding ReadFrom perform_ReadFrom [OF assms(1) Some] using represents_through [OF assms(1) Some, of "ReadCall i"] by simp
  qed
next
  case Reopen
  then show ?thesis using represents_reopen [OF assms(1)] by simp
qed

interpretation db: simulation represents store_allowed perform_store a_perform_store
  by unfold_locales (rule perform_store_refines)

section \<open>The database refines its specification\<close>

text \<open>C1: Any sequence of calls, on any of the collections of a newly opened database on a working store, gets the answers
  that the abstract store gives: collections with plain names do not disturb each other, whatever is called on one
  of them; a dropped collection is created again empty and without indexes; closing and opening keep every document
  and lose the indexes of the collections that were in use. The database ends representing the abstract store.\<close>

theorem database_refines:
  assumes "Database_open (Database_new new_engine fs) = (Ret s, d)" "all_allowed store_allowed a_perform_store s_new cs"
  shows "\<exists>d'. calls perform_store cs d = (fst (calls a_perform_store cs s_new), d') \<and> represents d' (snd (calls a_perform_store cs s_new))"
proof (rule db.run [OF represents_new assms(2)])
  show "working d" "collections d = []" "tables (db_engine d) = [default_family \<mapsto> []]"
    using assms(1) opened_engine
    by (auto simp: Database_open_def Database_new_def bindM_def modifyM_def on_engine_def working_def live_def objects_ok_def)
qed

text \<open>Two collections with documents of the same identifier. One is dropped and created again; the database is closed and
  opened, after which the query finds nothing until the index is created again.\<close>

definition store_calls :: "store_call list" where
  "store_calls = [CreateCollection ''users'', CreateCollection ''orders'', CreateCollection ''users'',
     Through ''users'' (IndexCall ''age''), Through ''users'' (CreateCall 0 [] sample), Through ''orders'' (CreateCall 0 [] sample),
     Through ''users'' (FindCall (Compare Equal ''age'' (JInteger 5))), DropCollection ''orders'', CollectionNames,
     ReadFrom ''orders'' ''d1'', CreateCollection ''orders'', ReadFrom ''orders'' ''d1'', Reopen, CollectionNames,
     Through ''users'' (FindCall (Compare Equal ''age'' (JInteger 5))), Through ''users'' (IndexCall ''age''),
     Through ''users'' (FindCall (Compare Equal ''age'' (JInteger 5))), Through ''bills'' (ReadCall ''d1'')]"

definition store_answers :: "store_answer list" where
  "store_answers = (let d = a_doc ''d1'' (JObject [(''_id'', JString ''d1''), (''age'', JInteger 5)]) in
     [Reported StatusOK, Reported StatusOK, Reported (InvalidArgument ''Collection already exists: users''),
     Answered (Done StatusOK), Answered (Stored StatusOK d), Answered (Stored StatusOK d),
     Answered (Identifiers [''d1'']), Reported StatusOK, Names [''users''],
     Answered (Stored (collection_not_found ''orders'') empty_document), Reported StatusOK,
     Answered (Stored (missing ''d1'') empty_document), Reported StatusOK, Names [''orders'', ''users''],
     Answered (Identifiers []), Answered (Done StatusOK), Answered (Identifiers [''d1'']), NoCollection])"

lemma store_plain: "plain_name ''orders''" "plain_name ''users''" "plain_name ''bills''"
  by code_simp+

lemmas store_simps = store_calls_def store_answers_def s_new_def s_through_def unindexed_def a_createIndex_def

lemma store_run: "fst (calls a_perform_store store_calls s_new) = Ret store_answers"
  by (simp add: store_simps example_simps)

lemma store_may: "all_allowed store_allowed a_perform_store s_new store_calls"
  by (simp add: store_simps example_simps fits_def storable_def om_ok_def can_index_def indexable_def scalar_def store_plain)

theorem database_refines_witness:
  "\<exists>d d'. Database_open (Database_new new_engine sample_files) = (Ret StatusOK, d) \<and> calls perform_store store_calls d = (Ret store_answers, d')"
proof -
  let ?d = "snd (Database_open (Database_new new_engine sample_files))"
  have "Database_open (Database_new new_engine sample_files) = (Ret StatusOK, ?d)"
    using opened_engine(1) by (simp add: Database_open_def Database_new_def bindM_def modifyM_def on_engine_def)
  from this database_refines [OF this store_may] show ?thesis unfolding store_run by blast
qed

end
