(* ===== verification/Anu_Lexer.thy ===== *)
theory Anu_Lexer
  imports Anu_Json
begin

unbundle bit_operations_syntax

text \<open>
  The lexer of \<^verbatim>\<open>json.hpp\<close>, as it is written: a state with the character read last, one character that can be put
  back, the position, and two buffers, the value of a token and its text for messages. The input is a string of bytes; no
  current character is the end of the file. \<^verbatim>\<open>strtod\<close> of the standard library is an argument; the locale is the one a program
  starts with, so that the decimal point is a point.
\<close>

text \<open>\<^verbatim>\<open>std::isfinite\<close>: infinities and NaN have all bits of the exponent set.\<close>

definition isfinite :: "double \<Rightarrow> bool" where
  "isfinite d = (unat d mod 2 ^ 63 div 2 ^ 52 \<noteq> 2047)"

section \<open>State\<close>

record lexer =
  lx_input :: string
  lx_current :: "char option"
  lx_unget :: bool
  lx_total :: nat
  lx_column :: nat
  lx_lines :: nat
  lx_token :: string
  lx_buffer :: string
  lx_error :: string

datatype token =
    LiteralTrue
  | LiteralFalse
  | LiteralNull
  | ValueString string
  | ValueUnsigned "64 word"
  | ValueInteger "64 word"
  | ValueFloat double
  | BeginArray
  | BeginObject
  | EndArray
  | EndObject
  | NameSeparator
  | ValueSeparator
  | ParseError
  | EndOfInput

definition lexer_new :: "string \<Rightarrow> lexer" where
  "lexer_new s = \<lparr>lx_input = s, lx_current = None, lx_unget = False, lx_total = 0, lx_column = 0, lx_lines = 0,
     lx_token = [], lx_buffer = [], lx_error = []\<rparr>"

text \<open>The names of tokens in messages.\<close>

fun token_type_name :: "token \<Rightarrow> string" where
  "token_type_name LiteralTrue = ''true literal''"
| "token_type_name LiteralFalse = ''false literal''"
| "token_type_name LiteralNull = ''null literal''"
| "token_type_name (ValueString _) = ''string literal''"
| "token_type_name (ValueUnsigned _) = ''number literal''"
| "token_type_name (ValueInteger _) = ''number literal''"
| "token_type_name (ValueFloat _) = ''number literal''"
| "token_type_name BeginArray = [CHR 0x27, CHR ''['', CHR 0x27]"
| "token_type_name BeginObject = [CHR 0x27, CHR ''{'', CHR 0x27]"
| "token_type_name EndArray = [CHR 0x27, CHR '']'', CHR 0x27]"
| "token_type_name EndObject = [CHR 0x27, CHR ''}'', CHR 0x27]"
| "token_type_name NameSeparator = [CHR 0x27, CHR '':'', CHR 0x27]"
| "token_type_name ValueSeparator = [CHR 0x27, CHR '','', CHR 0x27]"
| "token_type_name ParseError = ''<parse error>''"
| "token_type_name EndOfInput = ''end of input''"

section \<open>Reading and putting back\<close>

definition push_current :: "lexer \<Rightarrow> lexer" where
  "push_current l = (case lx_current l of None \<Rightarrow> l | Some c \<Rightarrow> l\<lparr>lx_token := lx_token l @ [c]\<rparr>)"

definition next_char :: "lexer \<Rightarrow> lexer" where
  "next_char l = (if lx_unget l then l\<lparr>lx_unget := False\<rparr>
     else case lx_input l of [] \<Rightarrow> l\<lparr>lx_current := None\<rparr> | c # s \<Rightarrow> l\<lparr>lx_current := Some c, lx_input := s\<rparr>)"

definition lx_get :: "lexer \<Rightarrow> lexer" where
  "lx_get l =
     (let l1 = push_current (next_char (l\<lparr>lx_total := Suc (lx_total l), lx_column := Suc (lx_column l)\<rparr>)) in
      if lx_current l1 = Some CHR 0x0A then l1\<lparr>lx_lines := Suc (lx_lines l1), lx_column := 0\<rparr> else l1)"

definition lx_unget_char :: "lexer \<Rightarrow> lexer" where
  "lx_unget_char l =
     (let l1 = l\<lparr>lx_unget := True, lx_total := lx_total l - 1\<rparr>;
          l2 = (if lx_column l1 = 0 then l1\<lparr>lx_lines := lx_lines l1 - 1\<rparr> else l1\<lparr>lx_column := lx_column l1 - 1\<rparr>) in
      if lx_current l2 = None then l2 else l2\<lparr>lx_token := butlast (lx_token l2)\<rparr>)"

definition lx_add :: "char \<Rightarrow> lexer \<Rightarrow> lexer" where
  "lx_add c l = l\<lparr>lx_buffer := lx_buffer l @ [c]\<rparr>"

definition lx_add_current :: "lexer \<Rightarrow> lexer" where
  "lx_add_current l = (case lx_current l of None \<Rightarrow> l | Some c \<Rightarrow> lx_add c l)"

definition lx_reset :: "lexer \<Rightarrow> lexer" where
  "lx_reset l = push_current (l\<lparr>lx_buffer := [], lx_token := []\<rparr>)"

definition lx_fail :: "string \<Rightarrow> lexer \<Rightarrow> token \<times> lexer" where
  "lx_fail m l = (ParseError, l\<lparr>lx_error := m\<rparr>)"

text \<open>What is left to read.\<close>

definition lx_left :: "lexer \<Rightarrow> string" where
  "lx_left l = (if lx_unget l then (case lx_current l of None \<Rightarrow> [] | Some c \<Rightarrow> c # lx_input l) else lx_input l)"

lemma lx_get_left:
  "lx_left l = c # s \<Longrightarrow> lx_current (lx_get l) = Some c \<and> lx_left (lx_get l) = s \<and> \<not> lx_unget (lx_get l)"
  by (auto simp: lx_left_def lx_get_def next_char_def push_current_def Let_def split: if_splits option.splits list.splits)

lemma lx_get_end: "lx_left l = [] \<Longrightarrow> lx_current (lx_get l) = None"
  by (auto simp: lx_left_def lx_get_def next_char_def push_current_def Let_def split: if_splits option.splits list.splits)

section \<open>Strings\<close>

definition hex_upper :: "nat \<Rightarrow> char" where
  "hex_upper n = char_of (if n < 10 then 48 + n else 55 + n)"

definition hex_value :: "char \<Rightarrow> nat option" where
  "hex_value c = (let n = of_char c in
     if 48 \<le> n \<and> n \<le> 57 then Some (n - 0x30)
     else if 65 \<le> n \<and> n \<le> 70 then Some (n - 0x37)
     else if 97 \<le> n \<and> n \<le> 102 then Some (n - 0x57)
     else None)"

text \<open>The four hexadecimal digits after \<^verbatim>\<open>\u\<close>; \<open>None\<close> is the result \<open>-1\<close>.\<close>

fun codepoint_digits :: "nat list \<Rightarrow> nat \<Rightarrow> lexer \<Rightarrow> nat option \<times> lexer" where
  "codepoint_digits [] codepoint l = (Some codepoint, l)"
| "codepoint_digits (factor # fs) codepoint l =
     (let l1 = lx_get l in
      case Option.bind (lx_current l1) hex_value of
        None \<Rightarrow> (None, l1)
      | Some d \<Rightarrow> codepoint_digits fs (codepoint + push_bit factor d) l1)"

definition get_codepoint :: "lexer \<Rightarrow> nat option \<times> lexer" where
  "get_codepoint = codepoint_digits [12, 8, 4, 0] 0"

definition codepoint_bytes :: "nat \<Rightarrow> string" where
  "codepoint_bytes cp =
     (if cp < 0x80 then [char_of cp]
      else if cp \<le> 0x7FF then [char_of (0xC0 OR drop_bit 6 cp), char_of (0x80 OR (cp AND 0x3F))]
      else if cp \<le> 0xFFFF then
        [char_of (0xE0 OR drop_bit 12 cp), char_of (0x80 OR (drop_bit 6 cp AND 0x3F)), char_of (0x80 OR (cp AND 0x3F))]
      else
        [char_of (0xF0 OR drop_bit 18 cp), char_of (0x80 OR (drop_bit 12 cp AND 0x3F)),
         char_of (0x80 OR (drop_bit 6 cp AND 0x3F)), char_of (0x80 OR (cp AND 0x3F))])"

definition hex_message :: string where
  "hex_message = ''invalid string: '' @ [CHR 0x27, CHR 0x5C, CHR ''u'', CHR 0x27] @ '' must be followed by 4 hex digits''"

definition high_message :: string where
  "high_message = ''invalid string: surrogate U+D800..U+DBFF must be followed by U+DC00..U+DFFF''"

definition low_message :: string where
  "low_message = ''invalid string: surrogate U+DC00..U+DFFF must follow U+D800..U+DBFF''"

text \<open>The second half of a surrogate pair: \<^verbatim>\<open>get() == '\\' && get() == 'u'\<close>, then its digits.\<close>

definition scan_surrogate :: "nat \<Rightarrow> lexer \<Rightarrow> (string + nat) \<times> lexer" where
  "scan_surrogate cp1 l =
     (let l1 = lx_get l in
      if lx_current l1 \<noteq> Some CHR 0x5C then (Inl high_message, l1)
      else let l2 = lx_get l1 in
      if lx_current l2 \<noteq> Some CHR ''u'' then (Inl high_message, l2)
      else case get_codepoint l2 of
          (None, l3) \<Rightarrow> (Inl hex_message, l3)
        | (Some cp2, l3) \<Rightarrow>
            if 0xDC00 \<le> cp2 \<and> cp2 \<le> 0xDFFF then (Inr (push_bit 10 cp1 + cp2 - 0x35FDC00), l3)
            else (Inl high_message, l3))"

definition scan_unicode :: "lexer \<Rightarrow> (string + nat) \<times> lexer" where
  "scan_unicode l =
     (case get_codepoint l of
        (None, l1) \<Rightarrow> (Inl hex_message, l1)
      | (Some cp1, l1) \<Rightarrow>
          if 0xD800 \<le> cp1 \<and> cp1 \<le> 0xDBFF then scan_surrogate cp1 l1
          else if 0xDC00 \<le> cp1 \<and> cp1 \<le> 0xDFFF then (Inl low_message, l1)
          else (Inr cp1, l1))"

text \<open>The character after a backslash.\<close>

fun simple_escape :: "char \<Rightarrow> char option" where
  "simple_escape c =
     (if c = CHR 0x22 then Some CHR 0x22
      else if c = CHR 0x5C then Some CHR 0x5C
      else if c = CHR ''/'' then Some CHR ''/''
      else if c = CHR ''b'' then Some CHR 0x08
      else if c = CHR ''f'' then Some CHR 0x0C
      else if c = CHR ''n'' then Some CHR 0x0A
      else if c = CHR ''r'' then Some CHR 0x0D
      else if c = CHR ''t'' then Some CHR 0x09
      else None)"

definition scan_escape :: "lexer \<Rightarrow> string option \<times> lexer" where
  "scan_escape l =
     (let l1 = lx_get l in
      case lx_current l1 of
        None \<Rightarrow> (Some ''invalid string: forbidden character after backslash'', l1)
      | Some c \<Rightarrow>
          (case simple_escape c of
             Some d \<Rightarrow> (None, lx_add d l1)
           | None \<Rightarrow>
               if c \<noteq> CHR ''u'' then (Some ''invalid string: forbidden character after backslash'', l1)
               else (case scan_unicode l1 of
                   (Inl m, l2) \<Rightarrow> (Some m, l2)
                 | (Inr cp, l2) \<Rightarrow> (None, fold lx_add (codepoint_bytes cp) l2))))"

text \<open>The bytes of a character that follow its first byte, each in a range of its own.\<close>

fun next_byte_in_range :: "(nat \<times> nat) list \<Rightarrow> lexer \<Rightarrow> bool \<times> lexer" where
  "next_byte_in_range [] l = (True, l)"
| "next_byte_in_range ((lo, hi) # ranges) l =
     (let l1 = lx_get l in
      case lx_current l1 of
        None \<Rightarrow> (False, l1)
      | Some c \<Rightarrow> if lo \<le> of_char c \<and> of_char c \<le> hi then next_byte_in_range ranges (lx_add c l1) else (False, l1))"

definition byte_ranges :: "nat \<Rightarrow> (nat \<times> nat) list option" where
  "byte_ranges n =
     (if 0x20 \<le> n \<and> n \<le> 0x7F then Some []
      else if 0xC2 \<le> n \<and> n \<le> 0xDF then Some [(0x80, 0xBF)]
      else if n = 0xE0 then Some [(0xA0, 0xBF), (0x80, 0xBF)]
      else if 0xE1 \<le> n \<and> n \<le> 0xEC \<or> n = 0xEE \<or> n = 0xEF then Some [(0x80, 0xBF), (0x80, 0xBF)]
      else if n = 0xED then Some [(0x80, 0x9F), (0x80, 0xBF)]
      else if n = 0xF0 then Some [(0x90, 0xBF), (0x80, 0xBF), (0x80, 0xBF)]
      else if 0xF1 \<le> n \<and> n \<le> 0xF3 then Some [(0x80, 0xBF), (0x80, 0xBF), (0x80, 0xBF)]
      else if n = 0xF4 then Some [(0x80, 0x8F), (0x80, 0xBF), (0x80, 0xBF)]
      else None)"

definition control_names :: "string list" where
  "control_names = [''NUL'', ''SOH'', ''STX'', ''ETX'', ''EOT'', ''ENQ'', ''ACK'', ''BEL'', ''BS'', ''HT'', ''LF'', ''VT'', ''FF'', ''CR'',
     ''SO'', ''SI'', ''DLE'', ''DC1'', ''DC2'', ''DC3'', ''DC4'', ''NAK'', ''SYN'', ''ETB'', ''CAN'', ''EM'', ''SUB'', ''ESC'',
     ''FS'', ''GS'', ''RS'', ''US'']"

definition control_message :: "nat \<Rightarrow> string" where
  "control_message n =
     (let code = ''00'' @ [hex_upper (n div 16), hex_upper (n mod 16)] in
      ''invalid string: control character U+'' @ code @ '' ('' @ control_names ! n @ '') must be escaped to '' @ [CHR 0x5C, CHR ''u''] @ code @
      (case map_of [(8, CHR ''b''), (9, CHR ''t''), (10, CHR ''n''), (12, CHR ''f''), (13, CHR ''r'')] n of
         None \<Rightarrow> [] | Some c \<Rightarrow> '' or '' @ [CHR 0x5C, c]))"

text \<open>One round of the loop of \<^verbatim>\<open>scan_string\<close>; no token means that it goes on.\<close>

definition string_round :: "lexer \<Rightarrow> token option \<times> lexer" where
  "string_round l =
     (let l1 = lx_get l in
      case lx_current l1 of
        None \<Rightarrow> map_prod Some id (lx_fail ''invalid string: missing closing quote'' l1)
      | Some c \<Rightarrow>
          if c = CHR 0x22 then (Some (ValueString (lx_buffer l1)), l1)
          else if c = CHR 0x5C then (case scan_escape l1 of
              (Some m, l2) \<Rightarrow> map_prod Some id (lx_fail m l2)
            | (None, l2) \<Rightarrow> (None, l2))
          else if of_char c \<le> (0x1F :: nat) then map_prod Some id (lx_fail (control_message (of_char c)) l1)
          else (case byte_ranges (of_char c) of
              None \<Rightarrow> map_prod Some id (lx_fail ''invalid string: ill-formed UTF-8 byte'' l1)
            | Some ranges \<Rightarrow> (case next_byte_in_range ranges (lx_add c l1) of
                (True, l2) \<Rightarrow> (None, l2)
              | (False, l2) \<Rightarrow> map_prod Some id (lx_fail ''invalid string: ill-formed UTF-8 byte'' l2))))"

text \<open>Every operation reads: what is left becomes less.\<close>

definition lx_size :: "lexer \<Rightarrow> nat" where
  "lx_size l = length (lx_input l) + (if lx_unget l \<and> lx_current l \<noteq> None then 1 else 0)"

lemma lx_size_get: "lx_size (lx_get l) \<le> lx_size l" "lx_current (lx_get l) \<noteq> None \<Longrightarrow> lx_size (lx_get l) < lx_size l"
  by (auto simp: lx_size_def lx_get_def next_char_def push_current_def Let_def split: list.splits option.splits if_splits)

lemma lx_size_simps [simp]:
  "lx_size (lx_add c l) = lx_size l" "lx_size (l\<lparr>lx_error := m\<rparr>) = lx_size l" "lx_size (snd (lx_fail m l)) = lx_size l"
  by (simp_all add: lx_size_def lx_add_def lx_fail_def)

lemma lx_size_adds [simp]: "lx_size (fold lx_add cs l) = lx_size l"
  by (induction cs arbitrary: l) simp_all

lemma lx_size_codepoint: "codepoint_digits fs n l = (r, l') \<Longrightarrow> lx_size l' \<le> lx_size l"
  by (induction fs n l rule: codepoint_digits.induct)
    (auto simp: Let_def split: option.splits intro: le_trans [OF _ lx_size_get(1)] lx_size_get(1))

lemma lx_size_get_codepoint: "get_codepoint l = (r, l') \<Longrightarrow> lx_size l' \<le> lx_size l"
  unfolding get_codepoint_def by (rule lx_size_codepoint)

lemma lx_size_surrogate: "scan_surrogate n l = (r, l') \<Longrightarrow> lx_size l' \<le> lx_size l"
  using lx_size_get(1) [of l] lx_size_get(1) [of "lx_get l"]
  by (auto simp: scan_surrogate_def Let_def dest!: lx_size_get_codepoint split: if_splits prod.splits option.splits)

lemma lx_size_unicode: "scan_unicode l = (r, l') \<Longrightarrow> lx_size l' \<le> lx_size l"
  by (auto simp: scan_unicode_def dest!: lx_size_get_codepoint lx_size_surrogate split: if_splits prod.splits option.splits)

lemma lx_size_escape: "scan_escape l = (r, l') \<Longrightarrow> lx_size l' \<le> lx_size l"
  using lx_size_get(1) [of l]
  by (auto simp: scan_escape_def Let_def dest!: lx_size_unicode split: if_splits prod.splits option.splits sum.splits)

lemma lx_size_range: "next_byte_in_range rs l = (r, l') \<Longrightarrow> lx_size l' \<le> lx_size l"
  by (induction rs l rule: next_byte_in_range.induct)
    (auto simp: Let_def split: option.splits if_splits intro: le_trans [OF _ lx_size_get(1)] lx_size_get(1))

lemma string_round_size: "string_round l = (None, l') \<Longrightarrow> lx_size l' < lx_size l"
  using lx_size_get [of l]
  by (auto simp: string_round_def Let_def lx_fail_def dest!: lx_size_escape lx_size_range split: if_splits prod.splits option.splits bool.splits)

function scan_string_loop :: "lexer \<Rightarrow> token \<times> lexer" where
  "scan_string_loop l = (case string_round l of (Some t, l') \<Rightarrow> (t, l') | (None, l') \<Rightarrow> scan_string_loop l')"
  by pat_completeness auto

termination
  by (relation "measure lx_size") (auto simp: string_round_size)

declare scan_string_loop.simps [simp del]

definition scan_string :: "lexer \<Rightarrow> token \<times> lexer" where
  "scan_string l = scan_string_loop (lx_reset l)"

section \<open>Numbers\<close>

definition json_digit :: "char option \<Rightarrow> bool" where
  "json_digit c = (case c of None \<Rightarrow> False | Some d \<Rightarrow> 48 \<le> (of_char d :: nat) \<and> (of_char d :: nat) \<le> 57)"

text \<open>The labels \<^verbatim>\<open>scan_number_minus\<close> to \<^verbatim>\<open>scan_number_any2\<close> and the type of the number so far.\<close>

datatype number_state = InMinus | InZero | InAny1 | InDecimal1 | InDecimal2 | InExponent | InSign | InAny2

datatype number_type = UnsignedNumber | IntegerNumber | FloatNumber

datatype number_label = GoTo number_state | NumberDone | NumberError string

definition exponent_char :: "char option \<Rightarrow> bool" where
  "exponent_char c = (c = Some CHR ''e'' \<or> c = Some CHR ''E'')"

fun number_move :: "number_state \<Rightarrow> char option \<Rightarrow> number_label" where
  "number_move InMinus c =
     (if c = Some CHR ''0'' then GoTo InZero else if json_digit c then GoTo InAny1
      else NumberError (''invalid number; expected digit after '' @ [CHR 0x27, CHR ''-'', CHR 0x27]))"
| "number_move InZero c =
     (if c = Some CHR ''.'' then GoTo InDecimal1 else if exponent_char c then GoTo InExponent else NumberDone)"
| "number_move InAny1 c =
     (if json_digit c then GoTo InAny1 else if c = Some CHR ''.'' then GoTo InDecimal1
      else if exponent_char c then GoTo InExponent else NumberDone)"
| "number_move InDecimal1 c =
     (if json_digit c then GoTo InDecimal2 else NumberError (''invalid number; expected digit after '' @ [CHR 0x27, CHR ''.'', CHR 0x27]))"
| "number_move InDecimal2 c =
     (if json_digit c then GoTo InDecimal2 else if exponent_char c then GoTo InExponent else NumberDone)"
| "number_move InExponent c =
     (if c = Some CHR ''+'' \<or> c = Some CHR ''-'' then GoTo InSign else if json_digit c then GoTo InAny2
      else NumberError (''invalid number; expected '' @ [CHR 0x27, CHR ''+'', CHR 0x27] @ '', '' @ [CHR 0x27, CHR ''-'', CHR 0x27] @
        '', or digit after exponent''))"
| "number_move InSign c =
     (if json_digit c then GoTo InAny2 else NumberError ''invalid number; expected digit after exponent sign'')"
| "number_move InAny2 c = (if json_digit c then GoTo InAny2 else NumberDone)"

fun number_type_at :: "number_state \<Rightarrow> number_type \<Rightarrow> number_type" where
  "number_type_at InMinus t = IntegerNumber"
| "number_type_at InDecimal1 t = FloatNumber"
| "number_type_at InExponent t = FloatNumber"
| "number_type_at _ t = t"

text \<open>\<^verbatim>\<open>strtoull\<close> and \<^verbatim>\<open>strtoll\<close> on the digits of a number; \<open>None\<close> when they set \<^verbatim>\<open>errno\<close>.\<close>

fun decimal_value :: "nat \<Rightarrow> string \<Rightarrow> nat" where
  "decimal_value n [] = n"
| "decimal_value n (c # cs) = decimal_value (10 * n + (of_char c - 48)) cs"

definition strtoull :: "string \<Rightarrow> 64 word option" where
  "strtoull s = (let n = decimal_value 0 s in if n < 2 ^ 64 then Some (word_of_nat n) else None)"

definition strtoll :: "string \<Rightarrow> 64 word option" where
  "strtoll s = (let n = decimal_value 0 (tl s) in if n \<le> 2 ^ 63 then Some (- word_of_nat n) else None)"

text \<open>The end of \<^verbatim>\<open>scan_number\<close>: a number of digits that fits is an integer, every other is a \<^verbatim>\<open>double\<close>. The type
  \<open>IntegerNumber\<close> has a minus sign.\<close>

definition finish_number :: "(string \<Rightarrow> double) \<Rightarrow> number_type \<Rightarrow> lexer \<Rightarrow> token \<times> lexer" where
  "finish_number strtod t l =
     (let l1 = lx_unget_char l; s = lx_buffer l1; r = (case t of
            UnsignedNumber \<Rightarrow> map_option ValueUnsigned (strtoull s)
          | IntegerNumber \<Rightarrow> map_option ValueInteger (strtoll s)
          | FloatNumber \<Rightarrow> None) in
      (case r of Some token \<Rightarrow> token | None \<Rightarrow> ValueFloat (strtod s), l1))"

lemma number_move_end [simp]: "number_move s None \<noteq> GoTo s'"
  by (cases s) (simp_all add: json_digit_def exponent_char_def)

lemma lx_size_add_current [simp]: "lx_size (lx_add_current l) = lx_size l"
  by (simp add: lx_add_current_def split: option.split)

lemma number_move_size: "number_move s (lx_current (lx_get l)) = GoTo s1 \<Longrightarrow> lx_size (lx_get l) < lx_size l"
  by (rule lx_size_get(2)) (metis number_move_end)

function scan_number_from :: "(string \<Rightarrow> double) \<Rightarrow> number_state \<Rightarrow> number_type \<Rightarrow> lexer \<Rightarrow> token \<times> lexer" where
  "scan_number_from strtod s t l =
     (let t1 = number_type_at s t; l1 = lx_get l in
      case number_move s (lx_current l1) of
        GoTo s1 \<Rightarrow> scan_number_from strtod s1 t1 (lx_add_current l1)
      | NumberDone \<Rightarrow> finish_number strtod t1 l1
      | NumberError m \<Rightarrow> lx_fail m l1)"
  by pat_completeness auto

termination
  by (relation "measure (\<lambda>(strtod, s, t, l). lx_size l)") (simp_all add: number_move_size)

declare scan_number_from.simps [simp del]

text \<open>The current character is a minus sign or a digit.\<close>

definition scan_number :: "(string \<Rightarrow> double) \<Rightarrow> lexer \<Rightarrow> token \<times> lexer" where
  "scan_number strtod l =
     (let l1 = lx_add_current (lx_reset l) in
      scan_number_from strtod (if lx_current l = Some CHR ''-'' then InMinus else if lx_current l = Some CHR ''0'' then InZero else InAny1)
        UnsignedNumber l1)"

section \<open>Tokens\<close>

text \<open>The rest of a literal, whose first character is the current one.\<close>

fun scan_literal :: "string \<Rightarrow> token \<Rightarrow> lexer \<Rightarrow> token \<times> lexer" where
  "scan_literal [] t l = (t, l)"
| "scan_literal (c # cs) t l =
     (let l1 = lx_get l in if lx_current l1 \<noteq> Some c then lx_fail ''invalid literal'' l1 else scan_literal cs t l1)"

definition skip_bom :: "lexer \<Rightarrow> bool \<times> lexer" where
  "skip_bom l =
     (let l1 = lx_get l in
      if lx_current l1 = Some CHR 0xEF then
        (let l2 = lx_get l1 in
         if lx_current l2 \<noteq> Some CHR 0xBB then (False, l2)
         else let l3 = lx_get l2 in (lx_current l3 = Some CHR 0xBF, l3))
      else (True, lx_unget_char l1))"

definition json_space :: "char \<Rightarrow> bool" where
  "json_space c = (c = CHR '' '' \<or> c = CHR 0x09 \<or> c = CHR 0x0A \<or> c = CHR 0x0D)"

function skip_whitespace :: "lexer \<Rightarrow> lexer" where
  "skip_whitespace l =
     (let l1 = lx_get l in case lx_current l1 of None \<Rightarrow> l1 | Some c \<Rightarrow> if json_space c then skip_whitespace l1 else l1)"
  by pat_completeness auto

termination
  by (relation "measure lx_size") (auto simp: lx_size_get(2))

declare skip_whitespace.simps [simp del]

text \<open>Comments are not skipped: nothing in the program asks for it.\<close>

definition scan_token :: "(string \<Rightarrow> double) \<Rightarrow> lexer \<Rightarrow> token \<times> lexer" where
  "scan_token strtod l =
     (case lx_current l of
        None \<Rightarrow> (EndOfInput, l)
      | Some c \<Rightarrow>
          if c = CHR ''['' then (BeginArray, l)
          else if c = CHR '']'' then (EndArray, l)
          else if c = CHR ''{'' then (BeginObject, l)
          else if c = CHR ''}'' then (EndObject, l)
          else if c = CHR '':'' then (NameSeparator, l)
          else if c = CHR '','' then (ValueSeparator, l)
          else if c = CHR ''t'' then scan_literal ''rue'' LiteralTrue l
          else if c = CHR ''f'' then scan_literal ''alse'' LiteralFalse l
          else if c = CHR ''n'' then scan_literal ''ull'' LiteralNull l
          else if c = CHR 0x22 then scan_string l
          else if c = CHR ''-'' \<or> json_digit (Some c) then scan_number strtod l
          else if c = CHR 0x00 then (EndOfInput, l)
          else lx_fail ''invalid literal'' l)"

definition scan :: "(string \<Rightarrow> double) \<Rightarrow> lexer \<Rightarrow> token \<times> lexer" where
  "scan strtod l =
     (case (if lx_total l = 0 then skip_bom l else (True, l)) of
        (False, l1) \<Rightarrow> lx_fail ''invalid BOM; must be 0xEF 0xBB 0xBF if given'' l1
      | (True, l1) \<Rightarrow> scan_token strtod (skip_whitespace l1))"

text \<open>The text of the last token, for messages.\<close>

definition get_token_string :: "lexer \<Rightarrow> string" where
  "get_token_string l = concat (map (\<lambda>c.
     if of_char c \<le> (0x1F :: nat) then ''<U+00'' @ [hex_upper (of_char c div 16), hex_upper (of_char c mod 16), CHR ''>''] else [c]) (lx_token l))"

end
