(* ===== verification/Anu_Parser.thy ===== *)
theory Anu_Parser
  imports Anu_Lexer
begin

text \<open>
  The parser of \<^verbatim>\<open>json.hpp\<close>: the loop of \<^verbatim>\<open>sax_parse_internal\<close> over the tokens of the lexer, with the values
  \<^verbatim>\<open>json_sax_dom_parser\<close> builds. The stack \<^verbatim>\<open>states\<close> and the stack of values under construction have the same height and are
  one stack: an array with its elements so far, or an object with its entries so far and the key that awaits a value.
\<close>

section \<open>Rounds of the loop\<close>

datatype frame =
    InArray "json list"
  | InObject jobject string

text \<open>At the start of a round a token has been read, or (\<^verbatim>\<open>skip_to_state_evaluation\<close>) a container is complete.\<close>

datatype parse_mode =
    AtToken token
  | Complete json

datatype parse_move =
    NextRound parse_mode lexer "frame list"
  | Parsed json lexer
  | ParseThrow exn

definition exception_message :: "token \<Rightarrow> token option \<Rightarrow> string \<Rightarrow> lexer \<Rightarrow> string" where
  "exception_message last_token expected ctxt l =
     ''syntax error while parsing '' @ ctxt @ '' - '' @
     (if last_token = ParseError then lx_error l @ ''; last read: '' @ [CHR 0x27] @ get_token_string l @ [CHR 0x27]
      else ''unexpected '' @ token_type_name last_token) @
     (case expected of None \<Rightarrow> [] | Some t \<Rightarrow> ''; expected '' @ token_type_name t)"

definition syntax_at :: "lexer \<Rightarrow> string \<Rightarrow> exn" where
  "syntax_at l m = syntax_error 101 (Suc (lx_lines l)) (lx_column l) m"

definition unexpected :: "token \<Rightarrow> token option \<Rightarrow> string \<Rightarrow> lexer \<Rightarrow> exn" where
  "unexpected last_token expected ctxt l = syntax_at l (exception_message last_token expected ctxt l)"

text \<open>The message for a token no value starts with; the name of \<^verbatim>\<open>literal_or_value\<close> stands at its end.\<close>

definition not_a_value :: "token \<Rightarrow> lexer \<Rightarrow> exn" where
  "not_a_value last_token l =
     syntax_at l (exception_message last_token None ''value'' l @ ''; expected '' @
       [CHR 0x27, CHR ''['', CHR 0x27] @ '', '' @ [CHR 0x27, CHR ''{'', CHR 0x27] @ '', or a literal'')"

fun is_ValueString :: "token \<Rightarrow> bool" where
  "is_ValueString (ValueString _) = True"
| "is_ValueString _ = False"

fun string_of :: "token \<Rightarrow> string" where
  "string_of (ValueString s) = s"
| "string_of _ = []"

text \<open>A key, the separator after it, and the first token of its value.\<close>

definition parse_key :: "(string \<Rightarrow> double) \<Rightarrow> token \<Rightarrow> lexer \<Rightarrow> jobject \<Rightarrow> frame list \<Rightarrow> parse_move" where
  "parse_key strtod t l m st =
     (if \<not> is_ValueString t then ParseThrow (unexpected t (Some (ValueString [])) ''object key'' l)
      else case scan strtod l of (t1, l1) \<Rightarrow>
        if t1 \<noteq> NameSeparator then ParseThrow (unexpected t1 (Some NameSeparator) ''object separator'' l1)
        else case scan strtod l1 of (t2, l2) \<Rightarrow> NextRound (AtToken t2) l2 (InObject m (string_of t) # st))"

text \<open>After a value: a comma and the next element, or the end of the container.\<close>

fun after_value :: "(string \<Rightarrow> double) \<Rightarrow> json \<Rightarrow> lexer \<Rightarrow> frame list \<Rightarrow> parse_move" where
  "after_value strtod v l [] = Parsed v l"
| "after_value strtod v l (InArray xs # st) =
     (case scan strtod l of (t, l1) \<Rightarrow>
        if t = ValueSeparator then (case scan strtod l1 of (t2, l2) \<Rightarrow> NextRound (AtToken t2) l2 (InArray (xs @ [v]) # st))
        else if t = EndArray then NextRound (Complete (JArray (xs @ [v]))) l1 st
        else ParseThrow (unexpected t (Some EndArray) ''array'' l1))"
| "after_value strtod v l (InObject m k # st) =
     (case scan strtod l of (t, l1) \<Rightarrow>
        if t = ValueSeparator then (case scan strtod l1 of (t2, l2) \<Rightarrow> parse_key strtod t2 l2 (om_update k v m) st)
        else if t = EndObject then NextRound (Complete (JObject (om_update k v m))) l1 st
        else ParseThrow (unexpected t (Some EndObject) ''object'' l1))"

fun at_token :: "(string \<Rightarrow> double) \<Rightarrow> token \<Rightarrow> lexer \<Rightarrow> frame list \<Rightarrow> parse_move" where
  "at_token strtod BeginObject l st =
     (case scan strtod l of (t, l1) \<Rightarrow>
        if t = EndObject then after_value strtod (JObject []) l1 st else parse_key strtod t l1 [] st)"
| "at_token strtod BeginArray l st =
     (case scan strtod l of (t, l1) \<Rightarrow>
        if t = EndArray then after_value strtod (JArray []) l1 st else NextRound (AtToken t) l1 (InArray [] # st))"
| "at_token strtod (ValueFloat d) l st =
     (if isfinite d then after_value strtod (JFloat d) l st
      else ParseThrow (out_of_range 406 (''number overflow parsing '' @ [CHR 0x27] @ get_token_string l @ [CHR 0x27])))"
| "at_token strtod LiteralFalse l st = after_value strtod (JBoolean False) l st"
| "at_token strtod LiteralNull l st = after_value strtod JNull l st"
| "at_token strtod LiteralTrue l st = after_value strtod (JBoolean True) l st"
| "at_token strtod (ValueInteger w) l st = after_value strtod (JInteger w) l st"
| "at_token strtod (ValueString s) l st = after_value strtod (JString s) l st"
| "at_token strtod (ValueUnsigned w) l st = after_value strtod (JUnsigned w) l st"
| "at_token strtod ParseError l st = ParseThrow (unexpected ParseError None ''value'' l)"
| "at_token strtod EndOfInput l st =
     ParseThrow (if lx_total l = 1
       then syntax_at l ''attempting to parse an empty input; check that your input string or stream contains the expected JSON''
       else not_a_value EndOfInput l)"
| "at_token strtod t l st = ParseThrow (not_a_value t l)"

definition parse_round :: "(string \<Rightarrow> double) \<Rightarrow> parse_mode \<Rightarrow> lexer \<Rightarrow> frame list \<Rightarrow> parse_move" where
  "parse_round strtod mode = (case mode of AtToken t \<Rightarrow> at_token strtod t | Complete v \<Rightarrow> after_value strtod v)"

section \<open>The loop ends\<close>

lemma lx_size_unget_get: "lx_size (lx_unget_char (lx_get l)) \<le> lx_size l"
proof -
  have u: "lx_size (lx_unget_char l) = length (lx_input l) + (if lx_current l \<noteq> None then 1 else 0)" for l
    by (simp add: lx_size_def lx_unget_char_def Let_def)
  have "length (lx_input (lx_get l)) + (if lx_current (lx_get l) \<noteq> None then 1 else 0) \<le> lx_size l"
    by (simp add: lx_size_def lx_get_def next_char_def push_current_def Let_def split: list.split option.split)
  then show ?thesis by (simp only: u)
qed

lemma scan_number_size: "scan_number_from strtod s t l = (r, l') \<Longrightarrow> lx_size l' \<le> lx_size l"
proof (induction strtod s t l rule: scan_number_from.induct)
  case (1 strtod s t l)
  show ?case
  proof (cases "number_move s (lx_current (lx_get l))")
    case (GoTo s1)
    then show ?thesis
      using 1(1) [OF refl refl GoTo] 1(2) lx_size_get(1) [of l]
      by (simp add: scan_number_from.simps [of _ s t l] Let_def)
  next
    case NumberDone
    then show ?thesis using 1(2) lx_size_unget_get [of l] by (auto simp: scan_number_from.simps [of _ s t l] finish_number_def Let_def)
  next
    case (NumberError m)
    then show ?thesis using 1(2) lx_size_get(1) [of l] by (auto simp: scan_number_from.simps [of _ s t l] lx_fail_def Let_def)
  qed
qed

lemma scan_literal_size: "scan_literal cs t l = (r, l') \<Longrightarrow> lx_size l' \<le> lx_size l"
proof (induction cs t l rule: scan_literal.induct)
  case (2 c cs t l)
  then show ?case using lx_size_get(1) [of l] by (fastforce simp: Let_def lx_fail_def split: if_splits)
qed simp

lemma scan_string_size: "scan_string_loop l = (r, l') \<Longrightarrow> lx_size l' \<le> lx_size l"
proof (induction l rule: scan_string_loop.induct)
  case (1 l)
  obtain t l1 where r: "string_round l = (t, l1)" by fastforce
  show ?case
  proof (cases t)
    case None
    then show ?thesis
      using 1(1) [OF r [symmetric] None] 1(2) r string_round_size [of l l1] by (simp add: scan_string_loop.simps [of l])
  next
    case (Some u)
    have "lx_size l1 \<le> lx_size l"
      using r lx_size_get(1) [of l]
      by (auto simp: string_round_def Let_def lx_fail_def dest!: lx_size_escape lx_size_range split: if_splits prod.splits option.splits bool.splits)
    then show ?thesis using 1(2) r Some by (simp add: scan_string_loop.simps [of l])
  qed
qed

lemma skip_whitespace_size:
  "lx_size (skip_whitespace l) \<le> lx_size l \<and> \<not> lx_unget (skip_whitespace l) \<and>
     (lx_current (skip_whitespace l) \<noteq> None \<longrightarrow> lx_size (skip_whitespace l) < lx_size l)"
proof (induction l rule: skip_whitespace.induct)
  case (1 l)
  have u: "\<not> lx_unget (lx_get l)"
    by (simp add: lx_get_def next_char_def push_current_def Let_def split: list.split option.split)
  show ?case
  proof (cases "lx_current (lx_get l)")
    case None
    then show ?thesis using u lx_size_get(1) [of l] by (simp add: skip_whitespace.simps [of l] Let_def)
  next
    case (Some c)
    then show ?thesis using u 1 [OF refl Some] lx_size_get [of l] by (auto simp: skip_whitespace.simps [of l] Let_def)
  qed
qed

lemma skip_bom_size: "skip_bom l = (b, l') \<Longrightarrow> lx_size l' \<le> lx_size l"
  using lx_size_get(1) [of l] lx_size_get(1) [of "lx_get l"] lx_size_get(1) [of "lx_get (lx_get l)"] lx_size_unget_get [of l]
  by (auto simp: skip_bom_def Let_def split: if_splits)

lemma lx_size_reset [simp]: "lx_size (lx_reset l) = lx_size l"
  by (simp add: lx_size_def lx_reset_def push_current_def split: option.split)

lemma scan_token_size:
  "scan_token strtod l = (t, l') \<Longrightarrow> lx_size l' \<le> lx_size l \<and> (lx_current l = None \<longrightarrow> t = EndOfInput)"
  by (auto simp: scan_token_def lx_fail_def scan_string_def scan_number_def Let_def simp del: scan_literal.simps
      dest!: scan_literal_size scan_string_size scan_number_size split: option.splits if_splits)

definition is_end :: "token \<Rightarrow> bool" where
  "is_end t = (t = EndOfInput \<or> t = ParseError)"

lemma scan_size: "scan strtod l = (t, l') \<Longrightarrow> lx_size l' \<le> lx_size l \<and> (\<not> is_end t \<longrightarrow> lx_size l' < lx_size l)"
proof -
  assume s: "scan strtod l = (t, l')"
  obtain b l1 where b: "(if lx_total l = 0 then skip_bom l else (True, l)) = (b, l1)" by fastforce
  then have le: "lx_size l1 \<le> lx_size l" using skip_bom_size by (auto split: if_splits)
  show ?thesis
  proof (cases b)
    case True
    then have "scan_token strtod (skip_whitespace l1) = (t, l')" using s b by (simp add: scan_def)
    from scan_token_size [OF this] show ?thesis using skip_whitespace_size [of l1] le by (auto simp: is_end_def)
  next
    case False
    then show ?thesis using s b le by (auto simp: scan_def lx_fail_def is_end_def)
  qed
qed

definition mode_rank :: "parse_mode \<Rightarrow> nat" where
  "mode_rank mode = (case mode of AtToken t \<Rightarrow> if is_end t then 0 else 1 | Complete v \<Rightarrow> 0)"

lemma mode_rank_le: "mode_rank mode \<le> 1"
  by (simp add: mode_rank_def split: parse_mode.split)

lemma parse_key_size:
  "parse_key strtod t l m st = NextRound mode l' st' \<Longrightarrow> 2 * lx_size l' + mode_rank mode < 2 * lx_size l"
  using mode_rank_le [of mode]
  by (auto simp: parse_key_def is_end_def dest!: scan_size split: if_splits prod.splits)

lemma after_value_size:
  "after_value strtod v l st = NextRound mode l' st' \<Longrightarrow> 2 * lx_size l' + mode_rank mode < 2 * lx_size l"
  using mode_rank_le [of mode]
  by (induction strtod v l st rule: after_value.induct)
    (auto simp: is_end_def dest!: scan_size parse_key_size split: if_splits prod.splits)

lemma parse_round_size:
  assumes "parse_round strtod mode l st = NextRound mode' l' st'"
  shows "2 * lx_size l' + mode_rank mode' < 2 * lx_size l + mode_rank mode"
proof (cases mode)
  case (AtToken t)
  have open_array: "2 * lx_size l' + mode_rank (AtToken t') < 2 * lx_size l + 1" if "scan strtod l = (t', l')" for t'
    using scan_size [OF that] by (auto simp: mode_rank_def)
  show ?thesis
    using assms open_array unfolding AtToken parse_round_def
    by (cases t) (auto simp: mode_rank_def is_end_def dest!: scan_size after_value_size parse_key_size split: if_splits prod.splits)
next
  case (Complete v)
  then show ?thesis using assms after_value_size by (fastforce simp: parse_round_def)
qed

function parse_loop :: "(string \<Rightarrow> double) \<Rightarrow> parse_mode \<Rightarrow> lexer \<Rightarrow> frame list \<Rightarrow> (json \<times> lexer) outcome" where
  "parse_loop strtod mode l st = (case parse_round strtod mode l st of
       NextRound mode' l' st' \<Rightarrow> parse_loop strtod mode' l' st'
     | Parsed v l' \<Rightarrow> Ret (v, l')
     | ParseThrow ex \<Rightarrow> Throw ex)"
  by pat_completeness auto

termination
  by (relation "measure (\<lambda>(strtod, mode, l, st). 2 * lx_size l + mode_rank mode)") (simp_all add: parse_round_size)

declare parse_loop.simps [simp del]

section \<open>Texts\<close>

text \<open>\<^verbatim>\<open>parser(...).parse(strict, result)\<close>: \<^verbatim>\<open>json::parse\<close> is strict and refuses what follows the value, \<^verbatim>\<open>operator>>\<close> leaves it.\<close>

definition json_parse :: "(string \<Rightarrow> double) \<Rightarrow> bool \<Rightarrow> string \<Rightarrow> json outcome" where
  "json_parse strtod strict s =
     (case scan strtod (lexer_new s) of (t, l) \<Rightarrow>
      bindO (parse_loop strtod (AtToken t) l []) (\<lambda>(v, l1).
        if \<not> strict then Ret v
        else case scan strtod l1 of (t1, l2) \<Rightarrow>
          if t1 \<noteq> EndOfInput then Throw (unexpected t1 (Some EndOfInput) ''value'' l2) else Ret v))"

end
