(* ===== verification/Anu_Printer.thy ===== *)
theory Anu_Printer
  imports Anu_Lexer
begin

text \<open>
  The serializer of \<^verbatim>\<open>json.hpp\<close> as \<^verbatim>\<open>dump()\<close> and \<^verbatim>\<open>dump(4)\<close> call it: without escapes for characters that are not ASCII, and
  with the strict handler, which throws for a string that is not UTF-8. What is written goes to a string, so that the
  buffers do not show. The shortest text of a double (\<^verbatim>\<open>to_chars\<close>, the Grisu2 algorithm) is an argument.
\<close>

section \<open>Strings\<close>

text \<open>The table of \<^verbatim>\<open>decode\<close>: the class of every byte, then the next state by state and class.\<close>

definition utf8d :: "nat list" where
  "utf8d = [0, 0, 0, 0, 0, 0, 0, 0, 0, 0, 0, 0, 0, 0, 0, 0, 0, 0, 0, 0, 0, 0, 0, 0, 0, 0, 0, 0, 0, 0, 0, 0,
     0, 0, 0, 0, 0, 0, 0, 0, 0, 0, 0, 0, 0, 0, 0, 0, 0, 0, 0, 0, 0, 0, 0, 0, 0, 0, 0, 0, 0, 0, 0, 0,
     0, 0, 0, 0, 0, 0, 0, 0, 0, 0, 0, 0, 0, 0, 0, 0, 0, 0, 0, 0, 0, 0, 0, 0, 0, 0, 0, 0, 0, 0, 0, 0,
     0, 0, 0, 0, 0, 0, 0, 0, 0, 0, 0, 0, 0, 0, 0, 0, 0, 0, 0, 0, 0, 0, 0, 0, 0, 0, 0, 0, 0, 0, 0, 0,
     1, 1, 1, 1, 1, 1, 1, 1, 1, 1, 1, 1, 1, 1, 1, 1, 9, 9, 9, 9, 9, 9, 9, 9, 9, 9, 9, 9, 9, 9, 9, 9,
     7, 7, 7, 7, 7, 7, 7, 7, 7, 7, 7, 7, 7, 7, 7, 7, 7, 7, 7, 7, 7, 7, 7, 7, 7, 7, 7, 7, 7, 7, 7, 7,
     8, 8, 2, 2, 2, 2, 2, 2, 2, 2, 2, 2, 2, 2, 2, 2, 2, 2, 2, 2, 2, 2, 2, 2, 2, 2, 2, 2, 2, 2, 2, 2,
     10, 3, 3, 3, 3, 3, 3, 3, 3, 3, 3, 3, 3, 4, 3, 3, 11, 6, 6, 6, 5, 8, 8, 8, 8, 8, 8, 8, 8, 8, 8, 8,
     0, 1, 2, 3, 5, 8, 7, 1, 1, 1, 4, 6, 1, 1, 1, 1, 1, 1, 1, 1, 1, 1, 1, 1, 1, 1, 1, 1, 1, 1, 1, 1,
     1, 0, 1, 1, 1, 1, 1, 0, 1, 0, 1, 1, 1, 1, 1, 1, 1, 2, 1, 1, 1, 1, 1, 2, 1, 2, 1, 1, 1, 1, 1, 1,
     1, 1, 1, 1, 1, 1, 1, 2, 1, 1, 1, 1, 1, 1, 1, 1, 1, 2, 1, 1, 1, 1, 1, 1, 1, 2, 1, 1, 1, 1, 1, 1,
     1, 1, 1, 1, 1, 1, 1, 3, 1, 3, 1, 1, 1, 1, 1, 1, 1, 3, 1, 1, 1, 1, 1, 3, 1, 3, 1, 1, 1, 1, 1, 1,
     1, 3, 1, 1, 1, 1, 1, 1, 1, 1, 1, 1, 1, 1, 1, 1]"

definition decode :: "nat \<Rightarrow> 32 word \<Rightarrow> nat \<Rightarrow> nat \<times> 32 word" where
  "decode state codep byte =
     (let type = utf8d ! byte in
      (utf8d ! (256 + state * 16 + type),
       if state \<noteq> 0 then (word_of_nat byte AND 0x3F) OR push_bit 6 codep else drop_bit type 0xFF AND word_of_nat byte))"

definition hex_lower :: "nat \<Rightarrow> char" where
  "hex_lower n = char_of (if n < 10 then 48 + n else 87 + n)"

definition hex_bytes :: "nat \<Rightarrow> string" where
  "hex_bytes n = [hex_upper (n div 16), hex_upper (n mod 16)]"

text \<open>What is written for a complete character, whose last byte is \<open>c\<close>.\<close>

definition escape :: "32 word \<Rightarrow> char \<Rightarrow> string" where
  "escape cp c =
     (if cp = 0x08 then [CHR 0x5C, CHR ''b'']
      else if cp = 0x09 then [CHR 0x5C, CHR ''t'']
      else if cp = 0x0A then [CHR 0x5C, CHR ''n'']
      else if cp = 0x0C then [CHR 0x5C, CHR ''f'']
      else if cp = 0x0D then [CHR 0x5C, CHR ''r'']
      else if cp = 0x22 then [CHR 0x5C, CHR 0x22]
      else if cp = 0x5C then [CHR 0x5C, CHR 0x5C]
      else if cp \<le> 0x1F then [CHR 0x5C, CHR ''u'', CHR ''0'', CHR ''0'', hex_lower (unat cp div 16), hex_lower (unat cp mod 16)]
      else [c])"

definition invalid_byte :: "nat \<Rightarrow> nat \<Rightarrow> exn" where
  "invalid_byte i byte = type_error 316 (''invalid UTF-8 byte at index '' @ to_string i @ '': 0x'' @ hex_bytes byte)"

definition incomplete_string :: "nat \<Rightarrow> exn" where
  "incomplete_string byte = type_error 316 (''incomplete UTF-8 string; last byte: 0x'' @ hex_bytes byte)"

text \<open>The loop of \<^verbatim>\<open>dump_escaped\<close>, with the byte before the rest of the string.\<close>

fun dump_escaped_from :: "nat \<Rightarrow> nat \<Rightarrow> 32 word \<Rightarrow> nat \<Rightarrow> string \<Rightarrow> string outcome" where
  "dump_escaped_from i state codep prev [] = (if state = 0 then Ret [] else Throw (incomplete_string prev))"
| "dump_escaped_from i state codep prev (c # cs) =
     (case decode state codep (of_char c) of (state1, codep1) \<Rightarrow>
        if state1 = 1 then Throw (invalid_byte i (of_char c))
        else bindO (dump_escaped_from (Suc i) state1 codep1 (of_char c) cs) (\<lambda>t.
          Ret ((if state1 = 0 then escape codep1 c else [c]) @ t)))"

definition dump_escaped :: "string \<Rightarrow> string outcome" where
  "dump_escaped s = dump_escaped_from 0 0 0 0 s"

section \<open>Numbers\<close>

definition digits_to_99 :: "nat \<Rightarrow> string" where
  "digits_to_99 n = [char_of (48 + n div 10), char_of (48 + n mod 10)]"

function digit_pairs :: "nat \<Rightarrow> string" where
  "digit_pairs n =
     (if n \<ge> 100 then digit_pairs (n div 100) @ digits_to_99 (n mod 100)
      else if n \<ge> 10 then digits_to_99 n
      else [char_of (48 + n)])"
  by pat_completeness auto

termination
  by (relation "measure id") auto

declare digit_pairs.simps [simp del]

definition dump_unsigned :: "64 word \<Rightarrow> string" where
  "dump_unsigned x = (if x = 0 then ''0'' else digit_pairs (unat x))"

definition remove_sign :: "64 word \<Rightarrow> 64 word" where
  "remove_sign x = - (x + 1) + 1"

definition dump_integer :: "64 word \<Rightarrow> string" where
  "dump_integer x =
     (if x = 0 then ''0'' else if x <s 0 then CHR ''-'' # digit_pairs (unat (remove_sign x)) else digit_pairs (unat x))"

definition dump_float :: "(double \<Rightarrow> string) \<Rightarrow> double \<Rightarrow> string" where
  "dump_float to_chars x = (if isfinite x then to_chars x else ''null'')"

section \<open>Values\<close>

text \<open>No indent step is output on one line.\<close>

definition new_indent :: "nat option \<Rightarrow> nat \<Rightarrow> nat" where
  "new_indent step cur = (case step of None \<Rightarrow> cur | Some n \<Rightarrow> cur + n)"

definition new_line :: "nat option \<Rightarrow> nat \<Rightarrow> string" where
  "new_line step cur = (case step of None \<Rightarrow> [] | Some n \<Rightarrow> CHR 0x0A # replicate cur CHR '' '')"

definition colon :: "nat option \<Rightarrow> string" where
  "colon step = (case step of None \<Rightarrow> '':'' | Some n \<Rightarrow> '': '')"

definition in_quotes :: "string \<Rightarrow> string" where
  "in_quotes s = CHR 0x22 # s @ [CHR 0x22]"

fun join :: "string \<Rightarrow> string list \<Rightarrow> string" where
  "join sep [] = []"
| "join sep [t] = t"
| "join sep (t # u # ts) = t @ sep @ join sep (u # ts)"

definition dump_container :: "nat option \<Rightarrow> nat \<Rightarrow> char \<Rightarrow> string list \<Rightarrow> char \<Rightarrow> string" where
  "dump_container step cur a ts b =
     (if ts = [] then [a, b]
      else let line = new_line step (new_indent step cur) in a # line @ join (CHR '','' # line) ts @ new_line step cur @ [b])"

definition dump_binary :: "nat option \<Rightarrow> nat \<Rightarrow> string \<Rightarrow> 64 word option \<Rightarrow> string" where
  "dump_binary step cur s subtype =
     (let line = new_line step (new_indent step cur) in
      CHR ''{'' # line @ in_quotes ''bytes'' @ colon step @ CHR ''['' #
        join (case step of None \<Rightarrow> '','' | Some n \<Rightarrow> '', '') (map (\<lambda>c. dump_unsigned (of_char c)) s) @ CHR '']'' # CHR '','' #
        line @ in_quotes ''subtype'' @ colon step @ (case subtype of None \<Rightarrow> ''null'' | Some n \<Rightarrow> dump_unsigned n) @
        new_line step cur @ [CHR ''}''])"

fun dump_value :: "(double \<Rightarrow> string) \<Rightarrow> nat option \<Rightarrow> nat \<Rightarrow> json \<Rightarrow> string outcome"
  and dump_elements :: "(double \<Rightarrow> string) \<Rightarrow> nat option \<Rightarrow> nat \<Rightarrow> json list \<Rightarrow> string list outcome"
  and dump_entries :: "(double \<Rightarrow> string) \<Rightarrow> nat option \<Rightarrow> nat \<Rightarrow> jobject \<Rightarrow> string list outcome" where
  "dump_value to_chars step cur (JObject m) =
     bindO (dump_entries to_chars step (new_indent step cur) m) (\<lambda>ts. Ret (dump_container step cur CHR ''{'' ts CHR ''}''))"
| "dump_value to_chars step cur (JArray xs) =
     bindO (dump_elements to_chars step (new_indent step cur) xs) (\<lambda>ts. Ret (dump_container step cur CHR ''['' ts CHR '']''))"
| "dump_value to_chars step cur (JString s) = bindO (dump_escaped s) (\<lambda>t. Ret (in_quotes t))"
| "dump_value to_chars step cur (JBinary s subtype) = Ret (dump_binary step cur s subtype)"
| "dump_value to_chars step cur (JBoolean b) = Ret (if b then ''true'' else ''false'')"
| "dump_value to_chars step cur (JInteger x) = Ret (dump_integer x)"
| "dump_value to_chars step cur (JUnsigned x) = Ret (dump_unsigned x)"
| "dump_value to_chars step cur (JFloat x) = Ret (dump_float to_chars x)"
| "dump_value to_chars step cur JNull = Ret ''null''"
| "dump_elements to_chars step cur [] = Ret []"
| "dump_elements to_chars step cur (v # vs) =
     bindO (dump_value to_chars step cur v) (\<lambda>t. bindO (dump_elements to_chars step cur vs) (\<lambda>ts. Ret (t # ts)))"
| "dump_entries to_chars step cur [] = Ret []"
| "dump_entries to_chars step cur ((k, v) # m) =
     bindO (dump_escaped k) (\<lambda>k1. bindO (dump_value to_chars step cur v) (\<lambda>t.
     bindO (dump_entries to_chars step cur m) (\<lambda>ts. Ret ((in_quotes k1 @ colon step @ t) # ts))))"

definition json_dump :: "(double \<Rightarrow> string) \<Rightarrow> nat option \<Rightarrow> json \<Rightarrow> string outcome" where
  "json_dump to_chars step j = dump_value to_chars step 0 j"

end
