(* ===== verification/Anu_Utf8.thy ===== *)
theory Anu_Utf8
  imports Anu_Printer
begin

unbundle bit_operations_syntax

text \<open>
  The automaton of \<^verbatim>\<open>decode\<close>: its table accepts the characters the lexer accepts byte by byte (\<open>byte_ranges\<close>). So
  \<^verbatim>\<open>dump_escaped\<close> writes a string if and only if it is UTF-8, and escapes nothing but single bytes.
\<close>

section \<open>UTF-8\<close>

definition in_range :: "nat \<times> nat \<Rightarrow> char \<Rightarrow> bool" where
  "in_range = (\<lambda>(lo, hi) c. lo \<le> of_char c \<and> of_char c \<le> hi)"

text \<open>A character: one byte below 128, or a first byte and the bytes that may follow it.\<close>

definition following :: "nat \<Rightarrow> (nat \<times> nat) list option" where
  "following n = (if n < 0x80 then Some [] else byte_ranges n)"

inductive utf8 :: "string \<Rightarrow> bool" where
  utf8_Nil: "utf8 []"
| utf8_Cons: "following (of_char c) = Some rs \<Longrightarrow> list_all2 in_range rs ds \<Longrightarrow> utf8 s \<Longrightarrow> utf8 (c # ds @ s)"

text \<open>The states of \<^verbatim>\<open>decode\<close>: what has to follow, and what the code point has to be so far.\<close>

definition state_ranges :: "nat \<Rightarrow> (nat \<times> nat) list option" where
  "state_ranges st = map_of [(0, []), (2, [(0x80, 0xBF)]), (3, [(0x80, 0xBF), (0x80, 0xBF)]), (4, [(0xA0, 0xBF), (0x80, 0xBF)]),
     (5, [(0x80, 0x9F), (0x80, 0xBF)]), (6, [(0x90, 0xBF), (0x80, 0xBF), (0x80, 0xBF)]),
     (7, [(0x80, 0xBF), (0x80, 0xBF), (0x80, 0xBF)]), (8, [(0x80, 0x8F), (0x80, 0xBF), (0x80, 0xBF)])] st"

definition codep_ok :: "nat \<Rightarrow> nat \<Rightarrow> bool" where
  "codep_ok st n = ((st = 2 \<longrightarrow> 2 \<le> n \<and> n < 2 ^ 20) \<and> (st \<in> {3, 5, 7, 8} \<longrightarrow> 1 \<le> n) \<and> (st \<in> {3, 4, 5} \<longrightarrow> n < 2 ^ 12) \<and>
     (st \<in> {6, 7, 8} \<longrightarrow> n < 2 ^ 5))"

text \<open>The table in two parts: the classes of the bytes and the moves.\<close>

definition utf8_moves :: "nat list" where
  "utf8_moves = [0, 1, 2, 3, 5, 8, 7, 1, 1, 1, 4, 6, 1, 1, 1, 1, 1, 1, 1, 1, 1, 1, 1, 1, 1, 1, 1, 1, 1, 1, 1, 1, 1, 0, 1, 1,
     1, 1, 1, 0, 1, 0, 1, 1, 1, 1, 1, 1, 1, 2, 1, 1, 1, 1, 1, 2, 1, 2, 1, 1, 1, 1, 1, 1, 1, 1, 1, 1, 1, 1, 1, 2,
     1, 1, 1, 1, 1, 1, 1, 1, 1, 2, 1, 1, 1, 1, 1, 1, 1, 2, 1, 1, 1, 1, 1, 1, 1, 1, 1, 1, 1, 1, 1, 3, 1, 3, 1, 1,
     1, 1, 1, 1, 1, 3, 1, 1, 1, 1, 1, 3, 1, 3, 1, 1, 1, 1, 1, 1, 1, 3, 1, 1, 1, 1, 1, 1, 1, 1, 1, 1, 1, 1, 1, 1]"
definition byte_class :: "nat \<Rightarrow> nat" where
  "byte_class b = (if b < 128 then 0 else if b < 144 then 1 else if b < 160 then 9 else if b < 192 then 7 else if b < 194 then 8 else if b < 224 then 2
     else if b = 224 then 10 else if b < 237 then 3 else if b = 237 then 4 else if b < 240 then 3 else if b = 240 then 11 else if b < 244 then 6
     else if b = 244 then 5 else 8)"

lemma upt256: "[0..<256] = 0 # 1 # [2..<256]"
  by (simp add: upt_rec [of 0] upt_rec [of 1] upt_rec [of "Suc 0"] numeral_2_eq_2)

lemma utf8d_split: "utf8d = map byte_class [0..<256] @ utf8_moves"
  unfolding utf8d_def utf8_moves_def upt256 by (simp add: byte_class_def)

lemma utf8d_class: "b < 256 \<Longrightarrow> utf8d ! b = byte_class b"
  unfolding utf8d_split by (simp add: nth_append)

lemma utf8d_move: "utf8d ! (256 + n) = utf8_moves ! n"
  unfolding utf8d_split by (simp add: nth_append)

lemma all_bytes: "list_all P (0 # 1 # [2..<256]) \<Longrightarrow> b < 256 \<Longrightarrow> P b"
  unfolding upt256 [symmetric] by (simp add: list_all_iff)

lemma decode_eq: "b < 256 \<Longrightarrow> decode st cp b = (utf8_moves ! (st * 16 + byte_class b),
    if st \<noteq> 0 then (word_of_nat b AND 0x3F) OR push_bit 6 cp else drop_bit (byte_class b) 0xFF AND word_of_nat b)"
  using utf8d_move [of "st * 16 + byte_class b"] by (simp add: decode_def utf8d_class Let_def add.assoc)

lemma moves_from_start: "utf8_moves ! 0 = 0" "utf8_moves ! Suc 0 = 1" "utf8_moves ! 2 = 2" "utf8_moves ! 3 = 3" "utf8_moves ! 4 = 5" "utf8_moves ! 5 = 8" "utf8_moves ! 6 = 7" "utf8_moves ! 7 = 1" "utf8_moves ! 8 = 1" "utf8_moves ! 9 = 1" "utf8_moves ! 10 = 4" "utf8_moves ! 11 = 6"
  by (simp_all add: utf8_moves_def)

definition first_ok :: "nat \<Rightarrow> bool" where
  "first_ok b = (let st = utf8_moves ! byte_class b in
     (case following b of None \<Rightarrow> st = 1 | Some rs \<Rightarrow> state_ranges st = Some rs) \<and>
     codep_ok st (unat (drop_bit (byte_class b) 0xFF AND word_of_nat b :: 32 word)))"

lemma first_ok: "b < 256 \<Longrightarrow> first_ok b"
  by (erule all_bytes [rotated])
    (simp add: first_ok_def following_def byte_ranges_def byte_class_def moves_from_start state_ranges_def codep_ok_def)

text \<open>A byte that may follow in a state leads to the state for the rest, every other byte to the rejecting one.\<close>

lemma moves_inside:
  "c < 12 \<Longrightarrow> st \<in> {2, 3, 4, 5, 6, 7, 8} \<Longrightarrow> utf8_moves ! (st * 16 + c) =
     (if c \<in> (if st = 4 then {7} else if st = 5 then {1, 9} else if st = 6 then {7, 9} else if st = 8 then {1} else {1, 7, 9})
      then (if st = 2 then 0 else if st < 6 then 2 else 3) else 1)"
proof -
  assume c: "c < 12" and st: "st \<in> {2, 3, 4, 5, 6, 7, 8}"
  have "c \<in> {0, 1, 2, 3, 4, 5, 6, 7, 8, 9, 10, 11}" using c by (simp add: numeral_eq_Suc less_Suc_eq)
  then show ?thesis using st by (elim insertE emptyE) (simp_all add: utf8_moves_def)
qed

lemma byte_class_range: "byte_class b < 12" "byte_class b = 1 \<longleftrightarrow> 128 \<le> b \<and> b < 144" "byte_class b = 9 \<longleftrightarrow> 144 \<le> b \<and> b < 160"
  "byte_class b = 7 \<longleftrightarrow> 160 \<le> b \<and> b < 192"
  by (simp_all add: byte_class_def)

lemma next_state_in:
  assumes "state_ranges st = Some ((lo, hi) # rs)" "b < 256"
  shows "if lo \<le> b \<and> b \<le> hi then state_ranges (utf8_moves ! (st * 16 + byte_class b)) = Some rs \<and> (rs = [] \<longrightarrow> utf8_moves ! (st * 16 + byte_class b) = 0)
     else utf8_moves ! (st * 16 + byte_class b) = 1"
proof -
  have "st \<in> {2, 3, 4, 5, 6, 7, 8}" using assms(1) by (auto simp: state_ranges_def split: if_splits)
  then show ?thesis
    using assms byte_class_range [of b] moves_inside [of "byte_class b" st]
    by (elim insertE emptyE) (auto simp: state_ranges_def)
qed

lemma unat_codep:
  assumes "unat cp < 2 ^ 26"
  shows "unat ((word_of_nat b AND 0x3F) OR push_bit 6 (cp :: 32 word)) = b mod 64 + 64 * unat cp"
proof -
  have m: "(0x3F :: 32 word) = mask 6" by (simp add: mask_eq_exp_minus_1)
  have low: "(word_of_nat b AND 0x3F :: 32 word) = take_bit 6 (word_of_nat b)" by (simp only: m take_bit_eq_mask)
  have nat: "take_bit 6 (word_of_nat b :: 32 word) = word_of_nat (b mod 64)" by (simp only: take_bit_of_nat) (simp add: take_bit_nat_def)
  have "take_bit 6 (word_of_nat b) AND push_bit 6 cp = 0" by (rule bit_eqI) (auto simp: bit_simps)
  then have "(word_of_nat b AND 0x3F) OR push_bit 6 cp = take_bit 6 (word_of_nat b) + push_bit 6 cp"
    unfolding low by (rule disjunctive_add_eq_or [symmetric])
  also have "\<dots> = word_of_nat (b mod 64 + 64 * unat cp)" unfolding nat push_bit_eq_mult of_nat_add by simp
  finally have e: "(word_of_nat b AND 0x3F) OR push_bit 6 cp = word_of_nat (b mod 64 + 64 * unat cp)" .
  have "b mod 64 + 64 * unat cp < 2 ^ LENGTH(32)" using assms by simp
  then show ?thesis unfolding e by (simp only: unat_of_nat mod_less)
qed

lemma ascii_codep: "b < 256 \<Longrightarrow> (0xFF AND word_of_nat b :: 32 word) = word_of_nat b"
proof -
  assume b: "b < 256"
  have m: "(0xFF :: 32 word) = mask 8" by (simp add: mask_eq_exp_minus_1)
  show ?thesis unfolding m and.commute [of "mask 8"] take_bit_eq_mask [symmetric] using b by (simp add: take_bit_of_nat take_bit_nat_eq_self)
qed

lemma codep_bounds:
  assumes "codep_ok st n" "st \<in> {2, 3, 4, 5, 6, 7, 8}" "r < 64" "st = 4 \<Longrightarrow> 2 \<le> r" "st = 6 \<Longrightarrow> 1 \<le> r"
  shows "codep_ok (if st = 2 then 0 else if st < 6 then 2 else 3) (r + 64 * n)"
proof -
  have "st = 2 \<or> st = 3 \<or> st = 4 \<or> st = 5 \<or> st = 6 \<or> st = 7 \<or> st = 8" using assms(2) by simp
  then show ?thesis using assms(1,3-5) by (elim disjE; simp add: codep_ok_def; linarith)
qed

lemma codep_less: "codep_ok st n \<Longrightarrow> st \<in> {2, 3, 4, 5, 6, 7, 8} \<Longrightarrow> n < 2 ^ 26"
proof -
  assume c: "codep_ok st n" "st \<in> {2, 3, 4, 5, 6, 7, 8}"
  then have "st = 2 \<or> st = 3 \<or> st = 4 \<or> st = 5 \<or> st = 6 \<or> st = 7 \<or> st = 8" by simp
  then show ?thesis using c(1) by (elim disjE; simp add: codep_ok_def)
qed

lemma codep_step:
  assumes "codep_ok st (unat (cp :: 32 word))" "state_ranges st = Some ((lo, hi) # rs)" "lo \<le> b" "b \<le> hi" "b < 256"
  shows "codep_ok (utf8_moves ! (st * 16 + byte_class b)) (unat ((word_of_nat b AND 0x3F) OR push_bit 6 cp))"
    and "rs = [] \<Longrightarrow> 128 \<le> unat ((word_of_nat b AND 0x3F) OR push_bit 6 cp)"
proof -
  have st: "st \<in> {2, 3, 4, 5, 6, 7, 8}" using assms(2) by (auto simp: state_ranges_def split: if_splits)
  note u = unat_codep [OF codep_less [OF assms(1) this], of b]
  have k: "b mod 64 = b - 128" if "128 \<le> b" "b < 192" by (rule mod_nat_eqI) (use that in simp_all)
  have "st = 4 \<Longrightarrow> 160 \<le> b \<and> b < 192" "st = 6 \<Longrightarrow> 144 \<le> b \<and> b < 192"
    using assms(2-4) by (simp_all add: state_ranges_def)
  then have m: "st = 4 \<Longrightarrow> 2 \<le> b mod 64" "st = 6 \<Longrightarrow> 1 \<le> b mod 64" using k by linarith+
  have n: "utf8_moves ! (st * 16 + byte_class b) = (if st = 2 then 0 else if st < 6 then 2 else 3)"
    using st assms(2-4) byte_class_range [of b] moves_inside [of "byte_class b" st]
    by (elim insertE emptyE) (auto simp: state_ranges_def)
  show "codep_ok (utf8_moves ! (st * 16 + byte_class b)) (unat ((word_of_nat b AND 0x3F) OR push_bit 6 cp))"
    unfolding u n by (rule codep_bounds [OF assms(1) st]) (use m in simp_all)
  show "rs = [] \<Longrightarrow> 128 \<le> unat ((word_of_nat b AND 0x3F) OR push_bit 6 cp)"
    unfolding u using st assms(1,2) by (elim insertE emptyE) (simp_all add: codep_ok_def state_ranges_def)
qed

section \<open>What is written for a string\<close>

definition esc_byte :: "char \<Rightarrow> string" where
  "esc_byte c = (if of_char c < (128 :: nat) then escape (word_of_nat (of_char c)) c else [c])"

definition esc :: "string \<Rightarrow> string" where
  "esc s = concat (map esc_byte s)"

lemma esc_simps [simp]: "esc [] = []" "esc (c # s) = esc_byte c @ esc s" "esc (s @ t) = esc s @ esc t"
  by (simp_all add: esc_def)

lemma in_range_high: "list_all2 in_range rs ds \<Longrightarrow> list_all (\<lambda>(lo, hi). 128 \<le> lo) rs \<Longrightarrow> esc ds = ds"
  by (induction rs ds rule: list_all2_induct) (auto simp: in_range_def esc_byte_def)

lemma state_ranges_high: "state_ranges st = Some rs \<Longrightarrow> list_all (\<lambda>(lo, hi). 128 \<le> lo) rs"
  by (auto simp: state_ranges_def split: if_splits)

lemma high_word:
  assumes "128 \<le> unat (cp :: 32 word)" "n < 128"
  shows "cp \<noteq> word_of_nat n" "\<not> cp \<le> word_of_nat n"
proof -
  have "unat (word_of_nat n :: 32 word) = n" using assms(2) by (simp add: unat_of_nat)
  then show "cp \<noteq> word_of_nat n" "\<not> cp \<le> word_of_nat n" using assms by (auto simp: word_le_nat_alt)
qed

lemma escape_high:
  assumes "128 \<le> unat cp"
  shows "escape cp c = [c]"
  using high_word(1) [OF assms, of 8] high_word(1) [OF assms, of 9] high_word(1) [OF assms, of 10] high_word(1) [OF assms, of 12]
    high_word(1) [OF assms, of 13] high_word(1) [OF assms, of 34] high_word(1) [OF assms, of 92] high_word(2) [OF assms, of 31]
  by (simp add: escape_def)

text \<open>The bytes that follow the first byte of a character.\<close>

lemma dump_following:
  "state_ranges st = Some rs \<Longrightarrow> rs \<noteq> [] \<Longrightarrow> codep_ok st (unat cp) \<Longrightarrow>
     (\<exists>ds s' j cp' p'. s = ds @ s' \<and> list_all2 in_range rs ds \<and>
        dump_escaped_from i st cp p s = bindO (dump_escaped_from j 0 cp' p' s') (\<lambda>t. Ret (ds @ t))) \<or>
     (\<nexists>ds s'. s = ds @ s' \<and> list_all2 in_range rs ds) \<and> (\<exists>m. dump_escaped_from i st cp p s = Throw (type_error 316 m))"
proof (induction rs arbitrary: st cp i p s)
  case (Cons r rs)
  obtain lo hi where r: "r = (lo, hi)" by fastforce
  note sr = Cons.prems(1) [unfolded r]
  have st: "st \<noteq> 0" using sr by (cases "st = 0") (simp_all add: state_ranges_def)
  show ?case
  proof (cases s)
    case Nil
    then show ?thesis using st by (simp add: incomplete_string_def)
  next
    case (Cons c cs)
    let ?b = "of_char c :: nat" and ?m = "utf8_moves ! (st * 16 + byte_class (of_char c))" and ?cp = "(word_of_nat (of_char c) AND 0x3F) OR push_bit 6 cp"
    have b: "?b < 256" by (rule nat_of_char_less_256)
    have d: "decode st cp ?b = (?m, ?cp)" using decode_eq [OF b, of st cp] st by simp
    note n = next_state_in [OF sr b]
    show ?thesis
    proof (cases "lo \<le> ?b \<and> ?b \<le> hi")
      case False
      then have "?m = 1" using n by (simp only: if_False)
      then have "dump_escaped_from i st cp p s = Throw (invalid_byte i ?b)" using Cons d by simp
      moreover have "\<not> in_range r c" using False r by (simp add: in_range_def)
      ultimately show ?thesis using Cons by (auto simp: list_all2_Cons1 invalid_byte_def)
    next
      case True
      then have m: "state_ranges ?m = Some rs" "rs = [] \<Longrightarrow> ?m = 0" using n by simp_all
      have m1: "?m \<noteq> 1" using m(1) by (cases "?m = 1") (simp_all add: state_ranges_def)
      have in1: "in_range r c" using True r by (simp add: in_range_def)
      note cs = codep_step [OF Cons.prems(3) sr conjunct1 [OF True] conjunct2 [OF True] b]
      show ?thesis
      proof (cases "rs = []")
        case True
        then have "escape ?cp c = [c]" by (intro escape_high cs(2))
        then have "dump_escaped_from i st cp p s = bindO (dump_escaped_from (Suc i) 0 ?cp ?b cs) (\<lambda>t. Ret ([c] @ t))"
          using Cons d m(2) [OF True] by simp
        moreover have "s = [c] @ cs" "list_all2 in_range (r # rs) [c]" using Cons in1 True by simp_all
        ultimately show ?thesis by blast
      next
        case False
        have "?m \<noteq> 0" using m(1) False by (cases "?m = 0") (simp_all add: state_ranges_def)
        then have e: "dump_escaped_from i st cp p s = bindO (dump_escaped_from (Suc i) ?m ?cp ?b cs) (\<lambda>t. Ret (c # t))"
          using Cons d m1 by simp
        from Cons.IH [OF m(1) False cs(1), of cs "Suc i" ?b] show ?thesis
        proof
          assume "\<exists>ds s' j cp' p'. cs = ds @ s' \<and> list_all2 in_range rs ds \<and>
            dump_escaped_from (Suc i) ?m ?cp ?b cs = bindO (dump_escaped_from j 0 cp' p' s') (\<lambda>t. Ret (ds @ t))"
          then obtain ds s' j cp' p' where h: "cs = ds @ s'" "list_all2 in_range rs ds"
            "dump_escaped_from (Suc i) ?m ?cp ?b cs = bindO (dump_escaped_from j 0 cp' p' s') (\<lambda>t. Ret (ds @ t))" by blast
          have "dump_escaped_from i st cp p s = bindO (dump_escaped_from j 0 cp' p' s') (\<lambda>t. Ret ((c # ds) @ t))"
            unfolding e h(3) by (cases "dump_escaped_from j 0 cp' p' s'") simp_all
          moreover have "s = (c # ds) @ s'" "list_all2 in_range (r # rs) (c # ds)" using Cons h(1,2) in1 by simp_all
          ultimately show ?thesis by blast
        next
          assume "(\<nexists>ds s'. cs = ds @ s' \<and> list_all2 in_range rs ds) \<and> (\<exists>m. dump_escaped_from (Suc i) ?m ?cp ?b cs = Throw (type_error 316 m))"
          then have no: "\<nexists>ds s'. cs = ds @ s' \<and> list_all2 in_range rs ds"
            and ex: "\<exists>m. dump_escaped_from (Suc i) ?m ?cp ?b cs = Throw (type_error 316 m)" by blast+
          have "\<nexists>ds s'. s = ds @ s' \<and> list_all2 in_range (r # rs) ds" using no unfolding Cons by (metis append_Cons list.inject list_all2_Cons1)
          moreover have "\<exists>m. dump_escaped_from i st cp p s = Throw (type_error 316 m)" unfolding e using ex by auto
          ultimately show ?thesis by blast
        qed
      qed
    qed
  qed
qed simp

lemma utf8_split:
  assumes "utf8 (c # s)" "following (of_char c) = Some rs"
  shows "\<exists>ds s'. s = ds @ s' \<and> list_all2 in_range rs ds \<and> utf8 s'"
  using assms(1) by (cases rule: utf8.cases) (use assms(2) in auto)

lemma utf8_first: "utf8 (c # s) \<Longrightarrow> following (of_char c) \<noteq> None"
  by (erule utf8.cases) auto

lemma split_unique:
  "ds @ s = ds' @ s' \<Longrightarrow> list_all2 in_range rs ds \<Longrightarrow> list_all2 in_range rs ds' \<Longrightarrow> s = s'"
  by (metis append_eq_append_conv list_all2_lengthD)

lemma following_high: "following n = Some rs \<Longrightarrow> list_all (\<lambda>(lo, hi). 128 \<le> lo) rs"
  by (auto simp: following_def byte_ranges_def split: if_splits)

lemma dump_string:
  "(utf8 s \<and> dump_escaped_from i 0 cp p s = Ret (esc s)) \<or> (\<not> utf8 s \<and> (\<exists>m. dump_escaped_from i 0 cp p s = Throw (type_error 316 m)))"
proof (induction "length s" arbitrary: i cp p s rule: less_induct)
  case less
  show ?case
  proof (cases s)
    case Nil
    then show ?thesis by (simp add: utf8_Nil)
  next
    case (Cons c cs)
    let ?b = "of_char c :: nat" and ?m = "utf8_moves ! byte_class (of_char c)"
    let ?cp = "drop_bit (byte_class (of_char c)) 0xFF AND word_of_nat (of_char c) :: 32 word"
    have b: "?b < 256" by (rule nat_of_char_less_256)
    have d: "decode 0 cp ?b = (?m, ?cp)" using decode_eq [OF b, of 0 cp] by simp
    show ?thesis
    proof (cases "following ?b")
      case None
      then have "?m = 1" using first_ok [OF b] by (simp add: first_ok_def Let_def)
      then show ?thesis using None utf8_first [of c cs] Cons d by (auto simp: invalid_byte_def)
    next
      case (Some rs)
      then have m: "state_ranges ?m = Some rs" "codep_ok ?m (unat ?cp)" using first_ok [OF b] by (simp_all add: first_ok_def Let_def)
      have m1: "?m \<noteq> 1" using m(1) by (cases "?m = 1") (simp_all add: state_ranges_def)
      show ?thesis
      proof (cases "rs = []")
        case True
        then have "?b < 128" using Some by (auto simp: following_def byte_ranges_def split: if_splits)
        then have cl: "byte_class ?b = 0" by (simp add: byte_class_def)
        then have "dump_escaped_from i 0 cp p s = bindO (dump_escaped_from (Suc i) 0 ?cp ?b cs) (\<lambda>t. Ret (esc_byte c @ t))"
          using Cons d \<open>?b < 128\<close> ascii_codep [OF b] moves_from_start(1) by (simp add: esc_byte_def)
        moreover have "utf8 s \<longleftrightarrow> utf8 cs"
          using utf8_split [of c cs rs] utf8_Cons [of c "[]" "[]" cs] Some True Cons by auto
        ultimately show ?thesis using less [of cs "Suc i" ?cp ?b] Cons by auto
      next
        case False
        have m0: "?m \<noteq> 0" using m(1) False by (cases "?m = 0") (simp_all add: state_ranges_def)
        have e: "dump_escaped_from i 0 cp p s = bindO (dump_escaped_from (Suc i) ?m ?cp ?b cs) (\<lambda>t. Ret (c # t))"
          using Cons d m0 m1 by simp
        have h: "esc_byte c = [c]" using Some False by (auto simp: esc_byte_def following_def)
        from dump_following [OF m(1) False m(2), of cs "Suc i" ?b] show ?thesis
        proof
          assume "\<exists>ds s' j cp' p'. cs = ds @ s' \<and> list_all2 in_range rs ds \<and>
            dump_escaped_from (Suc i) ?m ?cp ?b cs = bindO (dump_escaped_from j 0 cp' p' s') (\<lambda>t. Ret (ds @ t))"
          then obtain ds s' j cp' p' where g: "cs = ds @ s'" "list_all2 in_range rs ds"
            "dump_escaped_from (Suc i) ?m ?cp ?b cs = bindO (dump_escaped_from j 0 cp' p' s') (\<lambda>t. Ret (ds @ t))" by blast
          have u: "utf8 s \<longleftrightarrow> utf8 s'"
            using utf8_split [of c cs rs] utf8_Cons [OF Some g(2), of s'] Some Cons g(1,2) split_unique [OF _ g(2)] by auto
          have "esc s = c # ds @ esc s'" using Cons g(1) h in_range_high [OF g(2) following_high [OF Some]] by simp
          moreover have "dump_escaped_from i 0 cp p s = bindO (dump_escaped_from j 0 cp' p' s') (\<lambda>t. Ret (c # ds @ t))"
            unfolding e g(3) by (cases "dump_escaped_from j 0 cp' p' s'") simp_all
          ultimately show ?thesis using less [of s' j cp' p'] Cons g(1) u by auto
        next
          assume "(\<nexists>ds s'. cs = ds @ s' \<and> list_all2 in_range rs ds) \<and> (\<exists>m. dump_escaped_from (Suc i) ?m ?cp ?b cs = Throw (type_error 316 m))"
          then show ?thesis using e utf8_split [of c cs rs] Some Cons by auto
        qed
      qed
    qed
  qed
qed

lemma dump_escaped_utf8: "utf8 s \<Longrightarrow> dump_escaped s = Ret (esc s)"
  using dump_string [of s 0 0 0] by (auto simp: dump_escaped_def)

lemma dump_escaped_throws: "\<not> utf8 s \<Longrightarrow> \<exists>m. dump_escaped s = Throw (type_error 316 m)"
  using dump_string [of s 0 0 0] by (auto simp: dump_escaped_def)

lemma dump_escaped_iff: "dump_escaped s = Ret t \<longleftrightarrow> utf8 s \<and> t = esc s"
  using dump_string [of s 0 0 0] by (auto simp: dump_escaped_def)

text \<open>ASCII is UTF-8.\<close>

lemma ascii_utf8: "list_all (\<lambda>c. of_char c < (128 :: nat)) s \<Longrightarrow> utf8 s"
  by (induction s) (auto simp: utf8_Nil following_def intro: utf8_Cons [of _ "[]" "[]", simplified])

lemma utf8_ascii_append: "list_all (\<lambda>c. of_char c < (128 :: nat)) u \<Longrightarrow> utf8 (u @ s) = utf8 s"
proof (induction u)
  case (Cons c u)
  have "utf8 (c # u @ s) = utf8 (u @ s)"
    using utf8_split [of c "u @ s" "[]"] utf8_Cons [of c "[]" "[]" "u @ s"] Cons.prems by (auto simp: following_def)
  then show ?case using Cons by simp
qed simp

end
