(* ===== verification/Anu_Texts.thy ===== *)
theory Anu_Texts
  imports Anu_Parser Anu_Utf8
begin

text \<open>
  JSON texts: what the serializer writes for a value is read back as the value, up to the kind of non-negative integers
  (\<open>read_back\<close>), by the lexer and the loop of the parser as they are.
\<close>

section \<open>Reading characters\<close>

text \<open>The lexer is in front of a text, and no byte order mark is looked for in it.\<close>

definition lx_at :: "lexer \<Rightarrow> string \<Rightarrow> bool" where
  "lx_at l s = (lx_left l = s \<and> (lx_total l = 0 \<longrightarrow> (\<exists>c s'. s = c # s' \<and> c \<noteq> CHR 0xEF)))"

text \<open>A character has been read, and what is left.\<close>

definition lx_on :: "lexer \<Rightarrow> char \<Rightarrow> string \<Rightarrow> bool" where
  "lx_on l c s = (lx_current l = Some c \<and> lx_left l = s \<and> \<not> lx_unget l \<and> 0 < lx_total l)"

lemma lx_get_fields [simp]: "lx_total (lx_get l) = Suc (lx_total l)" "lx_buffer (lx_get l) = lx_buffer l"
  by (simp_all add: lx_get_def next_char_def push_current_def Let_def split: option.split list.split)

lemma lx_get_on: "lx_left l = c # s \<Longrightarrow> lx_on (lx_get l) c s"
  using lx_get_left [of l c s] by (simp add: lx_on_def)

lemma lx_on_at: "lx_on l c s \<Longrightarrow> lx_at l s"
  by (simp add: lx_on_def lx_at_def)

lemma lx_onD: "lx_on l c s \<Longrightarrow> lx_current l = Some c" "lx_on l c s \<Longrightarrow> lx_left l = s"
  by (simp_all add: lx_on_def)

lemma lx_left_add [simp]: "lx_left (lx_add c l) = lx_left l" "lx_current (lx_add c l) = lx_current l" "lx_unget (lx_add c l) = lx_unget l"
  "lx_total (lx_add c l) = lx_total l" "lx_buffer (lx_add c l) = lx_buffer l @ [c]"
  by (simp_all add: lx_left_def lx_add_def split: option.split)

lemma lx_left_adds [simp]: "lx_left (fold lx_add cs l) = lx_left l" "lx_unget (fold lx_add cs l) = lx_unget l"
  "lx_total (fold lx_add cs l) = lx_total l" "lx_buffer (fold lx_add cs l) = lx_buffer l @ cs"
  by (induction cs arbitrary: l) simp_all

lemma lx_on_add: "lx_on (lx_add d l) c s = lx_on l c s"
  by (simp add: lx_on_def)

lemma lx_unget_on: "lx_on l c s \<Longrightarrow> lx_left (lx_unget_char l) = c # s \<and> lx_buffer (lx_unget_char l) = lx_buffer l \<and> lx_total (lx_unget_char l) = lx_total l - 1"
  by (auto simp: lx_on_def lx_left_def lx_unget_char_def Let_def)

lemma lx_unget_end: "lx_current l = None \<Longrightarrow> lx_left (lx_unget_char l) = [] \<and> lx_buffer (lx_unget_char l) = lx_buffer l \<and> lx_total (lx_unget_char l) = lx_total l - 1"
  by (simp add: lx_left_def lx_unget_char_def Let_def)

lemma lx_reset_on: "lx_on l c s \<Longrightarrow> lx_on (lx_reset l) c s \<and> lx_buffer (lx_reset l) = []"
  by (auto simp: lx_on_def lx_reset_def push_current_def lx_left_def)

lemma skip_whitespace_on:
  "lx_left l = ws @ c # s \<Longrightarrow> list_all json_space ws \<Longrightarrow> \<not> json_space c \<Longrightarrow> lx_on (skip_whitespace l) c s"
proof (induction ws arbitrary: l)
  case Nil
  then show ?case using lx_get_on [of l c s] by (simp add: skip_whitespace.simps [of l] lx_onD Let_def)
next
  case (Cons w ws)
  have "lx_on (lx_get l) w (ws @ c # s)" using lx_get_on [of l w] Cons.prems(1) by simp
  then show ?case using Cons by (simp add: skip_whitespace.simps [of l] lx_onD Let_def)
qed

lemma skip_whitespace_end:
  "lx_left l = ws \<Longrightarrow> list_all json_space ws \<Longrightarrow> lx_current (skip_whitespace l) = None"
proof (induction ws arbitrary: l)
  case Nil
  then show ?case using lx_get_end [of l] by (simp add: skip_whitespace.simps [of l] Let_def)
next
  case (Cons w ws)
  have "lx_on (lx_get l) w ws" using lx_get_on [of l w ws] Cons.prems(1) by simp
  then show ?case using Cons by (simp add: skip_whitespace.simps [of l] lx_onD Let_def)
qed

lemma scan_at: "lx_at l s \<Longrightarrow> \<exists>l1. scan strtod l = scan_token strtod (skip_whitespace l1) \<and> lx_left l1 = s"
proof (cases "lx_total l = 0")
  case True
  assume a: "lx_at l s"
  then obtain c s' where c: "s = c # s'" "c \<noteq> CHR 0xEF" "lx_left l = s" using True by (auto simp: lx_at_def)
  then have o: "lx_on (lx_get l) c s'" by (simp add: lx_get_on)
  then have "skip_bom l = (True, lx_unget_char (lx_get l))" using c(2) by (simp add: skip_bom_def lx_onD)
  then show ?thesis using True lx_unget_on [OF o] c(1) by (auto simp: scan_def)
next
  case False
  assume "lx_at l s"
  then show ?thesis using False by (auto simp: scan_def lx_at_def)
qed

lemma scan_on:
  assumes "lx_at l (ws @ c # s)" "list_all json_space ws" "\<not> json_space c"
  shows "\<exists>l1. scan strtod l = scan_token strtod l1 \<and> lx_on l1 c s"
  using scan_at [OF assms(1)] skip_whitespace_on [OF _ assms(2,3)] by metis

lemma scan_end: "lx_at l ws \<Longrightarrow> list_all json_space ws \<Longrightarrow> \<exists>l1. scan strtod l = (EndOfInput, l1)"
  using scan_at [of l ws strtod] skip_whitespace_end by (fastforce simp: scan_token_def)

section \<open>Reading strings\<close>

lemma next_bytes:
  "list_all2 in_range rs ds \<Longrightarrow> lx_left l = ds @ s \<Longrightarrow>
     \<exists>l'. next_byte_in_range rs l = (True, l') \<and> lx_left l' = s \<and> lx_buffer l' = lx_buffer l @ ds"
proof (induction rs ds arbitrary: l rule: list_all2_induct)
  case (Cons r rs d ds)
  obtain lo hi where r: "r = (lo, hi)" by fastforce
  have o: "lx_on (lx_get l) d (ds @ s)" using lx_get_on [of l d] Cons.prems by simp
  then obtain l' where "next_byte_in_range rs (lx_add d (lx_get l)) = (True, l')" "lx_left l' = s"
    "lx_buffer l' = lx_buffer (lx_add d (lx_get l)) @ ds"
    using Cons.IH [of "lx_add d (lx_get l)"] by (auto simp: lx_onD)
  then show ?case using o Cons.hyps(1) r by (simp add: lx_onD in_range_def Let_def)
qed simp

lemma plain_round:
  assumes "lx_left l = c # ds @ s" "byte_ranges (of_char c) = Some rs" "list_all2 in_range rs ds" "c \<noteq> CHR 0x22" "c \<noteq> CHR 0x5C"
  shows "\<exists>l'. string_round l = (None, l') \<and> lx_left l' = s \<and> lx_buffer l' = lx_buffer l @ c # ds"
proof -
  have o: "lx_on (lx_get l) c (ds @ s)" by (rule lx_get_on) (use assms(1) in simp)
  have n: "\<not> of_char c \<le> (31 :: nat)" using assms(2) by (auto simp: byte_ranges_def split: if_splits)
  obtain l' where "next_byte_in_range rs (lx_add c (lx_get l)) = (True, l')" "lx_left l' = s" "lx_buffer l' = lx_buffer l @ c # ds"
    using next_bytes [OF assms(3), of "lx_add c (lx_get l)" s] o by (auto simp: lx_onD)
  then show ?thesis using o n assms(2,4,5) by (simp add: string_round_def lx_onD Let_def)
qed

lemma simple_round:
  assumes "lx_left l = CHR 0x5C # x # s" "simple_escape x = Some c"
  shows "\<exists>l'. string_round l = (None, l') \<and> lx_left l' = s \<and> lx_buffer l' = lx_buffer l @ [c]"
proof -
  have o: "lx_on (lx_get l) CHR 0x5C (x # s)" by (rule lx_get_on [OF assms(1)])
  have o2: "lx_on (lx_get (lx_get l)) x s" by (rule lx_get_on) (use o in \<open>simp add: lx_onD\<close>)
  have "scan_escape (lx_get l) = (None, lx_add c (lx_get (lx_get l)))"
    using o2 assms(2) by (simp add: scan_escape_def lx_onD Let_def del: simple_escape.simps)
  then show ?thesis using o o2 by (simp add: string_round_def lx_onD Let_def)
qed

lemma hex_value_lower: "n < 16 \<Longrightarrow> hex_value (hex_lower n) = Some n"
proof -
  assume n: "n < 16"
  then have "of_char (hex_lower n) = (if n < 10 then 48 + n else 87 + n)" by (simp add: hex_lower_def)
  then show ?thesis using n by (simp add: hex_value_def Let_def)
qed

lemma codepoint_digits_step:
  assumes "lx_left l = c # s" "hex_value c = Some d"
  shows "codepoint_digits (f # fs) n l = codepoint_digits fs (n + push_bit f d) (lx_get l)" "lx_left (lx_get l) = s"
  using lx_get_on [OF assms(1)] assms(2) by (simp_all add: lx_onD Let_def)

lemma unicode_round:
  assumes "lx_left l = CHR 0x5C # CHR ''u'' # CHR ''0'' # CHR ''0'' # hex_lower (n div 16) # hex_lower (n mod 16) # s" "n < 32"
  shows "\<exists>l'. string_round l = (None, l') \<and> lx_left l' = s \<and> lx_buffer l' = lx_buffer l @ [char_of n]"
proof -
  have o: "lx_on (lx_get l) CHR 0x5C (CHR ''u'' # CHR ''0'' # CHR ''0'' # hex_lower (n div 16) # hex_lower (n mod 16) # s)"
    by (rule lx_get_on [OF assms(1)])
  let ?l2 = "lx_get (lx_get l)"
  have o2: "lx_on ?l2 CHR ''u'' (CHR ''0'' # CHR ''0'' # hex_lower (n div 16) # hex_lower (n mod 16) # s)"
    by (rule lx_get_on) (use o in \<open>simp add: lx_onD\<close>)
  have z: "hex_value CHR ''0'' = Some 0" by (simp add: hex_value_def)
  note h = hex_value_lower [of "n div 16"] hex_value_lower [of "n mod 16"]
  have d: "n div 16 < 16" "n mod 16 < 16" using assms(2) by simp_all
  note g = codepoint_digits_step [OF lx_onD(2) [OF o2] z]
  note g2 = codepoint_digits_step [OF g(2) z]
  note g3 = codepoint_digits_step [OF g2(2) h(1) [OF d(1)]]
  note g4 = codepoint_digits_step [OF g3(2) h(2) [OF d(2)]]
  let ?l6 = "lx_get (lx_get (lx_get (lx_get ?l2)))"
  have "get_codepoint ?l2 = (Some n, ?l6)"
    unfolding get_codepoint_def g(1) g2(1) g3(1) g4(1) by (simp add: push_bit_eq_mult)
  then have "scan_unicode ?l2 = (Inr n, ?l6)" using assms(2) by (simp add: scan_unicode_def)
  then have "scan_escape (lx_get l) = (None, lx_add (char_of n) ?l6)"
    using o2 assms(2) by (simp add: scan_escape_def lx_onD Let_def codepoint_bytes_def)
  then show ?thesis using o g4(2) by (simp add: string_round_def lx_onD Let_def)
qed

text \<open>The three ways a byte below 128 is written.\<close>

lemma esc_byte_cases:
  assumes "of_char c < (128 :: nat)"
  shows "(\<exists>x. esc_byte c = [CHR 0x5C, x] \<and> simple_escape x = Some c) \<or>
     of_char c < (32 :: nat) \<and> esc_byte c = [CHR 0x5C, CHR ''u'', CHR ''0'', CHR ''0'', hex_lower (of_char c div 16), hex_lower (of_char c mod 16)] \<or>
     esc_byte c = [c] \<and> 32 \<le> (of_char c :: nat) \<and> c \<noteq> CHR 0x22 \<and> c \<noteq> CHR 0x5C"
proof -
  let ?n = "of_char c :: nat" and ?w = "word_of_nat (of_char c) :: 32 word"
  have u: "unat ?w = ?n" using assms by (simp add: unat_of_nat)
  have w: "?w = m \<longleftrightarrow> ?n = unat m" for m using u word_unat_eq_iff by metis
  have le: "?w \<le> m \<longleftrightarrow> ?n \<le> unat m" for m using u by (simp add: word_le_nat_alt)
  have e: "esc_byte c = (if ?n = 8 then [CHR 0x5C, CHR ''b''] else if ?n = 9 then [CHR 0x5C, CHR ''t'']
      else if ?n = 10 then [CHR 0x5C, CHR ''n''] else if ?n = 12 then [CHR 0x5C, CHR ''f''] else if ?n = 13 then [CHR 0x5C, CHR ''r'']
      else if ?n = 34 then [CHR 0x5C, CHR 0x22] else if ?n = 92 then [CHR 0x5C, CHR 0x5C]
      else if ?n \<le> 31 then [CHR 0x5C, CHR ''u'', CHR ''0'', CHR ''0'', hex_lower (?n div 16), hex_lower (?n mod 16)] else [c])"
    using assms by (simp add: esc_byte_def escape_def w le u)
  have c: "c = d \<longleftrightarrow> ?n = of_char d" for d by simp
  show ?thesis
    unfolding e c [of "CHR 0x22"] c [of "CHR 0x5C"]
    using c [of "CHR 0x08"] c [of "CHR 0x09"] c [of "CHR 0x0A"] c [of "CHR 0x0C"] c [of "CHR 0x0D"] c [of "CHR 0x22"] c [of "CHR 0x5C"]
    by (simp add: eq_commute [of _ c])
qed

lemma byte_round:
  assumes "of_char c < (128 :: nat)" "lx_left l = esc_byte c @ s"
  shows "\<exists>l'. string_round l = (None, l') \<and> lx_left l' = s \<and> lx_buffer l' = lx_buffer l @ [c]"
proof -
  let ?n = "of_char c :: nat"
  note esc_byte_cases [OF assms(1)]
  then show ?thesis
  proof (elim disjE exE conjE)
    fix x assume "esc_byte c = [CHR 0x5C, x]" "simple_escape x = Some c"
    then show ?thesis using simple_round [of l x s c] assms(2) by simp
  next
    assume "?n < 32" "esc_byte c = [CHR 0x5C, CHR ''u'', CHR ''0'', CHR ''0'', hex_lower (?n div 16), hex_lower (?n mod 16)]"
    then show ?thesis using unicode_round [of l ?n s] assms(2) by simp
  next
    assume "esc_byte c = [c]" "32 \<le> ?n" "c \<noteq> CHR 0x22" "c \<noteq> CHR 0x5C"
    then show ?thesis using plain_round [of l c "[]" s "[]"] assms by (simp add: byte_ranges_def)
  qed
qed

lemma utf8_loop:
  "utf8 u \<Longrightarrow> lx_left l = esc u @ CHR 0x22 # s \<Longrightarrow>
     \<exists>l'. scan_string_loop l = (ValueString (lx_buffer l @ u), l') \<and> lx_on l' CHR 0x22 s"
proof (induction u arbitrary: l rule: utf8.induct)
  case utf8_Nil
  then have o: "lx_on (lx_get l) CHR 0x22 s" by (simp add: lx_get_on)
  then have "string_round l = (Some (ValueString (lx_buffer l)), lx_get l)" by (simp add: string_round_def lx_onD Let_def)
  then show ?case using o by (simp add: scan_string_loop.simps [of l])
next
  case (utf8_Cons c rs ds u)
  have l: "lx_left l = esc_byte c @ ds @ esc u @ CHR 0x22 # s"
    using utf8_Cons.prems in_range_high [OF utf8_Cons.hyps(2) following_high [OF utf8_Cons.hyps(1)]] by simp
  have "\<exists>l'. string_round l = (None, l') \<and> lx_left l' = esc u @ CHR 0x22 # s \<and> lx_buffer l' = lx_buffer l @ c # ds"
  proof (cases "of_char c < (128 :: nat)")
    case True
    then have "ds = []" using utf8_Cons.hyps(1,2) by (simp add: following_def)
    then show ?thesis using byte_round [OF True, of l "esc u @ CHR 0x22 # s"] l by simp
  next
    case False
    then have "c \<noteq> CHR 0x22" "c \<noteq> CHR 0x5C" by auto
    then show ?thesis
      using False plain_round [of l c ds "esc u @ CHR 0x22 # s" rs] utf8_Cons.hyps(1,2) l by (auto simp: following_def esc_byte_def)
  qed
  then obtain l1 where l1: "string_round l = (None, l1)" "lx_left l1 = esc u @ CHR 0x22 # s" "lx_buffer l1 = lx_buffer l @ c # ds" by blast
  then show ?case using utf8_Cons.IH [OF l1(2)] by (simp add: scan_string_loop.simps [of l])
qed

lemma scan_quoted:
  assumes "utf8 u" "lx_at l (ws @ in_quotes (esc u) @ s)" "list_all json_space ws"
  shows "\<exists>l'. scan strtod l = (ValueString u, l') \<and> lx_at l' s"
proof -
  obtain l1 where l1: "scan strtod l = scan_token strtod l1" "lx_on l1 CHR 0x22 (esc u @ CHR 0x22 # s)"
    using scan_on [of l ws "CHR 0x22"] assms(2,3) by (auto simp: in_quotes_def json_space_def)
  obtain l2 where "scan_string_loop (lx_reset l1) = (ValueString u, l2)" "lx_on l2 CHR 0x22 s"
    using utf8_loop [OF assms(1), of "lx_reset l1" s] lx_reset_on [OF l1(2)] by (auto simp: lx_onD)
  then show ?thesis using l1 lx_on_at by (fastforce simp: scan_token_def scan_string_def lx_onD json_digit_def)
qed

section \<open>Reading punctuation and literals\<close>

lemma scan_punctuation:
  assumes "lx_at l (ws @ c # s)" "list_all json_space ws"
    and "(c, t) \<in> {(CHR ''['', BeginArray), (CHR '']'', EndArray), (CHR ''{'', BeginObject), (CHR ''}'', EndObject),
      (CHR '':'', NameSeparator), (CHR '','', ValueSeparator)}"
  shows "\<exists>l'. scan strtod l = (t, l') \<and> lx_at l' s"
proof -
  have "\<not> json_space c" using assms(3) by (auto simp: json_space_def)
  then obtain l1 where "scan strtod l = scan_token strtod l1" "lx_on l1 c s" using scan_on [OF assms(1,2)] by blast
  moreover from this have "scan_token strtod l1 = (t, l1)" using assms(3) by (elim insertE emptyE) (simp_all add: scan_token_def lx_onD)
  ultimately show ?thesis using lx_on_at by auto
qed

lemma scan_literal_on:
  "lx_on l c (cs @ s) \<Longrightarrow> \<exists>l' c'. scan_literal cs t l = (t, l') \<and> lx_on l' c' s"
proof (induction cs arbitrary: l c)
  case (Cons d cs)
  have "lx_on (lx_get l) d (cs @ s)" by (rule lx_get_on) (use Cons.prems in \<open>simp add: lx_onD\<close>)
  then show ?case using Cons.IH by (simp add: lx_onD Let_def)
qed auto

lemma scan_word:
  assumes "lx_at l (ws @ w @ s)" "list_all json_space ws"
    and "(w, t) \<in> {(''true'', LiteralTrue), (''false'', LiteralFalse), (''null'', LiteralNull)}"
  shows "\<exists>l'. scan strtod l = (t, l') \<and> lx_at l' s"
proof -
  have w: "w = hd w # tl w" "\<not> json_space (hd w)" using assms(3) by (auto simp: json_space_def)
  then have "lx_at l (ws @ hd w # tl w @ s)" using assms(1) by (metis append_Cons)
  then obtain l1 where l1: "scan strtod l = scan_token strtod l1" "lx_on l1 (hd w) (tl w @ s)"
    using scan_on [OF _ assms(2) w(2)] by blast
  obtain l2 c where "scan_literal (tl w) t l1 = (t, l2)" "lx_on l2 c s" using scan_literal_on [OF l1(2)] by blast
  then show ?thesis using l1 assms(3) lx_on_at by (auto simp: scan_token_def lx_onD simp del: scan_literal.simps)
qed

section \<open>Reading numbers\<close>

text \<open>The automaton of \<^verbatim>\<open>scan_number\<close> on a text of its own, and the kind of number a whole text is.\<close>

fun run_number :: "number_state \<Rightarrow> number_type \<Rightarrow> string \<Rightarrow> (number_state \<times> number_type) option" where
  "run_number s t [] = Some (s, number_type_at s t)"
| "run_number s t (c # cs) = (case number_move s (Some c) of GoTo s1 \<Rightarrow> run_number s1 (number_type_at s t) cs | _ \<Rightarrow> None)"

definition number_final :: "number_state \<Rightarrow> bool" where
  "number_final s = (s = InZero \<or> s = InAny1 \<or> s = InDecimal2 \<or> s = InAny2)"

definition number_start :: "char \<Rightarrow> number_state" where
  "number_start c = (if c = CHR ''-'' then InMinus else if c = CHR ''0'' then InZero else InAny1)"

fun number_kind :: "string \<Rightarrow> number_type option" where
  "number_kind [] = None"
| "number_kind (c # cs) =
     (if c = CHR ''-'' \<or> json_digit (Some c) then
        (case run_number (number_start c) UnsignedNumber cs of
           Some (s, t) \<Rightarrow> if number_final s then Some t else None
         | None \<Rightarrow> None)
      else None)"

definition number_token :: "(string \<Rightarrow> double) \<Rightarrow> number_type \<Rightarrow> string \<Rightarrow> token" where
  "number_token strtod t s = (case (case t of
       UnsignedNumber \<Rightarrow> map_option ValueUnsigned (strtoull s)
     | IntegerNumber \<Rightarrow> map_option ValueInteger (strtoll s)
     | FloatNumber \<Rightarrow> None) of Some token \<Rightarrow> token | None \<Rightarrow> ValueFloat (strtod s))"

definition number_end :: "string \<Rightarrow> bool" where
  "number_end s = (case s of [] \<Rightarrow> True | c # s' \<Rightarrow> \<not> json_digit (Some c) \<and> c \<noteq> CHR ''.'' \<and> \<not> exponent_char (Some c))"

lemma number_final_done: "number_final s \<Longrightarrow> number_end rest \<Longrightarrow> number_move s (case rest of [] \<Rightarrow> None | c # r \<Rightarrow> Some c) = NumberDone"
  by (auto simp: number_final_def number_end_def json_digit_def exponent_char_def split: list.split)

lemma lx_add_current_on: "lx_on l c s \<Longrightarrow> lx_add_current l = lx_add c l"
  by (simp add: lx_on_def lx_add_current_def)

lemma lx_get_current: "lx_left l = rest \<Longrightarrow> lx_current (lx_get l) = (case rest of [] \<Rightarrow> None | c # r \<Rightarrow> Some c)"
  using lx_get_end [of l] lx_get_left [of l] by (auto split: list.split)

lemma unget_get: "lx_left l = rest \<Longrightarrow> 0 < lx_total l \<Longrightarrow> lx_at (lx_unget_char (lx_get l)) rest \<and> lx_buffer (lx_unget_char (lx_get l)) = lx_buffer l"
proof (cases rest)
  case Nil
  assume "lx_left l = rest" "0 < lx_total l"
  then show ?thesis using lx_unget_end [of "lx_get l"] lx_get_end [of l] Nil by (simp add: lx_at_def)
next
  case (Cons c s)
  assume "lx_left l = rest" "0 < lx_total l"
  then show ?thesis using lx_unget_on [OF lx_get_on [of l c s]] Cons by (simp add: lx_at_def)
qed

lemma finish_number_eq:
  "finish_number strtod t l = (number_token strtod t (lx_buffer (lx_unget_char l)), lx_unget_char l)"
  by (simp add: finish_number_def number_token_def Let_def split: option.split)

lemma scan_number_run:
  "run_number s t cs = Some (s', t') \<Longrightarrow> number_final s' \<Longrightarrow> number_end rest \<Longrightarrow> lx_left l = cs @ rest \<Longrightarrow> 0 < lx_total l \<Longrightarrow>
     \<exists>l'. scan_number_from strtod s t l = (number_token strtod t' (lx_buffer l @ cs), l') \<and> lx_at l' rest"
proof (induction s t cs arbitrary: l rule: run_number.induct)
  case (1 s t)
  then have "number_move s (lx_current (lx_get l)) = NumberDone"
    using number_final_done lx_get_current [of l rest] by simp
  then have e: "scan_number_from strtod s t l = finish_number strtod (number_type_at s t) (lx_get l)"
    by (simp add: scan_number_from.simps [of _ s t l] Let_def)
  show ?case unfolding e finish_number_eq using 1 unget_get [of l rest] by auto
next
  case (2 s t c cs)
  obtain s1 where s1: "number_move s (Some c) = GoTo s1" "run_number s1 (number_type_at s t) cs = Some (s', t')"
    using 2(2) by (auto split: number_label.splits)
  have o: "lx_on (lx_get l) c (cs @ rest)" using lx_get_on 2(5) by simp
  have "\<exists>l'. scan_number_from strtod s1 (number_type_at s t) (lx_add c (lx_get l)) =
      (number_token strtod t' (lx_buffer (lx_add c (lx_get l)) @ cs), l') \<and> lx_at l' rest"
    by (rule 2(1) [OF s1 2(3,4)]) (use o in \<open>simp_all add: lx_on_def\<close>)
  then show ?case
    using s1(1) o by (simp add: scan_number_from.simps [of _ s t l] lx_onD(1) lx_add_current_on Let_def)
qed

lemma scan_number_text:
  assumes "number_kind w = Some t" "lx_at l (ws @ w @ s)" "list_all json_space ws" "number_end s"
  shows "\<exists>l'. scan strtod l = (number_token strtod t w, l') \<and> lx_at l' s"
proof -
  obtain c cs where w: "w = c # cs" using assms(1) by (cases w) simp_all
  obtain s' where c: "c = CHR ''-'' \<or> json_digit (Some c)" and r: "run_number (number_start c) UnsignedNumber cs = Some (s', t)" "number_final s'"
    using assms(1) w by (auto split: if_splits option.splits)
  have "\<not> json_space c" using c by (auto simp: json_space_def json_digit_def)
  then obtain l1 where l1: "scan strtod l = scan_token strtod l1" "lx_on l1 c (cs @ s)"
    using scan_on [of l ws c "cs @ s"] assms(2,3) w by auto
  note o = lx_reset_on [OF l1(2)]
  have n: "scan_number strtod l1 = scan_number_from strtod (number_start c) UnsignedNumber (lx_add c (lx_reset l1))"
    using lx_onD(1) [OF l1(2)] lx_add_current_on [OF conjunct1 [OF o]] by (simp add: scan_number_def number_start_def Let_def)
  have "\<exists>l'. scan_number_from strtod (number_start c) UnsignedNumber (lx_add c (lx_reset l1)) =
      (number_token strtod t (lx_buffer (lx_add c (lx_reset l1)) @ cs), l') \<and> lx_at l' s"
    by (rule scan_number_run [OF r assms(4)]) (use o in \<open>simp_all add: lx_on_def\<close>)
  then obtain l' where l': "scan_number strtod l1 = (number_token strtod t w, l')" "lx_at l' s"
    unfolding n using o w by auto
  have ne: "c \<notin> {CHR ''['', CHR '']'', CHR ''{'', CHR ''}'', CHR '':'', CHR '','', CHR ''t'', CHR ''f'', CHR ''n'', CHR 0x22}"
    using c by (auto simp: json_digit_def)
  have "scan_token strtod l1 = scan_number strtod l1"
    using c ne lx_onD(1) [OF l1(2)] by (simp add: scan_token_def del: scan_literal.simps)
  then show ?thesis using l1(1) l' by simp
qed

section \<open>Integers\<close>

lemma json_digit_char [simp]: "(n :: nat) < 10 \<Longrightarrow> json_digit (Some (char_of (48 + n)))"
  by (simp add: json_digit_def)

lemma decimal_value_append [simp]: "decimal_value n (xs @ ys) = decimal_value (decimal_value n xs) ys"
  by (induction n xs rule: decimal_value.induct) simp_all

lemma digit_pairs_digits: "list_all (\<lambda>c. json_digit (Some c)) (digit_pairs n)"
proof (induction n rule: digit_pairs.induct)
  case (1 n)
  then show ?case by (cases "n < 100") (auto simp: digit_pairs.simps [of n] digits_to_99_def)
qed

lemma digit_pairs_value: "decimal_value 0 (digit_pairs n) = n"
proof (induction n rule: digit_pairs.induct)
  case (1 n)
  have two: "decimal_value m (digits_to_99 k) = 100 * m + k" if "k < 100" for m k
    using that by (simp add: digits_to_99_def)
  show ?case
  proof (cases "100 \<le> n")
    case True
    then have "decimal_value 0 (digit_pairs n) = decimal_value (n div 100) (digits_to_99 (n mod 100))"
      using 1 by (simp add: digit_pairs.simps [of n])
    then show ?thesis using two [of "n mod 100"] by simp
  next
    case False
    then show ?thesis using two [of n 0] by (simp add: digit_pairs.simps [of n])
  qed
qed

lemma digit_pairs_first: "0 < n \<Longrightarrow> \<exists>d ds. digit_pairs n = d # ds \<and> d \<noteq> CHR ''0'' \<and> list_all (\<lambda>c. json_digit (Some c)) ds"
proof (induction n rule: digit_pairs.induct)
  case (1 n)
  have z: "char_of (48 + k) \<noteq> CHR ''0''" if "0 < k" "k < 10" for k :: nat
  proof
    assume "char_of (48 + k) = CHR ''0''"
    then have "of_char (char_of (48 + k) :: char) = (of_char CHR ''0'' :: nat)" by (rule arg_cong)
    then show False using that by simp
  qed
  show ?case
  proof (cases "100 \<le> n")
    case True
    then have "0 < n div 100" by (simp add: div_greater_zero_iff)
    then obtain d ds where "digit_pairs (n div 100) = d # ds" "d \<noteq> CHR ''0''" "list_all (\<lambda>c. json_digit (Some c)) ds" using 1 True by auto
    then show ?thesis using True by (simp add: digit_pairs.simps [of n] digits_to_99_def)
  next
    case False
    then show ?thesis using z [of n] z [of "n div 10"] 1(2) by (auto simp: digit_pairs.simps [of n] digits_to_99_def)
  qed
qed

lemma run_digits: "list_all (\<lambda>c. json_digit (Some c)) ds \<Longrightarrow> run_number InAny1 t ds = Some (InAny1, t)"
  by (induction ds) simp_all

lemma number_kind_digits:
  assumes "0 < n"
  shows "number_kind (digit_pairs n) = Some UnsignedNumber" "number_kind (CHR ''-'' # digit_pairs n) = Some IntegerNumber"
proof -
  obtain d ds where d: "digit_pairs n = d # ds" "d \<noteq> CHR ''0''" "list_all (\<lambda>c. json_digit (Some c)) ds"
    using digit_pairs_first [OF assms] by blast
  moreover have "json_digit (Some d)" using digit_pairs_digits [of n] d(1) by simp
  moreover have "d \<noteq> CHR ''-''" using calculation(4) by (auto simp: json_digit_def)
  ultimately show "number_kind (digit_pairs n) = Some UnsignedNumber" "number_kind (CHR ''-'' # digit_pairs n) = Some IntegerNumber"
    using run_digits [OF d(3)] by (simp_all add: number_start_def number_final_def)
qed

lemma number_kind_zero: "number_kind ''0'' = Some UnsignedNumber"
  by (simp add: number_start_def number_final_def json_digit_def)

lemma unsigned_text: "number_kind (dump_unsigned x) = Some UnsignedNumber" "number_token strtod UnsignedNumber (dump_unsigned x) = ValueUnsigned x"
proof -
  have "0 < unat x" if "x \<noteq> 0" using that unat_gt_0 by blast
  then show "number_kind (dump_unsigned x) = Some UnsignedNumber"
    using number_kind_digits(1) number_kind_zero by (simp add: dump_unsigned_def)
  have "unat x < 2 ^ 64" using unsigned_less [of x, where 'a = nat] by simp
  then show "number_token strtod UnsignedNumber (dump_unsigned x) = ValueUnsigned x"
    by (simp add: dump_unsigned_def number_token_def strtoull_def digit_pairs_value)
qed

lemma remove_sign_minus: "remove_sign x = - x"
  by (simp add: remove_sign_def)

lemma integer_text:
  "number_kind (dump_integer x) = Some (if x <s 0 then IntegerNumber else UnsignedNumber)"
  "number_token strtod (if x <s 0 then IntegerNumber else UnsignedNumber) (dump_integer x) = (if x <s 0 then ValueInteger x else ValueUnsigned x)"
proof -
  have nz: "x <s 0 \<Longrightarrow> x \<noteq> 0" by auto
  have pos: "0 < unat (- x)" if "x <s 0" using nz [OF that] by (simp add: unat_gt_0)
  have le: "unat (- x) \<le> 2 ^ 63" if "x <s 0"
  proof -
    have s: "- (2 ^ 63) \<le> sint x" "sint x < 0" using that sint_greater_eq [of x] by (simp_all add: word_sless_alt)
    have "- x = word_of_int (- sint x)" by simp
    then have "uint (- x) = (- sint x) mod 2 ^ 64" by (simp only: uint_word_of_int) simp
    also have "\<dots> = - sint x" using s by (intro mod_pos_pos_trivial) simp_all
    finally show ?thesis using s by (simp add: unat_eq_nat_uint)
  qed
  show "number_kind (dump_integer x) = Some (if x <s 0 then IntegerNumber else UnsignedNumber)"
    using number_kind_digits number_kind_zero pos nz unsigned_text(1) [of x]
    by (auto simp: dump_integer_def dump_unsigned_def remove_sign_minus)
  show "number_token strtod (if x <s 0 then IntegerNumber else UnsignedNumber) (dump_integer x) = (if x <s 0 then ValueInteger x else ValueUnsigned x)"
  proof (cases "x <s 0")
    case True
    then show ?thesis
      using le nz by (simp add: dump_integer_def remove_sign_minus number_token_def strtoll_def digit_pairs_value)
  next
    case False
    then have "dump_integer x = dump_unsigned x" by (simp add: dump_integer_def dump_unsigned_def)
    then show ?thesis using False unsigned_text(2) [of strtod x] by simp
  qed
qed

end
