(* ===== verification/Anu_Roundtrip.thy ===== *)
theory Anu_Roundtrip
  imports Anu_Texts Anu_Msgpack
begin

text \<open>
  The parser reads back what the serializer writes. A text is \<open>readable\<close> as a value when the loop of the parser, in front of
  it, comes to the state in which this value is complete; arrays and objects of readable texts are readable.
\<close>

section \<open>Readable texts\<close>

abbreviation spaces :: "string \<Rightarrow> bool" where
  "spaces \<equiv> list_all json_space"

definition readable :: "(string \<Rightarrow> double) \<Rightarrow> json \<Rightarrow> string \<Rightarrow> bool" where
  "readable strtod v t \<longleftrightarrow> (\<exists>c s. t = c # s \<and> c \<noteq> CHR 0xEF) \<and>
     (\<forall>l ws rest st. spaces ws \<longrightarrow> number_end rest \<longrightarrow> lx_at l (ws @ t @ rest) \<longrightarrow>
       (\<exists>tk l1 l'. scan strtod l = (tk, l1) \<and> tk \<noteq> EndArray \<and> lx_at l' rest \<and>
          parse_loop strtod (AtToken tk) l1 st = parse_loop strtod (Complete v) l' st))"

lemma readableD:
  assumes "readable strtod v t" "spaces ws" "number_end rest" "lx_at l (ws @ t @ rest)"
  shows "\<exists>tk l1 l'. scan strtod l = (tk, l1) \<and> tk \<noteq> EndArray \<and> lx_at l' rest \<and>
    parse_loop strtod (AtToken tk) l1 st = parse_loop strtod (Complete v) l' st"
  using assms by (simp add: readable_def)

lemma readable_scalar:
  assumes "\<And>l ws rest. spaces ws \<Longrightarrow> number_end rest \<Longrightarrow> lx_at l (ws @ t @ rest) \<Longrightarrow> \<exists>l'. scan strtod l = (tk, l') \<and> lx_at l' rest"
    and "\<exists>c s. t = c # s \<and> c \<noteq> CHR 0xEF" "tk \<noteq> EndArray" "\<And>l st. at_token strtod tk l st = after_value strtod v l st"
  shows "readable strtod v t"
proof -
  have "parse_loop strtod (AtToken tk) l st = parse_loop strtod (Complete v) l st" for l st
    using assms(4) by (simp add: parse_loop.simps [of _ "AtToken tk"] parse_loop.simps [of _ "Complete v"] parse_round_def)
  moreover have "\<exists>tk l1 l'. scan strtod l = (tk, l1) \<and> tk \<noteq> EndArray \<and> lx_at l' rest \<and>
      parse_loop strtod (AtToken tk) l1 st = parse_loop strtod (Complete v) l' st"
    if "spaces ws" "number_end rest" "lx_at l (ws @ t @ rest)" for l ws rest st
    using assms(1) [OF that] assms(3) calculation by blast
  ultimately show ?thesis using assms(2) by (simp add: readable_def)
qed

lemma readable_word:
  assumes "(w, tk, v) \<in> {(''true'', LiteralTrue, JBoolean True), (''false'', LiteralFalse, JBoolean False), (''null'', LiteralNull, JNull)}"
  shows "readable strtod v w"
proof (rule readable_scalar)
  fix l ws rest
  assume "spaces ws" "lx_at l (ws @ w @ rest)"
  then show "\<exists>l'. scan strtod l = (tk, l') \<and> lx_at l' rest" by (intro scan_word) (use assms in auto)
qed (use assms in auto)

lemma in_quotes_head: "\<exists>c. (\<exists>s. in_quotes u = c # s) \<and> c \<noteq> CHR 0xEF"
  by (simp add: in_quotes_def)

lemma readable_string: "utf8 u \<Longrightarrow> readable strtod (JString u) (in_quotes (esc u))"
  by (rule readable_scalar [where tk = "ValueString u"]) (simp_all add: in_quotes_head scan_quoted)

lemma readable_number:
  assumes "number_kind w = Some k" "\<And>l st. at_token strtod (number_token strtod k w) l st = after_value strtod v l st"
  shows "readable strtod v w"
proof (rule readable_scalar)
  fix l ws rest
  assume "spaces ws" "number_end rest" "lx_at l (ws @ w @ rest)"
  then show "\<exists>l'. scan strtod l = (number_token strtod k w, l') \<and> lx_at l' rest" by (intro scan_number_text assms(1))
next
  obtain c cs where "w = c # cs" using assms(1) by (cases w) simp_all
  moreover from this have "c = CHR ''-'' \<or> json_digit (Some c)" using assms(1) by (auto split: if_splits)
  ultimately show "\<exists>c s. w = c # s \<and> c \<noteq> CHR 0xEF" by (auto simp: json_digit_def)
next
  show "number_token strtod k w \<noteq> EndArray" by (auto simp: number_token_def split: option.split number_type.split)
qed (rule assms(2))

lemma readable_unsigned: "readable strtod (JUnsigned x) (dump_unsigned x)"
  by (rule readable_number [OF unsigned_text(1)]) (simp add: unsigned_text(2))

lemma readable_integer: "readable strtod (if x <s 0 then JInteger x else JUnsigned x) (dump_integer x)"
proof (rule readable_number [OF integer_text(1)])
  show "at_token strtod (number_token strtod (if x <s 0 then IntegerNumber else UnsignedNumber) (dump_integer x)) l st =
      after_value strtod (if x <s 0 then JInteger x else JUnsigned x) l st" for l st
    unfolding integer_text(2) by simp
qed

lemma readable_float:
  assumes "number_kind w = Some FloatNumber" "strtod w = d" "isfinite d"
  shows "readable strtod (JFloat d) w"
  by (rule readable_number [OF assms(1)]) (use assms(2,3) in \<open>simp add: number_token_def\<close>)

section \<open>Containers\<close>

lemma number_end_space: "spaces ws \<Longrightarrow> c \<in> {CHR '','', CHR '']'', CHR ''}''} \<Longrightarrow> number_end (ws @ c # s)"
  by (cases ws) (auto simp: number_end_def json_space_def json_digit_def exponent_char_def)

lemma readable_elements:
  assumes "list_all2 (readable strtod) vs ts" "vs \<noteq> []" "spaces w1" "spaces w" "spaces w3"
    and "lx_at l (w1 @ join (CHR '','' # w) ts @ w3 @ CHR '']'' # rest)"
  shows "\<exists>tk l1 l'. scan strtod l = (tk, l1) \<and> tk \<noteq> EndArray \<and> lx_at l' rest \<and>
    parse_loop strtod (AtToken tk) l1 (InArray xs # st) = parse_loop strtod (Complete (JArray (xs @ vs))) l' st"
  using assms
proof (induction vs ts arbitrary: l xs w1 rule: list_all2_induct)
  case (Cons v vs t ts)
  note step = parse_loop.simps [of strtod "Complete v" _ "InArray xs # st"]
  show ?case
  proof (cases "vs = []")
    case True
    then have ts: "ts = []" using Cons.hyps(2) by simp
    obtain tk l1 l2 where r: "scan strtod l = (tk, l1)" "tk \<noteq> EndArray" "lx_at l2 (w3 @ CHR '']'' # rest)"
      "parse_loop strtod (AtToken tk) l1 (InArray xs # st) = parse_loop strtod (Complete v) l2 (InArray xs # st)"
      using readableD [OF Cons.hyps(1) Cons.prems(2), of "w3 @ CHR '']'' # rest" l "InArray xs # st"] Cons.prems ts number_end_space by auto
    obtain l3 where "scan strtod l2 = (EndArray, l3)" "lx_at l3 rest"
      using scan_punctuation [OF r(3), of EndArray] Cons.prems(4) by auto
    then show ?thesis using r True by (auto simp: step parse_round_def)
  next
    case False
    then obtain t2 ts2 where ts: "ts = t2 # ts2" using Cons.hyps(2) by (cases ts) auto
    let ?more = "CHR '','' # w @ join (CHR '','' # w) ts @ w3 @ CHR '']'' # rest"
    obtain tk l1 l2 where r: "scan strtod l = (tk, l1)" "tk \<noteq> EndArray" "lx_at l2 ?more"
      "parse_loop strtod (AtToken tk) l1 (InArray xs # st) = parse_loop strtod (Complete v) l2 (InArray xs # st)"
      using readableD [OF Cons.hyps(1) Cons.prems(2), of ?more l "InArray xs # st"] Cons.prems ts number_end_space [of "[]"] by auto
    obtain l3 where l3: "scan strtod l2 = (ValueSeparator, l3)" "lx_at l3 (w @ join (CHR '','' # w) ts @ w3 @ CHR '']'' # rest)"
      using scan_punctuation [of l2 "[]" "CHR '',''" _ ValueSeparator] r(3) by auto
    obtain tk2 l4 l' where "scan strtod l3 = (tk2, l4)" "tk2 \<noteq> EndArray" "lx_at l' rest"
      "parse_loop strtod (AtToken tk2) l4 (InArray (xs @ [v]) # st) = parse_loop strtod (Complete (JArray ((xs @ [v]) @ vs))) l' st"
      using Cons.IH [OF False Cons.prems(3,3,4) l3(2)] by blast
    then show ?thesis using r l3 by (auto simp: step parse_round_def)
  qed
qed simp

lemma readable_array:
  assumes "list_all2 (readable strtod) vs ts" "spaces w1" "spaces w" "spaces w3"
  shows "readable strtod (JArray vs) (CHR ''['' # w1 @ join (CHR '','' # w) ts @ w3 @ '']'')"
proof -
  have "\<exists>tk l1 l'. scan strtod l = (tk, l1) \<and> tk \<noteq> EndArray \<and> lx_at l' rest \<and>
      parse_loop strtod (AtToken tk) l1 st = parse_loop strtod (Complete (JArray vs)) l' st"
    if a: "spaces ws" "lx_at l (ws @ CHR ''['' # w1 @ join (CHR '','' # w) ts @ w3 @ CHR '']'' # rest)" for l ws rest st
  proof -
    obtain l1 where l1: "scan strtod l = (BeginArray, l1)" "lx_at l1 (w1 @ join (CHR '','' # w) ts @ w3 @ CHR '']'' # rest)"
      using scan_punctuation [OF a(2,1), of BeginArray] by auto
    note step = parse_loop.simps [of strtod "AtToken BeginArray" l1 st]
    show ?thesis
    proof (cases "vs = []")
      case True
      then have "lx_at l1 ((w1 @ w3) @ CHR '']'' # rest)" using l1(2) assms(1) by simp
      then obtain l2 where l2: "scan strtod l1 = (EndArray, l2)" "lx_at l2 rest"
        using scan_punctuation [of l1 "w1 @ w3" "CHR '']''" rest EndArray] assms(2,4) by auto
      have "parse_loop strtod (AtToken BeginArray) l1 st = parse_loop strtod (Complete (JArray [])) l2 st"
        using l2(1) by (simp add: step parse_loop.simps [of strtod "Complete (JArray [])"] parse_round_def)
      then show ?thesis using l1(1) l2(2) True by auto
    next
      case False
      from readable_elements [OF assms(1) False assms(2-4) l1(2), of "[]" st] show ?thesis
        using l1(1) by (auto simp: step parse_round_def)
    qed
  qed
  then show ?thesis by (simp add: readable_def)
qed

text \<open>The text of an entry.\<close>

definition readable_entry :: "(string \<Rightarrow> double) \<Rightarrow> string \<times> json \<Rightarrow> string \<Rightarrow> bool" where
  "readable_entry strtod p t \<longleftrightarrow> (\<exists>w u. utf8 (fst p) \<and> spaces w \<and> readable strtod (snd p) u \<and> t = in_quotes (esc (fst p)) @ CHR '':'' # w @ u)"

lemma readable_entryD:
  assumes "readable_entry strtod (k, v) t" "spaces w1" "number_end rest" "lx_at l (w1 @ t @ rest)"
  shows "\<exists>l1 l2 tk l'. scan strtod l = (ValueString k, l1) \<and> parse_key strtod (ValueString k) l1 m st = NextRound (AtToken tk) l2 (InObject m k # st) \<and>
    lx_at l' rest \<and> parse_loop strtod (AtToken tk) l2 (InObject m k # st) = parse_loop strtod (Complete v) l' (InObject m k # st)"
proof -
  obtain w u where t: "utf8 k" "spaces w" "readable strtod v u" "t = in_quotes (esc k) @ CHR '':'' # w @ u"
    using assms(1) by (auto simp: readable_entry_def)
  obtain l1 where l1: "scan strtod l = (ValueString k, l1)" "lx_at l1 (CHR '':'' # w @ u @ rest)"
    using scan_quoted [OF t(1), of l w1 "CHR '':'' # w @ u @ rest"] assms(2,4) t(4) by auto
  obtain l2 where l2: "scan strtod l1 = (NameSeparator, l2)" "lx_at l2 (w @ u @ rest)"
    using scan_punctuation [of l1 "[]" "CHR '':''" _ NameSeparator] l1(2) by auto
  from readableD [OF t(3,2) assms(3) l2(2), of "InObject m k # st"] show ?thesis
    using l1(1) l2(1) by (fastforce simp: parse_key_def)
qed

lemma readable_entries:
  assumes "list_all2 (readable_entry strtod) ms ts" "ms \<noteq> []" "om_ok (m @ ms)" "spaces w1" "spaces w" "spaces w3"
    and "lx_at l (w1 @ join (CHR '','' # w) ts @ w3 @ CHR ''}'' # rest)"
  shows "\<exists>k l1 mode l2 st2 l'. scan strtod l = (ValueString k, l1) \<and> parse_key strtod (ValueString k) l1 m st = NextRound mode l2 st2 \<and>
    lx_at l' rest \<and> parse_loop strtod mode l2 st2 = parse_loop strtod (Complete (JObject (m @ ms))) l' st"
  using assms
proof (induction ms ts arbitrary: l m w1 rule: list_all2_induct)
  case (Cons p ms t ts)
  obtain k v where p: "p = (k, v)" by fastforce
  have "\<forall>k' \<in> fst ` set m. k' < k" using Cons.prems(2) p by (auto simp: om_ok_def sorted_wrt_append)
  then have up: "om_update k v m = m @ [(k, v)]" by (rule om_update_greatest)
  have ok: "om_ok ((m @ [(k, v)]) @ ms)" using Cons.prems(2) p by simp
  note step = parse_loop.simps [of strtod "Complete v" _ "InObject m k # st"]
  show ?case
  proof (cases "ms = []")
    case True
    then have ts: "ts = []" using Cons.hyps(2) by simp
    let ?rest = "w3 @ CHR ''}'' # rest"
    have "lx_at l (w1 @ t @ ?rest)" "number_end ?rest" using Cons.prems(5,6) ts number_end_space by auto
    from readable_entryD [OF Cons.hyps(1) [unfolded p] Cons.prems(3) this(2,1), of m st] obtain l1 l2 tk l3 where
      r: "scan strtod l = (ValueString k, l1)" "parse_key strtod (ValueString k) l1 m st = NextRound (AtToken tk) l2 (InObject m k # st)"
        "lx_at l3 ?rest" "parse_loop strtod (AtToken tk) l2 (InObject m k # st) = parse_loop strtod (Complete v) l3 (InObject m k # st)" by blast
    obtain l' where "scan strtod l3 = (EndObject, l')" "lx_at l' rest"
      using scan_punctuation [OF r(3), of EndObject] Cons.prems(5) by auto
    then have "parse_loop strtod (AtToken tk) l2 (InObject m k # st) = parse_loop strtod (Complete (JObject (m @ p # ms))) l' st" "lx_at l' rest"
      using r(4) True up p by (simp_all add: step parse_round_def)
    then show ?thesis using r(1,2) by blast
  next
    case False
    then obtain t2 ts2 where ts: "ts = t2 # ts2" using Cons.hyps(2) by (cases ts) auto
    let ?text = "w @ join (CHR '','' # w) ts @ w3 @ CHR ''}'' # rest"
    have "lx_at l (w1 @ t @ CHR '','' # ?text)" "number_end (CHR '','' # ?text)"
      using Cons.prems(6) ts number_end_space [of "[]"] by auto
    from readable_entryD [OF Cons.hyps(1) [unfolded p] Cons.prems(3) this(2,1), of m st] obtain l1 l2 tk l3 where
      r: "scan strtod l = (ValueString k, l1)" "parse_key strtod (ValueString k) l1 m st = NextRound (AtToken tk) l2 (InObject m k # st)"
        "lx_at l3 (CHR '','' # ?text)" "parse_loop strtod (AtToken tk) l2 (InObject m k # st) = parse_loop strtod (Complete v) l3 (InObject m k # st)" by blast
    obtain l4 where l4: "scan strtod l3 = (ValueSeparator, l4)" "lx_at l4 ?text"
      using scan_punctuation [of l3 "[]" "CHR '',''" _ ValueSeparator] r(3) by auto
    obtain k2 l5 mode l6 st2 l' where i: "scan strtod l4 = (ValueString k2, l5)" "lx_at l' rest"
      "parse_key strtod (ValueString k2) l5 (m @ [(k, v)]) st = NextRound mode l6 st2"
      "parse_loop strtod mode l6 st2 = parse_loop strtod (Complete (JObject ((m @ [(k, v)]) @ ms))) l' st"
      using Cons.IH [OF False ok Cons.prems(4,4,5) l4(2)] by blast
    have "parse_loop strtod (AtToken tk) l2 (InObject m k # st) = parse_loop strtod (Complete (JObject (m @ p # ms))) l' st"
      using r(4) l4(1) i up p by (simp add: step parse_round_def)
    then show ?thesis using r(1,2) i(2) by blast
  qed
qed simp

lemma readable_object:
  assumes "list_all2 (readable_entry strtod) ms ts" "om_ok ms" "spaces w1" "spaces w" "spaces w3"
  shows "readable strtod (JObject ms) (CHR ''{'' # w1 @ join (CHR '','' # w) ts @ w3 @ ''}'')"
proof -
  have "\<exists>tk l1 l'. scan strtod l = (tk, l1) \<and> tk \<noteq> EndArray \<and> lx_at l' rest \<and>
      parse_loop strtod (AtToken tk) l1 st = parse_loop strtod (Complete (JObject ms)) l' st"
    if a: "spaces ws" "lx_at l (ws @ CHR ''{'' # w1 @ join (CHR '','' # w) ts @ w3 @ CHR ''}'' # rest)" for l ws rest st
  proof -
    obtain l1 where l1: "scan strtod l = (BeginObject, l1)" "lx_at l1 (w1 @ join (CHR '','' # w) ts @ w3 @ CHR ''}'' # rest)"
      using scan_punctuation [OF a(2,1), of BeginObject] by auto
    note step = parse_loop.simps [of strtod "AtToken BeginObject" l1 st]
    show ?thesis
    proof (cases "ms = []")
      case True
      then have "lx_at l1 ((w1 @ w3) @ CHR ''}'' # rest)" using l1(2) assms(1) by simp
      then obtain l2 where l2: "scan strtod l1 = (EndObject, l2)" "lx_at l2 rest"
        using scan_punctuation [of l1 "w1 @ w3" "CHR ''}''" rest EndObject] assms(3,5) by auto
      have "parse_loop strtod (AtToken BeginObject) l1 st = parse_loop strtod (Complete (JObject [])) l2 st"
        using l2(1) by (simp add: step parse_loop.simps [of strtod "Complete (JObject [])"] parse_round_def)
      then show ?thesis using l1(1) l2(2) True by auto
    next
      case False
      have "om_ok ([] @ ms)" using assms(2) by simp
      from readable_entries [OF assms(1) False this assms(3-5) l1(2), of st] show ?thesis
        using l1(1) by (auto simp: step parse_round_def)
    qed
  qed
  then show ?thesis by (simp add: readable_def)
qed

section \<open>Values\<close>

text \<open>What is read for a value: a number without a minus sign is unsigned, \<^verbatim>\<open>nan\<close> and the infinities are null, and a binary
  value is an object with the entries \<^verbatim>\<open>bytes\<close> and \<^verbatim>\<open>subtype\<close>.\<close>

fun read_back :: "json \<Rightarrow> json" where
  "read_back (JInteger x) = (if x <s 0 then JInteger x else JUnsigned x)"
| "read_back (JFloat d) = (if isfinite d then JFloat d else JNull)"
| "read_back (JBinary s subtype) =
     JObject [(''bytes'', JArray (map (\<lambda>c. JUnsigned (of_char c)) s)),
       (''subtype'', case subtype of None \<Rightarrow> JNull | Some n \<Rightarrow> JUnsigned n)]"
| "read_back (JArray xs) = JArray (map read_back xs)"
| "read_back (JObject m) = JObject (map (\<lambda>p. (fst p, read_back (snd p))) m)"
| "read_back JNull = JNull"
| "read_back (JBoolean b) = JBoolean b"
| "read_back (JUnsigned x) = JUnsigned x"
| "read_back (JString s) = JString s"

text \<open>\<^verbatim>\<open>to_chars\<close> writes a text of \<^verbatim>\<open>double\<close> type that \<^verbatim>\<open>strtod\<close> reads as the same number: what the Grisu2
  algorithm promises of its digits.\<close>

definition round_trips :: "(double \<Rightarrow> string) \<Rightarrow> (string \<Rightarrow> double) \<Rightarrow> double \<Rightarrow> bool" where
  "round_trips to_chars strtod d = (number_kind (to_chars d) = Some FloatNumber \<and> strtod (to_chars d) = d)"

fun floats_in :: "json \<Rightarrow> double list" where
  "floats_in (JFloat d) = (if isfinite d then [d] else [])"
| "floats_in (JArray xs) = concat (map floats_in xs)"
| "floats_in (JObject m) = concat (map (\<lambda>p. floats_in (snd p)) m)"
| "floats_in _ = []"

lemma spaces_line [simp]: "spaces (new_line step n)"
  by (auto simp: new_line_def json_space_def list_all_iff split: option.split)

lemma colon_spaces: "\<exists>w. spaces w \<and> colon step = CHR '':'' # w"
  by (cases step) (simp_all add: colon_def json_space_def)

lemma readable_entryI:
  assumes "utf8 k" "readable strtod v t"
  shows "readable_entry strtod (k, v) (in_quotes (esc k) @ colon step @ t)"
proof -
  obtain w where "spaces w" "colon step = CHR '':'' # w" using colon_spaces [of step] by blast
  then show ?thesis using assms unfolding readable_entry_def by (intro exI [of _ w] exI [of _ t]) simp
qed

lemma readable_dump_array:
  "list_all2 (readable strtod) vs ts \<Longrightarrow> readable strtod (JArray vs) (dump_container step cur CHR ''['' ts CHR '']'')"
  using readable_array [of strtod vs ts "[]" "[]" "[]"] by (auto simp: dump_container_def Let_def readable_array)

lemma readable_dump_object:
  "list_all2 (readable_entry strtod) m ts \<Longrightarrow> om_ok m \<Longrightarrow> readable strtod (JObject m) (dump_container step cur CHR ''{'' ts CHR ''}'')"
  using readable_object [of strtod m ts "[]" "[]" "[]"] by (auto simp: dump_container_def Let_def readable_object)

text \<open>ASCII names are written as they are.\<close>

lemma plain_utf8: "list_all (\<lambda>c. esc_byte c = [c] \<and> of_char c < (128 :: nat)) s \<Longrightarrow> utf8 s \<and> esc s = s"
proof (induction s)
  case (Cons c s)
  then show ?case using utf8_Cons [of c "[]" "[]" s] by (simp add: following_def)
qed (simp add: utf8_Nil)

lemma binary_names: "utf8 ''bytes'' \<and> esc ''bytes'' = ''bytes''" "utf8 ''subtype'' \<and> esc ''subtype'' = ''subtype''"
  by (rule plain_utf8, simp add: esc_byte_def escape_def)+

lemma readable_binary: "readable strtod (read_back (JBinary s subtype)) (dump_binary step cur s subtype)"
proof -
  let ?w = "case step of None \<Rightarrow> [] | Some n \<Rightarrow> '' ''" and ?line = "new_line step (new_indent step cur)"
  let ?ts = "map (\<lambda>c. dump_unsigned (of_char c)) s" and ?vs = "map (\<lambda>c. JUnsigned (of_char c)) s"
  let ?v = "case subtype of None \<Rightarrow> JNull | Some n \<Rightarrow> JUnsigned n" and ?t = "case subtype of None \<Rightarrow> ''null'' | Some n \<Rightarrow> dump_unsigned n"
  have "list_all2 (readable strtod) ?vs ?ts" by (simp add: list_all2_map1 list_all2_map2 list_all2_refl readable_unsigned)
  then have a: "readable strtod (JArray ?vs) (CHR ''['' # join (CHR '','' # ?w) ?ts @ '']'')"
    using readable_array [of strtod ?vs ?ts "[]" ?w "[]"] by (simp add: json_space_def split: option.split)
  have b: "readable strtod ?v ?t" by (auto simp: readable_unsigned split: option.split intro: readable_word)
  have e: "list_all2 (readable_entry strtod) [(''bytes'', JArray ?vs), (''subtype'', ?v)]
      [in_quotes ''bytes'' @ colon step @ CHR ''['' # join (CHR '','' # ?w) ?ts @ '']'', in_quotes ''subtype'' @ colon step @ ?t]"
    using readable_entryI [OF _ a, of "''bytes''" step] readable_entryI [OF _ b, of "''subtype''" step] binary_names by simp
  have "om_ok [(''bytes'', JArray ?vs), (''subtype'', ?v)]" by (simp add: om_ok_def less_char_def)
  from readable_object [OF e this, of ?line ?line "new_line step cur"] show ?thesis
    by (cases step) (simp_all add: dump_binary_def Let_def)
qed

lemma dump_readable:
  "dump_value to_chars step cur j = Ret t \<Longrightarrow> wf_json j \<Longrightarrow> list_all (round_trips to_chars strtod) (floats_in j) \<Longrightarrow>
     readable strtod (read_back j) t"
  "dump_elements to_chars step cur vs = Ret ts \<Longrightarrow> list_all wf_json vs \<Longrightarrow>
     list_all (round_trips to_chars strtod) (concat (map floats_in vs)) \<Longrightarrow> list_all2 (readable strtod) (map read_back vs) ts"
  "dump_entries to_chars step cur m = Ret ts \<Longrightarrow> list_all (\<lambda>p. wf_json (snd p)) m \<Longrightarrow>
     list_all (round_trips to_chars strtod) (concat (map (\<lambda>p. floats_in (snd p)) m)) \<Longrightarrow>
     list_all2 (readable_entry strtod) (map (\<lambda>p. (fst p, read_back (snd p))) m) ts"
proof (induction to_chars step cur j and to_chars step cur vs and to_chars step cur m arbitrary: t and ts and ts
    rule: dump_value_dump_elements_dump_entries.induct)
  case (1 to_chars step cur m)
  have "om_ok (map (\<lambda>p. (fst p, read_back (snd p))) m)" using 1(3) by (simp add: om_ok_def comp_def)
  then show ?case using 1 readable_dump_object by (auto simp: bindO_Ret)
next
  case (2 to_chars step cur xs)
  then show ?case using readable_dump_array by (auto simp: bindO_Ret)
next
  case (3 to_chars step cur s)
  then show ?case by (auto simp: bindO_Ret dump_escaped_iff readable_string)
next
  case (4 to_chars step cur s subtype)
  then have "t = dump_binary step cur s subtype" by simp
  then show ?case using readable_binary by blast
next
  case (5 to_chars step cur b)
  then show ?case by (cases b) (auto intro: readable_word)
next
  case (6 to_chars step cur x)
  then have "t = dump_integer x" by simp
  then show ?case unfolding read_back.simps using readable_integer by blast
next
  case (7 to_chars step cur x)
  then have "t = dump_unsigned x" by simp
  then show ?case unfolding read_back.simps using readable_unsigned by blast
next
  case (8 to_chars step cur x)
  then show ?case by (auto simp: dump_float_def round_trips_def readable_float split: if_splits intro: readable_word)
next
  case (9 to_chars step cur)
  then show ?case by (auto intro: readable_word)
next
  case (13 to_chars step cur k v m)
  then show ?case by (auto simp: bindO_Ret dump_escaped_iff readable_entryI)
qed (auto simp: bindO_Ret)

lemma parse_readable:
  assumes "readable strtod v t"
  shows "json_parse strtod strict t = Ret v"
proof -
  obtain c s where t: "t = c # s" "c \<noteq> CHR 0xEF" using assms by (auto simp: readable_def)
  then have "lx_at (lexer_new t) ([] @ t @ [])" by (simp add: lx_at_def lexer_new_def lx_left_def)
  from readableD [OF assms _ _ this, of "[]"] obtain tk l1 l' where l: "scan strtod (lexer_new t) = (tk, l1)" "lx_at l' []"
    "parse_loop strtod (AtToken tk) l1 [] = parse_loop strtod (Complete v) l' []" by (auto simp: number_end_def)
  have "parse_loop strtod (Complete v) l' [] = Ret (v, l')" by (simp add: parse_loop.simps [of strtod "Complete v"] parse_round_def)
  then show ?thesis using l scan_end [of l' "[]" strtod] by (auto simp: json_parse_def)
qed

text \<open>Whether a value is written depends on its strings only.\<close>

fun strings_in :: "json \<Rightarrow> string list" where
  "strings_in (JString s) = [s]"
| "strings_in (JArray xs) = concat (map strings_in xs)"
| "strings_in (JObject m) = concat (map (\<lambda>p. fst p # strings_in (snd p)) m)"
| "strings_in _ = []"

lemma dump_total:
  "if list_all utf8 (strings_in j) then \<exists>t. dump_value to_chars step cur j = Ret t
   else \<exists>m. dump_value to_chars step cur j = Throw (type_error 316 m)"
  "if list_all utf8 (concat (map strings_in vs)) then \<exists>t. dump_elements to_chars step cur vs = Ret t
   else \<exists>m. dump_elements to_chars step cur vs = Throw (type_error 316 m)"
  "if list_all utf8 (concat (map (\<lambda>p. fst p # strings_in (snd p)) m)) then \<exists>t. dump_entries to_chars step cur m = Ret t
   else \<exists>m'. dump_entries to_chars step cur m = Throw (type_error 316 m')"
proof (induction to_chars step cur j and to_chars step cur vs and to_chars step cur m
    rule: dump_value_dump_elements_dump_entries.induct)
  case (3 to_chars step cur s)
  then show ?case using dump_escaped_utf8 [of s] dump_escaped_throws [of s] by auto
next
  case (13 to_chars step cur k v m)
  then show ?case using dump_escaped_utf8 [of k] dump_escaped_throws [of k] by (cases "utf8 k"; cases "list_all utf8 (strings_in v)") auto
next
  case (11 to_chars step cur v vs)
  then show ?case by (cases "list_all utf8 (strings_in v)") auto
qed (auto split: if_splits)


text \<open>A value that JSON has a text for.\<close>

fun json_shaped :: "json \<Rightarrow> bool" where
  "json_shaped (JFloat d) = isfinite d"
| "json_shaped (JBinary s subtype) = False"
| "json_shaped (JArray xs) = list_all json_shaped xs"
| "json_shaped (JObject m) = list_all (\<lambda>p. json_shaped (snd p)) m"
| "json_shaped _ = True"

lemma read_back_norm: "json_shaped j \<Longrightarrow> read_back j = norm j"
proof (induction j)
  case (JArray xs)
  then show ?case by (simp add: list_all_iff)
next
  case (JObject m)
  then show ?case by (fastforce simp: list_all_iff)
qed (simp_all add: word_sless_alt)

lemma dump_text:
  assumes "wf_json j" "list_all (round_trips to_chars strtod) (floats_in j)" "list_all utf8 (strings_in j)"
  shows "\<exists>t. json_dump to_chars step j = Ret t \<and> readable strtod (read_back j) t"
  using dump_total(1) [of j to_chars step 0] dump_readable(1) [OF _ assms(1,2)] assms(3) by (auto simp: json_dump_def)

text \<open>C4: A value that \<^verbatim>\<open>dump()\<close> or \<^verbatim>\<open>dump(4)\<close> writes is read back from the text: by \<^verbatim>\<open>json::parse\<close> and by \<^verbatim>\<open>operator>>\<close>
  alike, up to the type of the numbers without a minus sign, to \<^verbatim>\<open>nan\<close> and the infinities, which are read as null, and to
  binary values, which are read as objects. What \<^verbatim>\<open>to_chars\<close> writes for the finite floating point numbers of the value
  has to be read as these numbers. A value is written if and only if its strings and its keys are UTF-8; else
  \<^verbatim>\<open>dump()\<close> throws the error 316.\<close>

theorem dump_parse:
  assumes "wf_json j" "list_all (round_trips to_chars strtod) (floats_in j)"
  shows "if list_all utf8 (strings_in j)
    then \<exists>t. json_dump to_chars step j = Ret t \<and> json_parse strtod strict t = Ret (read_back j)
    else \<exists>m. json_dump to_chars step j = Throw (type_error 316 m)"
  using dump_text [OF assms, of step] parse_readable dump_total(1) [of j to_chars step 0] by (auto simp: json_dump_def)


text \<open>A value with a negative number, a number of \<^verbatim>\<open>double\<close> type, a character of two bytes and a line break.\<close>

abbreviation sample_value :: json where
  "sample_value \<equiv> JObject [(''a'', JArray [JInteger (- 5), JInteger 7, JNull]), (''b'', JFloat 0x3FF8000000000000), (''c'', JString [CHR 0xC3, CHR 0xA9, CHR 0x0A])]"

lemma sample_utf8: "utf8 [CHR 0xC3, CHR 0xA9, CHR 0x0A]"
  using utf8_Cons [of "CHR 0xC3" "[(0x80, 0xBF)]" "[CHR 0xA9]" "''\<newline>''"] utf8_Cons [of "CHR 0x0A" "[]" "[]" "[]"]
  by (simp add: following_def byte_ranges_def in_range_def utf8_Nil)

theorem dump_parse_witness:
  "\<exists>t. json_dump (\<lambda>_. ''1.5'') (Some 4) sample_value = Ret t \<and>
    json_parse (\<lambda>_. 0x3FF8000000000000) True t = Ret (JObject [(''a'', JArray [JInteger (- 5), JUnsigned 7, JNull]),
      (''b'', JFloat 0x3FF8000000000000), (''c'', JString [CHR 0xC3, CHR 0xA9, CHR 0x0A])])"
proof -
  have "number_kind ''1.5'' = Some FloatNumber" by (simp add: number_start_def number_final_def json_digit_def)
  then have f: "list_all (round_trips (\<lambda>_. ''1.5'') (\<lambda>_. 0x3FF8000000000000)) (floats_in sample_value)"
    by (simp add: round_trips_def isfinite_def)
  have w: "wf_json sample_value" by (simp add: om_ok_def less_char_def)
  have u: "list_all utf8 (strings_in sample_value)"
    using sample_utf8 utf8_Cons [of _ "[]" "[]" "[]"] by (simp add: following_def utf8_Nil)
  show ?thesis using dump_parse [OF w f, of "Some 4" True] u by (simp add: isfinite_def word_sless_alt)
qed

end
