(* ===== verification/Anu_Exchange.thy ===== *)
theory Anu_Exchange
  imports Anu_Abstract Anu_Export Anu_Roundtrip
begin

text \<open>
  Export and import together: a collection written with \<^verbatim>\<open>exportAllToJson\<close> and read with \<^verbatim>\<open>importFromJsonFile\<close> into an
  empty collection is the same collection of documents: the parser reads back what the serializer wrote, document by
  document, out of the array the export puts together.
\<close>

lemma om_ext:
  assumes "om_ok m" "om_ok m'" "map_of m = map_of m'"
  shows "m = m'"
proof -
  have s: "set m = set m'" using om_lookup_mem [OF assms(1)] om_lookup_mem [OF assms(2)] assms(3) by auto
  note d = om_ok_distinct [OF assms(1)] om_ok_distinct [OF assms(2)]
  have "inj_on fst (set m \<union> set m')" using d(1) s by (simp add: distinct_map)
  moreover have "sorted (map fst m)" "sorted (map fst m')" using assms(1,2) by (simp_all add: om_ok_def strict_sorted_iff)
  ultimately show ?thesis using d s by (intro map_sorted_distinct_set_unique)
qed

lemma fold_om_update_same: "om_ok ds \<Longrightarrow> fold (\<lambda>(i, j). om_update i j) ds [] = ds"
  by (rule om_ext) (auto simp: fold_om_update_ok fold_om_update_lookup om_ok_distinct fun_eq_iff split: option.splits)

text \<open>A document that a file can carry: its identifier is in the field \<^verbatim>\<open>_id\<close>, its numbers are as they are read, it has no
  binary value and its strings are UTF-8.\<close>

definition portable :: "string \<times> json \<Rightarrow> bool" where
  "portable = (\<lambda>(i, j). i \<noteq> [] \<and> is_object j \<and> json_find ''_id'' j = Some (JString i) \<and> storable (a_doc i j) \<and> norm j = j \<and>
     json_shaped j \<and> list_all utf8 (strings_in j))"

lemma prepared_portable: "portable (i, j) \<Longrightarrow> prepared time rands (a_doc i j) = a_doc i j"
  by (cases j) (auto simp: portable_def prepared_def prepare_def hasField_def a_doc_def Let_def)

lemma portable_id: "portable (i, j) \<Longrightarrow> contains j ''_id'' \<and> bindO (const_index ''_id'' j) get_string = Ret i"
  by (cases j) (auto simp: portable_def)

lemma import_items_run:
  "implements e name A \<Longrightarrow> list_all portable ds \<Longrightarrow> list_all (\<lambda>(i, j). can_index A j) ds \<Longrightarrow>
     \<exists>e'. import_items name env (map snd ds) s f e = (Ret (s + length ds, f), e') \<and>
       implements e' name (fold (\<lambda>(i, j). a_store (a_doc i j)) ds A)"
proof (induction ds arbitrary: e A s)
  case (Cons p ds)
  obtain i j where p: "p = (i, j)" by fastforce
  have q: "portable (i, j)" "can_index A j" using Cons.prems p by simp_all
  then have o: "is_object j" "storable (a_doc i j)" by (auto simp: portable_def)
  note pr = prepared_portable [OF q(1)] and id = portable_id [OF q(1)]
  let ?t = "fst (env (s + f))" and ?r = "snd (env (s + f))" and ?B = "a_store (a_doc i j) A"
  obtain e1 where e1: "createDocument name ?t ?r (a_doc i j) e = (Ret (StatusOK, a_doc i j), e1)" "implements e1 name ?B"
    using implements_create [OF Cons.prems(1), of "a_doc i j" ?t ?r] o q(2) pr by (auto simp: a_doc_def)
  have "list_all (\<lambda>(i, j). can_index ?B j) ds" using Cons.prems(3) by (simp add: can_index_def a_store_def comp_def split_def)
  from Cons.IH [OF e1(2) _ this, of "Suc s"] Cons.prems(2) obtain e2 where
    "import_items name env (map snd ds) (Suc s) f e1 = (Ret (Suc s + length ds, f), e2)"
    "implements e2 name (fold (\<lambda>(i, j). a_store (a_doc i j)) ds ?B)" by auto
  then show ?case using o(1) id e1(1) p by (simp add: bindM_def liftO_def a_doc_def)
qed (simp add: returnM_def)

lemma fold_stored:
  "list_all portable ds \<Longrightarrow> a_index A = [] \<Longrightarrow>
     fold (\<lambda>(i, j). a_store (a_doc i j)) ds A = \<lparr>a_docs = fold (\<lambda>(i, j). om_update i j) ds (a_docs A), a_index = []\<rparr>"
proof (induction ds arbitrary: A)
  case (Cons p ds)
  obtain i j where p: "p = (i, j)" by fastforce
  have "a_store (a_doc i j) A = \<lparr>a_docs = om_update i j (a_docs A), a_index = []\<rparr>"
    using Cons.prems p by (simp add: a_store_def a_doc_def portable_def)
  then show ?case using Cons p by simp
qed simp

text \<open>The text of the file.\<close>

lemma joined_join: "joined True ts = join '',\<newline>'' ts"
proof (induction ts rule: induct_list012)
  case (3 t u ts)
  then show ?case by simp
qed simp_all

lemma portable_text:
  assumes "portable p" "list_all (round_trips to_chars strtod) (floats_in (snd p))"
  shows "\<exists>t. json_dump to_chars step (snd p) = Ret t \<and> readable strtod (snd p) t"
proof -
  obtain i j where p: "p = (i, j)" by fastforce
  then have j: "wf_json j" "norm j = j" "json_shaped j" "list_all utf8 (strings_in j)"
    using assms(1) by (auto simp: portable_def storable_def a_doc_def)
  then show ?thesis using dump_text [of j to_chars strtod step] assms(2) p by (simp add: read_back_norm)
qed

lemma portable_texts:
  assumes "list_all portable ds" "list_all (\<lambda>p. list_all (round_trips to_chars strtod) (floats_in (snd p))) ds"
  shows "\<exists>ts. list_all2 (\<lambda>p t. json_dump to_chars step (snd p) = Ret t) ds ts \<and>
    json_parse strtod strict (''[\<newline>'' @ joined True ts @ ''\<newline>]'') = Ret (JArray (map snd ds))"
proof -
  have "\<exists>ts. list_all2 (\<lambda>p t. json_dump to_chars step (snd p) = Ret t \<and> readable strtod (snd p) t) ds ts"
    using assms
  proof (induction ds)
    case (Cons p ds)
    then obtain t ts where "json_dump to_chars step (snd p) = Ret t \<and> readable strtod (snd p) t"
      "list_all2 (\<lambda>p t. json_dump to_chars step (snd p) = Ret t \<and> readable strtod (snd p) t) ds ts"
      using portable_text by fastforce
    then show ?case by (intro exI [of _ "t # ts"]) simp
  qed (auto intro: exI [of _ "[]"])
  then obtain ts where ts: "list_all2 (\<lambda>p t. json_dump to_chars step (snd p) = Ret t \<and> readable strtod (snd p) t) ds ts" by blast
  then have r: "list_all2 (readable strtod) (map snd ds) ts" by (auto simp: list_all2_map1 elim: list_all2_mono)
  have "json_parse strtod strict (CHR ''['' # ''\<newline>'' @ join (CHR '','' # ''\<newline>'') ts @ ''\<newline>'' @ '']'') = Ret (JArray (map snd ds))"
    by (rule parse_readable [OF readable_array [OF r]]) (simp_all add: json_space_def)
  then show ?thesis using ts by (auto simp: joined_join elim: list_all2_mono)
qed

text \<open>C7: A collection that is exported to a file and imported from it into an empty collection has arrived there: every
  identifier reads the same document in both. It needs documents that a file can carry, and floating point numbers whose
  texts are read as these numbers; the text that is written document by document and parsed is the one of the file.\<close>

theorem export_import:
  assumes "implements e name A" "list_all portable (a_docs A)" "export_ready fs path name" "implements e2 name2 a_empty"
    and "list_all (\<lambda>p. list_all (round_trips to_chars strtod) (floats_in (snd p))) (a_docs A)"
  shows "\<exists>fs' e'. exportAllToJson (json_dump to_chars (Some 4)) name path (e, fs) = (Ret StatusOK, e, fs') \<and>
    importFromJsonFile name2 env import_path
      (map_option (json_parse strtod False) (map_of (fs_files fs') (path @ ''/'' @ name @ ''.json''))) e2 = (Ret StatusOK, e') \<and>
    (\<forall>i x. fst (readDocument name2 i x e') = fst (readDocument name i x e))"
proof -
  note i = implementsD [OF assms(1)]
  obtain ts where ts: "list_all2 (\<lambda>p t. json_dump to_chars (Some 4) (snd p) = Ret t) (a_docs A) ts"
    "json_parse strtod False (''[\<newline>'' @ joined True ts @ ''\<newline>]'') = Ret (JArray (map snd (a_docs A)))"
    using portable_texts [OF assms(2,5)] by blast
  obtain m where m: "tables e name = Some m" "list_all2 decodes m (a_docs A)" using i(6) by blast
  have "list_all2 (\<lambda>p t. \<exists>d. Document_from_msgpack (snd p) = Ret d \<and> json_dump to_chars (Some 4) (doc_data d) = Ret t) m ts"
    using m(2) ts(1) by (rule list_all2_trans [rotated]) (auto simp: decodes_def a_doc_def)
  from exportAllToJson_writes [OF i(1) m(1) assms(3) this] obtain fs' where
    x: "exportAllToJson (json_dump to_chars (Some 4)) name path (e, fs) = (Ret StatusOK, e, fs')"
      "map_of (fs_files fs') (path @ ''/'' @ name @ ''.json'') = Some (''[\<newline>'' @ joined True ts @ ''\<newline>]'')" by auto
  have "list_all (\<lambda>(i, j). can_index a_empty j) (a_docs A)" by (simp add: can_index_def a_empty_def indexable_def list_all_iff)
  from import_items_run [OF assms(4,2) this, of env 0 0] obtain e' where
    e': "import_items name2 env (map snd (a_docs A)) 0 0 e2 = (Ret (length (a_docs A), 0), e')"
      "implements e' name2 (fold (\<lambda>(i, j). a_store (a_doc i j)) (a_docs A) a_empty)" by auto
  have im: "importFromJsonFile name2 env import_path (Some (json_parse strtod False (''[\<newline>'' @ joined True ts @ ''\<newline>]''))) e2 = (Ret StatusOK, e')"
    using e'(1) unfolding importFromJsonFile_def option.case ts(2) by (simp add: catchM_def bindM_def liftO_def returnM_def)
  have "fst (readDocument name2 i x e') = fst (readDocument name i x e)" for i x
    using e'(2) fold_om_update_same [OF i(4)] assms(2)
    by (simp add: implements_read [OF assms(1)] implements_read [OF e'(2)] fold_stored a_empty_def)
  then show ?thesis using x im by auto
qed

abbreviation sample_data :: json where
  "sample_data \<equiv> JObject [(''_id'', JString ''d1''), (''age'', JUnsigned 5)]"

lemma one_document:
  "\<exists>e. implements e ''users'' \<lparr>a_docs = [(''d1'', sample_data)], a_index = []\<rparr> \<and>
    readDocument ''users'' ''d1'' empty_document e = (Ret (StatusOK, a_doc ''d1'' sample_data), e)"
proof -
  have empty: "implements (engine_with ''users'') ''users'' a_empty"
    by (rule implements_empty [OF live_users(1) plain_users live_users(2,3)])
  obtain e where "implements e ''users'' (a_store (prepared 0 [] sample) a_empty)"
    using implements_create [OF empty, of sample 0 "[]"] sample_storable by (auto simp: sample_def can_index_def a_empty_def indexable_def)
  then have "implements e ''users'' \<lparr>a_docs = [(''d1'', sample_data)], a_index = []\<rparr>"
    by (simp add: sample_prepared a_store_def a_empty_def)
  then show ?thesis using implements_read by fastforce
qed

lemma sample_portable: "portable (''d1'', sample_data)"
proof -
  have "utf8 ''_id'' \<and> utf8 ''d1'' \<and> utf8 ''age''"
    using utf8_Cons [of _ "[]" "[]"] by (simp add: following_def utf8_Nil)
  then show ?thesis by (simp add: portable_def storable_def om_ok_def a_doc_def)
qed

theorem export_import_witness:
  "\<exists>e fs' e'. exportAllToJson (json_dump (\<lambda>_. []) (Some 4)) ''users'' ''out''
      (e, \<lparr>fs_dirs = [''out''], fs_files = [], fs_may_create = (\<lambda>_. True)\<rparr>) = (Ret StatusOK, e, fs') \<and>
    importFromJsonFile ''users'' (\<lambda>_. (0, [])) ''f'' (map_option (json_parse (\<lambda>_. 0) False) (map_of (fs_files fs') ''out/users.json''))
      (engine_with ''users'') = (Ret StatusOK, e') \<and>
    fst (readDocument ''users'' ''d1'' empty_document e') = Ret (StatusOK, a_doc ''d1'' sample_data)"
proof -
  let ?fs = "\<lparr>fs_dirs = [''out''], fs_files = [], fs_may_create = (\<lambda>_. True)\<rparr>"
  have z: "no_zero ''out''" "simple_name ''users''" by code_simp+
  then have r: "export_ready ?fs ''out'' ''users''" by (simp add: export_ready_def directory_of_def)
  obtain e where e: "implements e ''users'' \<lparr>a_docs = [(''d1'', sample_data)], a_index = []\<rparr>"
    "readDocument ''users'' ''d1'' empty_document e = (Ret (StatusOK, a_doc ''d1'' sample_data), e)"
    using one_document by blast
  have empty: "implements (engine_with ''users'') ''users'' a_empty"
    by (rule implements_empty [OF live_users(1) plain_users live_users(2,3)])
  obtain fs' e' where x: "exportAllToJson (json_dump (\<lambda>_. []) (Some 4)) ''users'' ''out'' (e, ?fs) = (Ret StatusOK, e, fs')"
    "importFromJsonFile ''users'' (\<lambda>_. (0, [])) ''f'' (map_option (json_parse (\<lambda>_. 0) False) (map_of (fs_files fs') ''out/users.json''))
      (engine_with ''users'') = (Ret StatusOK, e')"
    "\<forall>i x. fst (readDocument ''users'' i x e') = fst (readDocument ''users'' i x e)"
    using export_import [where to_chars = "\<lambda>_. []" and strtod = "\<lambda>_. 0" and env = "\<lambda>_. (0, [])" and import_path = "''f''", OF e(1) _ r empty]
      sample_portable by auto
  then have "fst (readDocument ''users'' ''d1'' empty_document e') = Ret (StatusOK, a_doc ''d1'' sample_data)" using e(2) by simp
  with x show ?thesis by blast
qed

end
