(* ===== verification/Anu_Console.thy ===== *)
theory Anu_Console
  imports Anu_Abstract Anu_Database Anu_Roundtrip
begin

text \<open>
  What the programs under \<^verbatim>\<open>src/examples\<close> and \<^verbatim>\<open>src/src/main.cpp\<close> are written in: JSON literals (the initializer
  lists of \<^verbatim>\<open>nlohmann::json\<close>, decimal literals, the output of a \<^verbatim>\<open>double\<close> on a stream), a world that holds the
  database object and the two output streams, and the calls of the interface. The output stream holds what the
  program writes and the message of \<^verbatim>\<open>createIndex\<close>, the error stream what the program writes. Left out are the
  messages of the library for an error, the summary of an import, and the line that the thread of an export writes
  at some time of its own. \<^verbatim>\<open>time\<close> and \<^verbatim>\<open>rand\<close> are the answers
  \<open>w_clock c n\<close> of the \<open>c\<close>-th call for its \<open>n\<close>-th new document.
\<close>

section \<open>Decimal literals\<close>

text \<open>The quotient rounded to the nearest integer, ties to even.\<close>

definition rne_div :: "nat \<Rightarrow> nat \<Rightarrow> nat" where
  "rne_div a b = (let q = a div b; r = a mod b in if b < 2 * r \<or> 2 * r = b \<and> odd q then q + 1 else q)"

text \<open>The double nearest to \<open>m / 10 ^ k\<close>, for literals in the range of the normal numbers: \<open>lo\<close> or \<open>lo + 1\<close> is
  the binary exponent (plus 1023). Of the two differences in a quotient, which are natural numbers, one is 0.\<close>

definition decimal :: "nat \<Rightarrow> nat \<Rightarrow> double" where
  "decimal m k =
     (if m = 0 then 0
      else let lo = 1022 + ilog2 m - ilog2 (10 ^ k);
               e = (if 10 ^ k * 2 ^ (lo + 1 - 1023) \<le> m * 2 ^ (1023 - (lo + 1)) then lo + 1 else lo)
           in word_of_nat ((e - 1) * 2 ^ 52 + rne_div (m * 2 ^ (1075 - e)) (10 ^ k * 2 ^ (e - 1075))))"

text \<open>\<^verbatim>\<open>std::ostream << double\<close>: six significant digits, as \<^verbatim>\<open>%g\<close> prints them. A finite double is the fraction of
  two natural numbers.\<close>

definition mag_fraction :: "nat \<Rightarrow> nat \<times> nat" where
  "mag_fraction m = (let e = m div 2 ^ 52; f = m mod 2 ^ 52
     in if e = 0 then (f, 2 ^ 1074) else ((2 ^ 52 + f) * 2 ^ (e - 1075), 2 ^ (1075 - e)))"

text \<open>The first six digits of \<open>n / d\<close> when its decimal exponent is \<open>e\<close>.\<close>

definition digits6 :: "nat \<Rightarrow> nat \<Rightarrow> int \<Rightarrow> nat" where
  "digits6 n d e = rne_div (n * 10 ^ nat (5 - e)) (d * 10 ^ nat (e - 5))"

fun ilog10 :: "nat \<Rightarrow> nat" where
  "ilog10 n = (if n < 10 then 0 else Suc (ilog10 (n div 10)))"

declare ilog10.simps [simp del]

definition decimal_exponent :: "nat \<Rightarrow> nat \<Rightarrow> int" where
  "decimal_exponent n d = (if d \<le> n then int (ilog10 (n div d)) else - int (1 + ilog10 ((d - 1) div n)))"

definition strip_zeros :: "string \<Rightarrow> string" where
  "strip_zeros s = rev (dropWhile (\<lambda>c. c = CHR ''0'') (rev s))"

definition with_point :: "string \<Rightarrow> string \<Rightarrow> string" where
  "with_point a b = (if strip_zeros b = [] then a else a @ ''.'' @ strip_zeros b)"

definition show_digits :: "int \<Rightarrow> string \<Rightarrow> string" where
  "show_digits e ds =
     (if e < - 4 \<or> 6 \<le> e
      then with_point (take 1 ds) (drop 1 ds) @ ''e'' @ (if e < 0 then ''-'' else ''+'') @
           (if \<bar>e\<bar> < 10 then ''0'' else []) @ to_string (nat \<bar>e\<bar>)
      else if e < 0 then with_point ''0'' (replicate (nat (- e - 1)) CHR ''0'' @ ds)
      else with_point (take (nat e + 1) ds) (drop (nat e + 1) ds))"

definition show_fraction :: "nat \<Rightarrow> nat \<Rightarrow> string" where
  "show_fraction n d =
     (if n = 0 then ''0''
      else let e = decimal_exponent n d; k = digits6 n d e
           in if k = 1000000 then show_digits (e + 1) ''100000'' else show_digits e (to_string k))"

definition show_double :: "double \<Rightarrow> string" where
  "show_double w =
     (if fp_neg w then ''-'' else []) @
     (if fp_nan w then ''nan'' else if fp_mag w = 2047 * 2 ^ 52 then ''inf''
      else show_fraction (fst (mag_fraction (fp_mag w))) (snd (mag_fraction (fp_mag w))))"

section \<open>Initializer lists\<close>

datatype init =
    Str string
  | Num int
  | Dec nat nat
  | Bool bool
  | Val json
  | L "init list"

fun is_pair :: "json \<Rightarrow> bool" where
  "is_pair (JArray [JString k, v]) = True"
| "is_pair j = False"

text \<open>\<^verbatim>\<open>std::map::emplace\<close> keeps the value of a key that is there.\<close>

definition emplace :: "json \<Rightarrow> jobject \<Rightarrow> jobject" where
  "emplace p m = (case p of JArray [JString k, v] \<Rightarrow> if map_of m k = None then om_update k v m else m | _ \<Rightarrow> m)"

definition of_list :: "json list \<Rightarrow> json" where
  "of_list js = (if list_all is_pair js then JObject (fold emplace js []) else JArray js)"

fun lit :: "init \<Rightarrow> json" where
  "lit (Str s) = JString s"
| "lit (Num n) = JInteger (word_of_int n)"
| "lit (Dec m k) = JFloat (decimal m k)"
| "lit (Bool b) = JBoolean b"
| "lit (Val j) = j"
| "lit (L xs) = of_list (map lit xs)"

text \<open>The pairs of a literal object, and a document constructed from one.\<close>

definition pair :: "string \<Rightarrow> init \<Rightarrow> init" where
  "pair k v = L [Str k, v]"

definition new_doc :: "string \<Rightarrow> json \<Rightarrow> Document" where
  "new_doc i j = \<lparr>doc_id = i, doc_data = j\<rparr>"

text \<open>Reading a number or a Boolean out of a document, as the conversion of \<^verbatim>\<open>json\<close> to \<^verbatim>\<open>double\<close> and \<^verbatim>\<open>bool\<close> does.\<close>

fun get_double :: "json \<Rightarrow> double outcome" where
  "get_double (JUnsigned w) = Ret (double_of_int (uint w))"
| "get_double (JInteger w) = Ret (double_of_int (sint w))"
| "get_double (JFloat d) = Ret d"
| "get_double j = Throw (number_error j)"

fun get_bool :: "json \<Rightarrow> bool outcome" where
  "get_bool (JBoolean b) = Ret b"
| "get_bool j = Throw (type_error 302 (''type must be boolean, but is '' @ type_name j))"

section \<open>The world of a program\<close>

record world =
  w_db :: database
  w_disks :: "string \<Rightarrow> engine"
  w_files :: filesystem
  w_out :: string
  w_err :: string
  w_clock :: "nat \<Rightarrow> nat \<Rightarrow> 32 word \<times> nat list"
  w_calls :: nat

definition nl :: string where
  "nl = [CHR 0x0A]"

definition say :: "string \<Rightarrow> (world, unit) comp" where
  "say s = modifyM (w_out_update (\<lambda>t. t @ s))"

definition complain :: "string \<Rightarrow> (world, unit) comp" where
  "complain s = modifyM (w_err_update (\<lambda>t. t @ s))"

definition on_db :: "(database, 'a) comp \<Rightarrow> (world, 'a) comp" where
  "on_db m = (\<lambda>w. case m (w_db w) of (r, d) \<Rightarrow> (r, w\<lparr>w_db := d\<rparr>))"

text \<open>\<^verbatim>\<open>Database db(path)\<close>: the engine over the directory, in the state it is constructed in.\<close>

definition construct :: "string \<Rightarrow> (world, unit) comp" where
  "construct path = modifyM (\<lambda>w. w\<lparr>w_db := Database_new (w_disks w path) (w_files w)\<rparr>)"

text \<open>A call of a method through the pointer to a collection.\<close>

definition coll :: "nat option \<Rightarrow> (string \<Rightarrow> (engine, 'a) comp) \<Rightarrow> (world, 'a) comp" where
  "coll p f = on_db (on_pointer p f)"

definition clocked :: "(32 word \<Rightarrow> nat list \<Rightarrow> (world, 'a) comp) \<Rightarrow> (world, 'a) comp" where
  "clocked g = (\<lambda>w. g (fst (w_clock w (w_calls w) 0)) (snd (w_clock w (w_calls w) 0)) (w\<lparr>w_calls := Suc (w_calls w)\<rparr>))"

definition coll_create :: "nat option \<Rightarrow> Document \<Rightarrow> (world, status \<times> Document) comp" where
  "coll_create p d = clocked (\<lambda>time rands. coll p (\<lambda>n. createDocument n time rands d))"

definition coll_read :: "nat option \<Rightarrow> string \<Rightarrow> Document \<Rightarrow> (world, status \<times> Document) comp" where
  "coll_read p i d = coll p (\<lambda>n. readDocument n i d)"

definition coll_update :: "nat option \<Rightarrow> string \<Rightarrow> json \<Rightarrow> bool \<Rightarrow> (world, status) comp" where
  "coll_update p i u upsert = clocked (\<lambda>time rands. coll p (\<lambda>n. updateDocument n time rands i u upsert))"

text \<open>\<^verbatim>\<open>createIndex\<close> writes a message before it returns \<open>StatusOK\<close> from its last line; it returns \<open>StatusOK\<close> nowhere
  else.\<close>

definition coll_createIndex :: "nat option \<Rightarrow> string \<Rightarrow> (world, status) comp" where
  "coll_createIndex p field =
     bindM (coll p (\<lambda>n. createIndex n field)) (\<lambda>s.
     bindM (if ok s then say (''Index created successfully!!!'' @ nl) else returnM ()) (\<lambda>_. returnM s))"

text \<open>\<^verbatim>\<open>status.message().find("already exists") != npos\<close>, and an error message with a status.\<close>

definition already_exists :: "status \<Rightarrow> bool" where
  "already_exists s = (find_sub ''already exists'' (st_msg s) \<noteq> None)"

definition complain_status :: "string \<Rightarrow> status \<Rightarrow> (world, unit) comp" where
  "complain_status msg s = complain (msg @ '': '' @ st_msg s @ nl)"

text \<open>A message in single quotes, a number of messages one after the other, the end of \<^verbatim>\<open>main\<close> with an error.\<close>

definition quoted :: "string \<Rightarrow> string" where
  "quoted s = CHR 0x27 # s @ [CHR 0x27]"

definition failed :: "string \<Rightarrow> status \<Rightarrow> (world, int) comp" where
  "failed msg s = bindM (complain_status msg s) (\<lambda>_. returnM 1)"

text \<open>A local variable \<^verbatim>\<open>Database db(path)\<close>: when \<^verbatim>\<open>main\<close> returns, its destructor destroys the collection objects.\<close>

definition with_database :: "string \<Rightarrow> (world, int) comp \<Rightarrow> (world, int) comp" where
  "with_database path body =
     bindM (construct path) (\<lambda>_. bindM body (\<lambda>r.
       bindM (on_db (bindM getM (\<lambda>d. on_engine (destroy_objects (map fst (collections d)))))) (\<lambda>_. returnM r)))"

section \<open>Functions of the programs\<close>

text \<open>The functions and loops the example programs share word for word. Values are printed with the serializer of
  \<open>Anu_Printer\<close>, whose argument is the text of a floating point number (\<^verbatim>\<open>to_chars\<close>).\<close>

type_synonym float_text = "double \<Rightarrow> string"

definition printDocument :: "float_text \<Rightarrow> Document \<Rightarrow> (world, unit) comp" where
  "printDocument to_chars doc =
     bindM (liftO (json_dump to_chars (Some 4) (doc_data doc))) (\<lambda>txt.
       say (''Document ID: '' @ doc_id doc @ nl @ ''Content:'' @ nl @ txt @ nl @ nl))"

text \<open>The body of the loops over identifiers: read a document, print it or the error.\<close>

definition show_found :: "float_text \<Rightarrow> nat option \<Rightarrow> string \<Rightarrow> (world, unit) comp" where
  "show_found to_chars p docId =
     bindM (coll_read p docId empty_document) (\<lambda>(s, doc).
       if ok s then printDocument to_chars doc else complain_status (''Failed to read document '' @ docId) s)"

definition show_all :: "float_text \<Rightarrow> nat option \<Rightarrow> json \<Rightarrow> (world, unit) comp" where
  "show_all to_chars p query =
     bindM (coll p (\<lambda>n. findDocument n query)) (\<lambda>docIds.
     bindM (say (''Found '' @ to_string (length docIds) @ '' document(s)'' @ nl)) (\<lambda>_.
       forM (show_found to_chars p) docIds))"

definition executeQuery :: "float_text \<Rightarrow> nat option \<Rightarrow> json \<Rightarrow> string \<Rightarrow> (world, unit) comp" where
  "executeQuery to_chars p query queryName =
     bindM (say (nl @ ''===== Executing '' @ queryName @ '' ====='' @ nl)) (\<lambda>_. show_all to_chars p query)"

text \<open>\<^verbatim>\<open>{{"$set", doc.data()}}\<close>\<close>

definition set_all :: "Document \<Rightarrow> json" where
  "set_all doc = lit (L [pair ''$set'' (Val (doc_data doc))])"

definition insert_document :: "nat option \<Rightarrow> Document \<Rightarrow> (world, unit) comp" where
  "insert_document p doc =
     bindM (coll_create p doc) (\<lambda>(s, doc).
       if \<not> ok s then
         if already_exists s then
           bindM (coll_update p (doc_id doc) (set_all doc) False) (\<lambda>s.
             if \<not> ok s then complain_status (''Failed to update document '' @ doc_id doc) s else returnM ())
         else complain_status (''Failed to create document '' @ doc_id doc) s
       else returnM ())"

text \<open>The same with messages; \<open>updated\<close> are the messages after an update that succeeded and one that failed.\<close>

definition insert_verbosely :: "(string \<Rightarrow> string) \<Rightarrow> string \<Rightarrow> nat option \<Rightarrow> Document \<Rightarrow> (world, unit) comp" where
  "insert_verbosely updated not_updated p doc =
     bindM (coll_create p doc) (\<lambda>(s, doc).
       if \<not> ok s then
         if already_exists s then
           bindM (say (''Document '' @ doc_id doc @ '' already exists, updating instead...'' @ nl)) (\<lambda>_.
           bindM (coll_update p (doc_id doc) (set_all doc) False) (\<lambda>s.
             if \<not> ok s then complain_status (not_updated @ doc_id doc) s else say (updated (doc_id doc))))
         else complain_status (''Failed to create document '' @ doc_id doc) s
       else say (''Document '' @ doc_id doc @ '' created successfully.'' @ nl))"

definition create_index :: "string list \<Rightarrow> nat option \<Rightarrow> string \<Rightarrow> (world, unit) comp" where
  "create_index warnings p field =
     bindM (coll_createIndex p field) (\<lambda>s.
       if \<not> ok s then
         if already_exists s then say (''Index on '' @ quoted field @ '' already exists.'' @ nl)
         else bindM (complain_status (''Failed to create index on '' @ field) s) (\<lambda>_. forM (\<lambda>l. complain (l @ nl)) warnings)
       else say (''Index on '' @ quoted field @ '' created successfully.'' @ nl))"

definition seed :: "nat option \<Rightarrow> Document list \<Rightarrow> (world, unit) comp" where
  "seed p docs = forM (insert_document p) docs"

definition create_indexes :: "string list \<Rightarrow> nat option \<Rightarrow> string list \<Rightarrow> (world, unit) comp" where
  "create_indexes warnings p names = forM (create_index warnings p) names"

text \<open>\<^verbatim>\<open>std::cout\<close> statements and other calls one after the other.\<close>

fun steps :: "(world, unit) comp list \<Rightarrow> (world, unit) comp" where
  "steps [] = returnM ()"
| "steps (m # ms) = bindM m (\<lambda>_. steps ms)"

text \<open>Opening the database and the collection \<^verbatim>\<open>products\<close>, silently.\<close>

definition with_products :: "(nat option \<Rightarrow> (world, int) comp) \<Rightarrow> (world, int) comp" where
  "with_products body =
     bindM (on_db Database_open) (\<lambda>s.
       if \<not> ok s then failed ''Failed to open database'' s
       else bindM (on_db (Database_createCollection ''products'')) (\<lambda>s.
         if \<not> ok s \<and> \<not> already_exists s then failed ''Failed to create collection'' s
         else bindM (on_db (getCollection ''products'')) body))"

text \<open>The same with messages, and a test of the pointer.\<close>

definition with_products_verbose :: "(nat option \<Rightarrow> (world, int) comp) \<Rightarrow> (world, int) comp" where
  "with_products_verbose body =
     bindM (on_db Database_open) (\<lambda>s.
       if \<not> ok s then failed ''Failed to open database'' s
       else bindM (say (''Database opened successfully.'' @ nl)) (\<lambda>_.
       bindM (on_db (Database_createCollection ''products'')) (\<lambda>s.
         if \<not> ok s \<and> \<not> already_exists s then failed ''Failed to create collection'' s
         else bindM (say (if \<not> ok s then ''Collection '' @ quoted ''products'' @ '' already exists, continuing...'' @ nl
                          else ''Collection '' @ quoted ''products'' @ '' created successfully.'' @ nl)) (\<lambda>_.
           bindM (on_db (getCollection ''products'')) (\<lambda>p.
             if p = None then bindM (complain (''Failed to get collection.'' @ nl)) (\<lambda>_. returnM 1) else body p)))))"

text \<open>The two ways the programs end: \<^verbatim>\<open>db.close()\<close> with a message, and with an exit status.\<close>

definition close_and_return :: "(world, int) comp" where
  "close_and_return =
     bindM (on_db Database_close) (\<lambda>s.
     bindM (if \<not> ok s then complain_status ''Failed to close database'' s else returnM ()) (\<lambda>_. returnM 0))"

definition close_or_fail :: "(world, unit) comp \<Rightarrow> (world, int) comp" where
  "close_or_fail goodbye =
     bindM (on_db Database_close) (\<lambda>s.
       if \<not> ok s then failed ''Failed to close database'' s else bindM goodbye (\<lambda>_. returnM 0))"

end
