(* ===== verification/Anu_Examples.thy ===== *)
theory Anu_Examples
  imports Anu_Console
begin

text \<open>
  The programs under \<^verbatim>\<open>src/examples\<close>: one definition for the \<^verbatim>\<open>main\<close> of each file, in terms of the functions of
  \<open>Anu_Console\<close>, and definitions for the documents and the larger sections. A \<^verbatim>\<open>Document&\<close> that a call
  overwrites is passed on; a \<^verbatim>\<open>status\<close> that is assigned and not tested is dropped. \<open>to_chars\<close> gives
  the text of a floating point number, \<open>strtod\<close> the number of a text.
\<close>

section \<open>Range queries\<close>

definition gt_documents :: "Document list" where
  "gt_documents =
  [new_doc ''prod001'' (lit (L [pair ''name'' (Str ''Budget Laptop''),
        pair ''price'' (Dec 49999 2),
        pair ''stock'' (Num 25),
        pair ''rating'' (Dec 38 1)])),
   new_doc ''prod002'' (lit (L [pair ''name'' (Str ''Mid-range Laptop''),
        pair ''price'' (Dec 89999 2),
        pair ''stock'' (Num 50),
        pair ''rating'' (Dec 42 1)])),
   new_doc ''prod003'' (lit (L [pair ''name'' (Str ''Premium Laptop''),
        pair ''price'' (Dec 149999 2),
        pair ''stock'' (Num 15),
        pair ''rating'' (Dec 47 1)])),
   new_doc ''prod004'' (lit (L [pair ''name'' (Str ''Ultra Laptop''),
        pair ''price'' (Dec 249999 2),
        pair ''stock'' (Num 5),
        pair ''rating'' (Dec 49 1)]))]"

definition gt_main :: "float_text \<Rightarrow> (world, int) comp" where
  "gt_main to_chars = with_database ''./gt_scan_db'' (with_products (\<lambda>products.
     bindM (steps [
        seed products gt_documents,
        say (nl @ ''===== Creating Indexes for Range Scanning ====='' @ nl),
        create_indexes [''Range scanning will be inefficient without proper indexes!''] products [''price'', ''stock'', ''rating''],
        say (nl @ ''===== Performing $gt Range Scans ====='' @ nl),
        executeQuery to_chars products (lit (L [pair ''$gt'' (L [pair ''price'' (Dec 10000 1)])])) ''Price > 1000.0'',
        executeQuery to_chars products (lit (L [pair ''$gt'' (L [pair ''stock'' (Num 20)])])) ''Stock > 20'',
        executeQuery to_chars products (lit (L [pair ''$gt'' (L [pair ''rating'' (Dec 45 1)])])) ''Rating > 4.5'']) (\<lambda>_. close_and_return)))"

definition lt_documents :: "Document list" where
  "lt_documents =
  [new_doc ''prod001'' (lit (L [pair ''name'' (Str ''Budget Smartphone''),
        pair ''price'' (Dec 29999 2),
        pair ''stock'' (Num 65),
        pair ''rating'' (Dec 39 1)])),
   new_doc ''prod002'' (lit (L [pair ''name'' (Str ''Mid-range Smartphone''),
        pair ''price'' (Dec 59999 2),
        pair ''stock'' (Num 40),
        pair ''rating'' (Dec 42 1)])),
   new_doc ''prod003'' (lit (L [pair ''name'' (Str ''Premium Smartphone''),
        pair ''price'' (Dec 99999 2),
        pair ''stock'' (Num 25),
        pair ''rating'' (Dec 46 1)])),
   new_doc ''prod004'' (lit (L [pair ''name'' (Str ''Ultra Smartphone''),
        pair ''price'' (Dec 139999 2),
        pair ''stock'' (Num 10),
        pair ''rating'' (Dec 48 1)]))]"

definition lt_main :: "float_text \<Rightarrow> (world, int) comp" where
  "lt_main to_chars = with_database ''./lt_scan_db'' (with_products (\<lambda>products.
     bindM (steps [
        seed products lt_documents,
        say (nl @ ''===== Creating Indexes for Range Scanning ====='' @ nl),
        say (''NOTE: Creating indexes is essential for efficient range scans!'' @ nl),
        create_indexes [''Range scanning will be extremely slow without indexes!''] products [''price'', ''stock'', ''rating''],
        say (nl @ ''===== Performing $lt Range Scans ====='' @ nl),
        executeQuery to_chars products (lit (L [pair ''$lt'' (L [pair ''price'' (Dec 6000 1)])])) ''Price < 600.0'',
        executeQuery to_chars products (lit (L [pair ''$lt'' (L [pair ''stock'' (Num 30)])])) ''Stock < 30'',
        executeQuery to_chars products (lit (L [pair ''$lt'' (L [pair ''rating'' (Dec 45 1)])])) ''Rating < 4.5'']) (\<lambda>_. close_and_return)))"

definition or_documents :: "Document list" where
  "or_documents =
  [new_doc ''prod001'' (lit (L [pair ''name'' (Str ''Entry Camera''),
        pair ''price'' (Dec 14999 2),
        pair ''stock'' (Num 95),
        pair ''rating'' (Dec 36 1),
        pair ''category'' (Str ''Photography''),
        pair ''onSale'' (Bool False)])),
   new_doc ''prod002'' (lit (L [pair ''name'' (Str ''Mid-level Camera''),
        pair ''price'' (Dec 49999 2),
        pair ''stock'' (Num 55),
        pair ''rating'' (Dec 42 1),
        pair ''category'' (Str ''Photography''),
        pair ''onSale'' (Bool True)])),
   new_doc ''prod003'' (lit (L [pair ''name'' (Str ''Professional Camera''),
        pair ''price'' (Dec 129999 2),
        pair ''stock'' (Num 25),
        pair ''rating'' (Dec 47 1),
        pair ''category'' (Str ''Photography''),
        pair ''onSale'' (Bool False)])),
   new_doc ''prod004'' (lit (L [pair ''name'' (Str ''Basic Tripod''),
        pair ''price'' (Dec 3999 2),
        pair ''stock'' (Num 150),
        pair ''rating'' (Dec 39 1),
        pair ''category'' (Str ''Photography Accessories''),
        pair ''onSale'' (Bool True)])),
   new_doc ''prod005'' (lit (L [pair ''name'' (Str ''Camera Lens''),
        pair ''price'' (Dec 59999 2),
        pair ''stock'' (Num 30),
        pair ''rating'' (Dec 45 1),
        pair ''category'' (Str ''Photography''),
        pair ''onSale'' (Bool True)]))]"

definition or_main :: "float_text \<Rightarrow> (world, int) comp" where
  "or_main to_chars = with_database ''./or_range_scan_db'' (with_products (\<lambda>products.
     bindM (steps [
        seed products or_documents,
        say (nl @ ''===== Creating Indexes for Range Scanning ====='' @ nl),
        say (''NOTE: When using $or with range conditions, all fields need indexes for optimal performance!'' @ nl),
        create_indexes [''Range scanning with $or will be very slow without proper indexes!''] products [''price'', ''stock'', ''rating'', ''category'', ''onSale''],
        say (nl @ ''===== Performing $or Range Scans ====='' @ nl),
        executeQuery to_chars products (lit (L [pair ''$or'' (L [L [pair ''$lt'' (L [pair ''price'' (Dec 1000 1)])],     L [pair ''$gt'' (L [pair ''price'' (Dec 10000 1)])]])])) ''Price < 100 OR Price > 1000'',
        executeQuery to_chars products (lit (L [pair ''$or'' (L [L [pair ''$gt'' (L [pair ''rating'' (Dec 45 1)])],     L [pair ''$gt'' (L [pair ''stock'' (Num 100)])]])])) ''Rating > 4.5 OR Stock > 100'']) (\<lambda>_. close_and_return)))"

definition and_documents :: "Document list" where
  "and_documents =
  [new_doc ''prod001'' (lit (L [pair ''name'' (Str ''Basic Tablet''),
        pair ''price'' (Dec 19999 2),
        pair ''stock'' (Num 85),
        pair ''rating'' (Dec 35 1),
        pair ''category'' (Str ''Electronics''),
        pair ''available'' (Bool True)])),
   new_doc ''prod002'' (lit (L [pair ''name'' (Str ''Standard Tablet''),
        pair ''price'' (Dec 34999 2),
        pair ''stock'' (Num 50),
        pair ''rating'' (Dec 40 1),
        pair ''category'' (Str ''Electronics''),
        pair ''available'' (Bool True)])),
   new_doc ''prod003'' (lit (L [pair ''name'' (Str ''Pro Tablet''),
        pair ''price'' (Dec 59999 2),
        pair ''stock'' (Num 30),
        pair ''rating'' (Dec 45 1),
        pair ''category'' (Str ''Electronics''),
        pair ''available'' (Bool True)])),
   new_doc ''prod004'' (lit (L [pair ''name'' (Str ''Ultra Tablet''),
        pair ''price'' (Dec 89999 2),
        pair ''stock'' (Num 15),
        pair ''rating'' (Dec 48 1),
        pair ''category'' (Str ''Electronics''),
        pair ''available'' (Bool False)])),
   new_doc ''prod005'' (lit (L [pair ''name'' (Str ''Budget Headphones''),
        pair ''price'' (Dec 4999 2),
        pair ''stock'' (Num 120),
        pair ''rating'' (Dec 37 1),
        pair ''category'' (Str ''Audio''),
        pair ''available'' (Bool True)]))]"

definition and_main :: "float_text \<Rightarrow> (world, int) comp" where
  "and_main to_chars = with_database ''./and_range_scan_db'' (with_products (\<lambda>products.
     bindM (steps [
        seed products and_documents,
        say (nl @ ''===== Creating Indexes for Range Scanning ====='' @ nl),
        say (''NOTE: When using $and with range conditions, indexes are critical for performance!'' @ nl),
        create_indexes [''Range scanning with $and will be extremely inefficient without indexes!''] products [''price'', ''stock'', ''rating'', ''category'', ''available''],
        say (nl @ ''===== Performing $and Range Scans ====='' @ nl),
        executeQuery to_chars products (lit (L [pair ''$and'' (L [L [pair ''$gt'' (L [pair ''price'' (Dec 2000 1)])],     L [pair ''$lt'' (L [pair ''price'' (Dec 6000 1)])],     L [pair ''$eq'' (L [pair ''available'' (Bool True)])]])])) ''200 < Price < 600 AND Available = true'',
        executeQuery to_chars products (lit (L [pair ''$and'' (L [L [pair ''$gt'' (L [pair ''rating'' (Dec 40 1)])],     L [pair ''$lt'' (L [pair ''stock'' (Num 40)])],     L [pair ''$eq'' (L [pair ''category'' (Str ''Electronics'')])]])])) ''Rating > 4.0 AND Stock < 40 AND Category = Electronics'',
        executeQuery to_chars products (lit (L [pair ''$and'' (L [L [pair ''$gt'' (L [pair ''price'' (Dec 3000 1)])],     L [pair ''$lt'' (L [pair ''price'' (Dec 10000 1)])],     L [pair ''$gt'' (L [pair ''rating'' (Dec 40 1)])],     L [pair ''$lt'' (L [pair ''rating'' (Dec 50 1)])]])])) ''300 < Price < 1000 AND 4.0 < Rating < 5.0'']) (\<lambda>_. close_and_return)))"

section \<open>Equality and order\<close>

text \<open>An index the program cannot do without: \<open>False\<close> when \<^verbatim>\<open>main\<close> has to return.\<close>

definition require_index :: "nat option \<Rightarrow> string \<Rightarrow> (world, bool) comp" where
  "require_index p field =
     bindM (coll_createIndex p field) (\<lambda>s.
       if \<not> ok s then
         if already_exists s then bindM (say (''Index on '' @ quoted field @ '' already exists.'' @ nl)) (\<lambda>_. returnM True)
         else bindM (complain_status (''Failed to create index on '' @ field) s) (\<lambda>_. returnM False)
       else bindM (say (''Index on '' @ quoted field @ '' created successfully.'' @ nl)) (\<lambda>_. returnM True))"

definition eq_documents :: "Document list" where
  "eq_documents =
  [new_doc ''prod001'' (lit (L [pair ''name'' (Str ''Laptop''),
      pair ''price'' (Dec 129999 2),
      pair ''stock'' (Num 45),
      pair ''category'' (Str ''Electronics''),
      pair ''rating'' (Dec 47 1),
      pair ''available'' (Bool True)])),
   new_doc ''prod002'' (lit (L [pair ''name'' (Str ''Smartphone''),
      pair ''price'' (Dec 79999 2),
      pair ''stock'' (Num 160),
      pair ''category'' (Str ''Electronics''),
      pair ''rating'' (Dec 45 1),
      pair ''available'' (Bool True)])),
   new_doc ''prod003'' (lit (L [pair ''name'' (Str ''Programming in C++''),
      pair ''price'' (Dec 4999 2),
      pair ''stock'' (Num 75),
      pair ''category'' (Str ''Books''),
      pair ''rating'' (Dec 42 1),
      pair ''available'' (Bool True)])),
   new_doc ''prod004'' (lit (L [pair ''name'' (Str ''Organic Coffee''),
      pair ''price'' (Dec 1599 2),
      pair ''stock'' (Num 200),
      pair ''category'' (Str ''Food''),
      pair ''rating'' (Dec 48 1),
      pair ''available'' (Bool False)]))]"

definition eq_main :: "float_text \<Rightarrow> (world, int) comp" where
  "eq_main to_chars = with_database ''./product_db'' (with_products_verbose (\<lambda>products.
     bindM (steps [
        say (nl @ ''===== Inserting Sample Documents ====='' @ nl),
        forM (insert_verbosely (\<lambda>i. ''Document '' @ i @ '' updated.'' @ nl) ''Failed to update existing document '' products) eq_documents,
        say (nl @ ''===== Creating Indexes ====='' @ nl)]) (\<lambda>_.
     bindM (require_index products ''category'') (\<lambda>b. if \<not> b then returnM 1 else
     bindM (require_index products ''available'') (\<lambda>b. if \<not> b then returnM 1 else
     bindM (steps [
        say (nl @ ''===== $eq Operator Examples ====='' @ nl),
        say (nl @ ''----- Query: category = Electronics -----'' @ nl),
        show_all to_chars products (lit (L [pair ''$eq'' (L [pair ''category'' (Str ''Electronics'')])])),
        say (nl @ ''----- Query: available = true -----'' @ nl),
        show_all to_chars products (lit (L [pair ''$eq'' (L [pair ''available'' (Bool True)])]))]) (\<lambda>_.
     close_or_fail (say (nl @ ''Database closed successfully.'' @ nl))))))))"

definition orderBy_documents :: "Document list" where
  "orderBy_documents =
  [new_doc ''prod001'' (lit (L [pair ''name'' (Str ''Laptop''),
      pair ''price'' (Dec 129999 2),
      pair ''stock'' (Num 45),
      pair ''category'' (Str ''Electronics''),
      pair ''rating'' (Dec 47 1),
      pair ''available'' (Bool True)])),
   new_doc ''prod002'' (lit (L [pair ''name'' (Str ''Smartphone''),
      pair ''price'' (Dec 79999 2),
      pair ''stock'' (Num 160),
      pair ''category'' (Str ''Electronics''),
      pair ''rating'' (Dec 45 1),
      pair ''available'' (Bool True)])),
   new_doc ''prod003'' (lit (L [pair ''name'' (Str ''Programming in C++''),
      pair ''price'' (Dec 4999 2),
      pair ''stock'' (Num 75),
      pair ''category'' (Str ''Books''),
      pair ''rating'' (Dec 42 1),
      pair ''available'' (Bool True)])),
   new_doc ''prod004'' (lit (L [pair ''name'' (Str ''Organic Coffee''),
      pair ''price'' (Dec 1599 2),
      pair ''stock'' (Num 200),
      pair ''category'' (Str ''Food''),
      pair ''rating'' (Dec 48 1),
      pair ''available'' (Bool False)]))]"

definition orderBy_main :: "float_text \<Rightarrow> (world, int) comp" where
  "orderBy_main to_chars = with_database ''./product_db'' (with_products_verbose (\<lambda>products.
     bindM (steps [
        say (nl @ ''===== Inserting Sample Documents ====='' @ nl),
        forM (insert_verbosely (\<lambda>i. ''Document '' @ i @ '' updated.'' @ nl) ''Failed to update existing document '' products) orderBy_documents,
        say (nl @ ''===== Creating Indexes ====='' @ nl)]) (\<lambda>_.
     bindM (require_index products ''price'') (\<lambda>b. if \<not> b then returnM 1 else
     bindM (require_index products ''rating'') (\<lambda>b. if \<not> b then returnM 1 else
     bindM (steps [
        say (nl @ ''===== $orderBy Operator Examples ====='' @ nl),
        say (nl @ ''----- Query: Order By Price (Ascending) -----'' @ nl),
        show_all to_chars products (lit (L [pair ''$orderBy'' (L [pair ''price'' (Str ''asc'')])])),
        say (nl @ ''----- Query: Order By Rating (Descending) -----'' @ nl),
        show_all to_chars products (lit (L [pair ''$orderBy'' (L [pair ''rating'' (Str ''desc'')])]))]) (\<lambda>_.
     close_or_fail (say (nl @ ''Database closed successfully.'' @ nl))))))))"

section \<open>Update operators\<close>

text \<open>Creating the only document, or replacing it without reporting a failure.\<close>

definition create_or_replace :: "nat option \<Rightarrow> Document \<Rightarrow> (world, unit) comp" where
  "create_or_replace p doc =
     bindM (coll_create p doc) (\<lambda>(s, doc).
       if \<not> ok s \<and> already_exists s then bindM (coll_update p (doc_id doc) (set_all doc) False) (\<lambda>s. returnM ())
       else returnM ())"

definition show_original :: "float_text \<Rightarrow> nat option \<Rightarrow> string \<Rightarrow> (world, Document) comp" where
  "show_original to_chars p i =
     bindM (coll_read p i empty_document) (\<lambda>(s, readDoc).
     bindM (say (''Original document:'' @ nl)) (\<lambda>_.
     bindM (printDocument to_chars readDoc) (\<lambda>_. returnM readDoc)))"

definition update_and_show :: "float_text \<Rightarrow> nat option \<Rightarrow> string \<Rightarrow> json \<Rightarrow> bool \<Rightarrow> string \<Rightarrow> string \<Rightarrow> Document
    \<Rightarrow> (world, Document) comp" where
  "update_and_show to_chars p i u upsert failure success readDoc =
     bindM (coll_update p i u upsert) (\<lambda>s.
       if \<not> ok s then bindM (complain_status failure s) (\<lambda>_. returnM readDoc)
       else
         bindM (say (success @ nl)) (\<lambda>_.
         bindM (coll_read p i readDoc) (\<lambda>(s, readDoc).
         bindM (printDocument to_chars readDoc) (\<lambda>_. returnM readDoc))))"

text \<open>The last statements of these programs: \<^verbatim>\<open>db.close(); return 0;\<close>\<close>

definition close_silently :: "(world, int) comp" where
  "close_silently = bindM (on_db Database_close) (\<lambda>s. returnM 0)"

definition unset_product :: json where
  "unset_product = lit (L [pair ''name'' (Str ''Smartphone X''),
      pair ''price'' (Dec 89999 2),
      pair ''stock'' (Num 120),
      pair ''category'' (Str ''Electronics''),
      pair ''brand'' (Str ''TechCorp''),
      pair ''promotion'' (Str ''Limited Offer''),
      pair ''features'' (L [pair ''screen'' (Str ''6.5 inch OLED''),
          pair ''camera'' (Str ''48MP triple camera''),
          pair ''storage'' (Str ''256GB''),
          pair ''temporary_spec'' (Str ''Test value'')])])"

definition unset_update1 :: json where
  "unset_update1 = lit (L [pair ''$unset'' (L [pair ''promotion'' (Str ''''),
          pair ''stock'' (Str '''')])])"

definition unset_update2 :: json where
  "unset_update2 = lit (L [pair ''$unset'' (L [pair ''features.temporary_spec'' (Str ''''),
          pair ''features.storage'' (Str '''')])])"

definition unset_main :: "float_text \<Rightarrow> (world, int) comp" where
  "unset_main to_chars = with_database ''./unset_example_db'' (with_products (\<lambda>products.
     bindM (create_or_replace products (new_doc ''smartphone1'' unset_product)) (\<lambda>_.
     bindM (show_original to_chars products ''smartphone1'') (\<lambda>readDoc.
     bindM (say (nl @ ''===== Using $unset Operator ====='' @ nl)) (\<lambda>_.
     bindM (update_and_show to_chars products ''smartphone1'' unset_update1 False ''Failed to update with $unset'' ''Document updated with $unset (top-level fields)'' readDoc) (\<lambda>readDoc.
     bindM (update_and_show to_chars products ''smartphone1'' unset_update2 False ''Failed to update nested fields'' ''Document updated with $unset (nested fields)'' readDoc) (\<lambda>readDoc.
     close_silently)))))))"

definition pull_product :: json where
  "pull_product = lit (L [pair ''name'' (Str ''Smart Watch''),
      pair ''price'' (Dec 29999 2),
      pair ''category'' (Str ''Wearables''),
      pair ''brand'' (Str ''FitTech''),
      pair ''features'' (L [Str ''heart-rate-monitor'', Str ''gps'', Str ''sleep-tracking'', Str ''water-resistant'', Str ''unused-feature'']),
      pair ''compatibility'' (L [Str ''ios'', Str ''android'', Str ''deprecated-os''])])"

definition pull_update1 :: json where
  "pull_update1 = lit (L [pair ''$pull'' (L [pair ''features'' (Str ''unused-feature'')])])"

definition pull_update2 :: json where
  "pull_update2 = lit (L [pair ''$pull'' (L [pair ''compatibility'' (Str ''deprecated-os'')])])"

definition pull_main :: "float_text \<Rightarrow> (world, int) comp" where
  "pull_main to_chars = with_database ''./pull_example_db'' (with_products (\<lambda>products.
     bindM (create_or_replace products (new_doc ''watch1'' pull_product)) (\<lambda>_.
     bindM (show_original to_chars products ''watch1'') (\<lambda>readDoc.
     bindM (say (nl @ ''===== Using $pull Operator ====='' @ nl)) (\<lambda>_.
     bindM (update_and_show to_chars products ''watch1'' pull_update1 False ''Failed to update with $pull (features)'' ''Document updated with $pull (removed feature)'' readDoc) (\<lambda>readDoc.
     bindM (update_and_show to_chars products ''watch1'' pull_update2 False ''Failed to update with $pull (compatibility)'' ''Document updated with $pull (removed compatibility)'' readDoc) (\<lambda>readDoc.
     close_silently)))))))"

definition push_newReview :: json where
  "push_newReview = lit (L [pair ''user'' (Str ''techexpert''),
      pair ''rating'' (Num 4),
      pair ''comment'' (Str ''Great laptop, but runs hot under heavy load'')])"

definition push_product :: json where
  "push_product = lit (L [pair ''name'' (Str ''Gaming Laptop''),
      pair ''price'' (Dec 149999 2),
      pair ''category'' (Str ''Electronics''),
      pair ''brand'' (Str ''GameMaster''),
      pair ''tags'' (L [Str ''gaming'', Str ''laptop'', Str ''high-performance'']),
      pair ''reviews'' (L [L [pair ''user'' (Str ''gamer123''),
            pair ''rating'' (Num 5),
            pair ''comment'' (Str ''Amazing performance!'')]])])"

definition push_update1 :: json where
  "push_update1 = lit (L [pair ''$push'' (L [pair ''tags'' (Str ''vr-ready'')])])"

definition push_update2 :: json where
  "push_update2 = lit (L [pair ''$push'' (L [pair ''reviews'' (Val (push_newReview))])])"

definition push_main :: "float_text \<Rightarrow> (world, int) comp" where
  "push_main to_chars = with_database ''./push_example_db'' (with_products (\<lambda>products.
     bindM (create_or_replace products (new_doc ''laptop1'' push_product)) (\<lambda>_.
     bindM (show_original to_chars products ''laptop1'') (\<lambda>readDoc.
     bindM (say (nl @ ''===== Using $push Operator ====='' @ nl)) (\<lambda>_.
     bindM (update_and_show to_chars products ''laptop1'' push_update1 True ''Failed to update with $push (tags)'' ''Document updated with $push (added tag)'' readDoc) (\<lambda>readDoc.
     bindM (update_and_show to_chars products ''laptop1'' push_update2 True ''Failed to update with $push (review)'' ''Document updated with $push (added review)'' readDoc) (\<lambda>readDoc.
     close_silently)))))))"

section \<open>Reading and writing, collections, export and import\<close>

definition user_data :: json where
  "user_data = lit (L [pair ''name'' (Str ''Hash''),
      pair ''email'' (Str ''hash@example.com''),
      pair ''age'' (Num 33)])"

definition with_open :: "(world, int) comp \<Rightarrow> (world, int) comp" where
  "with_open body = bindM (on_db Database_open) (\<lambda>s. if \<not> ok s then failed ''Failed to open database'' s else body)"

definition readWrite_main :: "float_text \<Rightarrow> (world, int) comp" where
  "readWrite_main to_chars = with_database ''./my_database'' (with_open (
     bindM (on_db (Database_createCollection ''users'')) (\<lambda>s.
     bindM (on_db (getCollection ''users'')) (\<lambda>users.
     bindM (coll_create users (new_doc ''user001'' user_data)) (\<lambda>(s, doc).
     bindM (coll_read users ''user001'' empty_document) (\<lambda>(s, doc1).
     bindM (liftO (json_dump to_chars (Some 4) (doc_data doc1))) (\<lambda>txt.
     bindM (say (txt @ nl)) (\<lambda>_. close_silently))))))))"

definition rewrite_main :: "float_text \<Rightarrow> (world, int) comp" where
  "rewrite_main to_chars = with_database ''./my_database'' (with_open (
     bindM (on_db (Database_createCollection ''users'')) (\<lambda>s.
     bindM (on_db (getCollection ''users'')) (\<lambda>users.
     bindM (coll_create users (new_doc ''user001'' user_data)) (\<lambda>(s, doc).
     bindM (coll_read users ''user001'' empty_document) (\<lambda>(s, doc1).
     bindM (liftO (json_dump to_chars (Some 4) (doc_data doc1))) (\<lambda>txt.
     bindM (say (txt @ nl)) (\<lambda>_.
       if \<not> ok s then returnM 1
       else
         bindM (liftO (index_write ''email'' (JString ''hash@gmail.com'') (doc_data doc1))) (\<lambda>tmp.
         bindM (coll_create users (setData tmp doc1)) (\<lambda>(s, doc1).
         bindM (coll_read users ''user001'' doc1) (\<lambda>(s, doc1).
         bindM (say (''========After update========='' @ nl)) (\<lambda>_.
         bindM (liftO (json_dump to_chars (Some 4) (doc_data doc1))) (\<lambda>txt.
         bindM (say (txt @ nl)) (\<lambda>_. close_silently))))))))))))))"

definition collections_main :: "(world, int) comp" where
  "collections_main = with_database ''./my_database'' (with_open (
     bindM (forM (\<lambda>c. bindM (on_db (Database_createCollection c)) (\<lambda>s. returnM ()))
       [''users01'', ''users02'', ''users03'', ''users04'', ''users05'']) (\<lambda>_.
     bindM getM (\<lambda>w.
     bindM (say (''List of collections:'' @ nl)) (\<lambda>_.
     bindM (forM (\<lambda>col. say (col @ nl)) (Database_getCollectionNames (w_db w))) (\<lambda>_.
     bindM (forM (\<lambda>c. bindM (on_db (Database_dropCollection c)) (\<lambda>s. returnM ()))
       [''users01'', ''users02'', ''users03'', ''users04'', ''users05'']) (\<lambda>_.
     close_silently)))))))"

text \<open>\<^verbatim>\<open>importFromJsonFile\<close> generates identifiers from its own sequence of times and random numbers.\<close>

definition import_file :: "(string \<Rightarrow> double) \<Rightarrow> string \<Rightarrow> string \<Rightarrow> (world, status) comp" where
  "import_file strtod name path =
     (\<lambda>w. on_db (Database_importFromJsonFile (json_parse strtod False) (w_clock w (w_calls w)) name path) (w\<lparr>w_calls := Suc (w_calls w)\<rparr>))"

definition export_wait :: "nat option \<Rightarrow> (world, unit) comp" where
  "export_wait p = on_db (case p of None \<Rightarrow> undefM | Some a \<Rightarrow> waitForExportOperation a)"

definition exportImport_main :: "float_text \<Rightarrow> (string \<Rightarrow> double) \<Rightarrow> (world, int) comp" where
  "exportImport_main to_chars strtod = with_database ''./my_database'' (with_open (
     bindM (on_db (Database_createCollection ''users'')) (\<lambda>s.
     bindM (on_db (getCollection ''users'')) (\<lambda>users.
     bindM (coll_create users (new_doc ''user001'' user_data)) (\<lambda>(s, doc).
     bindM (on_db (Database_exportAllToJsonAsync (json_dump to_chars (Some 4)) ''users'' ''./user_example/'')) (\<lambda>s.
     bindM (if \<not> ok s then complain_status ''Failed to export documents'' s
            else say (''Documents exported successfully to ./user_example/'' @ nl)) (\<lambda>_.
     bindM (export_wait users) (\<lambda>_.
     bindM (on_db (Database_createCollection ''users1'')) (\<lambda>s.
     bindM (on_db (getCollection ''users1'')) (\<lambda>users1.
     bindM (import_file strtod ''users1'' ''./user_example/users.json'') (\<lambda>s.
     bindM (if \<not> ok s then complain_status ''Failed to import documents'' s
            else say (''Documents imported successfully to users1 collection'' @ nl)) (\<lambda>_.
     bindM (on_db (getCollection ''users1'')) (\<lambda>users1.
     bindM (coll_read users1 ''user001'' empty_document) (\<lambda>(s, doc1).
     bindM (liftO (json_dump to_chars (Some 4) (doc_data doc1))) (\<lambda>txt.
     bindM (say (txt @ nl)) (\<lambda>_. close_silently))))))))))))))))"

end
