(* ===== verification/Anu_Demo.thy ===== *)
theory Anu_Demo
  imports Anu_Examples
begin

text \<open>
  The two long programs: \<^verbatim>\<open>src/examples/AnuDBWriteSetUpdateReadDocument.cpp\<close> and the demonstration
  \<^verbatim>\<open>src/src/main.cpp\<close>, section by section, each with the \<^verbatim>\<open>main\<close> that puts the sections together.
\<close>

section \<open>AnuDBWriteSetUpdateReadDocument\<close>

definition set_movie :: json where
  "set_movie = lit (L [pair ''title'' (Str ''The Matrix''),
      pair ''year'' (Num 1999),
      pair ''rating'' (Dec 87 1),
      pair ''genre'' (L [Str ''Sci-Fi'', Str ''Action'']),
      pair ''director'' (Str ''Wachowski Sisters''),
      pair ''cast'' (L [L [Str ''name'', Str ''Keanu Reeves'', Str ''role'', Str ''Neo''],
          L [Str ''name'', Str ''Laurence Fishburne'', Str ''role'', Str ''Morpheus''],
          L [Str ''name'', Str ''Carrie-Anne Moss'', Str ''role'', Str ''Trinity'']]),
      pair ''inStock'' (Bool True),
      pair ''price'' (Dec 1299 2)])"

definition set_car :: json where
  "set_car = lit (L [pair ''make'' (Str ''Tesla''),
      pair ''model'' (Str ''Model 3''),
      pair ''year'' (Num 2022),
      pair ''features'' (L [pair ''autopilot'' (Bool True),
          pair ''range'' (Str ''358 miles''),
          pair ''acceleration'' (Str ''3.1 seconds'')]),
      pair ''colors'' (L [Str ''Red'', Str ''Black'', Str ''White'', Str ''Blue'']),
      pair ''price'' (Dec 4699000 2),
      pair ''inStock'' (Bool True),
      pair ''reviews'' (L [L [L [Str ''user'', Str ''carfan42'', Str ''rating'', Num 5, Str ''comment'', Str ''Amazing car!'']],
          L [L [Str ''user'', Str ''ecodrive'', Str ''rating'', Num 4, Str ''comment'', Str ''Great range but expensive'']]])])"

definition set_recipe :: json where
  "set_recipe = lit (L [pair ''name'' (Str ''Chocolate Chip Cookies''),
      pair ''prepTime'' (Str ''15 minutes''),
      pair ''cookTime'' (Str ''10 minutes''),
      pair ''difficulty'' (Str ''Easy''),
      pair ''rating'' (Dec 48 1),
      pair ''ingredients'' (L [Str ''2 cups flour'', Str ''1/2 tsp baking soda'', Str ''1 cup butter'', Str ''1 cup sugar'', Str ''1 cup chocolate chips''])])"

definition set_person :: json where
  "set_person = lit (L [pair ''firstName'' (Str ''Jane''),
      pair ''lastName'' (Str ''Smith''),
      pair ''age'' (Num 34),
      pair ''email'' (Str ''jane.smith@example.com''),
      pair ''address'' (L [pair ''street'' (Str ''123 Main St''),
          pair ''city'' (Str ''Boston''),
          pair ''state'' (Str ''MA''),
          pair ''zipCode'' (Str ''02108'')]),
      pair ''phoneNumbers'' (L [L [L [Str ''type'', Str ''home'', Str ''number'', Str ''555-1234'']],
          L [L [Str ''type'', Str ''work'', Str ''number'', Str ''555-5678'']]]),
      pair ''hobbies'' (L [Str ''reading'', Str ''hiking'', Str ''photography'']),
      pair ''isEmployed'' (Bool True)])"

definition set_product :: json where
  "set_product = lit (L [pair ''name'' (Str ''Wireless Headphones''),
      pair ''sku'' (Str ''WH-1000XM4''),
      pair ''brand'' (Str ''SoundMaster''),
      pair ''category'' (Str ''Electronics''),
      pair ''price'' (Dec 24999 2),
      pair ''stock'' (Num 75),
      pair ''features'' (L [pair ''noiseCancel'' (Bool True),
          pair ''batteryLife'' (Str ''30 hours''),
          pair ''waterproof'' (Bool False)]),
      pair ''colors'' (L [Str ''Black'', Str ''Silver'']),
      pair ''rating'' (Dec 46 1),
      pair ''onSale'' (Bool False)])"

definition set_documents :: "Document list" where
  "set_documents =
    [new_doc ''movie001'' set_movie,
     new_doc ''car001'' set_car,
     new_doc ''recipe001'' set_recipe,
     new_doc ''person001'' set_person,
     new_doc ''product001'' set_product]"

definition set_ids :: "string list" where
  "set_ids = [''movie001'', ''car001'', ''recipe001'', ''person001'', ''product001'']"

definition with_items :: "(nat option \<Rightarrow> (world, int) comp) \<Rightarrow> (world, int) comp" where
  "with_items body =
     bindM (on_db Database_open) (\<lambda>s.
       if \<not> ok s then failed ''Failed to open database'' s
       else bindM (say (''Database opened successfully.'' @ nl)) (\<lambda>_.
       bindM (on_db (Database_createCollection ''items'')) (\<lambda>s.
         if \<not> ok s \<and> \<not> already_exists s then failed ''Failed to create collection'' s
         else bindM (say (''Collection '' @ quoted ''items'' @ '' ready.'' @ nl)) (\<lambda>_.
           bindM (on_db (getCollection ''items'')) (\<lambda>p.
             if p = None then bindM (complain (''Failed to get collection.'' @ nl)) (\<lambda>_. returnM 1) else body p)))))"

text \<open>An update, and the document afterwards when it succeeded.\<close>

definition set_update :: "float_text \<Rightarrow> nat option \<Rightarrow> string \<Rightarrow> json \<Rightarrow> bool \<Rightarrow> string \<Rightarrow> string \<Rightarrow> (world, unit) comp" where
  "set_update to_chars p i u upsert failure success =
     bindM (coll_update p i u upsert) (\<lambda>s.
       if \<not> ok s then complain_status failure s
       else bindM (coll_read p i empty_document) (\<lambda>(s, doc).
         bindM (say (success @ nl)) (\<lambda>_. printDocument to_chars doc)))"

definition set_quietly :: "nat option \<Rightarrow> string \<Rightarrow> json \<Rightarrow> bool \<Rightarrow> string \<Rightarrow> (world, unit) comp" where
  "set_quietly p i u upsert failure =
     bindM (coll_update p i u upsert) (\<lambda>s. if \<not> ok s then complain_status failure s else returnM ())"

definition set_updateMovie :: json where
  "set_updateMovie = lit (L [pair ''$set'' (L [pair ''rating'' (Dec 90 1),
          pair ''genre'' (L [Str ''Sci-Fi'', Str ''Action'', Str ''Cyberpunk''])])])"

definition set_updateCar :: json where
  "set_updateCar = lit (L [pair ''$unset'' (L [pair ''reviews'' (Str ''''),
          pair ''features.autopilot'' (Str '''')])])"

definition set_updateRecipe :: json where
  "set_updateRecipe = lit (L [pair ''$push'' (L [pair ''ingredients'' (Str ''1 tsp vanilla extract''),
          pair ''steps'' (Str ''Let cool before serving'')])])"

definition set_updatePerson1 :: json where
  "set_updatePerson1 = lit (L [pair ''$set'' (L [pair ''age'' (Num 35),
          pair ''address.city'' (Str ''Cambridge'')])])"

definition set_updatePerson2 :: json where
  "set_updatePerson2 = lit (L [pair ''$push'' (L [pair ''hobbies'' (Str ''cooking''),
          pair ''phoneNumbers'' (L [L [Str ''type'', Str ''mobile'', Str ''number'', Str ''555-9012'']])])])"

definition set_updateProduct1 :: json where
  "set_updateProduct1 = lit (L [pair ''$pull'' (L [pair ''colors'' (Str ''Silver'')])])"

definition set_updateProduct2 :: json where
  "set_updateProduct2 = lit (L [pair ''$set'' (L [pair ''price'' (Dec 19999 2),
          pair ''onSale'' (Bool True),
          pair ''stock'' (Num 50),
          pair ''features.waterproof'' (Bool True)])])"

definition set_updates :: "float_text \<Rightarrow> nat option \<Rightarrow> (world, unit) comp" where
  "set_updates to_chars items = steps [
     say (nl @ ''===== UPDATING DOCUMENTS USING DIFFERENT OPERATORS ====='' @ nl),
     say (nl @ ''----- Update Movie using $set -----'' @ nl),
     set_update to_chars items ''movie001'' set_updateMovie False ''Failed to update movie'' ''Movie updated with $set operator:'',
     say (nl @ ''----- Update Car using $unset -----'' @ nl),
     set_update to_chars items ''car001'' set_updateCar False ''Failed to update car'' ''Car updated with $unset operator:'',
     say (nl @ ''----- Update Recipe using $push -----'' @ nl),
     set_update to_chars items ''recipe001'' set_updateRecipe True ''Failed to update recipe'' ''Recipe updated with $push operator:'',
     say (nl @ ''----- Update Person using $set and $push -----'' @ nl),
     set_quietly items ''person001'' set_updatePerson1 False ''Failed to update person ($set)'',
     set_update to_chars items ''person001'' set_updatePerson2 True ''Failed to update person ($push)'' ''Person updated with combined operators:'',
     say (nl @ ''----- Update Product using $pull and $set -----'' @ nl),
     set_quietly items ''product001'' set_updateProduct1 False ''Failed to update product ($pull)'',
     set_update to_chars items ''product001'' set_updateProduct2 False ''Failed to update product ($set)''
       ''Product updated with $pull and $set operators:'']"

text \<open>Filtering in the program: a loop that counts the documents for which its body has printed a line.\<close>

fun count_where :: "('a \<Rightarrow> (world, bool) comp) \<Rightarrow> 'a list \<Rightarrow> nat \<Rightarrow> (world, nat) comp" where
  "count_where f [] n = returnM n"
| "count_where f (x # xs) n = bindM (f x) (\<lambda>b. count_where f xs (if b then Suc n else n))"

text \<open>\<^verbatim>\<open>double price = doc.data()["price"];\<close> and the line of a document with its name and price.\<close>

definition number_of :: "string \<Rightarrow> Document \<Rightarrow> (world, double) comp" where
  "number_of k doc = liftO (bindO (const_index k (doc_data doc)) get_double)"

definition price_line :: "float_text \<Rightarrow> Document \<Rightarrow> double \<Rightarrow> (world, bool) comp" where
  "price_line to_chars doc price =
     bindM (say (''- '' @ doc_id doc)) (\<lambda>_.
     bindM (if contains (doc_data doc) ''name''
            then bindM (liftO (bindO (const_index ''name'' (doc_data doc)) (json_dump to_chars None))) (\<lambda>txt.
              say ('': '' @ txt @ '' ($'' @ show_double price @ '')''))
            else returnM ()) (\<lambda>_.
     bindM (say nl) (\<lambda>_. returnM True)))"

definition high_price :: "float_text \<Rightarrow> nat option \<Rightarrow> string \<Rightarrow> (world, bool) comp" where
  "high_price to_chars p docId =
     bindM (coll_read p docId empty_document) (\<lambda>(s, doc).
       if ok s \<and> contains (doc_data doc) ''price'' then
         bindM (number_of ''price'' doc) (\<lambda>price.
           if fp_lt (decimal 1000 1) price then price_line to_chars doc price else returnM False)
       else returnM False)"

definition high_rating :: "nat option \<Rightarrow> string \<Rightarrow> (world, bool) comp" where
  "high_rating p docId =
     bindM (coll_read p docId empty_document) (\<lambda>(s, doc).
       if ok s \<and> contains (doc_data doc) ''rating'' then
         bindM (number_of ''rating'' doc) (\<lambda>rating.
           if fp_lt (decimal 47 1) rating
           then bindM (say (''- '' @ doc_id doc @ '': Rating '' @ show_double rating @ nl)) (\<lambda>_. returnM True)
           else returnM False)
       else returnM False)"

definition on_sale :: "float_text \<Rightarrow> nat option \<Rightarrow> string \<Rightarrow> (world, bool) comp" where
  "on_sale to_chars p docId =
     bindM (coll_read p docId empty_document) (\<lambda>(s, doc).
       if ok s \<and> contains (doc_data doc) ''price'' \<and> contains (doc_data doc) ''onSale'' then
         bindM (number_of ''price'' doc) (\<lambda>price.
         bindM (liftO (bindO (const_index ''onSale'' (doc_data doc)) get_bool)) (\<lambda>onSale.
           if fp_lt (decimal 500 1) price \<and> onSale then price_line to_chars doc price else returnM False))
       else returnM False)"

definition set_filters :: "float_text \<Rightarrow> nat option \<Rightarrow> (world, unit) comp" where
  "set_filters to_chars items = steps [
     say (nl @ ''===== FILTERING DOCUMENTS IN APPLICATION CODE ====='' @ nl),
     say (nl @ ''--- Manual Filtering: Documents with price > 100 ---'' @ nl),
     bindM (count_where (high_price to_chars items) set_ids 0) (\<lambda>n. say (''Found '' @ to_string n @ '' high-priced items'' @ nl)),
     say (nl @ ''--- Manual Filtering: Documents with rating > 4.7 ---'' @ nl),
     bindM (count_where (high_rating items) set_ids 0) (\<lambda>n. say (''Found '' @ to_string n @ '' high-rated items'' @ nl)),
     say (nl @ ''--- Manual Filtering: Price > 50 AND onSale is true ---'' @ nl),
     bindM (count_where (on_sale to_chars items) set_ids 0) (\<lambda>n. say (''Found '' @ to_string n @ '' on-sale expensive items'' @ nl))]"

definition set_main :: "float_text \<Rightarrow> (world, int) comp" where
  "set_main to_chars = with_database ''./five_doc_example'' (with_items (\<lambda>items.
     bindM (steps [
       say (nl @ ''===== CREATING 5 DOCUMENTS ====='' @ nl),
       forM (insert_verbosely (\<lambda>i. []) ''Failed to update document '' items) set_documents,
       say (nl @ ''===== READING ALL DOCUMENTS ====='' @ nl),
       forM (show_found to_chars items) set_ids,
       set_updates to_chars items,
       say (nl @ ''===== READING ALL UPDATED DOCUMENTS ====='' @ nl),
       forM (show_found to_chars items) set_ids,
       set_filters to_chars items]) (\<lambda>_.
     close_or_fail (say (nl @ ''Database closed successfully.'' @ nl)))))"

section \<open>The demonstration program\<close>

definition demo_product1 :: json where
  "demo_product1 = lit (L [pair ''name'' (Str ''Laptop''),
      pair ''price'' (Dec 129999 2),
      pair ''stock'' (Num 45),
      pair ''category'' (Str ''Electronics''),
      pair ''rating'' (Dec 47 1),
      pair ''brand'' (Str ''TechMaster''),
      pair ''specs'' (L [pair ''processor'' (Str ''i9''),
          pair ''ram'' (Str ''32GB''),
          pair ''storage'' (Str ''1TB SSD'')]),
      pair ''tags'' (L [Str ''laptop'', Str ''gaming'', Str ''high-performance'']),
      pair ''dimensions'' (L [pair ''length'' (Dec 358 1),
          pair ''width'' (Dec 247 1),
          pair ''height'' (Dec 19 1)]),
      pair ''available'' (Bool True)])"

definition demo_product2 :: json where
  "demo_product2 = lit (L [pair ''name'' (Str ''Smartphone''),
      pair ''price'' (Dec 79999 2),
      pair ''stock'' (Num 160),
      pair ''category'' (Str ''Electronics''),
      pair ''rating'' (Dec 45 1),
      pair ''brand'' (Str ''MobiTech''),
      pair ''colors'' (L [Str ''Black'', Str ''Silver'', Str ''Blue'']),
      pair ''features'' (L [pair ''camera'' (Str ''48MP''),
          pair ''display'' (Str ''AMOLED''),
          pair ''battery'' (Str ''5000mAh'')]),
      pair ''reviews'' (L [L [pair ''user'' (Str ''user123''),
            pair ''rating'' (Num 5),
            pair ''comment'' (Str ''Great phone!'')],
          L [pair ''user'' (Str ''tech_reviewer''),
            pair ''rating'' (Num 4),
            pair ''comment'' (Str ''Good performance but battery drains quickly'')]]),
      pair ''available'' (Bool True)])"

definition demo_product3 :: json where
  "demo_product3 = lit (L [pair ''name'' (Str ''Programming in C++''),
      pair ''price'' (Dec 4999 2),
      pair ''stock'' (Num 75),
      pair ''category'' (Str ''Books''),
      pair ''rating'' (Dec 42 1),
      pair ''author'' (Str ''John Smith''),
      pair ''publisher'' (Str ''Tech Books Inc''),
      pair ''pages'' (Num 450),
      pair ''isbn'' (Str ''978-3-16-148410-0''),
      pair ''published_date'' (Str ''2023-03-15''),
      pair ''available'' (Bool True)])"

definition demo_product4 :: json where
  "demo_product4 = lit (L [pair ''name'' (Str ''Organic Coffee''),
      pair ''price'' (Dec 1599 2),
      pair ''stock'' (Num 200),
      pair ''category'' (Str ''Food''),
      pair ''rating'' (Dec 48 1),
      pair ''brand'' (Str ''BeanMaster''),
      pair ''weight'' (Str ''500g''),
      pair ''origin'' (Str ''Colombia''),
      pair ''expiry_date'' (Str ''2025-06-30''),
      pair ''nutritional_info'' (L [pair ''calories'' (Num 0),
          pair ''fat'' (Str ''0g''),
          pair ''caffeine'' (Str ''95mg per serving'')]),
      pair ''available'' (Bool False)])"

definition demo_documents :: "Document list" where
  "demo_documents =
    [new_doc ''prod001'' demo_product1,
     new_doc ''prod002'' demo_product2,
     new_doc ''prod003'' demo_product3,
     new_doc ''prod004'' demo_product4]"

definition demo_queries :: "float_text \<Rightarrow> nat option \<Rightarrow> (world, unit) comp" where
  "demo_queries to_chars products = steps [
     say (nl @ ''===== OrderBy Queries ====='' @ nl),
     executeQuery to_chars products (lit (L [pair ''$orderBy'' (L [pair ''price'' (Str ''asc'')])])) ''Order By Price (Ascending)'',
     executeQuery to_chars products (lit (L [pair ''$orderBy'' (L [pair ''rating'' (Str ''desc'')])])) ''Order By Rating (Descending)'',
     say (nl @ ''===== Equality Queries ====='' @ nl),
     executeQuery to_chars products (lit (L [pair ''$eq'' (L [pair ''category'' (Str ''Electronics'')])])) ''Equal Category: Electronics'',
     executeQuery to_chars products (lit (L [pair ''$eq'' (L [pair ''available'' (Bool True)])])) ''Equal Available: true'',
     say (nl @ ''===== Greater Than Queries ====='' @ nl),
     executeQuery to_chars products (lit (L [pair ''$gt'' (L [pair ''price'' (Dec 500 1)])])) ''Price > 50.0'',
     executeQuery to_chars products (lit (L [pair ''$gt'' (L [pair ''rating'' (Dec 45 1)])])) ''Rating > 4.5'',
     say (nl @ ''===== Less Than Queries ====='' @ nl),
     executeQuery to_chars products (lit (L [pair ''$lt'' (L [pair ''stock'' (Num 100)])])) ''Stock < 100'',
     executeQuery to_chars products (lit (L [pair ''$lt'' (L [pair ''price'' (Dec 5000 1)])])) ''Price < 500.0'',
     say (nl @ ''===== AND Queries ====='' @ nl),
     executeQuery to_chars products (lit (L [pair ''$and'' (L [L [pair ''$gt'' (L [pair ''price'' (Dec 1000 1)])], L [pair ''$lt'' (L [pair ''price'' (Dec 10000 1)])]])])) ''100 < Price < 1000'',
     executeQuery to_chars products (lit (L [pair ''$and'' (L [L [pair ''$eq'' (L [pair ''category'' (Str ''Electronics'')])], L [pair ''$eq'' (L [pair ''available'' (Bool True)])]])])) ''Category = Electronics AND Available = true'',
     say (nl @ ''===== OR Queries ====='' @ nl),
     executeQuery to_chars products (lit (L [pair ''$or'' (L [L [pair ''$eq'' (L [pair ''category'' (Str ''Books'')])], L [pair ''$eq'' (L [pair ''category'' (Str ''Food'')])]])])) ''Category = Books OR Category = Food'',
     executeQuery to_chars products (lit (L [pair ''$or'' (L [L [pair ''$gt'' (L [pair ''rating'' (Dec 47 1)])], L [pair ''$gt'' (L [pair ''stock'' (Num 150)])]])])) ''Rating > 4.7 OR Stock > 150'']"

text \<open>Reading into a variable that is printed only when the read succeeded, after an optional heading.\<close>

definition demo_show :: "float_text \<Rightarrow> nat option \<Rightarrow> string \<Rightarrow> string \<Rightarrow> (world, unit) comp" where
  "demo_show to_chars p i heading =
     bindM (coll_read p i empty_document) (\<lambda>(s, doc).
       if ok s then bindM (say heading) (\<lambda>_. printDocument to_chars doc) else returnM ())"

definition demo_update :: "float_text \<Rightarrow> nat option \<Rightarrow> string \<Rightarrow> json \<Rightarrow> bool \<Rightarrow> string \<Rightarrow> string \<Rightarrow> (world, unit) comp" where
  "demo_update to_chars p i u upsert failure success =
     bindM (coll_update p i u upsert) (\<lambda>s.
       if \<not> ok s then complain_status failure s
       else bindM (say (success @ nl)) (\<lambda>_. demo_show to_chars p i []))"

definition demo_newReview :: json where
  "demo_newReview = lit (L [pair ''user'' (Str ''mobile_fan''),
      pair ''rating'' (Num 5),
      pair ''comment'' (Str ''Best smartphone I've ever owned!'')])"

definition demo_setTopLevel :: json where
  "demo_setTopLevel = lit (L [pair ''$set'' (L [pair ''price'' (Dec 139999 2),
          pair ''stock'' (Num 50),
          pair ''rating'' (Dec 48 1),
          pair ''promotion'' (Str ''Summer Sale'')])])"

definition demo_setNested :: json where
  "demo_setNested = lit (L [pair ''$set'' (L [pair ''specs.processor'' (Str ''i9-12900K''),
          pair ''specs.ram'' (Str ''64GB''),
          pair ''specs.storage'' (Str ''2TB SSD'')])])"

definition demo_unsetTopLevel :: json where
  "demo_unsetTopLevel = lit (L [pair ''$unset'' (L [pair ''promotion'' (Str ''''),
          pair ''available'' (Str '''')])])"

definition demo_unsetNested :: json where
  "demo_unsetNested = lit (L [pair ''$unset'' (L [pair ''specs.storage'' (Str ''''),
          pair ''dimensions.height'' (Str '''')])])"

definition demo_pushTopLevel :: json where
  "demo_pushTopLevel = lit (L [pair ''$push'' (L [pair ''tags'' (Str ''limited-edition''),
          pair ''specs'' (L [pair ''storage'' (Str ''2 GB'')])])])"

definition demo_pullTopLevel :: json where
  "demo_pullTopLevel = lit (L [pair ''$pull'' (L [pair ''tags'' (Str ''limited-edition'')])])"

definition demo_setSmartphone :: json where
  "demo_setSmartphone = lit (L [pair ''$set'' (L [pair ''features.waterproof'' (Str ''IP68''),
          pair ''price'' (Dec 84999 2)])])"

definition demo_pushReview :: json where
  "demo_pushReview = lit (L [pair ''$push'' (L [pair ''reviews'' (Val demo_newReview)])])"

definition demo_updateBook :: json where
  "demo_updateBook = lit (L [pair ''$set'' (L [pair ''edition'' (Str ''Second Edition''),
          pair ''price'' (Dec 3999 2),
          pair ''stock'' (Num 100)])])"

definition demo_updateFood :: json where
  "demo_updateFood = lit (L [pair ''$set'' (L [pair ''available'' (Bool True),
          pair ''certifications'' (L [Str ''Organic'', Str ''Fair Trade'', Str ''Rainforest Alliance''])])])"

definition demo_updates1 :: "float_text \<Rightarrow> nat option \<Rightarrow> (world, unit) comp" where
  "demo_updates1 to_chars products = steps [
     say (nl @ ''===== Update Operations ====='' @ nl),
     say (nl @ ''----- $set Operation: Top-level Fields -----'' @ nl),
     demo_show to_chars products ''prod001'' (''Original document:'' @ nl),
     demo_update to_chars products ''prod001'' demo_setTopLevel False ''Failed to update document'' ''Document updated with $set operator (top-level fields)'',
     say (nl @ ''----- $set Operation: Nested Fields -----'' @ nl),
     demo_update to_chars products ''prod001'' demo_setNested False ''Failed to update document'' ''Document updated with $set operator (nested fields)'',
     say (nl @ ''----- $unset Operation: Top-level Fields -----'' @ nl),
     demo_update to_chars products ''prod001'' demo_unsetTopLevel False ''Failed to update document'' ''Document updated with $unset operator (top-level fields)'',
     say (nl @ ''----- $unset Operation: Nested Fields -----'' @ nl),
     demo_update to_chars products ''prod001'' demo_unsetNested False ''Failed to update document'' ''Document updated with $unset operator (nested fields)'',
     say (nl @ ''----- $push Operation: Top-level Array Fields -----'' @ nl),
     demo_show to_chars products ''prod001'' (''Before $push operation:'' @ nl),
     demo_update to_chars products ''prod001'' demo_pushTopLevel True ''Failed to update document'' ''Document updated with $push operator'',
     say (nl @ ''----- $pull Operation: Top-level Array Fields -----'' @ nl),
     demo_update to_chars products ''prod001'' demo_pullTopLevel False ''Failed to update document'' ''Document updated with $pull operator'']"

definition demo_updates2 :: "float_text \<Rightarrow> nat option \<Rightarrow> (world, unit) comp" where
  "demo_updates2 to_chars products = steps [
     say (nl @ ''----- Updating Smartphone Document -----'' @ nl),
     demo_show to_chars products ''prod002'' (''Original smartphone document:'' @ nl),
     demo_update to_chars products ''prod002'' demo_setSmartphone False ''Failed to update smartphone document'' ''Smartphone document updated with new features'',
     demo_update to_chars products ''prod002'' demo_pushReview True ''Failed to add review'' ''Review added to smartphone document'',
     say (nl @ ''----- Updating Book Document -----'' @ nl),
     demo_show to_chars products ''prod003'' (''Original book document:'' @ nl),
     demo_update to_chars products ''prod003'' demo_updateBook False ''Failed to update book document'' ''Book document updated'',
     say (nl @ ''----- Updating Food Document -----'' @ nl),
     demo_show to_chars products ''prod004'' (''Original food document:'' @ nl),
     demo_update to_chars products ''prod004'' demo_updateFood False ''Failed to update food document'' ''Food document updated'']"

text \<open>The export, the import into another collection and its listing; \<open>False\<close> when \<^verbatim>\<open>main\<close> returns.\<close>

definition demo_export_import :: "float_text \<Rightarrow> (string \<Rightarrow> double) \<Rightarrow> nat option \<Rightarrow> (world, bool) comp" where
  "demo_export_import to_chars strtod products =
     bindM (say (nl @ ''===== Exporting Documents ====='' @ nl)) (\<lambda>_.
     bindM (on_db (Database_exportAllToJsonAsync (json_dump to_chars (Some 4)) ''products'' ''./product_export/'')) (\<lambda>s.
     bindM (if \<not> ok s then complain_status ''Failed to export documents'' s
            else say (''Documents exported successfully to ./product_export/'' @ nl)) (\<lambda>_.
     bindM (export_wait products) (\<lambda>_.
     bindM (on_db (Database_createCollection ''products_import'')) (\<lambda>s.
       if \<not> ok s \<and> \<not> already_exists s
       then bindM (complain_status ''Failed to create collection'' s) (\<lambda>_. returnM False)
       else
         bindM (say (if \<not> ok s then ''Collection '' @ quoted ''products'' @ '' already exists, continuing...'' @ nl
                     else ''Collection '' @ quoted ''products_import'' @ '' created successfully.'' @ nl)) (\<lambda>_.
         bindM (import_file strtod ''products_import'' ''./product_export/products.json'') (\<lambda>s.
         bindM (if \<not> ok s then complain_status ''Failed to import documents'' s
                else say (''Documents imported successfully to products_import collection'' @ nl)) (\<lambda>_.
         bindM (on_db (Database_readAllDocuments ''products_import'' [])) (\<lambda>(s, docIds).
         bindM (if \<not> ok s then complain_status ''Failed to import documents'' s
                else say (''Documents imported successfully to products_import collection'' @ nl)) (\<lambda>_.
         bindM (forM (\<lambda>doc. bindM (liftO (json_dump to_chars (Some 4) (doc_data doc))) (\<lambda>txt. say (txt @ nl))) docIds) (\<lambda>_.
           returnM True)))))))))))"

definition delete_index :: "nat option \<Rightarrow> string \<Rightarrow> (world, unit) comp" where
  "delete_index p indexName =
     bindM (coll p (\<lambda>n. deleteIndex n indexName)) (\<lambda>s.
       if \<not> ok s then complain_status (''Failed to delete index on '' @ indexName) s
       else say (''Index on '' @ indexName @ '' deleted successfully.'' @ nl))"

definition demo_cleanup :: "nat option \<Rightarrow> (world, unit) comp" where
  "demo_cleanup products = steps [
     say (nl @ ''===== Cleanup Operations ====='' @ nl),
     bindM (coll products (\<lambda>n. deleteDocument n ''prod004'')) (\<lambda>s.
       if \<not> ok s then complain_status (''Failed to delete document '' @ ''prod004'') s
       else say (''Document '' @ ''prod004'' @ '' deleted successfully.'' @ nl)),
     forM (delete_index products) [''stock'', ''rating'', ''available''],
     say (nl @ ''===== Collections in Database ====='' @ nl),
     bindM getM (\<lambda>w. forM (\<lambda>name. say (''- '' @ name @ nl)) (Database_getCollectionNames (w_db w))),
     say (nl @ ''Dropping collection '' @ quoted ''products'' @ nl),
     bindM (on_db (Database_dropCollection ''products'')) (\<lambda>s.
       if \<not> ok s then complain_status ''Failed to drop collection'' s
       else say (''Collection dropped successfully.'' @ nl))]"

definition demo_main :: "float_text \<Rightarrow> (string \<Rightarrow> double) \<Rightarrow> (world, int) comp" where
  "demo_main to_chars strtod = with_database ''./product_db'' (with_products_verbose (\<lambda>products.
     bindM (steps [
       forM (insert_verbosely (\<lambda>i. ''Document '' @ i @ '' updated.'' @ nl) ''Failed to update existing document '' products) demo_documents,
       say (nl @ ''===== Creating Indexes ====='' @ nl),
       create_indexes [] products [''price'', ''stock'', ''category'', ''rating'', ''available'', ''name''],
       demo_queries to_chars products,
       demo_updates1 to_chars products,
       demo_updates2 to_chars products]) (\<lambda>_.
     bindM (demo_export_import to_chars strtod products) (\<lambda>b.
       if \<not> b then returnM 1
       else bindM (demo_cleanup products) (\<lambda>_.
         close_or_fail (say (nl @ ''Database closed successfully.'' @ nl @ ''C++ version: 201103'' @ nl)))))))"

end
