(* ===== verification/Anu_Runs.thy ===== *)
theory Anu_Runs
  imports Anu_Demo
begin

text \<open>
  Reasoning about the programs: \<open>yields P m r out Q\<close> says that from every world in \<open>P\<close> the program \<open>m\<close> returns
  \<open>r\<close>, writes exactly \<open>out\<close> and no error message, and ends in \<open>Q\<close>. The state of a collection in use is the
  abstract collection of \<open>Anu_Abstract\<close> (\<open>serves\<close>). Below are the rules for the calls and for the functions the
  programs share, and the simplification rules that evaluate abstract collections and queries.
\<close>

section \<open>Programs that print and return\<close>

definition yields :: "(world \<Rightarrow> bool) \<Rightarrow> (world, 'a) comp \<Rightarrow> 'a \<Rightarrow> string \<Rightarrow> (world \<Rightarrow> bool) \<Rightarrow> bool" where
  "yields P m r out Q = (\<forall>w. P w \<longrightarrow> (\<exists>w'. m w = (Ret r, w') \<and> w_out w' = w_out w @ out \<and> w_err w' = w_err w \<and> Q w'))"

lemma yieldsI:
  "(\<And>w. P w \<Longrightarrow> \<exists>w'. m w = (Ret r, w') \<and> w_out w' = w_out w @ out \<and> w_err w' = w_err w \<and> Q w') \<Longrightarrow> yields P m r out Q"
  by (simp add: yields_def)

lemma yields_bind:
  assumes "yields P m x o1 Q" "yields Q (f x) r o2 R"
  shows "yields P (bindM m f) r (o1 @ o2) R"
proof (rule yieldsI)
  fix w assume "P w"
  then obtain w1 where w1: "m w = (Ret x, w1)" "w_out w1 = w_out w @ o1" "w_err w1 = w_err w" "Q w1"
    using assms(1) by (auto simp: yields_def)
  then obtain w2 where "f x w1 = (Ret r, w2)" "w_out w2 = w_out w1 @ o2" "w_err w2 = w_err w1" "R w2"
    using assms(2) by (auto simp: yields_def)
  with w1 show "\<exists>w'. bindM m f w = (Ret r, w') \<and> w_out w' = w_out w @ o1 @ o2 \<and> w_err w' = w_err w \<and> R w'"
    by (simp add: bindM_def)
qed

lemma yields_return: "yields P (returnM r) r [] P"
  by (simp add: yields_def returnM_def)

lemma yields_lift: "m = Ret r \<Longrightarrow> yields P (liftO m) r [] P"
  by (simp add: yields_def liftO_def)

lemma yields_out: "yields P m r out Q \<Longrightarrow> out = out' \<Longrightarrow> yields P m r out' Q"
  by simp

lemma yields_steps: "yields P m () o1 Q \<Longrightarrow> yields Q (steps ms) () o2 R \<Longrightarrow> yields P (steps (m # ms)) () (o1 @ o2) R"
  by (simp add: yields_bind)

lemma yields_steps_nil: "yields P (steps []) () [] P"
  by (simp add: yields_return)

section \<open>A collection in use\<close>

definition serves :: "nat \<Rightarrow> string \<Rightarrow> acoll \<Rightarrow> world \<Rightarrow> bool" where
  "serves p name A w = (working (w_db w) \<and> (\<exists>ob. map_of (collections (w_db w)) name = Some ob \<and> obj_addr ob = p) \<and>
     implements (db_engine (w_db w)) name A)"

text \<open>A database that was closed, and a directory in which no database has been created yet on a working disk.\<close>

definition closed :: "world \<Rightarrow> bool" where
  "closed w = (collections (w_db w) = [])"

definition fresh :: "string \<Rightarrow> world \<Rightarrow> bool" where
  "fresh path w = (\<not> locked (store (w_disks w path)) \<and> \<not> created (store (w_disks w path)) \<and>
     columnFamilies (w_disks w path) = [] \<and> healthy (w_disks w path))"

lemma yields_say: "yields (serves p name A) (say s) () s (serves p name A)"
  by (simp add: yields_def say_def modifyM_def serves_def)

lemma coll_run:
  assumes "serves p name A w" "f name (db_engine (w_db w)) = (r, e)"
  shows "coll (Some p) f w = (r, w\<lparr>w_db := (w_db w)\<lparr>db_engine := e\<rparr>\<rparr>)"
proof -
  obtain ob where "map_of (collections (w_db w)) name = Some ob" "obj_addr ob = p" "working (w_db w)" using assms(1) by (auto simp: serves_def)
  then have "on_object p f (w_db w) = on_engine (f name) (w_db w)" using on_object_run [of "w_db w" name ob f] by simp
  then show ?thesis using assms(2) by (simp add: coll_def on_db_def on_pointer_def on_engine_def)
qed

lemma serves_engine:
  "serves p name A w \<Longrightarrow> implements e name B \<Longrightarrow> serves p name B (w\<lparr>w_db := (w_db w)\<lparr>db_engine := e\<rparr>\<rparr>)"
  by (auto simp: serves_def working_def implements_def)

lemma yields_coll:
  assumes "\<And>e. implements e name A \<Longrightarrow> \<exists>e'. f name e = (Ret r, e') \<and> implements e' name B"
  shows "yields (serves p name A) (coll (Some p) f) r [] (serves p name B)"
proof (rule yieldsI)
  fix w assume w: "serves p name A w"
  then have "implements (db_engine (w_db w)) name A" by (simp add: serves_def)
  then obtain e' where e': "f name (db_engine (w_db w)) = (Ret r, e')" "implements e' name B" using assms by blast
  show "\<exists>w'. coll (Some p) f w = (Ret r, w') \<and> w_out w' = w_out w @ [] \<and> w_err w' = w_err w \<and> serves p name B w'"
    using coll_run [where f = f, OF w e'(1)] serves_engine [OF w e'(2)] by simp
qed

lemma yields_clocked:
  assumes "\<And>time rands. yields (serves p name A) (g time rands) r out (serves p name B)"
  shows "yields (serves p name A) (clocked g) r out (serves p name B)"
proof (rule yieldsI)
  fix w assume "serves p name A w"
  then have s: "serves p name A (w\<lparr>w_calls := Suc (w_calls w)\<rparr>)" by (simp add: serves_def)
  show "\<exists>w'. clocked g w = (Ret r, w') \<and> w_out w' = w_out w @ out \<and> w_err w' = w_err w \<and> serves p name B w'"
    unfolding clocked_def using assms [unfolded yields_def, rule_format, OF s] by simp
qed

section \<open>Documents\<close>

text \<open>A document with an identifier is prepared without the clock.\<close>

definition ready :: "Document \<Rightarrow> Document" where
  "ready d = prepared 0 [] d"

lemma prepared_ready: "doc_id d \<noteq> [] \<Longrightarrow> prepared time rands d = ready d"
  by (simp add: ready_def prepared_def prepare_def)

definition can_store :: "acoll \<Rightarrow> Document \<Rightarrow> bool" where
  "can_store A d = (doc_id d \<noteq> [] \<and> is_object (doc_data d) \<and> storable (ready d) \<and> can_index A (doc_data (ready d)))"

lemma yields_create:
  assumes "can_store A d"
  shows "yields (serves p name A) (coll_create (Some p) d) (StatusOK, ready d) [] (serves p name (a_store (ready d) A))"
  unfolding coll_create_def
proof (rule yields_clocked, rule yields_coll)
  fix time rands e assume "implements e name A"
  then show "\<exists>e'. createDocument name time rands d e = (Ret (StatusOK, ready d), e') \<and> implements e' name (a_store (ready d) A)"
    using implements_create [of e name A d time rands] assms prepared_ready [of d time rands] by (auto simp: can_store_def)
qed

lemma yields_read:
  assumes "map_of (a_docs A) i = Some j"
  shows "yields (serves p name A) (coll_read (Some p) i d) (StatusOK, a_doc i j) [] (serves p name A)"
  unfolding coll_read_def by (rule yields_coll) (use assms in \<open>simp add: implements_read\<close>)

lemma yields_update:
  assumes "map_of (a_docs A) i = Some j0" "applyUpdate u j0 = (Ret (), j)" "can_store A (a_doc i j)"
  shows "yields (serves p name A) (coll_update (Some p) i u upsert) StatusOK [] (serves p name (a_store (ready (a_doc i j)) A))"
  unfolding coll_update_def
proof (rule yields_clocked, rule yields_coll)
  fix time rands e assume "implements e name A"
  then show "\<exists>e'. updateDocument name time rands i u upsert e = (Ret StatusOK, e') \<and> implements e' name (a_store (ready (a_doc i j)) A)"
    using implements_update [of e name A i j0 u j time rands upsert] assms prepared_ready [of "a_doc i j" time rands]
    by (auto simp: can_store_def a_doc_def)
qed

lemma yields_find:
  "query_ok q \<Longrightarrow> yields (serves p name A) (coll (Some p) (\<lambda>n. findDocument n (query_json q))) (a_find (a_index A) q) [] (serves p name A)"
  by (rule yields_coll) (simp add: implements_find)

definition all_indexable :: "acoll \<Rightarrow> string \<Rightarrow> bool" where
  "all_indexable A f = list_all (\<lambda>(i, j). case json_find f j of None \<Rightarrow> True | Some v \<Rightarrow> scalar v) (a_docs A)"

lemma yields_createIndex:
  assumes "all_indexable A f"
  shows "yields (serves p name A) (coll_createIndex (Some p) f) StatusOK (''Index created successfully!!!'' @ nl)
    (serves p name (a_createIndex f A))"
proof -
  have c: "yields (serves p name A) (coll (Some p) (\<lambda>n. createIndex n f)) StatusOK [] (serves p name (a_createIndex f A))"
  proof (rule yields_coll)
    fix e assume e: "implements e name A"
    have "indexable [f] j" if "(i, j) \<in> set (a_docs A)" for i j
      using assms that by (auto simp: all_indexable_def indexable_def list_all_iff split: option.splits)
    then show "\<exists>e'. createIndex name f e = (Ret StatusOK, e') \<and> implements e' name (a_createIndex f A)"
      using implements_createIndex [OF e] by blast
  qed
  show ?thesis
    unfolding coll_createIndex_def
    by (rule yields_out [OF yields_bind [OF c]], simp only: ok_simps if_True, rule yields_bind [OF yields_say yields_return], simp)
qed

section \<open>Functions of the programs\<close>

text \<open>A value whose strings and keys are ASCII is printed; \<open>json_text\<close> is its text.\<close>

definition ascii :: "string \<Rightarrow> bool" where
  "ascii s = list_all (\<lambda>c. \<not> digit7 c) s"

definition printable :: "json \<Rightarrow> bool" where
  "printable j = list_all ascii (strings_in j)"

definition json_text :: "float_text \<Rightarrow> json \<Rightarrow> string" where
  "json_text to_chars j = (case json_dump to_chars (Some 4) j of Ret t \<Rightarrow> t | _ \<Rightarrow> [])"

lemma ascii_is_utf8: "ascii s \<Longrightarrow> utf8 s"
proof (rule ascii_utf8)
  have "of_char c < (128 :: nat)" if "\<not> digit7 c" for c using that by (cases c) simp
  then show "ascii s \<Longrightarrow> list_all (\<lambda>c. of_char c < (128 :: nat)) s" by (simp add: ascii_def list_all_iff)
qed

lemma printable_dump: "printable j \<Longrightarrow> json_dump to_chars (Some 4) j = Ret (json_text to_chars j)"
  using dump_total(1) [of j to_chars "Some 4" 0] ascii_is_utf8
  by (auto simp: printable_def json_text_def json_dump_def list_all_iff split: if_splits)

text \<open>What is printed of a document, of a list of documents, and by a query. \<open>txt\<close> gives the text of a value.\<close>

definition sheet_of :: "(json \<Rightarrow> string) \<Rightarrow> string \<Rightarrow> json \<Rightarrow> string" where
  "sheet_of txt i j = ''Document ID: '' @ i @ nl @ ''Content:'' @ nl @ txt j @ nl @ nl"

definition sheet :: "(json \<Rightarrow> string) \<Rightarrow> acoll \<Rightarrow> string \<Rightarrow> string" where
  "sheet txt A i = sheet_of txt i (the (map_of (a_docs A) i))"

definition heading :: "string \<Rightarrow> string" where
  "heading s = nl @ ''===== '' @ s @ '' ====='' @ nl"

definition found :: "(json \<Rightarrow> string) \<Rightarrow> acoll \<Rightarrow> string list \<Rightarrow> string" where
  "found txt A ids = ''Found '' @ to_string (length ids) @ '' document(s)'' @ nl @ concat (map (sheet txt A) ids)"

definition has_docs :: "acoll \<Rightarrow> string list \<Rightarrow> bool" where
  "has_docs A ids = list_all (\<lambda>i. case map_of (a_docs A) i of None \<Rightarrow> False | Some j \<Rightarrow> printable j) ids"

lemma yields_print:
  "printable j \<Longrightarrow> yields (serves p name B) (printDocument to_chars (a_doc i j)) () (sheet_of (json_text to_chars) i j) (serves p name B)"
  unfolding printDocument_def
  by (rule yields_out [OF yields_bind [OF yields_lift yields_say]]) (auto simp: sheet_of_def a_doc_def printable_dump)

lemma yields_show_found:
  assumes "has_docs A [i]"
  shows "yields (serves p name A) (show_found to_chars (Some p) i) () (sheet (json_text to_chars) A i) (serves p name A)"
proof -
  obtain j where j: "map_of (a_docs A) i = Some j" "printable j" using assms by (auto simp: has_docs_def split: option.splits)
  show ?thesis
    unfolding show_found_def
    by (rule yields_out [OF yields_bind [OF yields_read [OF j(1)]]], simp, rule yields_print [OF j(2)], simp add: sheet_def j(1))
qed

lemma yields_forM:
  assumes "\<And>x. x \<in> set xs \<Longrightarrow> yields P (f x) () (g x) P"
  shows "yields P (forM f xs) () (concat (map g xs)) P"
  using assms by (induction xs) (auto intro: yields_return yields_bind)

lemma yields_show_list:
  assumes "has_docs A ids"
  shows "yields (serves p name A) (forM (show_found to_chars (Some p)) ids) () (concat (map (sheet (json_text to_chars) A) ids)) (serves p name A)"
  by (rule yields_forM, rule yields_show_found) (use assms in \<open>simp add: has_docs_def list_all_iff\<close>)

lemma yields_show_all:
  assumes "query_json q = query" "query_ok q" "a_find (a_index A) q = ids" "has_docs A ids"
  shows "yields (serves p name A) (show_all to_chars (Some p) query) () (found (json_text to_chars) A ids) (serves p name A)"
  unfolding show_all_def assms(1) [symmetric]
  by (rule yields_out [OF yields_bind [OF yields_find [OF assms(2)]]],
      rule yields_bind [OF yields_say], unfold assms(3), rule yields_show_list [OF assms(4)], simp add: found_def)

lemma yields_query:
  assumes "query_json q = query" "query_ok q" "a_find (a_index A) q = ids" "has_docs A ids"
  shows "yields (serves p name A) (executeQuery to_chars (Some p) query title) ()
    (heading (''Executing '' @ title) @ found (json_text to_chars) A ids) (serves p name A)"
  unfolding executeQuery_def
  by (rule yields_out [OF yields_bind [OF yields_say yields_show_all [OF assms]]]) (simp add: heading_def)

text \<open>A query as one of several steps.\<close>

lemma yields_steps_query:
  assumes "a_find (a_index A) q = ids" "has_docs A ids" "query_json q = query" "query_ok q"
    and "yields (serves p name A) (steps ms) () out Q"
  shows "yields (serves p name A) (steps (executeQuery to_chars (Some p) query title # ms)) ()
    ((heading (''Executing '' @ title) @ found (json_text to_chars) A ids) @ out) Q"
  by (rule yields_steps [OF yields_query [OF assms(3,4,1,2)] assms(5)])

lemma yields_steps_show:
  assumes "a_find (a_index A) q = ids" "has_docs A ids" "query_json q = query" "query_ok q"
    and "yields (serves p name A) (steps ms) () out Q"
  shows "yields (serves p name A) (steps (show_all to_chars (Some p) query # ms)) () (found (json_text to_chars) A ids @ out) Q"
  by (rule yields_steps [OF yields_show_all [OF assms(3,4,1,2)] assms(5)])

text \<open>Inserting documents, and creating indexes.\<close>

definition store_all :: "Document list \<Rightarrow> acoll \<Rightarrow> acoll" where
  "store_all docs A = fold (\<lambda>d. a_store (ready d)) docs A"

definition index_all :: "string list \<Rightarrow> acoll \<Rightarrow> acoll" where
  "index_all names A = fold a_createIndex names A"

fun can_store_all :: "acoll \<Rightarrow> Document list \<Rightarrow> bool" where
  "can_store_all A docs = list_all (can_store A) docs"

lemma can_store_after: "can_store (a_store d A) d' = can_store A d'"
  by (simp add: can_store_def can_index_def a_store_def comp_def split_def)

lemma yields_insert:
  "can_store A d \<Longrightarrow> yields (serves p name A) (insert_document (Some p) d) () [] (serves p name (a_store (ready d) A))"
  unfolding insert_document_def by (rule yields_out [OF yields_bind [OF yields_create]]) (simp_all add: yields_return)

lemma ready_id: "can_store A d \<Longrightarrow> doc_id (ready d) = doc_id d"
  using prepared_facts(3) [of d 0 "[]"] by (simp add: can_store_def ready_def)

lemma yields_insert_verbosely:
  assumes "can_store A d"
  shows "yields (serves p name A) (insert_verbosely updated msg (Some p) d) () (''Document '' @ doc_id d @ '' created successfully.'' @ nl)
    (serves p name (a_store (ready d) A))"
  unfolding insert_verbosely_def
  by (rule yields_out [OF yields_bind [OF yields_create [OF assms]]], simp, rule yields_say, simp add: ready_id [OF assms])

lemma yields_store_loop:
  assumes "\<And>A d. can_store A d \<Longrightarrow> yields (serves p name A) (f d) () (g d) (serves p name (a_store (ready d) A))"
  shows "can_store_all A docs \<Longrightarrow> yields (serves p name A) (forM f docs) () (concat (map g docs)) (serves p name (store_all docs A))"
proof (induction docs arbitrary: A)
  case (Cons d docs)
  have s: "can_store A d" and "can_store_all (a_store (ready d) A) docs" using Cons.prems by (auto simp: can_store_after list_all_iff)
  then have "yields (serves p name (a_store (ready d) A)) (forM f docs) () (concat (map g docs)) (serves p name (store_all docs (a_store (ready d) A)))"
    by (intro Cons.IH)
  from yields_bind [OF assms [OF s] this] show ?case by (simp add: store_all_def)
qed (simp add: yields_return store_all_def)

lemma yields_seed:
  "can_store_all A docs \<Longrightarrow> yields (serves p name A) (seed (Some p) docs) () [] (serves p name (store_all docs A))"
  unfolding seed_def by (rule yields_out [OF yields_store_loop [where g = "\<lambda>d. []", OF yields_insert]]) simp_all

lemma yields_seed_verbosely:
  "can_store_all A docs \<Longrightarrow> yields (serves p name A) (forM (insert_verbosely updated msg (Some p)) docs) ()
     (concat (map (\<lambda>d. ''Document '' @ doc_id d @ '' created successfully.'' @ nl) docs)) (serves p name (store_all docs A))"
  by (rule yields_store_loop [OF yields_insert_verbosely])

definition index_created :: "string \<Rightarrow> string" where
  "index_created f = ''Index created successfully!!!'' @ nl @ ''Index on '' @ quoted f @ '' created successfully.'' @ nl"

lemma yields_create_index:
  "all_indexable A f \<Longrightarrow> yields (serves p name A) (create_index warnings (Some p) f) () (index_created f) (serves p name (a_createIndex f A))"
  unfolding create_index_def
  by (rule yields_out [OF yields_bind [OF yields_createIndex]], assumption, simp, rule yields_say, simp add: index_created_def)

lemma yields_require_index:
  "all_indexable A f \<Longrightarrow> yields (serves p name A) (require_index (Some p) f) True (index_created f) (serves p name (a_createIndex f A))"
  unfolding require_index_def
  by (rule yields_out [OF yields_bind [OF yields_createIndex]], assumption, simp, rule yields_bind [OF yields_say yields_return],
      simp add: index_created_def)

lemma all_indexable_createIndex: "all_indexable (a_createIndex f A) g = all_indexable A g"
  by (simp add: all_indexable_def a_createIndex_def)

lemma yields_create_indexes:
  "list_all (all_indexable A) names \<Longrightarrow>
     yields (serves p name A) (create_indexes warnings (Some p) names) () (concat (map index_created names)) (serves p name (index_all names A))"
  unfolding create_indexes_def
proof (induction names arbitrary: A)
  case (Cons f names)
  then have "yields (serves p name (a_createIndex f A)) (forM (create_index warnings (Some p)) names) () (concat (map index_created names))
      (serves p name (index_all names (a_createIndex f A)))"
    by (intro Cons.IH) (simp add: all_indexable_createIndex)
  moreover have "yields (serves p name A) (create_index warnings (Some p) f) () (index_created f) (serves p name (a_createIndex f A))"
    using Cons.prems by (intro yields_create_index) simp
  ultimately show ?case by (simp add: index_all_def yields_bind)
qed (simp add: yields_return index_all_def)

section \<open>A collection of one document\<close>

text \<open>\<open>settled i j j'\<close>: the document with identifier \<open>i\<close> and data \<open>j\<close> can be stored, and is read back with data \<open>j'\<close>,
  which can be printed.\<close>

definition only :: "string \<Rightarrow> json \<Rightarrow> acoll" where
  "only i j = \<lparr>a_docs = [(i, j)], a_index = []\<rparr>"

definition settled :: "string \<Rightarrow> json \<Rightarrow> json \<Rightarrow> bool" where
  "settled i j j' = (can_store a_empty (a_doc i j) \<and> norm (doc_data (ready (a_doc i j))) = j' \<and> printable j')"

lemma can_store_only: "can_store (only i j) d = can_store a_empty d"
  by (simp add: can_store_def can_index_def only_def a_empty_def)

lemma settled_store: "settled i j j' \<Longrightarrow> a_store (ready (a_doc i j)) a_empty = only i j'"
  "settled i j j' \<Longrightarrow> a_store (ready (a_doc i j)) (only i j0) = only i j'"
  using ready_id [of a_empty "a_doc i j"] by (auto simp: settled_def a_store_def a_empty_def only_def a_doc_def)

lemma yields_settle:
  assumes "settled i j j'"
  shows "yields (serves p name a_empty) (coll_create (Some p) (a_doc i j)) (StatusOK, ready (a_doc i j)) [] (serves p name (only i j'))"
    "yields (serves p name (only i j0)) (coll_create (Some p) (a_doc i j)) (StatusOK, ready (a_doc i j)) [] (serves p name (only i j'))"
  using yields_create [of a_empty "a_doc i j" p name] yields_create [of "only i j0" "a_doc i j" p name] assms settled_store [OF assms]
  by (simp_all add: settled_def can_store_only)

lemma new_doc_a_doc: "new_doc i j = a_doc i j"
  by (simp add: new_doc_def a_doc_def)

lemma yields_read_only: "yields (serves p name (only i j)) (coll_read (Some p) i d) (StatusOK, a_doc i j) [] (serves p name (only i j))"
  by (rule yields_read) (simp add: only_def)

lemma yields_create_or_replace:
  "settled i j j' \<Longrightarrow> yields (serves p name a_empty) (create_or_replace (Some p) (new_doc i j)) () [] (serves p name (only i j'))"
  unfolding create_or_replace_def new_doc_a_doc
  by (rule yields_out [OF yields_bind [OF yields_settle(1)]], assumption, simp, rule yields_return, simp)

lemma yields_show_original:
  assumes "printable j"
  shows "yields (serves p name (only i j)) (show_original to_chars (Some p) i) (a_doc i j) (''Original document:'' @ nl @ sheet_of (json_text to_chars) i j) (serves p name (only i j))"
  unfolding show_original_def
  by (rule yields_out [OF yields_bind [OF yields_read_only]], simp, rule yields_bind [OF yields_say], rule yields_bind [OF yields_print [OF assms] yields_return], simp)

lemma yields_update_and_show:
  assumes "applyUpdate u j0 = (Ret (), j)" "settled i j j'"
  shows "yields (serves p name (only i j0)) (update_and_show to_chars (Some p) i u upsert failure success d) (a_doc i j') (success @ nl @ sheet_of (json_text to_chars) i j') (serves p name (only i j'))"
proof -
  have "yields (serves p name (only i j0)) (coll_update (Some p) i u upsert) StatusOK [] (serves p name (only i j'))"
    using yields_update [of "only i j0" i j0 u j p name upsert] assms settled_store(2) [OF assms(2), of j0]
    by (simp add: only_def can_store_only [unfolded only_def] settled_def)
  note update = this
  have p: "printable j'" using assms(2) by (simp add: settled_def)
  show ?thesis
    unfolding update_and_show_def
    by (rule yields_out [OF yields_bind [OF update]], simp, rule yields_bind [OF yields_say],
        rule yields_bind [OF yields_read_only], simp, rule yields_bind [OF yields_print [OF p] yields_return], simp)
qed

section \<open>Opening and closing\<close>

text \<open>A new database, constructed and opened, without collections.\<close>

definition opened :: "world \<Rightarrow> bool" where
  "opened w = (working (w_db w) \<and> collections (w_db w) = [] \<and> tables (db_engine (w_db w)) = [default_family \<mapsto> []])"

definition constructed :: "world \<Rightarrow> bool" where
  "constructed w = (\<exists>e fs. w_db w = Database_new e fs \<and> \<not> locked (store e) \<and> \<not> created (store e) \<and> columnFamilies e = [] \<and> healthy e)"

lemma yields_construct: "yields (fresh path) (construct path) () [] constructed"
  by (auto simp: yields_def construct_def modifyM_def fresh_def constructed_def)

lemma yields_open: "yields constructed (on_db Database_open) StatusOK [] opened"
proof (rule yieldsI)
  fix w assume "constructed w"
  then obtain e fs where e: "w_db w = Database_new e fs" "\<not> locked (store e)" "\<not> created (store e)" "columnFamilies e = []" "healthy e"
    by (auto simp: constructed_def)
  from engine_open_fresh [OF e(2-5)] obtain e' where e': "engine_open e = (Ret StatusOK, e')" "engine_inv e'" "healthy e'"
    "tables e' = [default_family \<mapsto> []]" by blast
  show "\<exists>w'. on_db Database_open w = (Ret StatusOK, w') \<and> w_out w' = w_out w @ [] \<and> w_err w' = w_err w \<and> opened w'"
    using e(1) e' by (simp add: on_db_def Database_open_def bindM_def modifyM_def on_engine_def Database_new_def opened_def working_def
        live_def objects_ok_def)
qed

lemma yields_new_collection:
  assumes "plain_name name" "name \<noteq> default_family"
  shows "yields opened (on_db (Database_createCollection name)) StatusOK [] (\<lambda>w. \<exists>p. serves p name a_empty w)"
proof (rule yieldsI)
  fix w assume w: "opened w"
  let ?d = "w_db w"
  have l: "live (db_engine ?d)" and t: "tables (db_engine ?d) = [default_family \<mapsto> []]" and c: "collections ?d = []" and o: "objects_ok ?d"
    using w by (simp_all add: opened_def working_def)
  have n: "tables (db_engine ?d) name = None" using t assms(2) by simp
  let ?e = "add_table name (db_engine ?d)"
  have r: "engine_createCollection name (db_engine ?d) = (Ret StatusOK, ?e)"
    using engine_createCollection_run [OF liveD(1) [OF l]] n liveD(2) [OF l] by simp
  have l': "live ?e" and t': "tables ?e = [default_family \<mapsto> [], name \<mapsto> []]"
    using l liveD [OF l] n assms(2) t by (simp_all add: live_def engine_inv_add_table tables_add_table)
  have wk: "working (?d\<lparr>db_engine := ?e\<rparr>)" using l' o by (simp add: working_def)
  from new_collection_live [OF wk, of name] c obtain d' where d': "new_collection name (?d\<lparr>db_engine := ?e\<rparr>) = (Ret (next_object ?d), d')"
    "working d'" "collections d' = [(name, \<lparr>obj_addr = next_object ?d, obj_exporting = False\<rparr>)]" "tables (db_engine d') = tables ?e" by auto
  have f: "index_family name f \<noteq> default_family" for f by (rule index_family_not_default)
  have "implements (db_engine d') name a_empty"
    by (rule implementsI [where m = "[]"]) (use d'(2,4) t' assms(1) f in \<open>simp_all add: working_def a_empty_def\<close>)
  then have "serves (next_object ?d) name a_empty (w\<lparr>w_db := d'\<rparr>)" using d'(2,3) by (simp add: serves_def)
  moreover have "on_db (Database_createCollection name) w = (Ret StatusOK, w\<lparr>w_db := d'\<rparr>)"
    using r d'(1) by (simp add: on_db_def Database_createCollection_def bindM_def on_engine_def returnM_def)
  ultimately show "\<exists>w'. on_db (Database_createCollection name) w = (Ret StatusOK, w') \<and> w_out w' = w_out w @ [] \<and> w_err w' = w_err w \<and>
      (\<exists>p. serves p name a_empty w')" by auto
qed

text \<open>The rest of a program may be verified for each address of the new collection object.\<close>

lemma yields_getCollection:
  assumes "\<And>p. yields (serves p name A) (body (Some p)) r out Q"
  shows "yields (\<lambda>w. \<exists>p. serves p name A w) (bindM (on_db (getCollection name)) body) r out Q"
proof (rule yieldsI)
  fix w assume "\<exists>p. serves p name A w"
  then obtain p ob where p: "serves p name A w" "map_of (collections (w_db w)) name = Some ob" "obj_addr ob = p" by (auto simp: serves_def)
  then have "on_db (getCollection name) w = (Ret (Some p), w)" by (simp add: on_db_def getCollection_def)
  then show "\<exists>w'. bindM (on_db (getCollection name)) body w = (Ret r, w') \<and> w_out w' = w_out w @ out \<and> w_err w' = w_err w \<and> Q w'"
    using assms [of p] p(1) by (simp add: bindM_def yields_def)
qed

lemma yields_close: "yields (serves p name A) (on_db Database_close) StatusOK [] closed"
proof (rule yieldsI)
  fix w assume "serves p name A w"
  then have "working (w_db w)" by (simp add: serves_def)
  from Database_reopen [OF this] obtain d1 d2 where d: "Database_close (w_db w) = (Ret StatusOK, d1)" "Database_open d1 = (Ret StatusOK, d2)"
    "collections d2 = []" by blast
  have "collections d1 = []"
    using d(2,3) by (auto simp: Database_open_def bindM_def modifyM_def on_engine_def split: prod.splits)
  then show "\<exists>w'. on_db Database_close w = (Ret StatusOK, w') \<and> w_out w' = w_out w @ [] \<and> w_err w' = w_err w \<and> closed w'"
    using d(1) by (simp add: on_db_def closed_def)
qed

lemma yields_close_silently: "yields (serves p name A) close_silently 0 [] closed"
  unfolding close_silently_def by (rule yields_out [OF yields_bind [OF yields_close yields_return]]) simp

lemma yields_close_and_return: "yields (serves p name A) close_and_return 0 [] closed"
  unfolding close_and_return_def
  by (rule yields_out [OF yields_bind [OF yields_close]], simp, rule yields_bind [OF yields_return yields_return], simp)

lemma yields_say_closed: "yields closed (say s) () s closed"
  by (simp add: yields_def say_def modifyM_def closed_def)

lemma yields_close_or_fail: "yields (serves p name A) (close_or_fail (say s)) 0 s closed"
  unfolding close_or_fail_def
  by (rule yields_out [OF yields_bind [OF yields_close]], simp, rule yields_bind [OF yields_say_closed yields_return], simp)

lemma yields_program:
  assumes "yields constructed body r out closed"
  shows "yields (fresh path) (with_database path body) r out closed"
proof -
  have "yields closed (on_db (bindM getM (\<lambda>d. on_engine (destroy_objects (map fst (collections d)))))) () [] closed"
    by (auto simp: yields_def closed_def on_db_def bindM_def getM_def on_engine_def destroy_objects_def returnM_def)
  from yields_bind [OF yields_construct yields_bind [OF assms yields_bind [OF this yields_return]], of path]
  show ?thesis by (simp add: with_database_def)
qed

lemma plain_products: "plain_name ''products''" "''products'' \<noteq> default_family"
  by (simp_all add: plain_name_def index_delimiter_def default_family_def)

text \<open>A program whose only collection is \<open>users\<close>.\<close>

lemma yields_users:
  assumes "\<And>p. yields (serves p ''users'' a_empty) (body (Some p)) r out closed"
  shows "yields (fresh path) (with_database path (with_open (bindM (on_db (Database_createCollection ''users'')) (\<lambda>s.
    bindM (on_db (getCollection ''users'')) body)))) r out closed"
proof -
  have n: "plain_name ''users''" "''users'' \<noteq> default_family" by (simp_all add: plain_name_def index_delimiter_def default_family_def)
  show ?thesis
    unfolding with_open_def
    by (rule yields_program, rule yields_out [OF yields_bind [OF yields_open]], simp,
        rule yields_bind [OF yields_new_collection [OF n]], rule yields_getCollection, rule assms, simp)
qed

lemma yields_products:
  assumes "\<And>p. yields (serves p ''products'' a_empty) (body (Some p)) r out closed"
  shows "yields (fresh path) (with_database path (with_products body)) r out closed"
  unfolding with_products_def
  by (rule yields_program, rule yields_out [OF yields_bind [OF yields_open]], simp,
      rule yields_bind [OF yields_new_collection [OF plain_products]], simp, rule yields_getCollection, rule assms, simp)

lemma yields_products_verbose:
  assumes "\<And>p. yields (serves p ''products'' a_empty) (body (Some p)) r out closed"
  shows "yields (fresh path) (with_database path (with_products_verbose body)) r
    (''Database opened successfully.'' @ nl @ ''Collection '' @ quoted ''products'' @ '' created successfully.'' @ nl @ out) closed"
proof -
  have so: "yields opened (say s) () s opened" for s
    by (auto simp: yields_def say_def modifyM_def opened_def)
  have ss: "yields (\<lambda>w. \<exists>p. serves p ''products'' a_empty w) (say s) () s (\<lambda>w. \<exists>p. serves p ''products'' a_empty w)" for s
    by (auto simp: yields_def say_def modifyM_def serves_def)
  have 1: "yields (\<lambda>w. \<exists>p. serves p ''products'' a_empty w) (bindM (on_db (getCollection ''products'')) (\<lambda>p.
      if p = None then bindM (complain (''Failed to get collection.'' @ nl)) (\<lambda>_. returnM 1) else body p)) r out closed"
    by (rule yields_getCollection) (simp add: assms)
  show ?thesis
    unfolding with_products_verbose_def
    apply (rule yields_program, rule yields_out, rule yields_bind [OF yields_open])
     apply (simp only: ok_simps if_False simp_thms)
     apply (rule yields_bind [OF so], rule yields_bind [OF yields_new_collection [OF plain_products]])
     apply (simp only: ok_simps if_False simp_thms)
     apply (rule yields_bind, rule ss, rule 1)
    apply simp
    done
qed

text \<open>The programs that store one document and update it twice.\<close>

lemma yields_two_updates:
  assumes "settled i product j0" "applyUpdate u1 j0 = (Ret (), k1)" "settled i k1 j1"
    "applyUpdate u2 j1 = (Ret (), k2)" "settled i k2 j2" "title = heading t"
  shows "yields (fresh path) (with_database path (with_products (\<lambda>products.
      bindM (create_or_replace products (new_doc i product)) (\<lambda>_.
      bindM (show_original to_chars products i) (\<lambda>d.
      bindM (say title) (\<lambda>_.
      bindM (update_and_show to_chars products i u1 up f1 s1 d) (\<lambda>d.
      bindM (update_and_show to_chars products i u2 up f2 s2 d) (\<lambda>d. close_silently)))))))) 0
    (''Original document:'' @ nl @ sheet_of (json_text to_chars) i j0 @ heading t @ s1 @ nl @ sheet_of (json_text to_chars) i j1 @ s2 @ nl @ sheet_of (json_text to_chars) i j2) closed"
proof -
  have p: "printable j0" using assms(1) by (simp add: settled_def)
  show ?thesis
    by (rule yields_products, rule yields_out, rule yields_bind, rule yields_create_or_replace, rule assms,
        rule yields_bind, rule yields_show_original, rule p, rule yields_bind, rule yields_say,
        rule yields_bind, rule yields_update_and_show, rule assms, rule assms,
        rule yields_bind, rule yields_update_and_show, rule assms, rule assms, rule yields_close_silently, simp add: assms(6))
qed

section \<open>Evaluation\<close>

text \<open>Entries of the indexes compare as their values do: the keys are never unfolded.\<close>

lemma double_key_pos:
  assumes "a < 0x8000000000000000" "b < 0x8000000000000000"
  shows "encodeDoubleKey a < encodeDoubleKey b \<longleftrightarrow> a < b" "encodeDoubleKey a = encodeDoubleKey b \<longleftrightarrow> a = b"
proof -
  have n: "\<not> fp_neg a" "\<not> fp_neg b" using assms by (simp_all add: fp_neg_def word_less_nat_alt)
  have m: "fp_mag a = unat a" "fp_mag b = unat b" using n unat_split_sign by simp_all
  have "encodeDoubleKey a < encodeDoubleKey b \<longleftrightarrow> int (fp_mag a) < int (fp_mag b)"
    using n by (simp add: encodeDoubleKey_less fp_units_less_iff fp_units_eq_iff fp_signmag_def)
  then show "encodeDoubleKey a < encodeDoubleKey b \<longleftrightarrow> a < b" by (simp only: m of_nat_less_iff word_less_nat_alt)
  show "encodeDoubleKey a = encodeDoubleKey b \<longleftrightarrow> a = b" using decode_encode_double [of a] decode_encode_double [of b] by (metis outcome.inject(1))
qed

lemma prefix_same_length: "length a = length b \<Longrightarrow> prefix (a @ x) (b @ y) \<longleftrightarrow> a = b \<and> prefix x y"
  by (auto simp: prefix_def)

lemma entry_double:
  assumes "a < 0x8000000000000000" "b < 0x8000000000000000"
  shows "encodeDoubleKey a @ x < encodeDoubleKey b @ y \<longleftrightarrow> a < b \<or> a = b \<and> x < y"
    "encodeDoubleKey a @ x = encodeDoubleKey b @ y \<longleftrightarrow> a = b \<and> x = y"
    "encodeDoubleKey a @ x \<le> encodeDoubleKey b @ y \<longleftrightarrow> a < b \<or> a = b \<and> x \<le> y"
    "prefix (encodeDoubleKey a @ x) (encodeDoubleKey b @ y) \<longleftrightarrow> a = b \<and> prefix x y"
  using double_key_pos [OF assms]
  by (auto simp: less_append_same_length append_eq_append_conv prefix_same_length le_less)

lemma entry_int:
    "encodeIntKey a @ x < encodeIntKey b @ y \<longleftrightarrow> a <s b \<or> a = b \<and> x < y"
    "encodeIntKey a @ x = encodeIntKey b @ y \<longleftrightarrow> a = b \<and> x = y"
    "encodeIntKey a @ x \<le> encodeIntKey b @ y \<longleftrightarrow> a <s b \<or> a = b \<and> x \<le> y"
    "prefix (encodeIntKey a @ x) (encodeIntKey b @ y) \<longleftrightarrow> a = b \<and> prefix x y"
  by (auto simp: less_append_same_length append_eq_append_conv prefix_same_length le_less encodeIntKey_less encodeIntKey_inject word_sless_alt)

lemma key_values: "key_of (JFloat d) = encodeDoubleKey d" "key_of (JInteger w) = encodeIntKey (ucast w)"
  "key_of (JUnsigned w) = encodeIntKey (ucast w)" "key_of (JString s) = s" "key_of (JBoolean b) = (if b then ''true'' else ''false'')"
  by (simp_all add: key_of_def)

lemma keys_not_empty: "encodeDoubleKey d \<noteq> []" "encodeIntKey w \<noteq> []"
  using length_encodeDoubleKey [of d] length_encodeIntKey [of w] by (metis list.size(3) zero_neq_numeral)+

lemma indexable_none: "indexable [] j"
  by (simp add: indexable_def)

text \<open>The literals of the programs.\<close>

lemma decimals:
  "decimal 35 (Suc 0) = 0x400C000000000000" "decimal 36 (Suc 0) = 0x400CCCCCCCCCCCCD" "decimal 37 (Suc 0) = 0x400D99999999999A"
  "decimal 38 (Suc 0) = 0x400E666666666666" "decimal 39 (Suc 0) = 0x400F333333333333" "decimal 40 (Suc 0) = 0x4010000000000000"
  "decimal 42 (Suc 0) = 0x4010CCCCCCCCCCCD" "decimal 45 (Suc 0) = 0x4012000000000000" "decimal 46 (Suc 0) = 0x4012666666666666"
  "decimal 47 (Suc 0) = 0x4012CCCCCCCCCCCD" "decimal 48 (Suc 0) = 0x4013333333333333" "decimal 49 (Suc 0) = 0x401399999999999A"
  "decimal 50 (Suc 0) = 0x4014000000000000" "decimal 1000 (Suc 0) = 0x4059000000000000" "decimal 1599 2 = 0x402FFAE147AE147B"
  "decimal 2000 (Suc 0) = 0x4069000000000000" "decimal 3000 (Suc 0) = 0x4072C00000000000" "decimal 3999 2 = 0x4043FEB851EB851F"
  "decimal 4999 2 = 0x4048FEB851EB851F" "decimal 6000 (Suc 0) = 0x4082C00000000000" "decimal 10000 (Suc 0) = 0x408F400000000000"
  "decimal 14999 2 = 0x4062BFAE147AE148" "decimal 19999 2 = 0x4068FFAE147AE148" "decimal 29999 2 = 0x4072BFD70A3D70A4"
  "decimal 34999 2 = 0x4075DFD70A3D70A4" "decimal 49999 2 = 0x407F3FD70A3D70A4" "decimal 59999 2 = 0x4082BFEB851EB852"
  "decimal 79999 2 = 0x4088FFEB851EB852" "decimal 89999 2 = 0x408C1FEB851EB852" "decimal 99999 2 = 0x408F3FEB851EB852"
  "decimal 129999 2 = 0x40944FF5C28F5C29" "decimal 139999 2 = 0x4095DFF5C28F5C29" "decimal 149999 2 = 0x40976FF5C28F5C29"
  "decimal 249999 2 = 0x40A387FAE147AE14"
  by (simp_all add: decimal_def Let_def ilog2.simps rne_div_def)

lemmas literal_simps = pair_def of_list_def emplace_def less_char_def new_doc_def decimals

lemmas document_simps = settled_def can_store_def can_index_def store_all_def a_store_def a_empty_def a_doc_def ready_def prepared_def prepare_def
  hasField_def setValue_def Let_def storable_def om_ok_def indexable_none printable_def ascii_def

lemmas table_simps = index_all_def a_createIndex_def with_entry_def entry_of_def key_values entry_double entry_int keys_not_empty
  all_indexable_def scalar_def has_docs_def printable_def ascii_def

lemmas query_simps = comparison_json_def a_lookup_def or_none_def

lemmas evaluation = literal_simps document_simps table_simps query_simps

lemma yieldsD:
  "yields P m r out Q \<Longrightarrow> P w \<Longrightarrow> \<exists>w'. m w = (Ret r, w') \<and> w_err w' = w_err w \<and> w_out w' = w_out w @ out"
  by (auto simp: yields_def)

end
