(* ===== verification/Anu_Outputs.thy ===== *)
theory Anu_Outputs
  imports Anu_Runs
begin

text \<open>
  What the example programs print. In a directory without a database and on a working disk each of them returns
  0, writes nothing to the error stream, and writes the text of its theorem; \<open>txt\<close> is the text of a JSON value,
  which is \<open>json_text to_chars\<close>, what \<open>json_dump\<close> writes with indentation 4. The programs with \<^verbatim>\<open>$and\<close> and \<^verbatim>\<open>$or\<close> have no theorem here:
  the order of their results is that of a hash table.
\<close>

section \<open>Queries\<close>

definition gt_coll :: acoll where
  "gt_coll = index_all [''price'', ''stock'', ''rating''] (store_all gt_documents a_empty)"

lemma gt_stores: "can_store_all a_empty gt_documents"
  "list_all (all_indexable (store_all gt_documents a_empty)) [''price'', ''stock'', ''rating'']"
  by (simp_all add: gt_documents_def evaluation)

lemma gt_finds:
  "a_find (a_index gt_coll) (Compare Greater ''price'' (JFloat (decimal 10000 1))) = [''prod003'', ''prod004'']"
  "a_find (a_index gt_coll) (Compare Greater ''stock'' (JInteger 20)) = [''prod001'', ''prod002'']"
  "a_find (a_index gt_coll) (Compare Greater ''rating'' (JFloat (decimal 45 1))) = [''prod003'', ''prod004'']"
  "has_docs gt_coll [''prod003'', ''prod004'']" "has_docs gt_coll [''prod001'', ''prod002'']"
  by (simp_all add: gt_coll_def gt_documents_def evaluation)

definition gt_text :: "(json \<Rightarrow> string) \<Rightarrow> string" where
  "gt_text txt =
    (heading ''Creating Indexes for Range Scanning'' @ concat (map index_created [''price'', ''stock'', ''rating'']) @
     heading ''Performing $gt Range Scans'' @
     heading ''Executing Price > 1000.0'' @ found txt gt_coll [''prod003'', ''prod004''] @
     heading ''Executing Stock > 20'' @ found txt gt_coll [''prod001'', ''prod002''] @
     heading ''Executing Rating > 4.5'' @ found txt gt_coll [''prod003'', ''prod004''])"

lemma gt_yields:
  "yields (fresh ''./gt_scan_db'') (gt_main to_chars) 0 (gt_text (json_text to_chars)) closed"
  unfolding gt_text_def gt_main_def
  by (rule yields_products, rule yields_out, rule yields_bind [OF _ yields_close_and_return],
      rule yields_steps [OF yields_seed [OF gt_stores(1)]], rule yields_steps [OF yields_say],
      rule yields_steps [OF yields_create_indexes [OF gt_stores(2)]], fold gt_coll_def, rule yields_steps [OF yields_say],
      rule yields_steps_query [OF gt_finds(1,4)], simp add: evaluation, simp add: evaluation,
      rule yields_steps_query [OF gt_finds(2,5)], simp add: evaluation, simp add: evaluation,
      rule yields_steps_query [OF gt_finds(3,4)], simp add: evaluation, simp add: evaluation,
      rule yields_steps_nil, simp add: heading_def)

definition lt_coll :: acoll where
  "lt_coll = index_all [''price'', ''stock'', ''rating''] (store_all lt_documents a_empty)"

lemma lt_stores: "can_store_all a_empty lt_documents"
  "list_all (all_indexable (store_all lt_documents a_empty)) [''price'', ''stock'', ''rating'']"
  by (simp_all add: lt_documents_def evaluation)

lemma lt_finds:
  "a_find (a_index lt_coll) (Compare Less ''price'' (JFloat (decimal 6000 1))) = [''prod002'', ''prod001'']"
  "a_find (a_index lt_coll) (Compare Less ''stock'' (JInteger 30)) = [''prod003'', ''prod004'']"
  "a_find (a_index lt_coll) (Compare Less ''rating'' (JFloat (decimal 45 1))) = [''prod002'', ''prod001'']"
  "has_docs lt_coll [''prod003'', ''prod004'']" "has_docs lt_coll [''prod002'', ''prod001'']"
  by (simp_all add: lt_coll_def lt_documents_def evaluation)

definition lt_text :: "(json \<Rightarrow> string) \<Rightarrow> string" where
  "lt_text txt =
    (heading ''Creating Indexes for Range Scanning'' @ ''NOTE: Creating indexes is essential for efficient range scans!'' @ nl @
     concat (map index_created [''price'', ''stock'', ''rating'']) @
     heading ''Performing $lt Range Scans'' @
     heading ''Executing Price < 600.0'' @ found txt lt_coll [''prod002'', ''prod001''] @
     heading ''Executing Stock < 30'' @ found txt lt_coll [''prod003'', ''prod004''] @
     heading ''Executing Rating < 4.5'' @ found txt lt_coll [''prod002'', ''prod001''])"

lemma lt_yields:
  "yields (fresh ''./lt_scan_db'') (lt_main to_chars) 0 (lt_text (json_text to_chars)) closed"
  unfolding lt_text_def lt_main_def
  by (rule yields_products, rule yields_out, rule yields_bind [OF _ yields_close_and_return],
      rule yields_steps [OF yields_seed [OF lt_stores(1)]], rule yields_steps [OF yields_say], rule yields_steps [OF yields_say],
      rule yields_steps [OF yields_create_indexes [OF lt_stores(2)]], fold lt_coll_def, rule yields_steps [OF yields_say],
      rule yields_steps_query [OF lt_finds(1,5)], simp add: evaluation, simp add: evaluation,
      rule yields_steps_query [OF lt_finds(2,4)], simp add: evaluation, simp add: evaluation,
      rule yields_steps_query [OF lt_finds(3,5)], simp add: evaluation, simp add: evaluation,
      rule yields_steps_nil, simp add: heading_def)

section \<open>Equality and order\<close>

text \<open>The first part of both programs: the messages of the insertions and of the indexes.\<close>

definition set_up :: "Document list \<Rightarrow> string list \<Rightarrow> string" where
  "set_up docs names =
     ''Database opened successfully.'' @ nl @ ''Collection '' @ quoted ''products'' @ '' created successfully.'' @ nl @
     heading ''Inserting Sample Documents'' @ concat (map (\<lambda>d. ''Document '' @ doc_id d @ '' created successfully.'' @ nl) docs) @
     heading ''Creating Indexes'' @ concat (map index_created names)"

definition query_line :: "string \<Rightarrow> string" where
  "query_line s = nl @ ''----- Query: '' @ s @ '' -----'' @ nl"

definition eq_coll :: acoll where
  "eq_coll = index_all [''category'', ''available''] (store_all eq_documents a_empty)"

lemma eq_stores: "can_store_all a_empty eq_documents" "all_indexable (store_all eq_documents a_empty) ''category''"
  "all_indexable (a_createIndex ''category'' (store_all eq_documents a_empty)) ''available''"
  "a_createIndex ''available'' (a_createIndex ''category'' (store_all eq_documents a_empty)) = eq_coll"
  by (simp add: eq_documents_def evaluation, simp add: eq_documents_def evaluation, simp add: eq_documents_def evaluation,
      simp add: eq_coll_def index_all_def)

lemma eq_finds:
  "a_find (a_index eq_coll) (Compare Equal ''category'' (JString ''Electronics'')) = [''prod001'', ''prod002'']"
  "a_find (a_index eq_coll) (Compare Equal ''available'' (JBoolean True)) = [''prod001'', ''prod002'', ''prod003'']"
  "has_docs eq_coll [''prod001'', ''prod002'']" "has_docs eq_coll [''prod001'', ''prod002'', ''prod003'']"
  by (simp_all add: eq_coll_def eq_documents_def evaluation)

definition eq_text :: "(json \<Rightarrow> string) \<Rightarrow> string" where
  "eq_text txt =
    (set_up eq_documents [''category'', ''available''] @ heading ''$eq Operator Examples'' @
     query_line ''category = Electronics'' @ found txt eq_coll [''prod001'', ''prod002''] @
     query_line ''available = true'' @ found txt eq_coll [''prod001'', ''prod002'', ''prod003''] @
     nl @ ''Database closed successfully.'' @ nl)"

lemma eq_yields:
  "yields (fresh ''./product_db'') (eq_main to_chars) 0 (eq_text (json_text to_chars)) closed"
  unfolding eq_text_def eq_main_def
  by (rule yields_out, rule yields_products_verbose, rule yields_bind,
      rule yields_steps [OF yields_say], rule yields_steps [OF yields_seed_verbosely [OF eq_stores(1)]],
      rule yields_steps [OF yields_say], rule yields_steps_nil,
      rule yields_bind [OF yields_require_index [OF eq_stores(2)]], simp only: not_True_eq_False if_False,
      rule yields_bind [OF yields_require_index [OF eq_stores(3)]], simp only: not_True_eq_False if_False eq_stores(4),
      rule yields_bind [OF _ yields_close_or_fail], rule yields_steps [OF yields_say], rule yields_steps [OF yields_say],
      rule yields_steps_show [OF eq_finds(1,3)], simp add: evaluation, simp add: evaluation, rule yields_steps [OF yields_say],
      rule yields_steps_show [OF eq_finds(2,4)], simp add: evaluation, simp add: evaluation, rule yields_steps_nil,
      simp add: heading_def set_up_def query_line_def)

definition orderBy_coll :: acoll where
  "orderBy_coll = index_all [''price'', ''rating''] (store_all orderBy_documents a_empty)"

lemma orderBy_stores: "can_store_all a_empty orderBy_documents" "all_indexable (store_all orderBy_documents a_empty) ''price''"
  "all_indexable (a_createIndex ''price'' (store_all orderBy_documents a_empty)) ''rating''"
  "a_createIndex ''rating'' (a_createIndex ''price'' (store_all orderBy_documents a_empty)) = orderBy_coll"
  by (simp add: orderBy_documents_def evaluation, simp add: orderBy_documents_def evaluation, simp add: orderBy_documents_def evaluation,
      simp add: orderBy_coll_def index_all_def)

lemma orderBy_finds:
  "a_find (a_index orderBy_coll) (OrderBy ''price'' ''asc'') = [''prod004'', ''prod003'', ''prod002'', ''prod001'']"
  "a_find (a_index orderBy_coll) (OrderBy ''rating'' ''desc'') = [''prod004'', ''prod001'', ''prod002'', ''prod003'']"
  "has_docs orderBy_coll [''prod004'', ''prod003'', ''prod002'', ''prod001'']" "has_docs orderBy_coll [''prod004'', ''prod001'', ''prod002'', ''prod003'']"
  by (simp_all add: orderBy_coll_def orderBy_documents_def evaluation)

definition orderBy_text :: "(json \<Rightarrow> string) \<Rightarrow> string" where
  "orderBy_text txt =
    (set_up orderBy_documents [''price'', ''rating''] @ heading ''$orderBy Operator Examples'' @
     query_line ''Order By Price (Ascending)'' @ found txt orderBy_coll [''prod004'', ''prod003'', ''prod002'', ''prod001''] @
     query_line ''Order By Rating (Descending)'' @ found txt orderBy_coll [''prod004'', ''prod001'', ''prod002'', ''prod003''] @
     nl @ ''Database closed successfully.'' @ nl)"

lemma orderBy_yields:
  "yields (fresh ''./product_db'') (orderBy_main to_chars) 0 (orderBy_text (json_text to_chars)) closed"
  unfolding orderBy_text_def orderBy_main_def
  by (rule yields_out, rule yields_products_verbose, rule yields_bind,
      rule yields_steps [OF yields_say], rule yields_steps [OF yields_seed_verbosely [OF orderBy_stores(1)]],
      rule yields_steps [OF yields_say], rule yields_steps_nil,
      rule yields_bind [OF yields_require_index [OF orderBy_stores(2)]], simp only: not_True_eq_False if_False,
      rule yields_bind [OF yields_require_index [OF orderBy_stores(3)]], simp only: not_True_eq_False if_False orderBy_stores(4),
      rule yields_bind [OF _ yields_close_or_fail], rule yields_steps [OF yields_say], rule yields_steps [OF yields_say],
      rule yields_steps_show [OF orderBy_finds(1,3)], simp add: evaluation, simp add: evaluation, rule yields_steps [OF yields_say],
      rule yields_steps_show [OF orderBy_finds(2,4)], simp add: evaluation, simp add: evaluation, rule yields_steps_nil,
      simp add: heading_def set_up_def query_line_def)

section \<open>Updates\<close>

text \<open>The document of the program for \<^verbatim>\<open>$pull\<close>.\<close>

definition watch :: "double \<Rightarrow> string list \<Rightarrow> string list \<Rightarrow> json" where
  "watch price features compatibility = JObject [(''_id'', JString ''watch1''), (''brand'', JString ''FitTech''),
     (''category'', JString ''Wearables''), (''compatibility'', JArray (map JString compatibility)),
     (''features'', JArray (map JString features)), (''name'', JString ''Smart Watch''), (''price'', JFloat price)]"

abbreviation watch0 :: "double \<Rightarrow> json" where
  "watch0 p \<equiv> watch p [''heart-rate-monitor'', ''gps'', ''sleep-tracking'', ''water-resistant'', ''unused-feature''] [''ios'', ''android'', ''deprecated-os'']"

abbreviation watch1 :: "double \<Rightarrow> json" where
  "watch1 p \<equiv> watch p [''heart-rate-monitor'', ''gps'', ''sleep-tracking'', ''water-resistant''] [''ios'', ''android'', ''deprecated-os'']"

abbreviation watch2 :: "double \<Rightarrow> json" where
  "watch2 p \<equiv> watch p [''heart-rate-monitor'', ''gps'', ''sleep-tracking'', ''water-resistant''] [''ios'', ''android'']"

lemma watch_settled: "settled ''watch1'' pull_product (watch0 (decimal 29999 2))" "settled ''watch1'' (watch1 p) (watch1 p)"
  "settled ''watch1'' (watch2 p) (watch2 p)"
  by (simp_all add: pull_product_def watch_def evaluation)

lemma watch_pulled: "applyUpdate pull_update1 (watch0 p) = (Ret (), watch1 p)" "applyUpdate pull_update2 (watch1 p) = (Ret (), watch2 p)"
  by code_simp+

definition pull_text :: "(json \<Rightarrow> string) \<Rightarrow> string" where
  "pull_text txt =
    (''Original document:'' @ nl @ sheet_of txt ''watch1'' (watch0 (decimal 29999 2)) @ heading ''Using $pull Operator'' @
     ''Document updated with $pull (removed feature)'' @ nl @ sheet_of txt ''watch1'' (watch1 (decimal 29999 2)) @
     ''Document updated with $pull (removed compatibility)'' @ nl @ sheet_of txt ''watch1'' (watch2 (decimal 29999 2)))"

lemma pull_yields:
  "yields (fresh ''./pull_example_db'') (pull_main to_chars) 0 (pull_text (json_text to_chars)) closed"
  unfolding pull_text_def pull_main_def
  by (rule yields_two_updates [OF watch_settled(1) watch_pulled(1) watch_settled(2) watch_pulled(2) watch_settled(3)]) (simp add: heading_def)

text \<open>The document of the program for \<^verbatim>\<open>$push\<close>. Numbers are read back as unsigned ones.\<close>

definition review :: "string \<Rightarrow> json \<Rightarrow> string \<Rightarrow> json" where
  "review user rating comment = JObject [(''comment'', JString comment), (''rating'', rating), (''user'', JString user)]"

definition laptop :: "double \<Rightarrow> string list \<Rightarrow> json list \<Rightarrow> json" where
  "laptop price tags reviews = JObject [(''_id'', JString ''laptop1''), (''brand'', JString ''GameMaster''),
     (''category'', JString ''Electronics''), (''name'', JString ''Gaming Laptop''), (''price'', JFloat price),
     (''reviews'', JArray reviews), (''tags'', JArray (map JString tags))]"

abbreviation praise :: json where
  "praise \<equiv> review ''gamer123'' (JUnsigned 5) ''Amazing performance!''"

abbreviation blame :: "json \<Rightarrow> json" where
  "blame stars \<equiv> review ''techexpert'' stars ''Great laptop, but runs hot under heavy load''"

abbreviation laptop0 :: "double \<Rightarrow> json" where
  "laptop0 p \<equiv> laptop p [''gaming'', ''laptop'', ''high-performance''] [praise]"

abbreviation laptop1 :: "double \<Rightarrow> json list \<Rightarrow> json" where
  "laptop1 p others \<equiv> laptop p [''gaming'', ''laptop'', ''high-performance'', ''vr-ready''] (praise # others)"

lemma laptop_settled: "settled ''laptop1'' push_product (laptop0 (decimal 149999 2))" "settled ''laptop1'' (laptop1 p []) (laptop1 p [])"
  "settled ''laptop1'' (laptop1 p [blame (JInteger 4)]) (laptop1 p [blame (JUnsigned 4)])"
  by (simp_all add: push_product_def laptop_def review_def evaluation)

lemma laptop_pushed: "applyUpdate push_update1 (laptop0 p) = (Ret (), laptop1 p [])"
  "applyUpdate push_update2 (laptop1 p []) = (Ret (), laptop1 p [blame (JInteger 4)])"
  by code_simp+

definition push_text :: "(json \<Rightarrow> string) \<Rightarrow> string" where
  "push_text txt =
    (''Original document:'' @ nl @ sheet_of txt ''laptop1'' (laptop0 (decimal 149999 2)) @ heading ''Using $push Operator'' @
     ''Document updated with $push (added tag)'' @ nl @ sheet_of txt ''laptop1'' (laptop1 (decimal 149999 2) []) @
     ''Document updated with $push (added review)'' @ nl @ sheet_of txt ''laptop1'' (laptop1 (decimal 149999 2) [blame (JUnsigned 4)]))"

lemma push_yields:
  "yields (fresh ''./push_example_db'') (push_main to_chars) 0 (push_text (json_text to_chars)) closed"
  unfolding push_text_def push_main_def
  by (rule yields_two_updates [OF laptop_settled(1) laptop_pushed(1) laptop_settled(2) laptop_pushed(2) laptop_settled(3)]) (simp add: heading_def)

text \<open>The document of the program for \<^verbatim>\<open>$unset\<close>: the fields that remain.\<close>

definition phone :: "double \<Rightarrow> jobject \<Rightarrow> jobject \<Rightarrow> jobject \<Rightarrow> json" where
  "phone price promotion stock specs = JObject ([(''_id'', JString ''smartphone1''), (''brand'', JString ''TechCorp''),
     (''category'', JString ''Electronics''),
     (''features'', JObject ([(''camera'', JString ''48MP triple camera''), (''screen'', JString ''6.5 inch OLED'')] @ specs)),
     (''name'', JString ''Smartphone X''), (''price'', JFloat price)] @ promotion @ stock)"

abbreviation phone0 :: "double \<Rightarrow> json" where
  "phone0 p \<equiv> phone p [(''promotion'', JString ''Limited Offer'')] [(''stock'', JUnsigned 120)]
     [(''storage'', JString ''256GB''), (''temporary_spec'', JString ''Test value'')]"

abbreviation phone1 :: "double \<Rightarrow> json" where
  "phone1 p \<equiv> phone p [] [] [(''storage'', JString ''256GB''), (''temporary_spec'', JString ''Test value'')]"

abbreviation phone2 :: "double \<Rightarrow> json" where
  "phone2 p \<equiv> phone p [] [] []"

lemma phone_settled: "settled ''smartphone1'' unset_product (phone0 (decimal 89999 2))" "settled ''smartphone1'' (phone1 p) (phone1 p)"
  "settled ''smartphone1'' (phone2 p) (phone2 p)"
  by (simp_all add: unset_product_def phone_def evaluation)

lemma phone_unset: "applyUpdate unset_update1 (phone0 p) = (Ret (), phone1 p)" "applyUpdate unset_update2 (phone1 p) = (Ret (), phone2 p)"
  by code_simp+

definition unset_text :: "(json \<Rightarrow> string) \<Rightarrow> string" where
  "unset_text txt =
    (''Original document:'' @ nl @ sheet_of txt ''smartphone1'' (phone0 (decimal 89999 2)) @ heading ''Using $unset Operator'' @
     ''Document updated with $unset (top-level fields)'' @ nl @ sheet_of txt ''smartphone1'' (phone1 (decimal 89999 2)) @
     ''Document updated with $unset (nested fields)'' @ nl @ sheet_of txt ''smartphone1'' (phone2 (decimal 89999 2)))"

lemma unset_yields:
  "yields (fresh ''./unset_example_db'') (unset_main to_chars) 0 (unset_text (json_text to_chars)) closed"
  unfolding unset_text_def unset_main_def
  by (rule yields_two_updates [OF phone_settled(1) phone_unset(1) phone_settled(2) phone_unset(2) phone_settled(3)]) (simp add: heading_def)

section \<open>Reading and writing\<close>

definition user :: "json \<Rightarrow> string \<Rightarrow> json" where
  "user age email = JObject [(''_id'', JString ''user001''), (''age'', age), (''email'', JString email), (''name'', JString ''Hash'')]"

lemma user_settled: "settled ''user001'' user_data (user (JUnsigned 33) ''hash@example.com'')"
  "settled ''user001'' (user (JUnsigned 33) ''hash@gmail.com'') (user (JUnsigned 33) ''hash@gmail.com'')"
  by (simp_all add: user_data_def user_def evaluation)

text \<open>What is written for this document, line by line.\<close>

definition user_text :: "string \<Rightarrow> string" where
  "user_text email = concat (map (\<lambda>line. line @ nl)
     [''{'',
      ''    '' @ in_quotes ''_id'' @ '': '' @ in_quotes ''user001'' @ '','',
      ''    '' @ in_quotes ''age'' @ '': 33,'',
      ''    '' @ in_quotes ''email'' @ '': '' @ in_quotes email @ '','',
      ''    '' @ in_quotes ''name'' @ '': '' @ in_quotes ''Hash'',
      ''}''])"

lemma dump_plain: "ascii s \<Longrightarrow> esc s = s \<Longrightarrow> dump_escaped s = Ret s"
  by (simp add: dump_escaped_iff ascii_is_utf8)

lemma user_strings: "dump_escaped ''_id'' = Ret ''_id''" "dump_escaped ''user001'' = Ret ''user001''" "dump_escaped ''age'' = Ret ''age''"
  "dump_escaped ''email'' = Ret ''email''" "dump_escaped ''name'' = Ret ''name''" "dump_escaped ''Hash'' = Ret ''Hash''"
  "dump_escaped ''hash@example.com'' = Ret ''hash@example.com''" "dump_escaped ''hash@gmail.com'' = Ret ''hash@gmail.com''"
  by (rule dump_plain; simp add: ascii_def esc_byte_def escape_def)+

lemma age_text: "dump_unsigned 33 = ''33''"
  by (simp add: dump_unsigned_def digit_pairs.simps digits_to_99_def char_of_def bit_numeral_rec bit_0)

lemma user_printed: "dump_escaped email = Ret email \<Longrightarrow> json_text to_chars (user (JUnsigned 33) email) @ nl = user_text email"
  by (simp add: user_def json_text_def json_dump_def user_strings age_text dump_container_def new_indent_def new_line_def colon_def
      Let_def user_text_def nl_def numeral_eq_Suc)
lemma user_texts:
  "json_text to_chars (user (JUnsigned 33) ''hash@example.com'') @ nl = user_text ''hash@example.com''"
  "json_text to_chars (user (JUnsigned 33) ''hash@gmail.com'') @ nl = user_text ''hash@gmail.com''"
  "json_text to_chars (user (JUnsigned 33) ''hash@example.com'') @ nl @ rest = user_text ''hash@example.com'' @ rest"
  by (simp_all only: user_printed [OF user_strings(7)] user_printed [OF user_strings(8)] append_assoc [symmetric])

lemma yields_dump_user:
  "settled i k j \<Longrightarrow> yields P (liftO (json_dump to_chars (Some 4) (doc_data (a_doc i j)))) (json_text to_chars j) [] P"
  by (rule yields_lift) (simp add: settled_def a_doc_def printable_dump)

lemma readWrite_yields:
  "yields (fresh ''./my_database'') (readWrite_main to_chars) 0 (user_text ''hash@example.com'') closed"
  unfolding readWrite_main_def new_doc_a_doc
  by (rule yields_users, rule yields_out, rule yields_bind [OF yields_settle(1) [OF user_settled(1)]], simp only: prod.case,
      rule yields_bind [OF yields_read_only], simp only: prod.case, rule yields_bind [OF yields_dump_user [OF user_settled(1)]],
      rule yields_bind [OF yields_say yields_close_silently], simp add: user_texts)

lemma user_email: "index_write ''email'' (JString ''hash@gmail.com'') (user age email) = Ret (user age ''hash@gmail.com'')"
  by (simp add: user_def less_char_def)

definition rewrite_text :: string where
  "rewrite_text = user_text ''hash@example.com'' @ ''========After update========='' @ nl @ user_text ''hash@gmail.com''"

lemma yields_rewrite_user:
  "yields P (liftO (index_write ''email'' (JString ''hash@gmail.com'') (doc_data (a_doc i (user age email))))) (user age ''hash@gmail.com'') [] P"
  by (rule yields_lift) (simp add: a_doc_def user_email)

lemma setData_a_doc: "setData k (a_doc i j) = a_doc i k"
  by (simp add: setData_def a_doc_def)

lemma rewrite_yields:
  "yields (fresh ''./my_database'') (rewrite_main to_chars) 0 rewrite_text closed"
  unfolding rewrite_text_def rewrite_main_def new_doc_a_doc
  by (rule yields_users, rule yields_out, rule yields_bind [OF yields_settle(1) [OF user_settled(1)]], simp only: prod.case,
      rule yields_bind [OF yields_read_only], simp only: prod.case, rule yields_bind [OF yields_dump_user [OF user_settled(1)]],
      rule yields_bind [OF yields_say], simp only: ok_simps if_False simp_thms, rule yields_bind [OF yields_rewrite_user],
      simp only: setData_a_doc, rule yields_bind [OF yields_settle(2) [OF user_settled(2)]], simp only: prod.case,
      rule yields_bind [OF yields_read_only], simp only: prod.case, rule yields_bind [OF yields_say],
      rule yields_bind [OF yields_dump_user [OF user_settled(2)]], rule yields_bind [OF yields_say yields_close_silently],
      simp only: user_texts append_Nil append_Nil2 append_assoc)

section \<open>Properties of the programs\<close>

definition prints :: "string \<Rightarrow> (world, int) comp \<Rightarrow> string \<Rightarrow> bool" where
  "prints path program out = (\<forall>w. fresh path w \<longrightarrow>
     (\<exists>w'. program w = (Ret 0, w') \<and> w_err w' = w_err w \<and> w_out w' = w_out w @ out))"

lemma printsI: "yields (fresh path) program 0 out closed \<Longrightarrow> prints path program out"
  by (auto simp: prints_def dest: yieldsD)

definition example_world :: world where
  "example_world = \<lparr>w_db = Database_new new_engine \<lparr>fs_dirs = [], fs_files = [], fs_may_create = (\<lambda>_. True)\<rparr>,
     w_disks = (\<lambda>_. new_engine), w_files = \<lparr>fs_dirs = [], fs_files = [], fs_may_create = (\<lambda>_. True)\<rparr>,
     w_out = [], w_err = [], w_clock = (\<lambda>_ _. (0, [])), w_calls = 0\<rparr>"

lemma example_world: "fresh path example_world" "w_out example_world = []" "w_err example_world = []"
  by (simp_all add: fresh_def example_world_def new_engine_def healthy_def)

lemma prints_example:
  "prints path program out \<Longrightarrow> \<exists>w'. program example_world = (Ret 0, w') \<and> w_err w' = [] \<and> w_out w' = out"
  using example_world by (fastforce simp: prints_def)

text \<open>C24: The example programs for the query operators, each started in a directory without a database on a working
  disk, return 0 without an error message of their own and print exactly the text given here, the messages of
  \<^verbatim>\<open>createIndex\<close> included: every insertion and index is confirmed, and each query lists the documents that match it.
  \<^verbatim>\<open>$gt\<close> lists them by increasing and \<^verbatim>\<open>$lt\<close> by decreasing value, \<^verbatim>\<open>$eq\<close> by identifier, \<^verbatim>\<open>$orderBy\<close> in the direction
  asked for. The documents are printed with \<open>json_dump\<close>, for any text of the floating point numbers.\<close>

theorem query_programs:
  "prints ''./gt_scan_db'' (gt_main to_chars) (gt_text (json_text to_chars)) \<and>
   prints ''./lt_scan_db'' (lt_main to_chars) (lt_text (json_text to_chars)) \<and>
   prints ''./product_db'' (eq_main to_chars) (eq_text (json_text to_chars)) \<and>
   prints ''./product_db'' (orderBy_main to_chars) (orderBy_text (json_text to_chars))"
  using gt_yields lt_yields eq_yields orderBy_yields by (simp add: printsI)

text \<open>C25: The example programs for the update operators print the document as it was stored and after each of the two
  updates: \<^verbatim>\<open>$unset\<close> has removed two fields and then two fields of a nested object, \<^verbatim>\<open>$pull\<close> one element of each of two
  arrays, and \<^verbatim>\<open>$push\<close> has appended a string and then an object. The program that writes and reads one document prints
  it with the field \<^verbatim>\<open>_id\<close> added, in these six lines, and the one that stores a changed version prints it before and after.\<close>

theorem update_programs:
  "prints ''./unset_example_db'' (unset_main to_chars) (unset_text (json_text to_chars)) \<and>
   prints ''./pull_example_db'' (pull_main to_chars) (pull_text (json_text to_chars)) \<and>
   prints ''./push_example_db'' (push_main to_chars) (push_text (json_text to_chars)) \<and>
   prints ''./my_database'' (readWrite_main to_chars) (user_text ''hash@example.com'') \<and>
   prints ''./my_database'' (rewrite_main to_chars) rewrite_text"
  using unset_yields pull_yields push_yields readWrite_yields rewrite_yields by (simp add: printsI)

theorem query_programs_witness:
  "\<exists>w'. orderBy_main (\<lambda>_. ''4.5'') example_world = (Ret 0, w') \<and> w_err w' = [] \<and> w_out w' = orderBy_text (json_text (\<lambda>_. ''4.5''))"
  by (rule prints_example [of "''./product_db''"]) (simp only: query_programs)

theorem update_programs_witness:
  "\<exists>w'. readWrite_main (\<lambda>_. ''4.5'') example_world = (Ret 0, w') \<and> w_err w' = [] \<and> w_out w' = user_text ''hash@example.com''"
  by (rule prints_example [of "''./my_database''"]) (simp only: update_programs)

end
