(* ===== verification/Anu_Parsed.thy ===== *)
theory Anu_Parsed
  imports Anu_Roundtrip
begin

unbundle bit_operations_syntax

text \<open>
  What a text can be read as: the parser returns a value that is well-formed and that the serializer writes, or it throws one
  of its two exceptions. The strings of the value are UTF-8, whatever bytes the text has.
\<close>

section \<open>The bytes of a code point\<close>

lemma utf8_append: "utf8 u \<Longrightarrow> utf8 v \<Longrightarrow> utf8 (u @ v)"
  by (induction u rule: utf8.induct) (auto intro: utf8_Cons)

lemma utf8_character: "following (of_char c) = Some rs \<Longrightarrow> list_all2 in_range rs ds \<Longrightarrow> utf8 (c # ds)"
  using utf8_Cons [of c rs ds "[]"] utf8_Nil by simp

lemma or_low: "x < 2 ^ n \<Longrightarrow> push_bit n y OR x = push_bit n y + (x :: nat)"
proof -
  assume "x < 2 ^ n"
  then have x: "x = take_bit n x" by (simp add: take_bit_nat_eq_self)
  have "push_bit n y AND take_bit n x = 0" by (rule bit_eqI) (auto simp: bit_simps)
  then show ?thesis using x disjunctive_add_eq_or [of "push_bit n y" x] by simp
qed

lemma and_63: "(n :: nat) AND 0x3F = n mod 64"
proof -
  have "(0x3F :: nat) = mask 6" by (simp add: mask_eq_exp_minus_1)
  then show ?thesis by (simp only: take_bit_eq_mask [symmetric] take_bit_nat_def) simp
qed

lemma continuation: "0x80 OR ((n :: nat) AND 0x3F) = 128 + n mod 64"
  using or_low [of "n mod 64" 6 2] by (simp add: and_63 push_bit_eq_mult)

lemma first_byte: "n < 32 \<Longrightarrow> 0xC0 OR (n :: nat) = 192 + n" "n < 16 \<Longrightarrow> 0xE0 OR (n :: nat) = 224 + n" "n < 8 \<Longrightarrow> 0xF0 OR (n :: nat) = 240 + n"
  using or_low [of n 6 3] or_low [of n 5 7] or_low [of n 4 15] by (simp_all add: push_bit_eq_mult)

definition scalar_value :: "nat \<Rightarrow> bool" where
  "scalar_value n = (n < 0x110000 \<and> \<not> (0xD800 \<le> n \<and> n \<le> 0xDFFF))"

lemma codepoint_utf8:
  assumes "scalar_value n"
  shows "utf8 (codepoint_bytes n)"
proof -
  have d: "drop_bit 6 n = n div 64" "drop_bit 12 n = n div 4096" "drop_bit 18 n = n div 262144" by (simp_all add: drop_bit_nat_def)
  have m: "128 + k mod 64 < 256" "of_char (char_of (128 + k mod 64) :: char) = 128 + k mod 64" for k :: nat
  proof -
    have "k mod 64 < 64" by simp
    then show "128 + k mod 64 < 256" by linarith
    then show "of_char (char_of (128 + k mod 64) :: char) = 128 + k mod 64" by simp
  qed
  have c: "in_range (0x80, 0xBF) (char_of (128 + k mod 64))" for k :: nat
  proof -
    have "k mod 64 < 64" by simp
    then show ?thesis unfolding in_range_def split m(2) by linarith
  qed
  consider "n < 0x80" | "0x80 \<le> n" "n \<le> 0x7FF" | "0x800 \<le> n" "n \<le> 0xFFFF" | "0x10000 \<le> n" by linarith
  then show ?thesis
  proof cases
    case 1
    then show ?thesis using utf8_character [of "char_of n" "[]" "[]"] by (simp add: codepoint_bytes_def following_def)
  next
    case 2
    have l: "n div 64 < 32" using 2 by (simp add: div_less_iff_less_mult)
    have g: "2 \<le> n div 64" using 2 by (simp add: less_eq_div_iff_mult_less_eq)
    have "byte_ranges (192 + n div 64) = Some [(0x80, 0xBF)]" using l g by (simp add: byte_ranges_def)
    then have "utf8 [char_of (192 + n div 64), char_of (128 + n mod 64)]"
      using l g by (intro utf8_character [of _ "[(0x80, 0xBF)]"]) (simp_all add: following_def c)
    then show ?thesis using 2 first_byte(1) [OF l] by (simp add: codepoint_bytes_def d continuation)
  next
    case 3
    have l: "n div 4096 < 16" using 3 by (simp add: div_less_iff_less_mult)
    have dm: "n div 64 = 64 * (n div 4096) + n div 64 mod 64" using div_mult2_eq [of n 64 64] by simp
    have ex: "\<exists>r. byte_ranges (224 + n div 4096) = Some [r, (0x80, 0xBF)] \<and> in_range r (char_of (128 + n div 64 mod 64))"
    proof -
      consider "n div 4096 = 0" | "n div 4096 = 13" | "1 \<le> n div 4096" "n div 4096 \<noteq> 13" by linarith
      then show ?thesis
      proof cases
        case 1
        have "32 \<le> n div 64" using 3 by (simp add: less_eq_div_iff_mult_less_eq)
        then have "32 \<le> n div 64 mod 64" using dm 1 by linarith
        then have "in_range (0xA0, 0xBF) (char_of (128 + n div 64 mod 64))"
          using mod_less_divisor [of 64 "n div 64"] unfolding in_range_def split m(2) by linarith
        then show ?thesis using 1 by (simp add: byte_ranges_def)
      next
        case 2
        have "n < 0xE000" using 2 div_mult_mod_eq [of n 4096] mod_less_divisor [of 4096 n] by linarith
        then have "n < 0xD800" using assms by (auto simp: scalar_value_def)
        then have "n div 64 < 864" by (simp add: div_less_iff_less_mult)
        then have "n div 64 mod 64 < 32" using dm 2 by linarith
        then have "in_range (0x80, 0x9F) (char_of (128 + n div 64 mod 64))" unfolding in_range_def split m(2) by linarith
        then show ?thesis using 2 by (simp add: byte_ranges_def)
      next
        case 3
        then have "byte_ranges (224 + n div 4096) = Some [(0x80, 0xBF), (0x80, 0xBF)]" using l by (auto simp: byte_ranges_def)
        then show ?thesis using c by blast
      qed
    qed
    then obtain r where r: "byte_ranges (224 + n div 4096) = Some [r, (0x80, 0xBF)]" "in_range r (char_of (128 + n div 64 mod 64))" by blast
    then have "utf8 [char_of (224 + n div 4096), char_of (128 + n div 64 mod 64), char_of (128 + n mod 64)]"
      using l by (intro utf8_character [of _ "[r, (0x80, 0xBF)]"]) (simp_all add: following_def c)
    then show ?thesis using 3 first_byte(2) [OF l] by (simp add: codepoint_bytes_def d continuation)
  next
    case 4
    have b: "n < 0x110000" using assms by (simp add: scalar_value_def)
    have l: "n div 262144 < 5" using b by (simp add: div_less_iff_less_mult)
    have dm: "n div 4096 = 64 * (n div 262144) + n div 4096 mod 64" using div_mult2_eq [of n 4096 64] by simp
    have ex: "\<exists>r. byte_ranges (240 + n div 262144) = Some [r, (0x80, 0xBF), (0x80, 0xBF)] \<and> in_range r (char_of (128 + n div 4096 mod 64))"
    proof -
      consider "n div 262144 = 0" | "n div 262144 = 4" | "1 \<le> n div 262144" "n div 262144 \<le> 3" using l by linarith
      then show ?thesis
      proof cases
        case 1
        have "16 \<le> n div 4096" using 4 by (simp add: less_eq_div_iff_mult_less_eq)
        then have "16 \<le> n div 4096 mod 64" using dm 1 by linarith
        then have "in_range (0x90, 0xBF) (char_of (128 + n div 4096 mod 64))"
          using mod_less_divisor [of 64 "n div 4096"] unfolding in_range_def split m(2) by linarith
        then show ?thesis using 1 by (simp add: byte_ranges_def)
      next
        case 2
        have "n div 4096 < 272" using b by (simp add: div_less_iff_less_mult)
        then have "n div 4096 mod 64 < 16" using dm 2 by linarith
        then have "in_range (0x80, 0x8F) (char_of (128 + n div 4096 mod 64))" unfolding in_range_def split m(2) by linarith
        then show ?thesis using 2 by (simp add: byte_ranges_def)
      next
        case 3
        then have "byte_ranges (240 + n div 262144) = Some [(0x80, 0xBF), (0x80, 0xBF), (0x80, 0xBF)]" by (simp add: byte_ranges_def)
        then show ?thesis using c by blast
      qed
    qed
    then obtain r where r: "byte_ranges (240 + n div 262144) = Some [r, (0x80, 0xBF), (0x80, 0xBF)]" "in_range r (char_of (128 + n div 4096 mod 64))" by blast
    then have "utf8 [char_of (240 + n div 262144), char_of (128 + n div 4096 mod 64), char_of (128 + n div 64 mod 64), char_of (128 + n mod 64)]"
      using l by (intro utf8_character [of _ "[r, (0x80, 0xBF), (0x80, 0xBF)]"]) (simp_all add: following_def c)
    then show ?thesis using 4 first_byte(3) [of "n div 262144"] l by (simp add: codepoint_bytes_def d continuation)
  qed
qed

section \<open>The strings of the lexer\<close>

lemma hex_value_less: "hex_value c = Some d \<Longrightarrow> d < 16"
  by (auto simp: hex_value_def Let_def split: if_splits)

lemma codepoint_digits_facts:
  "codepoint_digits fs n l = (r, l') \<Longrightarrow> lx_buffer l' = lx_buffer l \<and> (\<forall>m. r = Some m \<longrightarrow> m \<le> n + 15 * (\<Sum>f\<leftarrow>fs. 2 ^ f))"
proof (induction fs n l rule: codepoint_digits.induct)
  case (2 factor fs n l)
  show ?case
  proof (cases "Option.bind (lx_current (lx_get l)) hex_value")
    case None
    then show ?thesis using "2.prems" by (auto simp: Let_def)
  next
    case (Some d)
    then have "d < 16" using hex_value_less by (auto simp: bind_eq_Some_conv)
    then have "push_bit factor d \<le> 15 * 2 ^ factor" by (simp add: push_bit_eq_mult)
    then show ?thesis using "2.IH" [OF refl Some] "2.prems" Some by (fastforce simp: Let_def distrib_left)
  qed
qed auto

lemma get_codepoint_facts: "get_codepoint l = (r, l') \<Longrightarrow> lx_buffer l' = lx_buffer l \<and> (\<forall>m. r = Some m \<longrightarrow> m < 0x10000)"
  using codepoint_digits_facts [of "[12, 8, 4, 0]" 0 l r l'] by (fastforce simp: get_codepoint_def)

lemma surrogate_facts:
  assumes "scan_surrogate cp1 l = (Inr cp, l')" "0xD800 \<le> cp1" "cp1 \<le> 0xDBFF"
  shows "lx_buffer l' = lx_buffer l \<and> scalar_value cp"
proof -
  obtain cp2 where g: "get_codepoint (lx_get (lx_get l)) = (Some cp2, l')" and r: "0xDC00 \<le> cp2" "cp2 \<le> 0xDFFF"
      "cp = push_bit 10 cp1 + cp2 - 0x35FDC00"
    using assms(1) by (auto simp: scan_surrogate_def Let_def split: if_splits prod.splits option.splits)
  have b: "0x3600000 \<le> cp1 * 1024" "cp1 * 1024 \<le> 0x36FFC00" using assms(2,3) by linarith+
  then have "cp + 0x35FDC00 = cp1 * 1024 + cp2" using r by (simp add: push_bit_eq_mult)
  then have "0x10000 \<le> cp" "cp < 0x110000" using b r(1,2) by linarith+
  then have "scalar_value cp" by (simp add: scalar_value_def)
  then show ?thesis using get_codepoint_facts [OF g] by simp
qed

lemma unicode_facts: "scan_unicode l = (Inr cp, l') \<Longrightarrow> lx_buffer l' = lx_buffer l \<and> scalar_value cp"
  using surrogate_facts
  by (fastforce simp: scan_unicode_def scalar_value_def dest: get_codepoint_facts split: prod.splits option.splits if_splits)

lemma simple_escape_utf8: "simple_escape c = Some d \<Longrightarrow> utf8 [d]"
  using utf8_character [of d "[]" "[]"] by (auto simp: following_def split: if_splits)

lemma escape_facts: "scan_escape l = (None, l') \<Longrightarrow> \<exists>u. utf8 u \<and> lx_buffer l' = lx_buffer l @ u"
  by (auto simp: scan_escape_def Let_def codepoint_utf8 simp del: simple_escape.simps
      dest: unicode_facts simple_escape_utf8 split: option.splits if_splits prod.splits sum.splits)

lemma next_byte_facts:
  "next_byte_in_range rs l = (True, l') \<Longrightarrow> \<exists>ds. list_all2 in_range rs ds \<and> lx_buffer l' = lx_buffer l @ ds"
proof (induction rs l rule: next_byte_in_range.induct)
  case (2 lo hi rs l)
  obtain c where c: "lx_current (lx_get l) = Some c" "lo \<le> of_char c \<and> of_char c \<le> hi"
      "next_byte_in_range rs (lx_add c (lx_get l)) = (True, l')"
    using "2.prems" by (auto simp: Let_def split: option.splits if_splits)
  from "2.IH" [OF refl c(1,2,3)] obtain ds where "list_all2 in_range rs ds" "lx_buffer l' = lx_buffer l @ c # ds" by auto
  then show ?case using c(2) by (intro exI [of _ "c # ds"]) (simp add: in_range_def)
qed simp

lemma string_round_facts:
  "string_round l = (None, l') \<Longrightarrow> \<exists>u. utf8 u \<and> lx_buffer l' = lx_buffer l @ u"
  "string_round l = (Some t, l') \<Longrightarrow> t = ValueString (lx_buffer l) \<or> t = ParseError"
proof -
  assume n: "string_round l = (None, l')"
  then obtain c where c: "lx_current (lx_get l) = Some c" "c \<noteq> CHR 0x22" by (auto simp: string_round_def Let_def lx_fail_def split: option.splits if_splits)
  show "\<exists>u. utf8 u \<and> lx_buffer l' = lx_buffer l @ u"
  proof (cases "c = CHR 0x5C")
    case True
    then have "scan_escape (lx_get l) = (None, l')"
      using n c by (auto simp: string_round_def Let_def lx_fail_def split: prod.splits option.splits)
    then show ?thesis using escape_facts [of "lx_get l" l'] by simp
  next
    case False
    then obtain rs where r: "byte_ranges (of_char c) = Some rs" "next_byte_in_range rs (lx_add c (lx_get l)) = (True, l')"
      using n c by (auto simp: string_round_def Let_def lx_fail_def split: prod.splits option.splits if_splits bool.splits)
    obtain ds where ds: "list_all2 in_range rs ds" "lx_buffer l' = lx_buffer l @ c # ds" using next_byte_facts [OF r(2)] by auto
    have "following (of_char c) = Some rs" using r(1) by (auto simp: following_def byte_ranges_def split: if_splits)
    then show ?thesis using utf8_character ds by blast
  qed
next
  assume "string_round l = (Some t, l')"
  then show "t = ValueString (lx_buffer l) \<or> t = ParseError"
    by (auto simp: string_round_def Let_def lx_fail_def split: prod.splits option.splits if_splits bool.splits)
qed

lemma string_loop_utf8: "scan_string_loop l = (t, l') \<Longrightarrow> utf8 (lx_buffer l) \<Longrightarrow> (\<exists>s. t = ValueString s \<and> utf8 s) \<or> t = ParseError"
proof (induction l rule: scan_string_loop.induct)
  case (1 l)
  obtain r l1 where r: "string_round l = (r, l1)" by fastforce
  show ?case
  proof (cases r)
    case None
    then obtain u where "utf8 u" "lx_buffer l1 = lx_buffer l @ u" using string_round_facts(1) r by blast
    then have "utf8 (lx_buffer l1)" using "1.prems"(2) by (simp add: utf8_append)
    then show ?thesis using "1.IH" [OF r [symmetric] None] "1.prems"(1) r None by (simp add: scan_string_loop.simps [of l])
  next
    case (Some t1)
    then show ?thesis using string_round_facts(2) [of l t1 l1] r 1 by (auto simp: scan_string_loop.simps [of l])
  qed
qed

definition token_utf8 :: "token \<Rightarrow> bool" where
  "token_utf8 t = (\<forall>s. t = ValueString s \<longrightarrow> utf8 s)"

lemma number_token_utf8: "scan_number_from strtod s k l = (t, l') \<Longrightarrow> token_utf8 t"
proof (induction strtod s k l rule: scan_number_from.induct)
  case (1 strtod s k l)
  show ?case
  proof (cases "number_move s (lx_current (lx_get l))")
    case (GoTo s1)
    then show ?thesis using "1.IH" [OF refl refl GoTo] "1.prems" by (simp add: scan_number_from.simps [of _ s k l] Let_def)
  next
    case NumberDone
    then have "(t, l') = finish_number strtod (number_type_at s k) (lx_get l)" using "1.prems" by (simp add: scan_number_from.simps [of _ s k l] Let_def)
    then show ?thesis by (auto simp: token_utf8_def finish_number_eq number_token_def split: option.splits number_type.splits)
  next
    case (NumberError m)
    then show ?thesis using "1.prems" by (auto simp: scan_number_from.simps [of _ s k l] Let_def lx_fail_def token_utf8_def)
  qed
qed

lemma literal_token: "scan_literal cs t l = (t', l') \<Longrightarrow> t' = t \<or> t' = ParseError"
  by (induction cs t l rule: scan_literal.induct) (auto simp: Let_def lx_fail_def split: if_splits)

lemma token_utf8_simps [simp]: "token_utf8 LiteralTrue" "token_utf8 LiteralFalse" "token_utf8 LiteralNull" "token_utf8 ParseError"
  "token_utf8 EndOfInput" "token_utf8 BeginArray" "token_utf8 EndArray" "token_utf8 BeginObject" "token_utf8 EndObject"
  "token_utf8 NameSeparator" "token_utf8 ValueSeparator" "token_utf8 (fst (lx_fail m l))"
  by (simp_all add: token_utf8_def lx_fail_def)

lemma literal_utf8: "token_utf8 t \<Longrightarrow> token_utf8 (fst (scan_literal cs t l))"
  using literal_token [of cs t l] by (cases "scan_literal cs t l") auto

lemma string_utf8: "token_utf8 (fst (scan_string l))"
proof -
  have e: "lx_buffer (lx_reset l) = []" by (simp add: lx_reset_def push_current_def split: option.split)
  obtain t l' where r: "scan_string l = (t, l')" by fastforce
  then show ?thesis using string_loop_utf8 [of "lx_reset l" t l'] utf8_Nil by (auto simp: scan_string_def token_utf8_def e)
qed

lemma number_utf8: "token_utf8 (fst (scan_number strtod l))"
proof -
  obtain t l' where r: "scan_number strtod l = (t, l')" by fastforce
  then have "token_utf8 t" unfolding scan_number_def Let_def by (rule number_token_utf8)
  then show ?thesis using r by simp
qed

lemma scan_token_utf8: "token_utf8 (fst (scan_token strtod l))"
  unfolding scan_token_def by (simp add: literal_utf8 string_utf8 number_utf8 del: scan_literal.simps split: option.split)

lemma scan_utf8: "scan strtod l = (t, l') \<Longrightarrow> token_utf8 t"
proof -
  have "token_utf8 (fst (scan strtod l))" by (auto simp: scan_def scan_token_utf8 split: prod.split bool.split)
  then show "scan strtod l = (t, l') \<Longrightarrow> token_utf8 t" by simp
qed

section \<open>Values\<close>

text \<open>A value a text can be read as.\<close>

definition parsed_value :: "json \<Rightarrow> bool" where
  "parsed_value v = (wf_json v \<and> list_all utf8 (strings_in v) \<and> json_shaped v)"

fun good_frame :: "frame \<Rightarrow> bool" where
  "good_frame (InArray xs) = list_all parsed_value xs"
| "good_frame (InObject m k) = (parsed_value (JObject m) \<and> utf8 k)"

fun good_mode :: "parse_mode \<Rightarrow> bool" where
  "good_mode (AtToken t) = token_utf8 t"
| "good_mode (Complete v) = parsed_value v"

text \<open>The exceptions of the parser.\<close>

definition parser_exn :: "exn \<Rightarrow> bool" where
  "parser_exn ex = ((\<exists>line column m. ex = syntax_error 101 line column m) \<or> (\<exists>m. ex = out_of_range 406 m))"

fun good_move :: "parse_move \<Rightarrow> bool" where
  "good_move (NextRound mode l st) = (good_mode mode \<and> list_all good_frame st)"
| "good_move (Parsed v l) = parsed_value v"
| "good_move (ParseThrow ex) = parser_exn ex"

lemma parser_exn_simps [simp]: "parser_exn (unexpected t e c l)" "parser_exn (not_a_value t l)" "parser_exn (syntax_at l m)"
  by (simp_all add: parser_exn_def unexpected_def not_a_value_def syntax_at_def)

lemma parsed_array: "parsed_value (JArray xs) = list_all parsed_value xs"
  by (auto simp: parsed_value_def list_all_iff)

lemma om_update_entries: "set (om_update k v m) \<subseteq> insert (k, v) (set m)"
  by (induction k v m rule: om_update.induct) auto

lemma parsed_update: "parsed_value (JObject m) \<Longrightarrow> utf8 k \<Longrightarrow> parsed_value v \<Longrightarrow> parsed_value (JObject (om_update k v m))"
  using om_update_entries [of k v m] by (fastforce simp: parsed_value_def list_all_iff om_ok_update)

lemma parsed_empty [simp]: "parsed_value (JObject [])" "parsed_value (JArray [])"
  by (simp_all add: parsed_value_def)

lemma good_key: "token_utf8 t \<Longrightarrow> parsed_value (JObject m) \<Longrightarrow> list_all good_frame st \<Longrightarrow> good_move (parse_key strtod t l m st)"
  by (cases t) (auto simp: parse_key_def token_utf8_def dest: scan_utf8 split: prod.split)

lemma good_after: "parsed_value v \<Longrightarrow> list_all good_frame st \<Longrightarrow> good_move (after_value strtod v l st)"
  by (induction strtod v l st rule: after_value.induct)
    (auto simp: parsed_array parsed_update dest: scan_utf8 intro!: good_key split: prod.split)

lemma good_at_token: "token_utf8 t \<Longrightarrow> list_all good_frame st \<Longrightarrow> good_move (at_token strtod t l st)"
proof (cases t)
  case (ValueFloat d)
  assume "list_all good_frame st"
  then show ?thesis using ValueFloat good_after by (auto simp: parser_exn_def parsed_value_def)
next
  case BeginArray
  assume "list_all good_frame st"
  then show ?thesis using BeginArray good_after by (auto dest: scan_utf8 split: prod.split)
next
  case BeginObject
  assume "list_all good_frame st"
  then show ?thesis using BeginObject good_after by (auto dest: scan_utf8 intro!: good_key split: prod.split)
qed (simp_all add: good_after parsed_value_def token_utf8_def)

lemma good_round: "good_mode mode \<Longrightarrow> list_all good_frame st \<Longrightarrow> good_move (parse_round strtod mode l st)"
  by (cases mode) (simp_all add: parse_round_def good_at_token good_after)

fun good_result :: "(json \<times> 'a) outcome \<Rightarrow> bool" where
  "good_result (Ret (v, l)) = parsed_value v"
| "good_result (Throw ex) = parser_exn ex"
| "good_result Undef = False"

lemma good_loop: "good_mode mode \<Longrightarrow> list_all good_frame st \<Longrightarrow> good_result (parse_loop strtod mode l st)"
proof (induction strtod mode l st rule: parse_loop.induct)
  case (1 strtod mode l st)
  then show ?case
    using good_round [OF "1.prems", of strtod l]
    by (cases "parse_round strtod mode l st") (simp_all add: parse_loop.simps [of _ mode])
qed

text \<open>C8: Whatever the bytes of the text, and whatever follows them, the parser returns a value that is well-formed, that has no
  \<^verbatim>\<open>nan\<close>, no infinity and no binary value, and whose strings are UTF-8, so that \<^verbatim>\<open>dump()\<close> writes it; or it throws
  \<^verbatim>\<open>parse_error.101\<close> or \<^verbatim>\<open>out_of_range.406\<close>, and nothing else.\<close>

theorem parse_result:
  "case json_parse strtod strict s of
     Ret v \<Rightarrow> wf_json v \<and> json_shaped v \<and> (\<exists>t. json_dump to_chars step v = Ret t)
   | Throw ex \<Rightarrow> (\<exists>line column m. ex = syntax_error 101 line column m) \<or> (\<exists>m. ex = out_of_range 406 m)
   | Undef \<Rightarrow> False"
proof -
  obtain t l where l: "scan strtod (lexer_new s) = (t, l)" by fastforce
  have "good_result (parse_loop strtod (AtToken t) l [])" by (rule good_loop) (simp_all add: scan_utf8 [OF l])
  then show ?thesis
    using dump_total(1) [of _ to_chars step 0]
    by (cases "parse_loop strtod (AtToken t) l []") (fastforce simp: json_parse_def l parsed_value_def parser_exn_def unexpected_def syntax_at_def json_dump_def split: prod.split)+
qed

end
