(* ===== verification/Anu_Payloads.thy ===== *)
theory Anu_Payloads
  imports Anu_Server Anu_Parsed
begin

text \<open>
  The requests as bytes: the workers with the parser and the serializer of \<^verbatim>\<open>json.hpp\<close> as they are.
\<close>

definition on_texts :: "(double \<Rightarrow> string) \<Rightarrow> (string \<Rightarrow> double) \<Rightarrow> server_env \<Rightarrow> bool" where
  "on_texts to_chars strtod env = (env_parse env = json_parse strtod True \<and> env_dump env = json_dump to_chars None)"

abbreviation error_reply :: "string \<Rightarrow> json" where
  "error_reply m \<equiv> JObject [(''message'', JString m), (''status'', JString ''error'')]"

lemma error_strings: "list_all utf8 (strings_in (error_reply (''Exception :'' @ m))) = utf8 m"
  using ascii_utf8 [of "''message''"] ascii_utf8 [of "''status''"] ascii_utf8 [of "''error''"] utf8_ascii_append [of "''Exception :''" m] by simp

lemma error_text: "wf_json (error_reply m)" "floats_in (error_reply m) = []" "read_back (error_reply m) = error_reply m"
  by (simp_all add: om_ok_def less_char_def)

lemma unreadable_request:
  assumes "on_texts to_chars strtod env" "json_parse strtod True payload = Throw ex"
  shows "handle_request env payload q = (json_dump to_chars None (error_reply (''Exception :'' @ what ex)), ''anudb/response/'', q)"
  using assms by (simp add: on_texts_def handle_request_def catchM_def bindM_def liftO_def respond_def set_resp_def modifyM_def response_prefix_def less_char_def)

text \<open>C9: A payload the parser refuses is answered with the status \<^verbatim>\<open>error\<close> and the message of the parser, in a text that reads as
  this answer; the store stays as it is. But the message quotes the payload, and \<^verbatim>\<open>dump()\<close> throws for a text that is not
  UTF-8: if the message is none, the exception leaves the callback of the worker, where nothing catches it.\<close>

theorem unreadable_payload:
  assumes "on_texts to_chars strtod env" "json_parse strtod True payload = Throw ex" "payload \<noteq> []"
    and "w_state w = WAIT" "w_msg w = Some (topic, payload)"
  shows "if utf8 (what ex)
    then \<exists>t. client_cb env rv received w q = (Ret Sleep, w\<lparr>w_msg := None, w_requestid := Some ''anudb/response/'', w_reply := Some t,
        w_state := SEND\<rparr>, q\<lparr>owned := owned q - 1\<rparr>) \<and>
      json_parse strtod strict t = Ret (JObject [(''message'', JString (''Exception :'' @ what ex)), (''status'', JString ''error'')])
    else \<exists>m w'. client_cb env rv received w q = (Throw (type_error 316 m), w', q)"
proof (cases "utf8 (what ex)")
  case True
  obtain t where t: "json_dump to_chars None (error_reply (''Exception :'' @ what ex)) = Ret t" "readable strtod (error_reply (''Exception :'' @ what ex)) t"
    using dump_text [OF error_text(1), of to_chars strtod "''Exception :'' @ what ex" None] True unfolding error_strings error_text(2,3) by auto
  have "t \<noteq> []" using t(2) by (auto simp: readable_def)
  then show ?thesis
    using True parse_readable [OF t(2), of strict] assms(3-5) unreadable_request [OF assms(1,2), of q] t(1)
    by (auto simp: client_cb_def cb_wait_def Let_def)
next
  case False
  then obtain m where "json_dump to_chars None (error_reply (''Exception :'' @ what ex)) = Throw (type_error 316 m)"
    using dump_total(1) [of "error_reply (''Exception :'' @ what ex)" to_chars None 0] unfolding error_strings json_dump_def by auto
  then show ?thesis
    using False assms(3-5) unreadable_request [OF assms(1,2), of q] by (auto simp: client_cb_def cb_wait_def)
qed

text \<open>The single byte 255: the message quotes it.\<close>

abbreviation one_byte_exn :: exn where
  "one_byte_exn \<equiv> syntax_error 101 1 1 (''syntax error while parsing value - invalid literal; last read: '' @ [CHR 0x27, CHR 0xFF, CHR 0x27])"

lemma one_byte: "json_parse strtod True [CHR 0xFF] = Throw one_byte_exn"
  by code_simp

lemma one_byte_message: "\<not> utf8 (what one_byte_exn)"
proof -
  have e: "what one_byte_exn = (''[json.exception.parse_error.101] parse error at line 1, column 1: syntax error while parsing value - invalid literal; last read: '' @
      [CHR 0x27]) @ [CHR 0xFF, CHR 0x27]"
    by code_simp
  have "\<not> utf8 [CHR 0xFF, CHR 0x27]" using utf8_first [of "CHR 0xFF" "[CHR 0x27]"] by (auto simp: following_def byte_ranges_def)
  then show ?thesis unfolding e by (subst utf8_ascii_append) simp_all
qed

theorem unreadable_payload_witness:
  "\<exists>env m w'. client_cb env NNG_OK ([], []) \<lparr>w_state = WAIT, w_msg = Some (''anudb/request'', [CHR 0xFF]), w_requestid = None, w_reply = None\<rparr> sample_mqtt =
    (Throw (type_error 316 m), w', sample_mqtt)"
proof -
  let ?env = "(sample_env ping)\<lparr>env_parse := json_parse (\<lambda>_. 0) True, env_dump := json_dump (\<lambda>_. []) None\<rparr>"
  have e: "on_texts (\<lambda>_. []) (\<lambda>_. 0) ?env" by (simp add: on_texts_def)
  let ?w = "\<lparr>w_state = WAIT, w_msg = Some (''anudb/request'', [CHR 0xFF]), w_requestid = None, w_reply = None\<rparr>"
  have "\<exists>m w'. client_cb ?env NNG_OK ([], []) ?w sample_mqtt = (Throw (type_error 316 m), w', sample_mqtt)"
    using unreadable_payload [OF e one_byte, of ?w "''anudb/request''" NNG_OK "([], [])" sample_mqtt]
    unfolding if_not_P [OF one_byte_message] by simp
  then show ?thesis by blast
qed

end
