(* ===== verification/Spec2Isabelle.thy ===== *)
theory Spec2Isabelle
  imports Anu_Lifecycle Anu_Options Anu_Store Anu_Exchange Anu_Outputs Anu_Payloads
begin

text \<open>
  AnuDB, a document database over RocksDB with an MQTT server: a verification development.

  \<^bold>\<open>The program.\<close> A \<^verbatim>\<open>Database\<close> owns a \<^verbatim>\<open>StorageEngine\<close> (RocksDB with one column family per collection and per
  index) and one \<^verbatim>\<open>Collection\<close> object per collection in use. A collection stores documents, JSON values in
  MessagePack under their identifier, keeps its indexes, answers queries from them, and gives out
  \<^verbatim>\<open>Cursor\<close>s. The MQTT server (\<^verbatim>\<open>mqtt/AnuDBMqttClient.cpp\<close>) receives JSON requests, calls the database and
  publishes the answers.

  \<^bold>\<open>Conventions.\<close> A call is a \<open>comp\<close>: from a state to an \<open>outcome\<close> (a result \<open>Ret\<close>, an exception \<open>Throw\<close>,
  undefined behaviour \<open>Undef\<close>) and the state reached, which is kept in all three cases. \<^verbatim>\<open>Status\<close> results are
  values. Strings and byte vectors are \<open>char list\<close>s; \<^verbatim>\<open>int\<close>, \<^verbatim>\<open>uint32_t\<close>, \<^verbatim>\<open>int64_t\<close> and \<^verbatim>\<open>uint64_t\<close> are words of their
  width and wrap around; a \<^verbatim>\<open>double\<close> is its 64 bits. \<^verbatim>\<open>std::map\<close> is an ordered association list; of the
  unordered containers one order is taken, and no property depends on which.

  \<^bold>\<open>Theories\<close>, from the bottom up, with the code they model.
  \<^item> \<open>Anu_Prelude\<close>: outcomes, computations, ordered maps (locale \<open>ordered_map\<close>), big-endian numbers, substring
    search; the shared simplification sets.
  \<^item> \<open>Anu_Status\<close>: \<^verbatim>\<open>Status.h\<close>.
  \<^item> \<open>Anu_Ieee\<close>: the order and the conversions of the bit patterns of floating-point numbers.
  \<^item> \<open>Anu_Json\<close>, \<open>Anu_Msgpack\<close>: the values of \<^verbatim>\<open>json.hpp\<close>, the accessors the program calls with the exceptions they
    throw, and the MessagePack writer and reader. The reader takes fuel because MessagePack nests; one
    more than the number of bytes is enough (every level consumes a byte), so that it is total.
  \<^item> \<open>Anu_Lexer\<close>, \<open>Anu_Parser\<close>, \<open>Anu_Printer\<close>: JSON texts, \<^verbatim>\<open>json::parse\<close>, \<^verbatim>\<open>operator>>\<close> and \<^verbatim>\<open>dump\<close> of \<^verbatim>\<open>json.hpp\<close>: the
    lexer with its buffers and position, the loop of the parser with its stack, the messages of the exceptions, and the
    serializer with its table for UTF-8.
  \<^item> \<open>Anu_Utf8\<close>, \<open>Anu_Texts\<close>, \<open>Anu_Roundtrip\<close>, \<open>Anu_Parsed\<close>: that table accepts UTF-8; how the lexer reads strings, words and
    numbers; what is written is read back; and what any text at all can be read as.
  \<^item> \<open>Anu_Document\<close>: \<^verbatim>\<open>Document.cpp\<close>, with the operators \<^verbatim>\<open>$set\<close>, \<^verbatim>\<open>$unset\<close>, \<^verbatim>\<open>$push\<close> and \<^verbatim>\<open>$pull\<close>; a pointer into a
    document is the path to it.
  \<^item> \<open>Anu_Rocks\<close>: what the engine relies on in RocksDB: column families as ordered maps of byte strings,
    iterators, the lock of an open directory, and calls that fail as a list of faults says.
  \<^item> \<open>Anu_Engine\<close>: \<^verbatim>\<open>storage_engine/StorageEngine.cpp\<close>: open and close, collections, put, get, remove, the four
    range scans, the names of indexes. \<open>tables\<close> is the abstract state: the contents by name.
  \<^item> \<open>Anu_Options\<close>: the options \<^verbatim>\<open>open\<close> assembles.
  \<^item> \<open>Anu_KeyCodec\<close>: the keys of index entries (\<^verbatim>\<open>encodeIntKey\<close> to \<^verbatim>\<open>parseValue\<close> of \<^verbatim>\<open>Collection.cpp\<close>).
  \<^item> \<open>Anu_Cursor\<close>, \<open>Anu_Collection\<close>, \<open>Anu_Index\<close>: \<^verbatim>\<open>Cursor.cpp\<close> and \<^verbatim>\<open>Collection.cpp\<close>: documents, indexes, queries,
    identifiers, import; then the exactness of the indexes.
  \<^item> \<open>Anu_Queries\<close>: what the queries return. The locale \<open>index_keys\<close> is what a query needs of the keys of the values of
    one kind, \<open>ordered_keys\<close> adds an order; keys of a fixed length and texts give it, and it is interpreted for
    integers, doubles, texts and Booleans.
  \<^item> \<open>Anu_Abstract\<close>, \<open>Anu_Refine\<close>: an abstract collection (documents and index entries, without bytes and column
    families), one function per method, and the refinement of sequences of calls (locale \<open>simulation\<close>).
  \<^item> \<open>Anu_Export\<close>: \<^verbatim>\<open>exportAllToJson\<close> over a file system of directories and files.
  \<^item> \<open>Anu_Exchange\<close>: an export, with the serializer, read back by \<^verbatim>\<open>importFromJsonFile\<close>, with the parser.
  \<^item> \<open>Anu_Keeps\<close>: invariants of engine computations (locale \<open>engine_invariant\<close>, interpreted for the consistency
    of the engine and for a working one).
  \<^item> \<open>Anu_Handles\<close>: the engine across \<^verbatim>\<open>open\<close> and \<^verbatim>\<open>close\<close>: every handle it has is that of a family of the store, and it
    has none while it is not open (\<open>engine_ok\<close>, the third interpretation of \<open>engine_invariant\<close>).
  \<^item> \<open>Anu_Database\<close>: \<^verbatim>\<open>Database.cpp\<close>: collection objects live at addresses, so that a pointer to a destroyed one is
    seen; the export thread and the destructors are here.
  \<^item> \<open>Anu_Store\<close>: an abstract store of named collections, and the refinement of sequences of calls of the database and,
    through pointers, of its collections.
  \<^item> \<open>Anu_Mqtt\<close>: the request handlers, their dispatch, the publication with retries, the callback of a worker.
  \<^item> \<open>Anu_Server\<close>: what requests and workers keep true (locales \<open>handler_invariant\<close> and \<open>server_invariant\<close>,
    interpreted for the messages owned, for the validity of the kept pointers and for the topic), and the
    interleavings of workers (\<open>server_step\<close>).
  \<^item> \<open>Anu_Payloads\<close>: payloads as bytes: the callback with the parser and the serializer as they are.
  \<^item> \<open>Anu_Loadfile\<close>, \<open>Anu_Lifecycle\<close>: the command line, certificate files, \<^verbatim>\<open>start\<close>, TLS, \<^verbatim>\<open>stop\<close> and \<^verbatim>\<open>main\<close>.

  \<^item> \<open>Anu_Console\<close>, \<open>Anu_Examples\<close>, \<open>Anu_Demo\<close>: the thirteen programs of \<^verbatim>\<open>examples\<close> and the demonstration
    \<^verbatim>\<open>src/main.cpp\<close>: initializer lists of JSON, decimal literals, the output streams, and the \<^verbatim>\<open>main\<close> of each.
    Documents are printed with the serializer of \<open>Anu_Printer\<close>; the message of \<^verbatim>\<open>createIndex\<close> is part of the output.
  \<^item> \<open>Anu_Runs\<close>, \<open>Anu_Outputs\<close>: triples for programs over the abstract collection, and what the programs print.

  \<^bold>\<open>What the properties show.\<close> A database on a working store answers every sequence of calls on its collections as the
  abstract store does, in which the collections are independent of each other; from the same
  refinement of a single collection follow that queries miss no document, also after updates that leave old entries, and that
  documents stay well-formed objects whatever values the calls pass. Indexes hold exactly the entries of the documents after any
  run of creations, deletions and index changes, until a creation overwrites a document with other values, which leaves exactly
  its old entries behind; queries over an index on integers, doubles or texts return exactly the
  matching documents in order; an exported collection is imported unchanged; the example programs for one
  operator each print the matching or updated documents; created documents are read back, deleted ones are gone, updates have the
  effect of their operators on every branch, \<^verbatim>\<open>upsert\<close> included; \<^verbatim>\<open>$set\<close> and \<^verbatim>\<open>$unset\<close> reach the place whose steps the
  dotted key spells out, which is said without the walk of the code (\<open>dotted_key\<close>, \<open>json_at\<close>); MessagePack, JSON texts and the key codecs round-trip and the keys are ordered like the values; the parser
  gives a value that can be written, or one of two exceptions, on every byte string; the
  engine refines a map of maps, keeps its invariant under every fault, and its scans partition a table;
  closing and opening keeps the documents; whatever is called, \<^verbatim>\<open>open\<close> and
  \<^verbatim>\<open>close\<close> included, a pointer handed out is valid until its collection is created again or dropped, or the database closed; the server answers, neither leaks nor frees a message twice, ends its retries, and keeps its
  pointers valid under every request but one and looks at no other; the command line and the certificate files are read as
  they should. Other properties state where the code does something else than it means to: \<^verbatim>\<open>$and\<close> after an
  empty intersection, indexes lost by closing, deletion of the default collection, a payload that
  is not UTF-8 and ends the server. Further theorems of this kind are about
  \<^verbatim>\<open>delete_index\<close> that creates, identifiers with a zero byte, \<^verbatim>\<open>start\<close> after a failed opening, and options without
  effect.

  \<^bold>\<open>Bounds.\<close> Loops over iterators and cursors end because the distance to the end is a measure; the loops of the lexer
  and of the parser end because every round reads; \<^verbatim>\<open>send_response\<close>
  ends after four attempts; \<^verbatim>\<open>loadfile\<close> need not end (\<open>None\<close>) and is shown to end for a file that is read
  without error. Numbers keep their width; the sum in \<^verbatim>\<open>encodeIntKey\<close>, which overflows a signed integer in
  C++, is taken with wrap-around. Properties about integer indexes are about values of 32 bits, the width
  the code encodes.

  \<^bold>\<open>Hypotheses.\<close> \<open>healthy\<close> (or \<open>live\<close>, \<open>working\<close>) says that the disk reports no further error; it is used only
  where an effect is promised, and the invariants hold without it. \<^verbatim>\<open>strtod\<close> and the shortest text of a \<^verbatim>\<open>double\<close> (the Grisu2
  algorithm in \<^verbatim>\<open>json.hpp\<close>), the clock, random numbers and the memory allocator are arguments; where a text is read back, the
  floating point numbers in it have texts that \<^verbatim>\<open>strtod\<close> reads as these numbers (\<open>round_trips\<close>). The handlers and the export
  take the parser and the serializer as arguments, and the properties about texts put in the ones of \<^verbatim>\<open>json.hpp\<close>.

  \<^bold>\<open>Not modelled.\<close> RocksDB and nng themselves; Grisu2; the options of the parser that nothing in the program uses (callbacks,
  comments, no exceptions); the messages of the library on the console, but for that of
  \<^verbatim>\<open>createIndex\<close> (errors, the summary of an import, the line of the export thread), and pauses; the tests; what a program leaves on the disk for the next one; the
  mutexes (requests are handled one at a time under \<^verbatim>\<open>mtx_\<close>, which the steps of the workers reflect) and data
  races (the export thread runs to its end when it is started, callbacks are not interleaved with \<^verbatim>\<open>start\<close> and
  \<^verbatim>\<open>stop\<close>); files and directories beyond their existence and contents.
\<close>

end
